(* ===== verification/Prelude.thy ===== *)
theory Prelude
  imports Main "HOL-Library.Word" "HOL-Library.Multiset" "HOL-Library.Sublist" "HOL-Library.Char_ord"
begin

section \<open>Shared vocabulary of the Tempo development\<close>

text \<open>
  Type abbreviations for Go's machine types, the reading of Go slices and maps, and the
  generic list and map facts that the component theories use.

  \<^item> A Go \<open>[]byte\<close> is a list of 8-bit words, a Go \<open>string\<close> a HOL \<open>string\<close> (a list of
    bytes), a Go \<open>time.Time\<close> an \<open>int\<close> of nanoseconds since the Unix epoch.
  \<^item> A Go map is a partial function. Reading a missing key of a map of slices gives the nil
    slice: \<open>slice_at\<close>.
  \<^item> Ranging over a Go map visits the keys in an unspecified order. An operation that does so
    takes the order as an argument, and a theorem about it holds for every enumeration
    of the domain (\<open>enumerates\<close>).
\<close>

type_synonym byte = "8 word"
type_synonym bytes = "byte list"
type_synonym u32 = "32 word"
type_synonym u64 = "64 word"
type_synonym time = int

named_theorems frame_simps \<open>what an operation leaves unchanged\<close>
named_theorems inv_intros \<open>operations keep the invariant of their component\<close>

subsection \<open>Go maps\<close>

definition slice_at :: "('k \<rightharpoonup> 'v list) \<Rightarrow> 'k \<Rightarrow> 'v list" where
  "slice_at m k = (case m k of None \<Rightarrow> [] | Some xs \<Rightarrow> xs)"

definition enumerates :: "'k list \<Rightarrow> ('k \<rightharpoonup> 'v) \<Rightarrow> bool" where
  "enumerates ks m \<longleftrightarrow> distinct ks \<and> set ks = dom m"

lemma slice_at_None [simp]: "m k = None \<Longrightarrow> slice_at m k = []"
  by (simp add: slice_at_def)

lemma slice_at_Some [simp]: "m k = Some xs \<Longrightarrow> slice_at m k = xs"
  by (simp add: slice_at_def)

lemma slice_at_upd [simp]: "slice_at (m(k \<mapsto> xs)) k' = (if k' = k then xs else slice_at m k')"
  by (simp add: slice_at_def)

lemma slice_at_empty [simp]: "slice_at Map.empty k = []"
  by (simp add: slice_at_def)

lemma slice_at_del [simp]: "slice_at (m(k := None)) k' = (if k' = k then [] else slice_at m k')"
  by (simp add: slice_at_def)

lemma enumerates_dom: "enumerates ks m \<Longrightarrow> set ks = dom m"
  by (simp add: enumerates_def)

lemma enumerates_distinct: "enumerates ks m \<Longrightarrow> distinct ks"
  by (simp add: enumerates_def)

subsection \<open>Lists\<close>

lemma distinct_map_filter: "distinct (map f xs) \<Longrightarrow> distinct (map f (filter P xs))"
  by (induction xs) auto

lemma filter_all_True: "\<forall>x\<in>set xs. P x \<Longrightarrow> filter P xs = xs"
  by (induction xs) auto

lemma mset_concat_map: "mset xs = mset ys \<Longrightarrow> mset (concat (map f xs)) = mset (concat (map f ys))"
proof -
  assume e: "mset xs = mset ys"
  have "mset (concat (map f zs)) = sum_mset (image_mset (\<lambda>x. mset (f x)) (mset zs))" for zs
    by (induction zs) auto
  with e show ?thesis by simp
qed

subsection \<open>Words\<close>

lemma word_xor_right_cancel:
  fixes a b c :: "'a::len word"
  shows "xor a c = xor b c \<longleftrightarrow> a = b"
proof
  assume "xor a c = xor b c"
  then have "xor (xor a c) c = xor (xor b c) c" by simp
  then show "a = b" by (simp add: xor.assoc)
qed simp

text \<open>Digits: what holds of the sixteen numbers one by one.\<close>

lemma all_below_16: "list_all P [0..<16] \<Longrightarrow> n < 16 \<Longrightarrow> P n"
  by (simp add: list_all_iff)

subsection \<open>Binary search (\<open>sort.Search\<close>, \<open>slices.BinarySearchFunc\<close>)\<close>

function bsearch :: "(nat \<Rightarrow> bool) \<Rightarrow> nat \<Rightarrow> nat \<Rightarrow> nat" where
  "bsearch f i j = (if i < j then let h = (i + j) div 2 in
     if \<not> f h then bsearch f (h + 1) j else bsearch f i h else i)"
  by pat_completeness auto
termination by (relation "measure (\<lambda>(f, i, j). j - i)") auto

declare bsearch.simps [simp del]

definition search :: "nat \<Rightarrow> (nat \<Rightarrow> bool) \<Rightarrow> nat" where
  "search n f = bsearch f 0 n"

lemma bsearch_first:
  assumes "\<And>x y. x \<le> y \<Longrightarrow> y < n \<Longrightarrow> f x \<Longrightarrow> f y" and "i \<le> j" and "j \<le> n"
    and "\<And>k. k < i \<Longrightarrow> \<not> f k" and "\<And>k. j \<le> k \<Longrightarrow> k < n \<Longrightarrow> f k"
  shows "bsearch f i j \<le> n \<and> (\<forall>k<n. f k \<longleftrightarrow> bsearch f i j \<le> k)"
  using assms(2-5)
proof (induction "j - i" arbitrary: i j rule: less_induct)
  case less
  show ?case
  proof (cases "i < j")
    case True
    define h where "h = (i + j) div 2"
    have h: "i \<le> h" "h < j" using True by (auto simp: h_def)
    have step: "bsearch f i j = (if \<not> f h then bsearch f (h + 1) j else bsearch f i h)"
      using True by (simp add: bsearch.simps [of f i j] h_def Let_def)
    show ?thesis
    proof (cases "f h")
      case f: True
      have "bsearch f i h \<le> n \<and> (\<forall>k<n. f k \<longleftrightarrow> bsearch f i h \<le> k)"
      proof (rule less.hyps)
        show "f k" if "h \<le> k" "k < n" for k using assms(1) [of h k] that f by blast
      qed (use h less.prems in auto)
      then show ?thesis using step f by simp
    next
      case f: False
      have "bsearch f (h + 1) j \<le> n \<and> (\<forall>k<n. f k \<longleftrightarrow> bsearch f (h + 1) j \<le> k)"
      proof (rule less.hyps)
        show "\<not> f k" if "k < h + 1" for k using assms(1) [of k h] that f h less.prems(2) by auto
      qed (use h less.prems in auto)
      then show ?thesis using step f by simp
    qed
  next
    case False
    then have "bsearch f i j = j" using less.prems(1) by (subst bsearch.simps) simp
    then show ?thesis using False less.prems by (metis leI order.antisym)
  qed
qed

text \<open>In a list sorted by \<open>f\<close> the search finds where the values from \<open>c\<close> on begin.\<close>

lemma search_sorted:
  assumes "sorted (map f xs)"
  shows "search (length xs) (\<lambda>i. c \<le> f (xs ! i)) \<le> length xs"
    and "k < length xs \<Longrightarrow> c \<le> f (xs ! k) \<longleftrightarrow> search (length xs) (\<lambda>i. c \<le> f (xs ! i)) \<le> k"
proof -
  have "f (xs ! x) \<le> f (xs ! y)" if "x \<le> y" "y < length xs" for x y
    using sorted_nth_mono [OF assms, of x y] that by simp
  then have "search (length xs) (\<lambda>i. c \<le> f (xs ! i)) \<le> length xs \<and> (\<forall>k<length xs. c \<le> f (xs ! k)
      \<longleftrightarrow> search (length xs) (\<lambda>i. c \<le> f (xs ! i)) \<le> k)"
    unfolding search_def by (intro bsearch_first) (auto intro: order_trans)
  then show "search (length xs) (\<lambda>i. c \<le> f (xs ! i)) \<le> length xs"
    and "k < length xs \<Longrightarrow> c \<le> f (xs ! k) \<longleftrightarrow> search (length xs) (\<lambda>i. c \<le> f (xs ! i)) \<le> k" by auto
qed

end
