(* ===== verification/Blocklist.thy ===== *)
theory Blocklist
  imports Prelude
begin

section \<open>The per-tenant blocklist (tempodb/blocklist)\<close>

text \<open>
  Models \<open>tempodb/blocklist/list.go\<close>: the in-memory list of a tenant's backend blocks, the
  local changes made by a compactor or by retention since the last poll, and the poll that
  replaces the list by what was found in object storage and then applies the local changes
  again. \<open>BlockMeta\<close> keeps the fields that the modelled code reads; a
  \<open>CompactedBlockMeta\<close> embeds one, as in the Go code, so it is a record extension.
  Each method runs under \<open>l.mtx\<close> and is one step.
\<close>

type_synonym uuid = "128 word"
type_synonym tenant = string

record block_meta =
  Version :: string
  BlockID :: uuid
  TenantID :: tenant
  StartTime :: time
  EndTime :: time
  TotalObjects :: u64
  SizeBytes :: u64
  CompactionLevel :: u32
  DedicatedColumnsHash :: u64
  ReplicationFactor :: u32

record compacted_block_meta = block_meta +
  CompactedTime :: time

record blocklist =
  metas :: "tenant \<rightharpoonup> block_meta list"
  compactedMetas :: "tenant \<rightharpoonup> compacted_block_meta list"
  added :: "tenant \<rightharpoonup> block_meta list"
  removed :: "tenant \<rightharpoonup> block_meta list"
  compactedAdded :: "tenant \<rightharpoonup> compacted_block_meta list"
  compactedRemoved :: "tenant \<rightharpoonup> compacted_block_meta list"

definition New :: blocklist where
  "New = \<lparr>metas = Map.empty, compactedMetas = Map.empty, added = Map.empty,
     removed = Map.empty, compactedAdded = Map.empty, compactedRemoved = Map.empty\<rparr>"

definition Tenants :: "blocklist \<Rightarrow> tenant set" where
  "Tenants l = dom (metas l)"

definition Metas :: "blocklist \<Rightarrow> tenant \<Rightarrow> block_meta list" where
  "Metas l tenantID = (if tenantID = '''' then [] else slice_at (metas l) tenantID)"

definition CompactedMetas :: "blocklist \<Rightarrow> tenant \<Rightarrow> compacted_block_meta list" where
  "CompactedMetas l tenantID =
     (if tenantID = '''' then [] else slice_at (compactedMetas l) tenantID)"

definition ids :: "'a block_meta_scheme list \<Rightarrow> uuid set" where
  "ids bs = BlockID ` set bs"

subsection \<open>updateInternal\<close>

text \<open>The loop that appends the new blocks: \<open>finalIDs\<close> grows with \<open>final\<close>.\<close>

fun add_new :: "uuid set \<Rightarrow> uuid set \<Rightarrow> block_meta list \<Rightarrow> block_meta list" where
  "add_new skip finalIDs [] = []"
| "add_new skip finalIDs (b # bs) =
     (if BlockID b \<in> finalIDs \<or> BlockID b \<in> skip then add_new skip finalIDs bs
      else b # add_new skip (insert (BlockID b) finalIDs) bs)"

definition update_metas ::
  "block_meta list \<Rightarrow> block_meta list \<Rightarrow> block_meta list \<Rightarrow>
   compacted_block_meta list \<Rightarrow> compacted_block_meta list \<Rightarrow> block_meta list" where
  "update_metas existing add remove compactedAdd compactedRemove =
     (let removeIDs = ids remove;
          kept = filter (\<lambda>b. BlockID b \<notin> removeIDs) existing
      in kept @ add_new (removeIDs \<union> ids compactedAdd \<union> ids compactedRemove) (ids kept) add)"

definition update_compacted ::
  "compacted_block_meta list \<Rightarrow> compacted_block_meta list \<Rightarrow> compacted_block_meta list \<Rightarrow>
   compacted_block_meta list" where
  "update_compacted existing compactedAdd compactedRemove =
     (let removeIDs = ids compactedRemove; existingIDs = ids existing
      in filter (\<lambda>b. BlockID b \<notin> removeIDs) existing
         @ filter (\<lambda>b. BlockID b \<notin> existingIDs \<and> BlockID b \<notin> removeIDs) compactedAdd)"

definition updateInternal ::
  "tenant \<Rightarrow> block_meta list \<Rightarrow> block_meta list \<Rightarrow> compacted_block_meta list \<Rightarrow>
   compacted_block_meta list \<Rightarrow> blocklist \<Rightarrow> blocklist" where
  "updateInternal t add remove compactedAdd compactedRemove l =
     (let l1 = (if add \<noteq> [] \<or> remove \<noteq> [] \<or> compactedAdd \<noteq> [] \<or> compactedRemove \<noteq> []
                then l\<lparr>metas := (metas l)(t \<mapsto> update_metas (slice_at (metas l) t) add remove
                         compactedAdd compactedRemove)\<rparr>
                else l)
      in if compactedAdd \<noteq> [] \<or> compactedRemove \<noteq> []
         then l1\<lparr>compactedMetas := (compactedMetas l1)(t \<mapsto>
                   update_compacted (slice_at (compactedMetas l1) t) compactedAdd compactedRemove)\<rparr>
         else l1)"

definition Update ::
  "tenant \<Rightarrow> block_meta list \<Rightarrow> block_meta list \<Rightarrow> compacted_block_meta list \<Rightarrow>
   compacted_block_meta list \<Rightarrow> blocklist \<Rightarrow> blocklist" where
  "Update t add remove compactedAdd compactedRemove l =
     (if t = '''' then l
      else let l1 = updateInternal t add remove compactedAdd compactedRemove l
           in l1\<lparr>added := (added l1)(t \<mapsto> slice_at (added l1) t @ add),
                 removed := (removed l1)(t \<mapsto> slice_at (removed l1) t @ remove),
                 compactedAdded :=
                   (compactedAdded l1)(t \<mapsto> slice_at (compactedAdded l1) t @ compactedAdd),
                 compactedRemoved :=
                   (compactedRemoved l1)(t \<mapsto> slice_at (compactedRemoved l1) t @ compactedRemove)\<rparr>)"

definition reapply :: "tenant \<Rightarrow> blocklist \<Rightarrow> blocklist" where
  "reapply t l = updateInternal t (slice_at (added l) t) (slice_at (removed l) t)
     (slice_at (compactedAdded l) t) (slice_at (compactedRemoved l) t) l"

text \<open>\<open>order\<close> is the order in which Go happens to range over \<open>l.added\<close>.\<close>

definition ApplyPollResults ::
  "tenant list \<Rightarrow> (tenant \<rightharpoonup> block_meta list) \<Rightarrow> (tenant \<rightharpoonup> compacted_block_meta list) \<Rightarrow>
   blocklist \<Rightarrow> blocklist" where
  "ApplyPollResults order m c l =
     (foldl (\<lambda>l t. reapply t l) (l\<lparr>metas := m, compactedMetas := c\<rparr>) order)
       \<lparr>added := Map.empty, removed := Map.empty, compactedAdded := Map.empty,
        compactedRemoved := Map.empty\<rparr>"

subsection \<open>What one update does to each tenant\<close>

lemma ids_simps [simp]:
  "ids [] = {}" "ids (b # bs) = insert (BlockID b) (ids bs)" "ids (xs @ ys) = ids xs \<union> ids ys"
  by (auto simp: ids_def)

lemma ids_filter_notin [simp]: "ids (filter (\<lambda>b. BlockID b \<notin> S) bs) = ids bs - S"
  by (auto simp: ids_def)

lemma ids_add_new: "ids (add_new skip fin bs) = ids bs - skip - fin"
  by (induction bs arbitrary: fin) auto

lemma distinct_add_new: "distinct (map BlockID (add_new skip fin bs))"
proof -
  have notin: "i \<in> fin \<Longrightarrow> i \<notin> BlockID ` set (add_new skip fin bs)" for i fin bs
    using ids_add_new [of skip fin bs] by (auto simp: ids_def)
  show ?thesis
    by (induction bs arbitrary: fin) (auto simp: notin)
qed

lemma ids_update_metas:
  "ids (update_metas ex add rm ca cr) =
     (ids ex - ids rm) \<union> (ids add - (ids rm \<union> ids ca \<union> ids cr))"
  by (auto simp: update_metas_def Let_def ids_add_new)

lemma add_new_disjoint: "ids (add_new skip fin bs) \<inter> fin = {}"
  by (auto simp: ids_add_new)

lemma distinct_append_ids:
  "distinct (map BlockID xs) \<Longrightarrow> distinct (map BlockID ys) \<Longrightarrow> ids ys \<inter> ids xs = {} \<Longrightarrow>
   distinct (map BlockID (xs @ ys))"
  by (auto simp: ids_def)

lemma distinct_update_metas:
  "distinct (map BlockID ex) \<Longrightarrow> distinct (map BlockID (update_metas ex add rm ca cr))"
  unfolding update_metas_def Let_def
  by (intro distinct_append_ids distinct_map_filter distinct_add_new add_new_disjoint)

lemma update_metas_nothing [simp]: "update_metas ex [] [] [] [] = ex"
  by (simp add: update_metas_def)

lemma update_compacted_nothing [simp]: "update_compacted ex [] [] = ex"
  by (simp add: update_compacted_def)

lemma updateInternal_frame [frame_simps]:
  "added (updateInternal t a r ca cr l) = added l"
  "removed (updateInternal t a r ca cr l) = removed l"
  "compactedAdded (updateInternal t a r ca cr l) = compactedAdded l"
  "compactedRemoved (updateInternal t a r ca cr l) = compactedRemoved l"
  by (simp_all add: updateInternal_def Let_def)

lemma updateInternal_metas:
  "slice_at (metas (updateInternal t a r ca cr l)) t' =
     (if t' = t then update_metas (slice_at (metas l) t) a r ca cr else slice_at (metas l) t')"
  by (auto simp: updateInternal_def Let_def)

lemma updateInternal_compacted:
  "slice_at (compactedMetas (updateInternal t a r ca cr l)) t' =
     (if t' = t then update_compacted (slice_at (compactedMetas l) t) ca cr
      else slice_at (compactedMetas l) t')"
  by (auto simp: updateInternal_def Let_def)

lemma Update_metas:
  "slice_at (metas (Update t a r ca cr l)) t' =
     (if t' = t \<and> t \<noteq> '''' then update_metas (slice_at (metas l) t) a r ca cr
      else slice_at (metas l) t')"
  by (simp add: Update_def Let_def updateInternal_metas)

lemma Update_compacted:
  "slice_at (compactedMetas (Update t a r ca cr l)) t' =
     (if t' = t \<and> t \<noteq> '''' then update_compacted (slice_at (compactedMetas l) t) ca cr
      else slice_at (compactedMetas l) t')"
  by (simp add: Update_def Let_def updateInternal_compacted)

subsection \<open>The replay of the local changes after a poll\<close>

lemma reapply_frame [frame_simps]:
  "added (reapply t l) = added l" "removed (reapply t l) = removed l"
  "compactedAdded (reapply t l) = compactedAdded l"
  "compactedRemoved (reapply t l) = compactedRemoved l"
  by (simp_all add: reapply_def frame_simps)

lemma replay_metas:
  assumes "distinct order"
  shows "slice_at (metas (foldl (\<lambda>l t. reapply t l) l order)) t =
    (if t \<in> set order
     then update_metas (slice_at (metas l) t) (slice_at (added l) t) (slice_at (removed l) t)
            (slice_at (compactedAdded l) t) (slice_at (compactedRemoved l) t)
     else slice_at (metas l) t)"
  using assms
  by (induction order arbitrary: l)
    (auto simp: frame_simps reapply_def updateInternal_metas)

lemma replay_compacted:
  assumes "distinct order"
  shows "slice_at (compactedMetas (foldl (\<lambda>l t. reapply t l) l order)) t =
    (if t \<in> set order
     then update_compacted (slice_at (compactedMetas l) t)
            (slice_at (compactedAdded l) t) (slice_at (compactedRemoved l) t)
     else slice_at (compactedMetas l) t)"
  using assms
  by (induction order arbitrary: l)
    (auto simp: frame_simps reapply_def updateInternal_compacted)

text \<open>
  The four maps of local changes always have the same keys: \<open>Update\<close> writes all four. This is
  why ranging over \<open>l.added\<close> alone reaches every tenant with a change.
\<close>

definition changes_aligned :: "blocklist \<Rightarrow> bool" where
  "changes_aligned l \<longleftrightarrow> dom (removed l) = dom (added l) \<and>
     dom (compactedAdded l) = dom (added l) \<and> dom (compactedRemoved l) = dom (added l)"

lemma changes_aligned_New [inv_intros]: "changes_aligned New"
  by (simp add: changes_aligned_def New_def)

lemma changes_aligned_Update [inv_intros]:
  "changes_aligned l \<Longrightarrow> changes_aligned (Update t a r ca cr l)"
  by (simp add: changes_aligned_def Update_def Let_def frame_simps)

lemma changes_aligned_Apply [inv_intros]: "changes_aligned (ApplyPollResults order m c l)"
  by (simp add: changes_aligned_def ApplyPollResults_def)

lemma aligned_slices_empty:
  assumes "changes_aligned l" and "t \<notin> dom (added l)"
  shows "slice_at (added l) t = []" "slice_at (removed l) t = []"
    "slice_at (compactedAdded l) t = []" "slice_at (compactedRemoved l) t = []"
proof -
  have "t \<notin> dom (removed l)" "t \<notin> dom (compactedAdded l)" "t \<notin> dom (compactedRemoved l)"
    using assms by (auto simp: changes_aligned_def)
  then show "slice_at (added l) t = []" "slice_at (removed l) t = []"
    "slice_at (compactedAdded l) t = []" "slice_at (compactedRemoved l) t = []"
    using assms(2) by (simp_all add: domIff)
qed

lemma poll_replay_metas:
  assumes "changes_aligned l" and "enumerates order (added l)" and "t \<noteq> ''''"
  shows "Metas (ApplyPollResults order m c l) t =
      update_metas (slice_at m t) (slice_at (added l) t) (slice_at (removed l) t)
        (slice_at (compactedAdded l) t) (slice_at (compactedRemoved l) t)"
  using assms aligned_slices_empty [OF assms(1), of t]
  by (auto simp: Metas_def ApplyPollResults_def replay_metas enumerates_def)

lemma poll_replay_compacted:
  assumes "changes_aligned l" and "enumerates order (added l)" and "t \<noteq> ''''"
  shows "CompactedMetas (ApplyPollResults order m c l) t =
      update_compacted (slice_at c t) (slice_at (compactedAdded l) t)
        (slice_at (compactedRemoved l) t)"
  using assms aligned_slices_empty [OF assms(1), of t]
  by (auto simp: CompactedMetas_def ApplyPollResults_def replay_compacted enumerates_def)

lemma removed_Update:
  "slice_at (removed (Update t a r ca cr l)) t' =
     (if t' = t \<and> t \<noteq> '''' then slice_at (removed l) t @ r else slice_at (removed l) t')"
  by (simp add: Update_def Let_def frame_simps)

text \<open>A run of the list: polls and updates in any order.\<close>

datatype blocklist_op =
  DoUpdate tenant "block_meta list" "block_meta list" "compacted_block_meta list"
    "compacted_block_meta list"
| DoPoll "tenant list" "tenant \<rightharpoonup> block_meta list" "tenant \<rightharpoonup> compacted_block_meta list"

fun blocklist_step :: "blocklist \<Rightarrow> blocklist_op \<Rightarrow> blocklist" where
  "blocklist_step l (DoUpdate t a r ca cr) = Update t a r ca cr l"
| "blocklist_step l (DoPoll order m c) = ApplyPollResults order m c l"

definition blocklist_run :: "blocklist \<Rightarrow> blocklist_op list \<Rightarrow> blocklist" where
  "blocklist_run = foldl blocklist_step"

lemma blocklist_run_simps [simp]:
  "blocklist_run l [] = l"
  "blocklist_run l (x # xs) = blocklist_run (blocklist_step l x) xs"
  by (simp_all add: blocklist_run_def)

lemma removed_kept_by_updates:
  "b \<in> set (slice_at (removed l) t) \<Longrightarrow>
   \<forall>x\<in>set ops. \<exists>t a r ca cr. x = DoUpdate t a r ca cr \<Longrightarrow>
   b \<in> set (slice_at (removed (blocklist_run l ops)) t)"
proof (induction ops arbitrary: l)
  case (Cons x ops)
  from Cons.prems(2) obtain t' a r ca cr where x: "x = DoUpdate t' a r ca cr" by auto
  show ?case
    unfolding blocklist_run_simps x blocklist_step.simps
    by (rule Cons.IH) (use Cons.prems in \<open>auto simp: removed_Update\<close>)
qed simp

lemma changes_aligned_run: "changes_aligned l \<Longrightarrow> changes_aligned (blocklist_run l xs)"
proof (induction xs arbitrary: l)
  case (Cons x xs)
  then show ?case by (cases x) (auto intro: inv_intros)
qed simp

subsection \<open>Properties\<close>



text \<open>A poll that started before an update and finishes after it (so it reports the old
  lists) does not undo the update: the blocklist reads the same as right after the update.\<close>

theorem stale_poll_keeps_update:
  assumes "added l = Map.empty" and "changes_aligned l" and "t \<noteq> ''''"
    and "l' = Update t a r ca cr l"
  shows "Metas (ApplyPollResults [t] (metas l) (compactedMetas l) l') u = Metas l' u \<and>
    CompactedMetas (ApplyPollResults [t] (metas l) (compactedMetas l) l') u =
    CompactedMetas l' u"
proof -
  have en: "enumerates [t] (added l')"
    using assms by (auto simp: Update_def Let_def enumerates_def frame_simps)
  have al: "changes_aligned l'"
    using assms by (simp add: changes_aligned_Update)
  have none: "slice_at (added l) u = []" "slice_at (removed l) u = []"
    "slice_at (compactedAdded l) u = []" "slice_at (compactedRemoved l) u = []" for u
    using aligned_slices_empty [OF assms(2), of u] assms(1) by simp_all
  have ch: "slice_at (added l') u = (if u = t then a else [])"
    "slice_at (removed l') u = (if u = t then r else [])"
    "slice_at (compactedAdded l') u = (if u = t then ca else [])"
    "slice_at (compactedRemoved l') u = (if u = t then cr else [])"
    using none assms(3,4) by (simp_all add: Update_def Let_def frame_simps)
  show ?thesis
  proof (cases "u = ''''")
    case True
    then show ?thesis by (simp add: Metas_def CompactedMetas_def)
  next
    case False
    then show ?thesis
      unfolding poll_replay_metas [OF al en False] poll_replay_compacted [OF al en False] ch
      using assms(3,4) by (simp add: Metas_def CompactedMetas_def Update_metas Update_compacted)
  qed
qed

theorem stale_poll_keeps_update_witness:
  "Metas (ApplyPollResults [''t''] Map.empty Map.empty (Update ''t'' [] [] [] [] New)) ''t'' =
   Metas (Update ''t'' [] [] [] [] New) ''t''"
  using stale_poll_keeps_update
    [OF _ changes_aligned_New, of "''t''" "Update ''t'' [] [] [] [] New" "[]" "[]" "[]" "[]" "''t''"]
  by (simp add: New_def)



text \<open>A block that was removed locally is not listed again by the next poll, even when the
  poll still found it and other updates came in between.\<close>

theorem removed_block_stays_removed:
  assumes "changes_aligned l" and "t \<noteq> ''''" and "b \<in> set r"
    and "\<forall>x\<in>set ops. \<exists>t a r ca cr. x = DoUpdate t a r ca cr"
    and "l' = blocklist_run (Update t a r ca cr l) ops" and "enumerates order (added l')"
  shows "BlockID b \<notin> ids (Metas (ApplyPollResults order m c l') t)"
proof -
  have "b \<in> set (slice_at (removed (Update t a r ca cr l)) t)"
    using assms(2,3) by (simp add: removed_Update)
  then have "b \<in> set (slice_at (removed l') t)"
    unfolding assms(5) by (rule removed_kept_by_updates [OF _ assms(4)])
  moreover have "changes_aligned l'"
    using assms(1,5) by (simp add: changes_aligned_run changes_aligned_Update)
  moreover have "BlockID b \<in> ids (slice_at (removed l') t)"
    using \<open>b \<in> set (slice_at (removed l') t)\<close> by (simp add: ids_def)
  ultimately show ?thesis
    using assms(2,6) by (simp add: poll_replay_metas ids_update_metas)
qed

theorem removed_block_stays_removed_witness:
  "BlockID (\<lparr>Version = ''vParquet4'', BlockID = 7, TenantID = ''t'', StartTime = 0,
      EndTime = 0, TotalObjects = 1, SizeBytes = 1, CompactionLevel = 0,
      DedicatedColumnsHash = 0, ReplicationFactor = 1\<rparr>) \<notin>
   ids (Metas (ApplyPollResults [''t''] Map.empty Map.empty
     (blocklist_run (Update ''t'' [] [\<lparr>Version = ''vParquet4'', BlockID = 7, TenantID = ''t'',
        StartTime = 0, EndTime = 0, TotalObjects = 1, SizeBytes = 1, CompactionLevel = 0,
        DedicatedColumnsHash = 0, ReplicationFactor = 1\<rparr>] [] [] New) [])) ''t'')"
  by (rule removed_block_stays_removed [where l = New and ops = "[]", OF changes_aligned_New])
    (auto simp: enumerates_def Update_def New_def Let_def updateInternal_def)

text \<open>The list of compacted blocks has no such guarantee: the loop over \<open>compactedAdd\<close> tests
  against the blocks listed before, not against those it has just added, so a block that was
  reported compacted twice between two polls is listed twice after the poll.\<close>

theorem compacted_metas_may_repeat:
  "\<exists>b. let l = blocklist_run New
          [DoUpdate ''t'' [] [] [b] [], DoUpdate ''t'' [] [] [b] [],
           DoPoll [''t''] Map.empty Map.empty]
      in CompactedMetas l ''t'' = [b, b]"
  by (simp add: CompactedMetas_def New_def Update_def Let_def updateInternal_def
      ApplyPollResults_def reapply_def update_compacted_def update_metas_def)

end
