(* ===== verification/TraceId.thy ===== *)
theory TraceId
  imports Prelude
begin

section \<open>Trace and span identifiers (pkg/util/traceid.go)\<close>

text \<open>
  Models \<open>pkg/util/traceid.go\<close>: the hex forms of trace and span ids and the tokens that stand
  for them in hash maps. The hex codec and the FNV-1 hash are Go's \<open>encoding/hex\<close> and
  \<open>hash/fnv\<close>, written out here. \<open>SpanIDToUint64\<close> reads memory in the machine's byte order; the
  model takes the little-endian one of the platforms Tempo is released for.
\<close>

unbundle bit_operations_syntax

subsection \<open>encoding/hex\<close>

definition hex_digit :: "nat \<Rightarrow> char" where
  "hex_digit n = ''0123456789abcdef'' ! n"

definition hex_val :: "char \<Rightarrow> nat option" where
  "hex_val c = (let n = (of_char c :: nat) in
     if 48 \<le> n \<and> n \<le> 57 then Some (n - 48)
     else if 97 \<le> n \<and> n \<le> 102 then Some (n - 87)
     else if 65 \<le> n \<and> n \<le> 70 then Some (n - 55)
     else None)"

fun hex_encode :: "bytes \<Rightarrow> string" where
  "hex_encode [] = []"
| "hex_encode (b # bs) = hex_digit (unat b div 16) # hex_digit (unat b mod 16) # hex_encode bs"

fun hex_decode :: "string \<Rightarrow> bytes option" where
  "hex_decode [] = Some []"
| "hex_decode [c] = None"
| "hex_decode (c # d # cs) =
     (case (hex_val c, hex_val d, hex_decode cs) of
        (Some h, Some l, Some bs) \<Rightarrow> Some (of_nat (16 * h + l) # bs)
      | _ \<Rightarrow> None)"

fun trim_left :: "char \<Rightarrow> string \<Rightarrow> string" where
  "trim_left z [] = []"
| "trim_left z (c # cs) = (if c = z then trim_left z cs else c # cs)"

subsection \<open>The operations\<close>

datatype id_error = InvalidHexChar nat | HexDecode | SpanIDTooLarge | TraceIDTooLarge

text \<open>The check of the loop over the runes: the first position of a character that is no hex
  digit, counted from 1.\<close>

fun check_hex :: "nat \<Rightarrow> string \<Rightarrow> id_error option" where
  "check_hex i [] = None"
| "check_hex i (c # cs) =
     (if (c < CHR ''a'' \<or> c > CHR ''f'') \<and> (c < CHR ''A'' \<or> c > CHR ''F'') \<and>
         (c < CHR ''0'' \<or> c > CHR ''9'')
      then Some (InvalidHexChar (i + 1)) else check_hex (i + 1) cs)"

definition hexStringToID :: "string \<Rightarrow> bool \<Rightarrow> id_error + bytes" where
  "hexStringToID ident isSpan =
     (case check_hex 0 ident of
        Some e \<Rightarrow> Inl e
      | None \<Rightarrow>
          (let ident' = (if length ident mod 2 = 1 then ''0'' @ ident else ident) in
           case hex_decode ident' of
             None \<Rightarrow> Inl HexDecode
           | Some byteID \<Rightarrow>
               (let size = length byteID in
                if isSpan then (if size > 8 then Inl SpanIDTooLarge else Inr byteID)
                else if size > 16 then Inl TraceIDTooLarge
                else if size < 16 then Inr (replicate (16 - size) 0 @ byteID)
                else Inr byteID)))"

definition HexStringToTraceID :: "string \<Rightarrow> id_error + bytes" where
  "HexStringToTraceID ident = hexStringToID ident False"

definition HexStringToSpanID :: "string \<Rightarrow> id_error + bytes" where
  "HexStringToSpanID ident = hexStringToID (trim_left (CHR ''0'') ident) True"

definition PadTraceIDString :: "string \<Rightarrow> string" where
  "PadTraceIDString ident =
     (if length ident \<ge> 32 then ident else replicate (32 - length ident) (CHR ''0'') @ ident)"

text \<open>The scan of the fast path: the suffix from the first character that is not \<open>0\<close>, or the
  empty string when there is none.\<close>

fun first_nonzero_suffix :: "string \<Rightarrow> string" where
  "first_nonzero_suffix [] = []"
| "first_nonzero_suffix (c # cs) = (if c \<noteq> CHR ''0'' then c # cs else first_nonzero_suffix cs)"

definition TraceIDToHexString :: "bytes \<Rightarrow> string" where
  "TraceIDToHexString byteID =
     (let encodedLen = 2 * length byteID in
      if encodedLen = 0 then []
      else if encodedLen \<le> 32 then first_nonzero_suffix (hex_encode byteID)
      else trim_left (CHR ''0'') (hex_encode byteID))"

definition SpanIDToHexString :: "bytes \<Rightarrow> string" where
  "SpanIDToHexString byteID =
     (let ident = trim_left (CHR ''0'') (hex_encode byteID)
      in replicate (16 - length ident) (CHR ''0'') @ ident)"

definition EqualHexStringTraceIDs :: "string \<Rightarrow> string \<Rightarrow> id_error + bool" where
  "EqualHexStringTraceIDs a b =
     (case HexStringToTraceID a of
        Inl e \<Rightarrow> Inl e
      | Inr aa \<Rightarrow>
          (case HexStringToTraceID b of Inl e \<Rightarrow> Inl e | Inr bb \<Rightarrow> Inr (aa = bb)))"

definition PadTraceIDTo16Bytes :: "bytes \<Rightarrow> bytes" where
  "PadTraceIDTo16Bytes traceID =
     (if length traceID > 16 then drop (length traceID - 16) traceID
      else if length traceID = 16 then traceID
      else replicate (16 - length traceID) 0 @ traceID)"

subsection \<open>Tokens\<close>

definition spanKindFNVHashes :: "u64 list" where
  "spanKindFNVHashes =
     [0xa8c7f832281a39c5, 0xe3757ca7d64666ea, 0x1e23011d8472940f, 0x58d08593329ec134,
      0x937e0a08e0caee59, 0xce2b8e7e8ef71b7e, 0x8d912f43d2348a3, 0x43869769eb4f75c8]"

definition fnv1_64 :: "bytes \<Rightarrow> u64" where
  "fnv1_64 bs = foldl (\<lambda>h b. (h * 1099511628211) XOR ucast b) 14695981039346656037 bs"

definition put_uint32_le :: "u32 \<Rightarrow> bytes" where
  "put_uint32_le w = [ucast w, ucast (drop_bit 8 w), ucast (drop_bit 16 w), ucast (drop_bit 24 w)]"

definition TokenForID :: "int \<Rightarrow> bytes \<Rightarrow> u64" where
  "TokenForID kind ident = fnv1_64 (ident @ put_uint32_le (of_int kind))"

fun uint64_le :: "bytes \<Rightarrow> u64" where
  "uint64_le [] = 0"
| "uint64_le (b # bs) = ucast b + push_bit 8 (uint64_le bs)"

definition SpanIDToUint64 :: "bytes \<Rightarrow> u64" where
  "SpanIDToUint64 ident =
     (if length ident < 8 then uint64_le (ident @ replicate (8 - length ident) 0)
      else uint64_le (take 8 ident))"

definition SpanIDAndKindToToken :: "bytes \<Rightarrow> int \<Rightarrow> u64" where
  "SpanIDAndKindToToken ident kind =
     (let kind' = (if kind < 0 \<or> kind \<ge> int (length spanKindFNVHashes) then 0 else kind)
      in SpanIDToUint64 ident XOR spanKindFNVHashes ! nat kind')"

subsection \<open>The hex codec\<close>

lemma hex_val_digit [simp]: "n < 16 \<Longrightarrow> hex_val (hex_digit n) = Some n"
  by (rule all_below_16 [where n = n]) (simp_all add: upt_conv_Cons hex_val_def hex_digit_def)

lemma hex_digit_zero [simp]: "n < 16 \<Longrightarrow> hex_digit n = CHR ''0'' \<longleftrightarrow> n = 0"
  by (rule all_below_16 [where n = n]) (simp_all add: upt_conv_Cons hex_digit_def)

lemma byte_nibbles: "(of_nat (16 * (unat b div 16) + unat b mod 16) :: byte) = b"
  by simp

lemma byte_hi [simp]: "unat (b::byte) div 16 < 16"
  using unsigned_less [of b, where ?'a = nat] by simp

lemma hex_decode_encode [simp]: "hex_decode (hex_encode bs) = Some bs"
  by (induction bs) (auto simp: byte_nibbles simp del: of_nat_add of_nat_mult)

lemma length_hex_encode [simp]: "length (hex_encode bs) = 2 * length bs"
  by (induction bs) auto

lemma first_nonzero_suffix_trim [simp]: "first_nonzero_suffix cs = trim_left (CHR ''0'') cs"
  by (induction cs) auto

lemma TraceIDToHexString_trim: "TraceIDToHexString bs = trim_left (CHR ''0'') (hex_encode bs)"
  by (simp add: TraceIDToHexString_def Let_def)

lemma check_hex_digit: "n < 16 \<Longrightarrow> check_hex i (hex_digit n # cs) = check_hex (i + 1) cs"
  by (rule all_below_16 [where n = n]) (simp_all add: upt_conv_Cons hex_digit_def less_char_def bit_simps)

lemma check_hex_encode [simp]: "check_hex i (hex_encode bs) = None"
  by (induction bs arbitrary: i) (simp_all add: check_hex_digit del: check_hex.simps(2))

definition lower_hex :: "char \<Rightarrow> char" where
  "lower_hex c = hex_digit (the (hex_val c))"

lemma hex_val_less: "hex_val c = Some n \<Longrightarrow> n < 16"
  by (auto simp: hex_val_def Let_def split: if_splits)

lemma not_hex_iff:
  "(c < CHR ''a'' \<or> c > CHR ''f'') \<and> (c < CHR ''A'' \<or> c > CHR ''F'') \<and>
   (c < CHR ''0'' \<or> c > CHR ''9'') \<longleftrightarrow> hex_val c = None"
  by (simp add: hex_val_def less_char_def Let_def) arith

lemma check_hex_None_iff: "check_hex i cs = None \<longleftrightarrow> (\<forall>c\<in>set cs. hex_val c \<noteq> None)"
  by (induction cs arbitrary: i) (auto simp: not_hex_iff simp del: not_None_eq)

lemma hex_decode_Some_iff:
  "(\<exists>bs. hex_decode cs = Some bs) \<longleftrightarrow> even (length cs) \<and> (\<forall>c\<in>set cs. hex_val c \<noteq> None)"
  by (induction cs rule: hex_decode.induct) (auto split: option.splits)

lemma length_hex_decode: "hex_decode cs = Some bs \<Longrightarrow> length cs = 2 * length bs"
  by (induction cs arbitrary: bs rule: hex_decode.induct) (auto split: option.splits)

lemma nibbles_of_byte:
  assumes "h < 16" and "l < (16::nat)"
  shows "unat (of_nat (16 * h + l) :: byte) = 16 * h + l"
proof -
  have "16 * h + l < 2 ^ 8" using assms by simp
  then show ?thesis
    by (simp add: unsigned_of_nat take_bit_nat_eq_self_iff del: of_nat_add of_nat_mult)
qed

lemma hex_encode_decode: "hex_decode cs = Some bs \<Longrightarrow> hex_encode bs = map lower_hex cs"
proof (induction cs arbitrary: bs rule: hex_decode.induct)
  case (3 c d cs)
  then obtain h l bs' where v: "hex_val c = Some h" "hex_val d = Some l" "hex_decode cs = Some bs'"
    "bs = of_nat (16 * h + l) # bs'"
    by (auto split: option.splits)
  moreover have "h < 16" "l < 16" using v hex_val_less by auto
  ultimately show ?case
    using "3.IH"
    by (simp add: nibbles_of_byte lower_hex_def del: of_nat_add of_nat_mult)
qed auto

lemma trim_left_append_zeros [simp]: "trim_left z (replicate n z @ cs) = trim_left z cs"
  by (induction n) auto

lemma hex_encode_append: "hex_encode (xs @ ys) = hex_encode xs @ hex_encode ys"
  by (induction xs) auto

lemma hex_encode_zeros: "hex_encode (replicate n 0) = replicate (2 * n) (CHR ''0'')"
  by (induction n) (auto simp: hex_digit_def)

lemma trim_hex_pad:
  "trim_left (CHR ''0'') (hex_encode (replicate n 0 @ bs)) = trim_left (CHR ''0'') (hex_encode bs)"
  by (simp add: hex_encode_append hex_encode_zeros)

lemma decode_trimmed:
  "hex_decode (let t = trim_left (CHR ''0'') (hex_encode bs)
     in if length t mod 2 = 1 then ''0'' @ t else t) = Some (dropWhile ((=) 0) bs)"
proof (induction bs)
  case (Cons b bs)
  show ?case
  proof (cases "unat b div 16 = 0")
    case hi: True
    show ?thesis
    proof (cases "b = 0")
      case True
      with Cons.IH show ?thesis by (simp add: hex_digit_def)
    next
      case False
      then have "unat b mod 16 \<noteq> 0" "unat b mod 16 = unat b"
        using hi by (auto simp: unat_eq_zero div_eq_0_iff)
      with False hi show ?thesis
        by (simp add: Let_def hex_val_def [of "CHR ''0''"])
    qed
  next
    case False
    then have "b \<noteq> 0" by auto
    with False show ?thesis
      by (simp add: Let_def byte_nibbles del: of_nat_add of_nat_mult)
  qed
qed simp

lemma dropWhile_pad:
  "length bs \<le> n \<Longrightarrow>
   replicate (n - length (dropWhile ((=) z) bs)) z @ dropWhile ((=) z) bs =
   replicate (n - length bs) z @ bs"
proof (induction bs)
  case (Cons b bs)
  show ?case
  proof (cases "b = z")
    case True
    have "replicate (n - length bs) z = replicate (n - Suc (length bs)) z @ [z]"
      using Cons.prems by (metis Suc_diff_Suc Suc_le_eq length_Cons replicate_Suc replicate_append_same)
    with True Cons show ?thesis by simp
  next
    case False
    then show ?thesis by auto
  qed
qed simp

lemma check_hex_trim: "check_hex i (trim_left z (hex_encode bs)) = None"
proof -
  have "set (trim_left z cs) \<subseteq> set cs" for cs by (induction cs) auto
  moreover have "\<forall>c\<in>set (hex_encode bs). hex_val c \<noteq> None"
    using check_hex_encode check_hex_None_iff by blast
  ultimately show ?thesis unfolding check_hex_None_iff by blast
qed

lemma hexStringToID_trimmed:
  "hexStringToID (trim_left (CHR ''0'') (hex_encode bs)) isSpan =
     (let d = dropWhile ((=) 0) bs in
      if isSpan then (if length d > 8 then Inl SpanIDTooLarge else Inr d)
      else if length d > 16 then Inl TraceIDTooLarge
      else Inr (replicate (16 - length d) 0 @ d))"
  using decode_trimmed [of bs]
  by (simp add: hexStringToID_def check_hex_trim Let_def)

lemma length_dropWhile: "length (dropWhile P xs) \<le> length xs"
  by (rule length_dropWhile_le)

lemma HexStringToTraceID_Inr_iff:
  "(\<exists>bs. HexStringToTraceID s = Inr bs) \<longleftrightarrow>
   (\<forall>c\<in>set s. hex_val c \<noteq> None) \<and> length s \<le> 32"
proof (cases "check_hex 0 s")
  case None
  define s' where "s' = (if length s mod 2 = 1 then ''0'' @ s else s)"
  have hexs: "\<forall>c\<in>set s. hex_val c \<noteq> None" using None check_hex_None_iff by blast
  then have "even (length s')" "\<forall>c\<in>set s'. hex_val c \<noteq> None"
    unfolding s'_def by (auto simp: hex_val_def [of "CHR ''0''"] Let_def)
  then obtain bs where bs: "hex_decode s' = Some bs" using hex_decode_Some_iff by blast
  then have "length s' = 2 * length bs" by (rule length_hex_decode)
  then have "length bs \<le> 16 \<longleftrightarrow> length s \<le> 32"
    unfolding s'_def by (auto split: if_splits)
  then show ?thesis
    using None bs hexs by (auto simp: HexStringToTraceID_def hexStringToID_def s'_def Let_def)
next
  case (Some e)
  then have "\<not> (\<forall>c\<in>set s. hex_val c \<noteq> None)" using check_hex_None_iff [of 0 s] by auto
  with Some show ?thesis by (simp add: HexStringToTraceID_def hexStringToID_def)
qed

lemma HexStringToTraceID_Inr:
  assumes "HexStringToTraceID s = Inr bs"
  shows "length bs = 16 \<and> TraceIDToHexString bs = trim_left (CHR ''0'') (map lower_hex s)"
proof -
  define s' where "s' = (if length s mod 2 = 1 then ''0'' @ s else s)"
  obtain ds where ds: "hex_decode s' = Some ds" "length ds \<le> 16"
    "bs = replicate (16 - length ds) 0 @ ds"
    using assms
    by (auto simp: HexStringToTraceID_def hexStringToID_def s'_def Let_def
        split: option.splits if_splits)
  have z: "lower_hex (CHR ''0'') = CHR ''0''" by (simp add: lower_hex_def hex_val_def hex_digit_def)
  have "trim_left (CHR ''0'') (hex_encode ds) = trim_left (CHR ''0'') (map lower_hex s)"
    using hex_encode_decode [OF ds(1)] by (simp add: s'_def z split: if_splits)
  with ds show ?thesis by (simp add: TraceIDToHexString_trim trim_hex_pad)
qed

lemma PadTraceIDTo16Bytes_short:
  "length bs \<le> 16 \<Longrightarrow> PadTraceIDTo16Bytes bs = replicate (16 - length bs) 0 @ bs"
  by (simp add: PadTraceIDTo16Bytes_def)

lemma HexStringToTraceID_of_hex:
  assumes "length bs \<le> 16"
  shows "HexStringToTraceID (TraceIDToHexString bs) = Inr (PadTraceIDTo16Bytes bs)"
proof -
  have "length (dropWhile ((=) 0) bs) \<le> 16"
    using assms length_dropWhile_le [of "(=) 0" bs] by linarith
  then show ?thesis
    using assms
    by (simp add: HexStringToTraceID_def TraceIDToHexString_trim hexStringToID_trimmed Let_def
        dropWhile_pad PadTraceIDTo16Bytes_short)
qed

subsection \<open>Tokens\<close>

fun le_value :: "bytes \<Rightarrow> nat" where
  "le_value [] = 0"
| "le_value (b # bs) = unat b + 256 * le_value bs"

lemma byte_less: "unat (b::byte) < 256"
  using unsigned_less [of b, where ?'a = nat] by simp

lemma le_value_less: "le_value bs < 256 ^ length bs"
proof (induction bs)
  case (Cons b bs)
  then have "le_value bs + 1 \<le> 256 ^ length bs" by simp
  then have "256 * (le_value bs + 1) \<le> 256 * 256 ^ length bs" by (rule mult_le_mono2)
  with byte_less [of b] show ?case by simp
qed simp

lemma le_value_inj: "length xs = length ys \<Longrightarrow> le_value xs = le_value ys \<Longrightarrow> xs = ys"
proof (induction xs ys rule: list_induct2)
  case (Cons x xs y ys)
  have "unat x = unat y"
    using arg_cong [OF Cons.prems, of "\<lambda>v. v mod 256"] byte_less [of x] byte_less [of y] by simp
  with Cons show ?case by (simp add: word_unat_eq_iff)
qed simp

lemma unat_uint64_le: "length bs \<le> 8 \<Longrightarrow> unat (uint64_le bs) = le_value bs"
proof (induction bs)
  case (Cons b bs)
  have "le_value (b # bs) < 256 ^ length (b # bs)" by (rule le_value_less)
  also have "\<dots> \<le> 256 ^ 8" using Cons.prems by (intro power_increasing) auto
  finally have lt: "unat b + 256 * le_value bs < 2 ^ 64" by simp
  have "uint64_le (b # bs) = of_nat (unat b) + 256 * uint64_le bs"
    by (simp add: push_bit_eq_mult)
  also have "\<dots> = of_nat (unat b + 256 * le_value bs)"
    using Cons by (simp flip: Cons.IH)
  finally show ?case
    using lt by (simp add: unsigned_of_nat take_bit_nat_eq_self_iff del: of_nat_add of_nat_mult)
qed simp

lemma uint64_le_inj: "length xs = length ys \<Longrightarrow> length xs \<le> 8 \<Longrightarrow> uint64_le xs = uint64_le ys \<Longrightarrow> xs = ys"
  using le_value_inj unat_uint64_le by metis

lemma distinct_kind_hashes: "distinct spanKindFNVHashes"
  by (simp add: spanKindFNVHashes_def)

lemma length_kind_hashes: "length spanKindFNVHashes = 8"
  by (simp add: spanKindFNVHashes_def)

subsection \<open>Properties\<close>

text \<open>C37. A trace id of at most 16 bytes survives its hex form: reading back the trimmed hex
  string gives the id, left-padded to 16 bytes.\<close>

theorem trace_id_hex_roundtrip:
  assumes "length bs \<le> 16"
  shows "HexStringToTraceID (TraceIDToHexString bs) = Inr (PadTraceIDTo16Bytes bs)"
  using assms by (rule HexStringToTraceID_of_hex)

theorem trace_id_hex_roundtrip_witness:
  "HexStringToTraceID (TraceIDToHexString [0, 10, 0]) = Inr (PadTraceIDTo16Bytes [0, 10, 0])"
  by (rule trace_id_hex_roundtrip) simp

text \<open>A span id of at most 8 bytes does not fully survive: its leading zero bytes are lost,
  everything after them is kept.\<close>

theorem span_id_hex_roundtrip:
  assumes "length bs \<le> 8"
  shows "HexStringToSpanID (SpanIDToHexString bs) = Inr (dropWhile ((=) 0) bs)"
proof -
  have "length (dropWhile ((=) 0) bs) \<le> 8"
    using assms length_dropWhile_le [of "(=) 0" bs] by linarith
  moreover have "trim_left z (trim_left z cs) = trim_left z cs" for z cs
    by (induction cs) auto
  ultimately show ?thesis
    by (simp add: HexStringToSpanID_def SpanIDToHexString_def hexStringToID_trimmed Let_def)
qed

theorem span_id_hex_roundtrip_witness:
  "HexStringToSpanID (SpanIDToHexString [0, 0, 7, 0]) = Inr [7, 0]"
  using span_id_hex_roundtrip [of "[0, 0, 7, 0]"] by simp

text \<open>A trace id string is accepted exactly when it has hex digits only and at most 32 of
  them, and an accepted string always gives 16 bytes.\<close>

theorem trace_id_accepted_iff:
  "(\<exists>bs. HexStringToTraceID s = Inr bs \<and> length bs = 16) \<longleftrightarrow>
   (\<forall>c\<in>set s. hex_val c \<noteq> None) \<and> length s \<le> 32"
  using HexStringToTraceID_Inr_iff HexStringToTraceID_Inr by blast

theorem trace_id_accepted_iff_witness:
  "\<exists>bs. HexStringToTraceID ''0aF'' = Inr bs \<and> length bs = 16"
  unfolding trace_id_accepted_iff by (simp add: hex_val_def)

text \<open>Two accepted trace id strings are equal as ids exactly when they agree up to letter case
  and leading zeros.\<close>

theorem equal_trace_ids_iff:
  assumes "HexStringToTraceID a = Inr x" and "HexStringToTraceID b = Inr y"
  shows "EqualHexStringTraceIDs a b =
     Inr (trim_left (CHR ''0'') (map lower_hex a) = trim_left (CHR ''0'') (map lower_hex b))"
proof -
  note ha = HexStringToTraceID_Inr [OF assms(1)] and hb = HexStringToTraceID_Inr [OF assms(2)]
  have "x = y" if "TraceIDToHexString x = TraceIDToHexString y"
    using that ha hb HexStringToTraceID_of_hex [of x] HexStringToTraceID_of_hex [of y]
    by (simp add: PadTraceIDTo16Bytes_def)
  then have "x = y \<longleftrightarrow> trim_left (CHR ''0'') (map lower_hex a) =
      trim_left (CHR ''0'') (map lower_hex b)"
    using ha hb by auto
  with assms show ?thesis by (simp add: EqualHexStringTraceIDs_def)
qed

theorem equal_trace_ids_iff_witness:
  "EqualHexStringTraceIDs ''00Ab'' ''aB'' = Inr True"
proof -
  have a: "HexStringToTraceID ''00Ab'' = Inr (replicate 15 0 @ [171])" by code_simp
  have b: "HexStringToTraceID ''aB'' = Inr (replicate 15 0 @ [171])" by code_simp
  show ?thesis
    using equal_trace_ids_iff [OF a b] by (simp add: lower_hex_def hex_val_def hex_digit_def)
qed

text \<open>The token of a span never collides within a kind (for 8-byte ids), and one span id
  never has the same token for two different kinds: client and server spans that share an id,
  as Zipkin produces them, are told apart.\<close>

theorem span_token_injective:
  assumes "length i = 8" and "length j = 8"
    and "k \<in> {0..<8}" and "m \<in> {0..<8}"
  shows "(SpanIDAndKindToToken i k = SpanIDAndKindToToken j k \<longleftrightarrow> i = j) \<and>
    (SpanIDAndKindToToken i k = SpanIDAndKindToToken i m \<longleftrightarrow> k = m)"
proof
  have inj: "SpanIDToUint64 i = SpanIDToUint64 j \<longleftrightarrow> i = j"
    using assms(1,2) uint64_le_inj [of i j] by (auto simp: SpanIDToUint64_def)
  have xor_l: "a XOR c = b XOR c \<longleftrightarrow> a = b" for a b c :: u64
    by (rule word_xor_right_cancel)
  have xor_r: "c XOR a = c XOR b \<longleftrightarrow> a = b" for a b c :: u64
    by (simp add: xor.commute [of c] word_xor_right_cancel)
  show "SpanIDAndKindToToken i k = SpanIDAndKindToToken j k \<longleftrightarrow> i = j"
    by (simp add: SpanIDAndKindToToken_def xor_l inj)
  have tok: "SpanIDAndKindToToken i k = SpanIDToUint64 i XOR spanKindFNVHashes ! nat k"
    if "k \<in> {0..<8}" for k
    using that by (simp add: SpanIDAndKindToToken_def length_kind_hashes)
  have "spanKindFNVHashes ! nat k = spanKindFNVHashes ! nat m \<longleftrightarrow> nat k = nat m"
    using assms(3,4) by (intro nth_eq_iff_index_eq distinct_kind_hashes)
      (auto simp: length_kind_hashes)
  then show "SpanIDAndKindToToken i k = SpanIDAndKindToToken i m \<longleftrightarrow> k = m"
    unfolding tok [OF assms(3)] tok [OF assms(4)] xor_r using assms(3,4) by auto
qed

theorem span_token_injective_witness:
  "SpanIDAndKindToToken [1,2,3,4,5,6,7,8] 2 \<noteq> SpanIDAndKindToToken [1,2,3,4,5,6,7,8] 3"
  using span_token_injective [of "[1,2,3,4,5,6,7,8]" "[1,2,3,4,5,6,7,8]" 2 3] by simp

end
