(* ===== verification/GoFmt.thy ===== *)
theory GoFmt
  imports Prelude "HOL-Library.List_Lexorder" "HOL-Library.Product_Lexorder"
begin

section \<open>Formatted integers (Go's fmt verbs)\<close>

text \<open>
  The verbs \<open>%v\<close>/\<open>%d\<close> and \<open>%016X\<close> of Go's \<open>fmt\<close> on integers, as the code uses them to build sort
  and ownership keys, and the facts those keys rest on: a formatted number determines the
  number, and a decimal number holds no separator. Strings are compared byte by byte
  (\<open>List_Lexorder\<close>, \<open>Char_ord\<close>), as Go does.
\<close>

definition digit_char :: "nat \<Rightarrow> char" where
  "digit_char n = ''0123456789ABCDEF'' ! n"

definition digit_value :: "char \<Rightarrow> nat" where
  "digit_value c = (let n = (of_char c :: nat) in if n < 65 then n - 48 else n - 55)"

fun digits_in :: "nat \<Rightarrow> nat \<Rightarrow> string" where
  "digits_in b n =
     (if n < b \<or> b < 2 then [digit_char n] else digits_in b (n div b) @ [digit_char (n mod b)])"

declare digits_in.simps [simp del]

definition pad_zeros :: "nat \<Rightarrow> string \<Rightarrow> string" where
  "pad_zeros w s = replicate (w - length s) (CHR ''0'') @ s"

definition fmt_d :: "int \<Rightarrow> string" where
  "fmt_d i = (if i < 0 then ''-'' @ digits_in 10 (nat (- i)) else digits_in 10 (nat i))"

definition fmt_016X :: "int \<Rightarrow> string" where
  "fmt_016X i = (if i < 0 then ''-'' @ pad_zeros 15 (digits_in 16 (nat (- i)))
     else pad_zeros 16 (digits_in 16 (nat i)))"

definition value_in :: "nat \<Rightarrow> string \<Rightarrow> nat" where
  "value_in b s = foldl (\<lambda>a c. b * a + digit_value c) 0 s"

lemma digit_value_char [simp]: "n < 16 \<Longrightarrow> digit_value (digit_char n) = n"
  by (rule all_below_16 [where n = n]) (simp_all add: upt_conv_Cons digit_value_def digit_char_def)

lemma digit_char_no_dash [simp]: "n < 16 \<Longrightarrow> digit_char n \<noteq> CHR ''-''"
  by (rule all_below_16 [where n = n]) (simp_all add: upt_conv_Cons digit_char_def)

lemma value_in_append: "value_in b (s @ [c]) = b * value_in b s + digit_value c"
  by (simp add: value_in_def)

lemma value_in_digits: "2 \<le> b \<Longrightarrow> b \<le> 16 \<Longrightarrow> value_in b (digits_in b n) = n"
proof (induction b n rule: digits_in.induct)
  case (1 b n)
  show ?case
  proof (cases "n < b")
    case True
    with "1.prems" show ?thesis by (simp add: digits_in.simps [of b n] value_in_def)
  next
    case False
    have "n mod b < 16" using "1.prems" mod_less_divisor [of b n] by linarith
    with False "1.prems" "1.IH" show ?thesis
      by (simp add: digits_in.simps [of b n] value_in_append)
  qed
qed

lemma digits_avoid:
  assumes "\<forall>n<16. digit_char n \<noteq> c"
  shows "2 \<le> b \<Longrightarrow> b \<le> 16 \<Longrightarrow> c \<notin> set (digits_in b n)"
proof (induction b n rule: digits_in.induct)
  case (1 b n)
  have "n mod b < 16" using "1.prems" mod_less_divisor [of b n] by linarith
  then have d: "digit_char (n mod b) \<noteq> c" using assms by simp
  show ?case
  proof (cases "n < b")
    case True
    then have "digit_char n \<noteq> c" using "1.prems" assms by simp
    with True show ?thesis by (auto simp: digits_in.simps [of b n])
  next
    case False
    with 1 d show ?thesis by (auto simp: digits_in.simps [of b n])
  qed
qed

lemma digits_no_dash: "2 \<le> b \<Longrightarrow> b \<le> 16 \<Longrightarrow> CHR ''-'' \<notin> set (digits_in b n)"
  by (rule digits_avoid) auto

lemma value_in_pad: "value_in b (pad_zeros w s) = value_in b s"
proof -
  have "foldl (\<lambda>a c. b * a + digit_value c) 0 (replicate n (CHR ''0'')) = 0" for n
    by (induction n) (auto simp: digit_value_def)
  then show ?thesis by (simp add: value_in_def pad_zeros_def)
qed

lemma fmt_d_no_dash: "0 \<le> i \<Longrightarrow> CHR ''-'' \<notin> set (fmt_d i)"
  by (simp add: fmt_d_def digits_no_dash)

lemma value_fmt_d: "0 \<le> i \<Longrightarrow> value_in 10 (fmt_d i) = nat i"
  by (simp add: fmt_d_def value_in_digits)

lemma fmt_d_inj_nonneg:
  assumes "0 \<le> i" and "0 \<le> j"
  shows "fmt_d i = fmt_d j \<longleftrightarrow> i = j"
proof
  assume "fmt_d i = fmt_d j"
  then have "nat i = nat j" using value_fmt_d [OF assms(1)] value_fmt_d [OF assms(2)] by simp
  with assms show "i = j" by simp
qed simp

lemma fmt_016X_neg: "CHR ''-'' \<in> set (fmt_016X i) \<longleftrightarrow> i < 0"
  by (auto simp: fmt_016X_def pad_zeros_def digits_no_dash)

lemma value_fmt_016X: "value_in 16 (if i < 0 then tl (fmt_016X i) else fmt_016X i) = nat \<bar>i\<bar>"
  by (simp add: fmt_016X_def value_in_pad value_in_digits)

lemma fmt_016X_inj: "fmt_016X i = fmt_016X j \<longleftrightarrow> i = j"
proof
  assume e: "fmt_016X i = fmt_016X j"
  then have s: "i < 0 \<longleftrightarrow> j < 0" by (metis fmt_016X_neg)
  then have "nat \<bar>i\<bar> = nat \<bar>j\<bar>" using value_fmt_016X [of i] value_fmt_016X [of j] unfolding e s by simp
  with s show "i = j" by auto
qed simp

subsection \<open>Cutting a key at its separator\<close>

lemma cut_first:
  "c \<notin> set a \<Longrightarrow> c \<notin> set b \<Longrightarrow> a @ c # x = b @ c # y \<longleftrightarrow> a = b \<and> x = y"
proof (induction a arbitrary: b)
  case Nil
  then show ?case by (cases b) auto
next
  case (Cons z a)
  then show ?case by (cases b) auto
qed

lemma cut_last:
  "c \<notin> set x \<Longrightarrow> c \<notin> set y \<Longrightarrow> a @ c # x = b @ c # y \<longleftrightarrow> a = b \<and> x = y"
proof -
  assume "c \<notin> set x" "c \<notin> set y"
  then have "rev x @ c # rev a = rev y @ c # rev b \<longleftrightarrow> rev x = rev y \<and> rev a = rev b"
    by (intro cut_first) auto
  moreover have "a @ c # x = b @ c # y \<longleftrightarrow> rev (a @ c # x) = rev (b @ c # y)"
    by (rule rev_is_rev_conv [symmetric])
  ultimately show ?thesis by auto
qed

end
