(* ===== verification/BlockSelector.thy ===== *)
theory BlockSelector
  imports Blocklist GoFmt "HOL-Library.Signed_Division"
begin

section \<open>Choosing blocks to compact (tempodb/blockselector)\<close>

text \<open>
  Models \<open>tempodb/blockselector/compaction_block_selector.go\<close> and the choice of a block encoding
  in \<open>tempodb/encoding/versioned.go\<close>. The selector is built once from a tenant's blocklist: it
  drops the blocks that must not be compacted, computes for every other block a group key, an
  order key and an ownership hash, and sorts. \<open>BlocksToCompact\<close> is then called repeatedly and
  consumes the sorted entries.

  \<open>TotalObjects\<close> is a Go \<open>int64\<close> (read with \<open>sint\<close>), sums of object counts and sizes wrap as in
  Go. A division by a zero window length and an index into an empty slice panic: \<open>None\<close> and
  \<open>Panic\<close>. Window numbers and ages are small for any clock, so they are \<open>int\<close>s.
\<close>

subsection \<open>Encodings by version\<close>

datatype versioned_encoding = VParquet3 | VParquet4 | VParquet5 | Unsupported

definition FromVersion :: "string \<Rightarrow> versioned_encoding option" where
  "FromVersion v =
     (if v = ''vParquet3'' then Some VParquet3
      else if v = ''vParquet4'' then Some VParquet4
      else if v = ''vParquet5'' then Some VParquet5
      else if sublist ''preview'' v then Some Unsupported
      else None)"

fun CompactionSupported :: "versioned_encoding \<Rightarrow> bool" where
  "CompactionSupported Unsupported = False"
| "CompactionSupported _ = True"

fun WritesSupported :: "versioned_encoding \<Rightarrow> bool" where
  "WritesSupported Unsupported = False"
| "WritesSupported _ = True"

fun encoding_version :: "versioned_encoding \<Rightarrow> string" where
  "encoding_version VParquet3 = ''vParquet3''"
| "encoding_version VParquet4 = ''vParquet4''"
| "encoding_version VParquet5 = ''vParquet5''"
| "encoding_version Unsupported = ''Unsupported''"

definition FromVersionForWrites :: "string \<Rightarrow> versioned_encoding option" where
  "FromVersionForWrites v =
     (case FromVersion v of
        None \<Rightarrow> None
      | Some enc \<Rightarrow> (if \<not> WritesSupported enc then None else Some enc))"

definition DefaultEncoding :: versioned_encoding where
  "DefaultEncoding = VParquet5"

definition AllEncodings :: "versioned_encoding list" where
  "AllEncodings = [VParquet3, VParquet4, VParquet5]"

definition AllEncodingsForWrites :: "versioned_encoding list" where
  "AllEncodingsForWrites = filter WritesSupported AllEncodings"

definition CoalesceVersion :: "string list \<Rightarrow> versioned_encoding option" where
  "CoalesceVersion versions =
     FromVersionForWrites
       (foldl (\<lambda>ver v. if v \<noteq> '''' then v else ver) (encoding_version DefaultEncoding) versions)"

subsection \<open>The selector\<close>

record entry =
  meta :: block_meta
  group :: string
  order :: string
  hash :: string
  entryDedicatedColumnsHash :: u64

record selector =
  MinInputBlocks :: int
  MaxInputBlocks :: int
  MaxCompactionRange :: int
  MaxCompactionObjects :: int
  MaxBlockBytes :: u64
  MaxCompactionLevel :: u32
  entries :: "entry list"

definition nano :: int where "nano = 1000000000"
definition activeWindowDuration :: int where "activeWindowDuration = 24 * 3600 * nano"

definition windowForTime :: "int \<Rightarrow> time \<Rightarrow> int option" where
  "windowForTime maxRange t =
     (let secs = maxRange sdiv nano in
      if secs = 0 then None else Some ((t div nano) sdiv secs))"

definition windowForBlock :: "int \<Rightarrow> block_meta \<Rightarrow> int option" where
  "windowForBlock maxRange b = windowForTime maxRange (EndTime b)"

text \<open>The entry of a block in window \<open>w\<close>, seen from the current and the active window.\<close>

definition mk_entry :: "int \<Rightarrow> int \<Rightarrow> block_meta \<Rightarrow> int \<Rightarrow> entry" where
  "mk_entry currWindow activeWindow b w =
     (let age = currWindow - w;
          lvl = fmt_d (uint (CompactionLevel b));
          rf = fmt_d (uint (ReplicationFactor b));
          objs = fmt_016X (sint (TotalObjects b));
          cols = fmt_016X (uint (DedicatedColumnsHash b))
      in if activeWindow \<le> w
         then \<lparr>meta = b,
               group = ''A-'' @ lvl @ ''-'' @ fmt_016X age @ ''-'' @ rf,
               order = objs @ ''-'' @ Version b @ ''-'' @ cols,
               hash = TenantID b @ ''-'' @ lvl @ ''-'' @ fmt_d w @ ''-'' @ rf,
               entryDedicatedColumnsHash = DedicatedColumnsHash b\<rparr>
         else \<lparr>meta = b,
               group = ''B-'' @ fmt_016X age @ ''-'' @ rf,
               order = lvl @ ''-'' @ objs @ ''-'' @ Version b @ ''-'' @ cols,
               hash = TenantID b @ ''-'' @ fmt_d w @ ''-'' @ rf,
               entryDedicatedColumnsHash = DedicatedColumnsHash b\<rparr>)"

definition block_supported :: "block_meta \<Rightarrow> bool" where
  "block_supported b =
     (case FromVersion (Version b) of None \<Rightarrow> False | Some enc \<Rightarrow> CompactionSupported enc)"

fun build_entries :: "selector \<Rightarrow> int \<Rightarrow> int \<Rightarrow> block_meta list \<Rightarrow> entry list option" where
  "build_entries twbs currWindow activeWindow [] = Some []"
| "build_entries twbs currWindow activeWindow (b # bs) =
     (if \<not> block_supported b then build_entries twbs currWindow activeWindow bs
      else if MaxCompactionLevel twbs \<noteq> 0 \<and> CompactionLevel b \<ge> MaxCompactionLevel twbs
      then build_entries twbs currWindow activeWindow bs
      else case windowForBlock (MaxCompactionRange twbs) b of
        None \<Rightarrow> None
      | Some w \<Rightarrow>
          (if w = activeWindow then build_entries twbs currWindow activeWindow bs
           else map_option (Cons (mk_entry currWindow activeWindow b w))
                  (build_entries twbs currWindow activeWindow bs)))"

definition NewTimeWindowBlockSelector ::
  "time \<Rightarrow> block_meta list \<Rightarrow> int \<Rightarrow> int \<Rightarrow> u64 \<Rightarrow> int \<Rightarrow> int \<Rightarrow> int \<Rightarrow> selector option" where
  "NewTimeWindowBlockSelector now bl maxRange maxObjects maxBytes minBlocks maxBlocks maxLevel =
     (let twbs = \<lparr>MinInputBlocks = minBlocks, MaxInputBlocks = maxBlocks,
            MaxCompactionRange = maxRange, MaxCompactionObjects = maxObjects,
            MaxBlockBytes = maxBytes, MaxCompactionLevel = of_int maxLevel, entries = []\<rparr>
      in case (windowForTime maxRange now, windowForTime maxRange (now - activeWindowDuration)) of
           (Some currWindow, Some activeWindow) \<Rightarrow>
             map_option (\<lambda>es. twbs\<lparr>entries := sort_key (\<lambda>e. (group e, order e)) es\<rparr>)
               (build_entries twbs currWindow activeWindow bl)
         | _ \<Rightarrow> None)"

definition totalObjects :: "entry list \<Rightarrow> u64" where
  "totalObjects es = foldl (\<lambda>n e. n + TotalObjects (meta e)) 0 es"

definition totalSize :: "entry list \<Rightarrow> u64" where
  "totalSize es = foldl (\<lambda>n e. n + SizeBytes (meta e)) 0 es"

definition stripe_ok :: "selector \<Rightarrow> entry \<Rightarrow> entry \<Rightarrow> entry list \<Rightarrow> bool" where
  "stripe_ok twbs ei ej stripe \<longleftrightarrow>
     group ei = group ej \<and> Version (meta ei) = Version (meta ej) \<and>
     entryDedicatedColumnsHash ei = entryDedicatedColumnsHash ej \<and>
     int (length stripe) \<le> MaxInputBlocks twbs \<and>
     sint (totalObjects stripe) \<le> MaxCompactionObjects twbs \<and>
     totalSize stripe \<le> MaxBlockBytes twbs"

text \<open>The loop over \<open>j\<close>: \<open>before\<close> is the stripe up to \<open>j\<close>, \<open>chosen\<close> the last one that fitted.\<close>

fun grow_stripe :: "selector \<Rightarrow> entry \<Rightarrow> entry list \<Rightarrow> entry list \<Rightarrow> entry list \<Rightarrow> entry list" where
  "grow_stripe twbs ei before chosen [] = chosen"
| "grow_stripe twbs ei before chosen (ej # es) =
     (let stripe = before @ [ej] in
      if stripe_ok twbs ei ej stripe then grow_stripe twbs ei stripe stripe es else chosen)"

text \<open>The loop over \<open>i\<close>: the first stripe found and the entries that follow it.\<close>

fun find_stripe :: "selector \<Rightarrow> entry list \<Rightarrow> entry list \<times> entry list" where
  "find_stripe twbs [] = ([], [])"
| "find_stripe twbs (ei # es) =
     (let chosen = grow_stripe twbs ei [ei] [] es in
      if length chosen > 0 then (chosen, drop (length chosen) (ei # es))
      else find_stripe twbs es)"

lemma find_stripe_shrinks: "es \<noteq> [] \<Longrightarrow> length (snd (find_stripe twbs es)) < length es"
proof (induction twbs es rule: find_stripe.induct)
  case (2 twbs ei es)
  then show ?case
    by (cases es) (auto simp: Let_def less_SucI)
qed simp

datatype selection = Panic | Selected "block_meta list" string

function blocks_loop :: "selector \<Rightarrow> entry list \<Rightarrow> selection \<times> entry list" where
  "blocks_loop twbs es =
     (if es = [] then (Selected [] [], [])
      else let (chosen, rest) = find_stripe twbs es in
        if int (length chosen) \<ge> MinInputBlocks twbs
        then (case chosen of [] \<Rightarrow> (Panic, rest) | e # _ \<Rightarrow> (Selected (map meta chosen) (hash e), rest))
        else blocks_loop twbs rest)"
  by pat_completeness auto
termination
  by (relation "measure (length \<circ> snd)") (auto, metis find_stripe_shrinks snd_conv)

declare blocks_loop.simps [simp del]

definition BlocksToCompact :: "selector \<Rightarrow> selection \<times> selector" where
  "BlocksToCompact twbs =
     (let (r, es) = blocks_loop twbs (entries twbs) in (r, twbs\<lparr>entries := es\<rparr>))"

subsection \<open>Stripes\<close>

text \<open>
  What the inner loop computes, exactly: the longest prefix of entries that fits, where each
  shorter prefix also fitted.
\<close>

definition stripe_at :: "selector \<Rightarrow> entry \<Rightarrow> entry list \<Rightarrow> entry list \<Rightarrow> nat \<Rightarrow> bool" where
  "stripe_at twbs ei before es k \<longleftrightarrow> k \<le> length es \<and>
     (\<forall>i<k. stripe_ok twbs ei (es ! i) (before @ take (Suc i) es)) \<and>
     (k < length es \<longrightarrow> \<not> stripe_ok twbs ei (es ! k) (before @ take (Suc k) es))"

lemma grow_stripe_longest:
  "\<exists>k. stripe_at twbs ei before es k \<and>
     grow_stripe twbs ei before chosen es = (if k = 0 then chosen else before @ take k es)"
proof (induction es arbitrary: before chosen)
  case Nil
  then show ?case by (simp add: stripe_at_def)
next
  case (Cons ej es)
  show ?case
  proof (cases "stripe_ok twbs ei ej (before @ [ej])")
    case True
    from Cons.IH [of "before @ [ej]" "before @ [ej]"] obtain k where
      k: "stripe_at twbs ei (before @ [ej]) es k"
      "grow_stripe twbs ei (before @ [ej]) (before @ [ej]) es =
         (if k = 0 then before @ [ej] else (before @ [ej]) @ take k es)"
      by blast
    have "stripe_ok twbs ei ((ej # es) ! i) (before @ take (Suc i) (ej # es))" if "i < Suc k" for i
      using True k(1) that by (cases i) (auto simp: stripe_at_def)
    with True k have "stripe_at twbs ei before (ej # es) (Suc k)"
      by (auto simp: stripe_at_def)
    with True k(2) show ?thesis by (intro exI [of _ "Suc k"]) (auto simp: Let_def)
  next
    case False
    then show ?thesis by (intro exI [of _ 0]) (simp add: stripe_at_def)
  qed
qed

text \<open>A stripe that may be compacted.\<close>

definition good_stripe :: "selector \<Rightarrow> entry list \<Rightarrow> bool" where
  "good_stripe twbs c \<longleftrightarrow> 2 \<le> length c \<and> int (length c) \<le> MaxInputBlocks twbs \<and>
     (\<forall>e\<in>set c. group e = group (hd c) \<and> Version (meta e) = Version (meta (hd c)) \<and>
        entryDedicatedColumnsHash e = entryDedicatedColumnsHash (hd c)) \<and>
     sint (totalObjects c) \<le> MaxCompactionObjects twbs \<and> totalSize c \<le> MaxBlockBytes twbs"

lemma stripe_at_good:
  assumes "stripe_at twbs ei [ei] es k" and "0 < k"
  shows "good_stripe twbs (ei # take k es)"
proof -
  from assms have last: "stripe_ok twbs ei (es ! (k - 1)) ([ei] @ take (Suc (k - 1)) es)"
    unfolding stripe_at_def by (metis diff_Suc_less diff_less less_numeral_extra(1))
  have each: "e \<in> set (take k es) \<Longrightarrow> \<exists>i<k. stripe_ok twbs ei e (ei # take (Suc i) es)" for e
    using assms by (auto simp: stripe_at_def in_set_conv_nth)
  show ?thesis
    using assms last each
    by (fastforce simp: good_stripe_def stripe_ok_def stripe_at_def)
qed

lemma find_stripe_cases:
  assumes "find_stripe twbs es = (c, rest)"
  shows "(c = [] \<and> rest = [] \<and>
      (\<forall>i. Suc i < length es \<longrightarrow>
         \<not> stripe_ok twbs (es ! i) (es ! Suc i) [es ! i, es ! Suc i])) \<or>
    (good_stripe twbs c \<and> (\<exists>pre. es = pre @ c @ rest))"
  using assms
proof (induction es)
  case (Cons ei es)
  obtain k where k: "stripe_at twbs ei [ei] es k"
    "grow_stripe twbs ei [ei] [] es = (if k = 0 then [] else [ei] @ take k es)"
    using grow_stripe_longest by blast
  show ?case
  proof (cases "k = 0")
    case True
    with k Cons.prems have fs: "find_stripe twbs es = (c, rest)" by simp
    have first: "es \<noteq> [] \<Longrightarrow> \<not> stripe_ok twbs ei (es ! 0) [ei, es ! 0]"
      using k(1) True by (cases es) (auto simp: stripe_at_def)
    from Cons.IH [OF fs] show ?thesis
    proof (elim disjE conjE exE)
      assume none: "c = []" "rest = []" "\<forall>i. Suc i < length es \<longrightarrow>
         \<not> stripe_ok twbs (es ! i) (es ! Suc i) [es ! i, es ! Suc i]"
      have "\<not> stripe_ok twbs ((ei # es) ! i) ((ei # es) ! Suc i) [(ei # es) ! i, (ei # es) ! Suc i]"
        if "Suc i < length (ei # es)" for i
        using that none(3) first by (cases i) auto
      with none show ?thesis by blast
    next
      fix pre assume "good_stripe twbs c" "es = pre @ c @ rest"
      then have "good_stripe twbs c \<and> (\<exists>pre. ei # es = pre @ c @ rest)"
        by (metis append_Cons)
      then show ?thesis ..
    qed
  next
    case False
    with k(2) have "grow_stripe twbs ei [ei] [] es = ei # take k es" by simp
    then have "find_stripe twbs (ei # es) =
        (ei # take k es, drop (length (ei # take k es)) (ei # es))"
      by (simp add: Let_def)
    with Cons.prems have "(c, rest) = (ei # take k es, drop (length (ei # take k es)) (ei # es))"
      by (simp only:)
    then have c: "c = ei # take k es" and "rest = drop (length c) (ei # es)"
      unfolding prod.inject by (blast, metis)
    then have "ei # es = [] @ c @ rest"
      using c by (simp add: min_def)
    moreover note c
    moreover have "good_stripe twbs (ei # take k es)"
      using False k(1) by (intro stripe_at_good) auto
    ultimately show ?thesis by metis
  qed
qed simp

lemma blocks_loop_result:
  "blocks_loop twbs es = (r, rest) \<Longrightarrow> 1 \<le> MinInputBlocks twbs \<Longrightarrow>
    (r = Selected [] [] \<and> rest = []) \<or>
    (\<exists>pre c. es = pre @ c @ rest \<and> good_stripe twbs c \<and> MinInputBlocks twbs \<le> int (length c) \<and>
       r = Selected (map meta c) (hash (hd c)))"
proof (induction twbs es rule: blocks_loop.induct)
  case (1 twbs es)
  obtain c rs where f: "find_stripe twbs es = (c, rs)" by fastforce
  consider "es = []" | "es \<noteq> []" "MinInputBlocks twbs \<le> int (length c)"
    | "es \<noteq> []" "\<not> MinInputBlocks twbs \<le> int (length c)" by blast
  then show ?case
  proof cases
    case 1
    with "1.prems" show ?thesis by (simp add: blocks_loop.simps)
  next
    case 2
    then have "c \<noteq> []" using "1.prems"(2) by auto
    with 2 f "1.prems"(1) have "r = Selected (map meta c) (hash (hd c))" "rest = rs"
      by (auto simp: blocks_loop.simps [of twbs es] split: list.splits)
    with 2 find_stripe_cases [OF f] \<open>c \<noteq> []\<close> show ?thesis by blast
  next
    case 3
    with f "1.prems"(1) have rec: "blocks_loop twbs rs = (r, rest)"
      by (simp add: blocks_loop.simps [of twbs es])
    have suf: "\<exists>p. es = p @ rs" using find_stripe_cases [OF f] by (metis append.right_neutral append_assoc)
    from "1.IH" [OF 3(1) refl f [symmetric] 3(2) rec "1.prems"(2)] suf
    show ?thesis by (metis append_assoc)
  qed
qed

subsection \<open>The entries of a new selector\<close>

text \<open>The blocks that may be compacted at all.\<close>

definition compactable :: "int \<Rightarrow> u32 \<Rightarrow> int \<Rightarrow> block_meta \<Rightarrow> bool" where
  "compactable maxRange maxLevel activeWindow b \<longleftrightarrow>
     block_supported b \<and> (maxLevel = 0 \<or> CompactionLevel b < maxLevel) \<and>
     windowForBlock maxRange b \<noteq> Some activeWindow"

lemma meta_mk_entry [simp]: "meta (mk_entry cw aw b w) = b"
  by (simp add: mk_entry_def Let_def)

lemma build_entries_filter:
  "build_entries twbs cw aw bl = Some es \<Longrightarrow>
   map meta es = filter (compactable (MaxCompactionRange twbs) (MaxCompactionLevel twbs) aw) bl"
  by (induction bl arbitrary: es)
    (auto simp: compactable_def not_less split: if_splits option.splits)

lemma build_entries_mk:
  "build_entries twbs cw aw bl = Some es \<Longrightarrow> e \<in> set es \<Longrightarrow>
   \<exists>w. windowForBlock (MaxCompactionRange twbs) (meta e) = Some w \<and> e = mk_entry cw aw (meta e) w"
  by (induction bl arbitrary: es) (auto split: if_splits option.splits)

lemma mk_entry_group_inj:
  assumes "group (mk_entry cw aw b w) = group (mk_entry cw aw b' w')"
  shows "w = w' \<and> ReplicationFactor b = ReplicationFactor b' \<and>
    (aw \<le> w \<longrightarrow> CompactionLevel b = CompactionLevel b')"
proof -
  have d: "CHR ''-'' \<notin> set (fmt_d (uint v))" for v :: u32 by (rule fmt_d_no_dash) simp
  have i: "fmt_d (uint v) = fmt_d (uint u) \<longleftrightarrow> v = u" for v u :: u32
    by (simp add: fmt_d_inj_nonneg word_uint_eq_iff)
  show ?thesis
    using assms
    by (auto simp: mk_entry_def Let_def cut_first cut_last d i fmt_016X_inj split: if_splits)
qed

lemma NewSelector_entries:
  assumes "NewTimeWindowBlockSelector now bl maxRange maxObjects maxBytes minB maxB maxLevel = Some twbs"
  obtains cw aw es where "windowForTime maxRange now = Some cw"
    "windowForTime maxRange (now - activeWindowDuration) = Some aw"
    "entries twbs = sort_key (\<lambda>e. (group e, order e)) es"
    "map meta es = filter (compactable maxRange (of_int maxLevel) aw) bl"
    "\<And>e. e \<in> set es \<Longrightarrow> \<exists>w. windowForBlock maxRange (meta e) = Some w \<and> e = mk_entry cw aw (meta e) w"
proof -
  define t0 where "t0 = \<lparr>MinInputBlocks = minB, MaxInputBlocks = maxB,
    MaxCompactionRange = maxRange, MaxCompactionObjects = maxObjects, MaxBlockBytes = maxBytes,
    MaxCompactionLevel = of_int maxLevel, entries = []\<rparr>"
  obtain cw aw es where "windowForTime maxRange now = Some cw"
    "windowForTime maxRange (now - activeWindowDuration) = Some aw"
    "entries twbs = sort_key (\<lambda>e. (group e, order e)) es" and b: "build_entries t0 cw aw bl = Some es"
    using assms
    by (auto simp: NewTimeWindowBlockSelector_def Let_def t0_def split: option.splits)
  with build_entries_filter [OF b] build_entries_mk [OF b] show ?thesis
    by (intro that) (auto simp: t0_def)
qed

lemma selected_blocks_fit_lemma:
  assumes "BlocksToCompact twbs = (Selected bs h, twbs')" and "bs \<noteq> []"
    and "1 \<le> MinInputBlocks twbs"
  shows "\<exists>pre c. entries twbs = pre @ c @ entries twbs' \<and> bs = map meta c \<and> h = hash (hd c) \<and>
    good_stripe twbs c \<and> MinInputBlocks twbs \<le> int (length c)"
proof -
  from assms(1) have "blocks_loop twbs (entries twbs) = (Selected bs h, entries twbs')"
    by (auto simp: BlocksToCompact_def split: prod.splits)
  from blocks_loop_result [OF this assms(3)] assms(2) show ?thesis by blast
qed

subsection \<open>Properties\<close>

text \<open>C39. What \<open>BlocksToCompact\<close> returns can be compacted: the blocks are consecutive entries of one
  group, one version and one set of dedicated columns, at least two and at least
  \<open>MinInputBlocks\<close> of them, at most \<open>MaxInputBlocks\<close>, within the limits on objects and bytes; and
  the selector continues with the entries after them.\<close>

theorem selected_blocks_fit:
  assumes "BlocksToCompact twbs = (Selected bs h, twbs')" and "bs \<noteq> []"
    and "1 \<le> MinInputBlocks twbs"
  shows "\<exists>pre c. entries twbs = pre @ c @ entries twbs' \<and> bs = map meta c \<and> h = hash (hd c) \<and>
    good_stripe twbs c \<and> MinInputBlocks twbs \<le> int (length c)"
  using assms by (rule selected_blocks_fit_lemma)

definition sample_block :: "uuid \<Rightarrow> time \<Rightarrow> block_meta" where
  "sample_block i t = \<lparr>Version = ''vParquet5'', BlockID = i, TenantID = ''t'', StartTime = t,
     EndTime = t, TotalObjects = 10, SizeBytes = 100, CompactionLevel = 0,
     DedicatedColumnsHash = 0, ReplicationFactor = 1\<rparr>"

definition sample_entry :: "uuid \<Rightarrow> entry" where
  "sample_entry i = \<lparr>meta = sample_block i 0, group = ''A'', order = '''', hash = ''h'',
     entryDedicatedColumnsHash = 0\<rparr>"

definition sample_selector :: "uuid list \<Rightarrow> selector" where
  "sample_selector is = \<lparr>MinInputBlocks = 2, MaxInputBlocks = 4, MaxCompactionRange = 3600 * nano,
     MaxCompactionObjects = 1000, MaxBlockBytes = 1000, MaxCompactionLevel = 0,
     entries = map sample_entry is\<rparr>"

lemma sample_selection:
  "BlocksToCompact (sample_selector [1, 2]) =
     (Selected [sample_block 1 0, sample_block 2 0] ''h'', sample_selector [])"
  by (simp add: BlocksToCompact_def sample_selector_def blocks_loop.simps sample_entry_def
      stripe_ok_def totalObjects_def totalSize_def sample_block_def)

theorem selected_blocks_fit_witness:
  "\<exists>pre c. entries (sample_selector [1, 2]) = pre @ c @ entries (sample_selector []) \<and>
     [sample_block 1 0, sample_block 2 0] = map meta c \<and> ''h'' = hash (hd c) \<and>
     good_stripe (sample_selector [1, 2]) c \<and>
     MinInputBlocks (sample_selector [1, 2]) \<le> int (length c)"
  by (rule selected_blocks_fit [OF sample_selection]) (simp_all add: sample_selector_def)



text \<open>A new selector holds exactly the blocks that may be compacted (a supported version,
  below the maximum level, and not in the window that is about to turn inactive), in the order
  of their keys, equal keys as listed.\<close>

theorem selector_holds_compactable_blocks:
  assumes "NewTimeWindowBlockSelector now bl maxRange maxObjects maxBytes minB maxB maxLevel = Some twbs"
    and "windowForTime maxRange (now - activeWindowDuration) = Some activeWindow"
  shows "mset (map meta (entries twbs)) =
      mset (filter (compactable maxRange (of_int maxLevel) activeWindow) bl) \<and>
    sorted (map (\<lambda>e. (group e, order e)) (entries twbs))"
proof -
  obtain cw aw es where "windowForTime maxRange (now - activeWindowDuration) = Some aw"
    "entries twbs = sort_key (\<lambda>e. (group e, order e)) es"
    "map meta es = filter (compactable maxRange (of_int maxLevel) aw) bl"
    using NewSelector_entries [OF assms(1)] by metis
  moreover from this assms(2) have "mset (map meta es) =
      mset (filter (compactable maxRange (of_int maxLevel) activeWindow) bl)" by simp
  then have "image_mset meta (mset es) =
      mset (filter (compactable maxRange (of_int maxLevel) activeWindow) bl)" by (simp only: mset_map)
  ultimately show ?thesis by simp
qed

lemma sample_new_selector:
  "\<exists>twbs. NewTimeWindowBlockSelector 0 [sample_block 1 0, sample_block 2 0] (3600 * nano)
     1000 1000 2 4 0 = Some twbs"
  by (simp add: NewTimeWindowBlockSelector_def windowForTime_def windowForBlock_def nano_def
      activeWindowDuration_def signed_divide_int_def sample_block_def block_supported_def FromVersion_def)

theorem selector_holds_compactable_blocks_witness:
  "\<exists>twbs :: selector. mset (map meta (entries twbs)) =
     mset (filter (compactable (3600 * nano) 0 (-24)) [sample_block 1 0, sample_block 2 0])"
proof -
  obtain twbs where s: "NewTimeWindowBlockSelector 0 [sample_block 1 0, sample_block 2 0]
      (3600 * nano) 1000 1000 2 4 0 = Some twbs"
    using sample_new_selector by blast
  have "windowForTime (3600 * nano) (0 - activeWindowDuration) = Some (-24)"
    by (simp add: windowForTime_def nano_def activeWindowDuration_def signed_divide_int_def)
  from selector_holds_compactable_blocks [OF s this] show ?thesis by auto
qed

text \<open>Blocks chosen together from a new selector always lie in the same time window and have
  the same replication factor: the textual group keys never confuse two windows.\<close>

theorem compaction_keeps_windows_apart:
  assumes "NewTimeWindowBlockSelector now bl maxRange maxObjects maxBytes minB maxB maxLevel = Some twbs"
    and "BlocksToCompact twbs = (Selected bs h, twbs')" and "1 \<le> minB"
    and "a \<in> set bs" and "b \<in> set bs"
  shows "windowForBlock maxRange a = windowForBlock maxRange b \<and>
    ReplicationFactor a = ReplicationFactor b"
proof -
  obtain cw aw es where es: "entries twbs = sort_key (\<lambda>e. (group e, order e)) es"
    "\<And>e. e \<in> set es \<Longrightarrow> \<exists>w. windowForBlock maxRange (meta e) = Some w \<and> e = mk_entry cw aw (meta e) w"
    using NewSelector_entries [OF assms(1)] by metis
  have "MinInputBlocks twbs = minB"
    using assms(1) by (auto simp: NewTimeWindowBlockSelector_def Let_def split: option.splits)
  with selected_blocks_fit_lemma [OF assms(2)] assms(3,4) obtain pre c where
    c: "entries twbs = pre @ c @ entries twbs'" "bs = map meta c" "good_stripe twbs c"
    by fastforce
  with assms(4,5) obtain ea eb where ab: "ea \<in> set c" "eb \<in> set c" "a = meta ea" "b = meta eb"
    by auto
  then have "group ea = group eb" using c(3) by (auto simp: good_stripe_def)
  moreover have "set c \<subseteq> set es"
    using c(1) es(1) by (metis Un_iff set_append set_sort subsetI)
  ultimately show ?thesis
    using ab es(2) mk_entry_group_inj by (metis subsetD)
qed

definition picked :: "selector option \<Rightarrow> block_meta list" where
  "picked s = (case s of None \<Rightarrow> [] | Some twbs \<Rightarrow>
     (case BlocksToCompact twbs of (Selected bs h, _) \<Rightarrow> bs | _ \<Rightarrow> []))"

lemma sample_picked:
  "map BlockID (picked (NewTimeWindowBlockSelector 0 [sample_block 1 0, sample_block 2 7]
     (3600 * nano) 1000 1000 2 4 0)) = [1, 2]"
  by code_simp

theorem compaction_keeps_windows_apart_witness:
  "\<exists>a b :: block_meta. BlockID a = 1 \<and> BlockID b = 2 \<and>
     windowForBlock (3600 * nano) a = windowForBlock (3600 * nano) b"
proof -
  let ?new = "NewTimeWindowBlockSelector 0 [sample_block 1 0, sample_block 2 7] (3600 * nano)
     1000 1000 2 4 0"
  from sample_picked obtain twbs twbs' bs h where s: "?new = Some twbs"
    "BlocksToCompact twbs = (Selected bs h, twbs')" "map BlockID bs = [1, 2]"
    by (auto simp: picked_def split: option.splits prod.splits selection.splits)
  then obtain a b where "bs = [a, b]" "BlockID a = 1" "BlockID b = 2" by auto
  with compaction_keeps_windows_apart [OF s(1,2), of a b] show ?thesis by auto
qed

end
