(* ===== verification/RequestQueue.thy ===== *)
theory RequestQueue
  imports Prelude "HOL-Library.Monad_Syntax"
begin

section \<open>The query frontend's request queue (modules/frontend/queue)\<close>

text \<open>
  Models \<open>modules/frontend/queue/user_queues.go\<close> (per-tenant FIFO queues and the list of tenants
  that is scanned round robin) and \<open>modules/frontend/queue/queue.go\<close> (enqueue, batch dequeue,
  clean-up, shutdown).

  A channel is the list of its buffered requests, oldest first. An access that Go would answer
  with a panic (an index out of range, a nil pointer) is \<open>None\<close>; property \<open>queue_never_panics\<close> and the invariant
  show that it does not happen. The prometheus gauges are not modelled. \<open>weight\<close> stands for the
  method \<open>Weight\<close> of the \<open>Request\<close> interface.

  The last part is a step relation for the whole queue with its service: the steps are the
  critical sections of the code, so an enqueue that has to trade its read lock for the write
  lock is two steps.
\<close>

subsection \<open>user\_queues.go\<close>

record 'r user_queue =
  ch :: "'r list"
  index :: nat

record 'r queues =
  userQueues :: "string \<rightharpoonup> 'r user_queue"
  users :: "string list"
  maxUserQueueSize :: nat

definition newUserQueues :: "nat \<Rightarrow> 'r queues" where
  "newUserQueues n = \<lparr>userQueues = Map.empty, users = [], maxUserQueueSize = n\<rparr>"

definition queues_len :: "'r queues \<Rightarrow> nat" where
  "queues_len q = card (dom (userQueues q))"

text \<open>The loop that cuts free spots off the end of the list.\<close>

definition shrink :: "string list \<Rightarrow> string list" where
  "shrink us = rev (dropWhile (\<lambda>u. u = '''') (rev us))"

definition deleteQueue :: "string \<Rightarrow> 'r queues \<Rightarrow> 'r queues option" where
  "deleteQueue userID q =
     (case userQueues q userID of
        None \<Rightarrow> Some q
      | Some uq \<Rightarrow>
          (if index uq < length (users q)
           then Some (q\<lparr>userQueues := (userQueues q)(userID := None),
                        users := shrink ((users q)[index uq := ''''])\<rparr>)
           else None))"

text \<open>\<open>order\<close>: the order in which Go ranges over the map of queues.\<close>

fun deleteEmptyQueues :: "string list \<Rightarrow> 'r queues \<Rightarrow> ('r queues \<times> bool) option" where
  "deleteEmptyQueues [] q = Some (q, False)"
| "deleteEmptyQueues (u # order) q =
     (case userQueues q u of
        None \<Rightarrow> deleteEmptyQueues order q
      | Some uq \<Rightarrow>
          (if length (ch uq) = 0
           then do { q' \<leftarrow> deleteQueue u q;
                     (q'', _) \<leftarrow> deleteEmptyQueues order q';
                     Some (q'', True) }
           else deleteEmptyQueues order q))"

fun first_free :: "string list \<Rightarrow> nat option" where
  "first_free [] = None"
| "first_free (u # us) = (if u = '''' then Some 0 else map_option Suc (first_free us))"

definition getOrAddQueue :: "string \<Rightarrow> 'r queues \<Rightarrow> ('r queues \<times> 'r list) option" where
  \<comment> \<open>\<open>None\<close>: the nil channel for the empty user\<close>
  "getOrAddQueue userID q =
     (if userID = '''' then None
      else case userQueues q userID of
        Some uq \<Rightarrow> Some (q, ch uq)
      | None \<Rightarrow>
          (case first_free (users q) of
             Some ix \<Rightarrow>
               Some (q\<lparr>userQueues := (userQueues q)(userID \<mapsto> \<lparr>ch = [], index = ix\<rparr>),
                       users := (users q)[ix := userID]\<rparr>, [])
           | None \<Rightarrow>
               Some (q\<lparr>userQueues := (userQueues q)(userID \<mapsto> \<lparr>ch = [], index = length (users q)\<rparr>),
                       users := users q @ [userID]\<rparr>, [])))"

text \<open>The scan for the next queue: the found user (if any) and the index where it stopped.\<close>

fun next_scan :: "'r queues \<Rightarrow> nat \<Rightarrow> int \<Rightarrow> (string option \<times> int) option" where
  "next_scan q 0 uid = Some (None, uid)"
| "next_scan q (Suc iters) uid =
     (let uid1 = uid + 1;
          uid2 = (if uid1 \<ge> int (length (users q)) then 0 else uid1) in
      if uid2 < 0 then None
      else let u = users q ! nat uid2 in
        if u = '''' then next_scan q iters uid2
        else case userQueues q u of
          None \<Rightarrow> None
        | Some uq \<Rightarrow>
            (if length (ch uq) = 0 then next_scan q iters uid2 else Some (Some u, uid2)))"

definition getNextQueueForQuerier :: "'r queues \<Rightarrow> int \<Rightarrow> (string option \<times> int) option" where
  "getNextQueueForQuerier q lastUserIndex = next_scan q (length (users q)) lastUserIndex"

subsection \<open>queue.go\<close>

definition ReuseLastUser :: "int \<Rightarrow> int" where
  "ReuseLastUser lastIdx = (if lastIdx \<ge> 0 then lastIdx - 1 else lastIdx)"

definition FirstUser :: int where "FirstUser = -1"

record 'r request_queue =
  queues_of :: "'r queues"
  stopped :: bool

datatype queue_error = ErrTooManyRequests | ErrStopped | ErrNoQueue | ErrBatchBuffer | ErrContext

text \<open>The send into the channel of a user that has a queue; its select takes the default branch
  when the buffer is full.\<close>

definition send :: "string \<Rightarrow> 'r \<Rightarrow> 'r request_queue \<Rightarrow> queue_error + 'r request_queue" where
  "send userID req s =
     (let q = queues_of s in
      case userQueues q userID of
        None \<Rightarrow> Inl ErrNoQueue
      | Some uq \<Rightarrow>
          (if length (ch uq) < maxUserQueueSize q
           then Inr (s\<lparr>queues_of := q\<lparr>userQueues :=
                  (userQueues q)(userID \<mapsto> uq\<lparr>ch := ch uq @ [req]\<rparr>)\<rparr>\<rparr>)
           else Inl ErrTooManyRequests))"

text \<open>The part under the read lock: refused when stopped, sent when the user has a queue,
  otherwise to be continued under the write lock (\<open>enqueue_slow\<close>).\<close>

datatype 'r enqueue_result = Done "queue_error + 'r request_queue" | UpgradeLock

definition enqueue_fast :: "string \<Rightarrow> 'r \<Rightarrow> 'r request_queue \<Rightarrow> 'r enqueue_result" where
  "enqueue_fast userID req s =
     (if stopped s then Done (Inl ErrStopped)
      else if userQueues (queues_of s) userID \<noteq> None then Done (send userID req s)
      else UpgradeLock)"

definition enqueue_slow ::
  "string \<Rightarrow> 'r \<Rightarrow> 'r request_queue \<Rightarrow> (queue_error + 'r request_queue) \<times> 'r request_queue" where
  \<comment> \<open>the answer, and the state left behind (with the new queue also when the send fails)\<close>
  "enqueue_slow userID req s =
     (case getOrAddQueue userID (queues_of s) of
        None \<Rightarrow> (Inl ErrNoQueue, s)
      | Some (q', _) \<Rightarrow>
          (let s' = s\<lparr>queues_of := q'\<rparr> in
           case send userID req s' of Inl e \<Rightarrow> (Inl e, s') | Inr s'' \<Rightarrow> (Inr s'', s'')))"

text \<open>\<open>EnqueueRequest\<close> without interference between its two critical sections.\<close>

definition EnqueueRequest ::
  "string \<Rightarrow> 'r \<Rightarrow> 'r request_queue \<Rightarrow> queue_error option \<times> 'r request_queue" where
  "EnqueueRequest userID req s =
     (case enqueue_fast userID req s of
        Done (Inl e) \<Rightarrow> (Some e, s)
      | Done (Inr s') \<Rightarrow> (None, s')
      | UpgradeLock \<Rightarrow>
          (case enqueue_slow userID req s of
             (Inl e, s') \<Rightarrow> (Some e, s')
           | (Inr _, s') \<Rightarrow> (None, s')))"

fun take_batch :: "('r \<Rightarrow> int) \<Rightarrow> int \<Rightarrow> nat \<Rightarrow> int \<Rightarrow> 'r list \<Rightarrow> 'r list \<times> 'r list" where
  "take_batch weight requested 0 tot q = ([], q)"
| "take_batch weight requested (Suc n) tot [] = ([], [])"
| "take_batch weight requested (Suc n) tot (r # q) =
     (let tot' = tot + weight r in
      if tot' \<ge> requested then ([r], q)
      else let (b, rest) = take_batch weight requested n tot' q in (r # b, rest))"

definition getBatchBuffer :: "('r \<Rightarrow> int) \<Rightarrow> nat \<Rightarrow> 'r list \<Rightarrow> 'r list \<times> 'r list" where
  "getBatchBuffer weight requestedCount queue =
     take_batch weight (int requestedCount) (min (length queue) requestedCount) 0 queue"

text \<open>
  One pass of \<open>GetNextRequestForQuerier\<close>: \<open>Wait\<close> is the call of \<open>q.cond.Wait\<close>, after which the
  pass is made again with \<open>querierWait\<close> false and the index it carries.
\<close>

datatype 'r get_result =
  GetError queue_error int
| Wait int
| Batch "'r list" int "'r request_queue"

definition get_pass ::
  "('r \<Rightarrow> int) \<Rightarrow> bool \<Rightarrow> bool \<Rightarrow> int \<Rightarrow> nat \<Rightarrow> 'r request_queue \<Rightarrow> 'r get_result option" where
  "get_pass weight ctxDone querierWait lastIdx requestedCount s =
     (let q = queues_of s in
      if requestedCount = 0 then Some (GetError ErrBatchBuffer lastIdx)
      else if (queues_len q = 0 \<or> querierWait) \<and> \<not> ctxDone \<and> \<not> stopped s then Some (Wait lastIdx)
      else if stopped s then Some (GetError ErrStopped lastIdx)
      else if ctxDone then Some (GetError ErrContext lastIdx)
      else do {
        (u, idx) \<leftarrow> getNextQueueForQuerier q lastIdx;
        case u of
          None \<Rightarrow> Some (Wait idx)
        | Some userID \<Rightarrow>
            do { uq \<leftarrow> userQueues q userID;
                 let (b, rest) = getBatchBuffer weight requestedCount (ch uq);
                 Some (Batch b idx (s\<lparr>queues_of := q\<lparr>userQueues :=
                         (userQueues q)(userID \<mapsto> uq\<lparr>ch := rest\<rparr>)\<rparr>\<rparr>)) } })"

definition cleanupQueues :: "string list \<Rightarrow> 'r request_queue \<Rightarrow> 'r request_queue option" where
  "cleanupQueues order s =
     do { (q', _) \<leftarrow> deleteEmptyQueues order (queues_of s); Some (s\<lparr>queues_of := q'\<rparr>) }"

text \<open>\<open>stopping\<close> waits until there is no queue; then it can finish.\<close>

definition stopping :: "'r request_queue \<Rightarrow> 'r request_queue option" where
  "stopping s = (if queues_len (queues_of s) > 0 then None else Some (s\<lparr>stopped := True\<rparr>))"

subsection \<open>The list of users and the map of queues agree\<close>

definition queues_inv :: "'r queues \<Rightarrow> bool" where
  "queues_inv q \<longleftrightarrow>
     (\<forall>u uq. userQueues q u = Some uq \<longrightarrow> u \<noteq> '''' \<and> index uq < length (users q) \<and>
        users q ! index uq = u \<and> length (ch uq) \<le> maxUserQueueSize q) \<and>
     (\<forall>i<length (users q). users q ! i \<noteq> '''' \<longrightarrow>
        (\<exists>uq. userQueues q (users q ! i) = Some uq \<and> index uq = i)) \<and>
     (users q \<noteq> [] \<longrightarrow> last (users q) \<noteq> '''')"

lemma queues_inv_queue:
  "queues_inv q \<Longrightarrow> userQueues q u = Some uq \<Longrightarrow>
   u \<noteq> '''' \<and> index uq < length (users q) \<and> users q ! index uq = u \<and>
   length (ch uq) \<le> maxUserQueueSize q"
  by (simp add: queues_inv_def)

lemma queues_inv_user:
  "queues_inv q \<Longrightarrow> i < length (users q) \<Longrightarrow> users q ! i \<noteq> '''' \<Longrightarrow>
   \<exists>uq. userQueues q (users q ! i) = Some uq \<and> index uq = i"
  by (simp add: queues_inv_def)

lemma finite_queues: "queues_inv q \<Longrightarrow> finite (dom (userQueues q))"
proof -
  assume "queues_inv q"
  then have "dom (userQueues q) \<subseteq> set (users q)"
    by (metis (no_types, lifting) domD nth_mem queues_inv_queue subsetI)
  then show ?thesis by (rule finite_subset) simp
qed

lemma shrink_prefix: "\<exists>n. us = shrink us @ replicate n ''''"
proof -
  let ?t = "takeWhile (\<lambda>u. u = '''') (rev us)"
  have "?t = replicate (length ?t) ''''"
    by (rule replicate_eqI) (auto dest: set_takeWhileD)
  then have "rev ?t = replicate (length ?t) ''''"
    by (metis rev_replicate)
  moreover have "us = shrink us @ rev ?t"
    unfolding shrink_def by (metis rev_append rev_rev_ident takeWhile_dropWhile_id)
  ultimately show ?thesis by metis
qed

lemma shrink_nth: "i < length (shrink us) \<Longrightarrow> shrink us ! i = us ! i"
  using shrink_prefix [of us] by (metis nth_append)

lemma shrink_length: "length (shrink us) \<le> length us"
  unfolding shrink_def by (metis length_dropWhile_le length_rev)

lemma shrink_keeps: "i < length us \<Longrightarrow> us ! i \<noteq> '''' \<Longrightarrow> i < length (shrink us)"
proof (rule ccontr)
  assume i: "i < length us" "us ! i \<noteq> ''''" "\<not> i < length (shrink us)"
  obtain n where n: "us = shrink us @ replicate n ''''" using shrink_prefix by blast
  then have "us ! i = replicate n '''' ! (i - length (shrink us))"
    using i(3) by (metis nth_append)
  moreover have "i - length (shrink us) < n"
    using i(1,3) arg_cong [OF n, of length] by simp
  ultimately show False using i(2) by simp
qed

lemma shrink_last: "shrink us \<noteq> [] \<Longrightarrow> last (shrink us) \<noteq> ''''"
  unfolding shrink_def using hd_dropWhile [of "\<lambda>u. u = ''''" "rev us"]
  by (simp add: last_rev)

lemma queues_inv_new [inv_intros]: "queues_inv (newUserQueues n)"
  by (simp add: queues_inv_def newUserQueues_def)

lemma deleteQueue_Some:
  assumes "queues_inv q"
  shows "\<exists>q'. deleteQueue u q = Some q' \<and> queues_inv q' \<and>
    userQueues q' = (userQueues q)(u := None) \<and> maxUserQueueSize q' = maxUserQueueSize q"
proof (cases "userQueues q u")
  case None
  then have "userQueues q = (userQueues q)(u := None)" by auto
  with None assms show ?thesis by (simp add: deleteQueue_def)
next
  case (Some uq)
  let ?us = "(users q)[index uq := '''']"
  from assms Some have ix: "index uq < length (users q)" "users q ! index uq = u" "u \<noteq> ''''"
    using queues_inv_queue by blast+
  have q1: "v \<noteq> '''' \<and> index vq < length (shrink ?us) \<and> shrink ?us ! index vq = v \<and>
      length (ch vq) \<le> maxUserQueueSize q"
    if "userQueues q v = Some vq" "v \<noteq> u" for v vq
  proof -
    note v = queues_inv_queue [OF assms that(1)]
    with ix that(2) have "index vq \<noteq> index uq" by auto
    with v have "?us ! index vq = v" "index vq < length ?us" "v \<noteq> ''''"
      "length (ch vq) \<le> maxUserQueueSize q" by simp_all
    with shrink_keeps [of "index vq" ?us] shrink_nth [of "index vq" ?us] show ?thesis by simp
  qed
  have q2: "\<exists>vq. ((userQueues q)(u := None)) (shrink ?us ! i) = Some vq \<and> index vq = i"
    if "i < length (shrink ?us)" "shrink ?us ! i \<noteq> ''''" for i
  proof -
    have i: "i < length (users q)" using that(1) shrink_length [of ?us] by simp
    have n: "?us ! i \<noteq> ''''" using that shrink_nth [of i ?us] by simp
    then have ne: "i \<noteq> index uq" using ix by auto
    then have eq: "shrink ?us ! i = users q ! i" using that(1) shrink_nth [of i ?us] by simp
    from queues_inv_user [OF assms i] n ne obtain vq where
      vq: "userQueues q (users q ! i) = Some vq" "index vq = i" by auto
    then have "users q ! i \<noteq> u" using Some ne by auto
    with vq eq show ?thesis by simp
  qed
  have "queues_inv (q\<lparr>userQueues := (userQueues q)(u := None), users := shrink ?us\<rparr>)"
    unfolding queues_inv_def using q1 q2 shrink_last [of ?us] by (auto split: if_splits)
  with Some ix show ?thesis by (simp add: deleteQueue_def)
qed

lemma deleteEmptyQueues_Some:
  assumes "queues_inv q"
  shows "\<exists>q' b. deleteEmptyQueues order q = Some (q', b) \<and> queues_inv q' \<and>
    maxUserQueueSize q' = maxUserQueueSize q \<and>
    (\<forall>u. userQueues q' u = (case userQueues q u of None \<Rightarrow> None
       | Some uq \<Rightarrow> if u \<in> set order \<and> ch uq = [] then None else Some uq))"
  using assms
proof (induction order arbitrary: q)
  case Nil
  then show ?case by (auto split: option.splits)
next
  case (Cons u order)
  show ?case
  proof (cases "\<exists>uq. userQueues q u = Some uq \<and> ch uq = []")
    case True
    then obtain uq where uq: "userQueues q u = Some uq" "ch uq = []" by blast
    obtain q1 where q1: "deleteQueue u q = Some q1" "queues_inv q1"
      "userQueues q1 = (userQueues q)(u := None)" "maxUserQueueSize q1 = maxUserQueueSize q"
      using deleteQueue_Some [OF Cons.prems] by blast
    with Cons.IH [OF q1(2)] uq show ?thesis by (fastforce split: option.splits)
  next
    case False
    then have "deleteEmptyQueues (u # order) q = deleteEmptyQueues order q"
      by (auto split: option.splits)
    moreover have "(u' \<in> set (u # order) \<and> ch vq = []) = (u' \<in> set order \<and> ch vq = [])"
      if "userQueues q u' = Some vq" for u' vq
      using False that by auto
    ultimately show ?thesis
      using Cons.IH [OF Cons.prems] by (fastforce split: option.splits)
  qed
qed

lemma first_free_Some: "first_free us = Some i \<Longrightarrow> i < length us \<and> us ! i = ''''"
  by (induction us arbitrary: i) (auto split: if_splits)

lemma getOrAddQueue_inv:
  assumes "queues_inv q" and "getOrAddQueue u q = Some (q', c)"
  shows "queues_inv q' \<and> maxUserQueueSize q' = maxUserQueueSize q \<and>
    (\<exists>uq. userQueues q' u = Some uq \<and> ch uq = c) \<and>
    (\<forall>v. (case userQueues q' v of None \<Rightarrow> [] | Some uq \<Rightarrow> ch uq) =
         (case userQueues q v of None \<Rightarrow> [] | Some uq \<Rightarrow> ch uq)) \<and>
    dom (userQueues q) \<subseteq> dom (userQueues q')"
proof (cases "userQueues q u")
  case (Some uq)
  with assms show ?thesis by (auto simp: getOrAddQueue_def split: if_splits)
next
  case None
  from assms(2) have u: "u \<noteq> ''''" by (auto simp: getOrAddQueue_def split: if_splits)
  have nu: "users q ! i \<noteq> u" if "i < length (users q)" for i
    using queues_inv_user [OF assms(1) that] None u by auto
  show ?thesis
  proof (cases "first_free (users q)")
    case (Some ix)
    from first_free_Some [OF Some] have ix: "ix < length (users q)" "users q ! ix = ''''" by auto
    have ne: "index vq \<noteq> ix" if "userQueues q v = Some vq" for v vq
      using queues_inv_queue [OF assms(1) that] ix by auto
    have l: "last ((users q)[ix := u]) \<noteq> ''''"
    proof -
      have "users q \<noteq> []" using ix by auto
      then show ?thesis using assms(1) u by (simp add: queues_inv_def last_list_update)
    qed
    have "queues_inv (q\<lparr>userQueues := (userQueues q)(u \<mapsto> \<lparr>ch = [], index = ix\<rparr>),
        users := (users q)[ix := u]\<rparr>)"
      unfolding queues_inv_def
      using queues_inv_queue [OF assms(1)] queues_inv_user [OF assms(1)] u ix ne nu l
      by (auto simp: nth_list_update)
    with Some None u assms show ?thesis by (auto simp: getOrAddQueue_def)
  next
    case none: None
    have "queues_inv (q\<lparr>userQueues := (userQueues q)(u \<mapsto> \<lparr>ch = [], index = length (users q)\<rparr>),
        users := users q @ [u]\<rparr>)"
      unfolding queues_inv_def
      using queues_inv_queue [OF assms(1)] queues_inv_user [OF assms(1)] u nu
      by (auto simp: nth_append less_Suc_eq)
    with none None u assms show ?thesis by (auto simp: getOrAddQueue_def)
  qed
qed

lemma queues_inv_set_ch:
  assumes "queues_inv q" and "userQueues q u = Some uq" and "length c \<le> maxUserQueueSize q"
  shows "queues_inv (q\<lparr>userQueues := (userQueues q)(u \<mapsto> uq\<lparr>ch := c\<rparr>)\<rparr>)"
proof -
  have "index uq = i" if "i < length (users q)" "users q ! i = u" for i
    using queues_inv_user [OF assms(1) that(1)] queues_inv_queue [OF assms(1,2)] that(2) assms(2)
    by auto
  with assms show ?thesis unfolding queues_inv_def by auto
qed

subsection \<open>Round robin\<close>

definition idle :: "'r queues \<Rightarrow> nat \<Rightarrow> bool" where
  "idle q i \<longleftrightarrow> users q ! i = '''' \<or>
     (case userQueues q (users q ! i) of None \<Rightarrow> True | Some uq \<Rightarrow> ch uq = [])"

text \<open>How many positions the scan passes over between \<open>last\<close> and position \<open>p\<close>.\<close>

definition scan_distance :: "int \<Rightarrow> int \<Rightarrow> int \<Rightarrow> int" where
  "scan_distance n lastIdx p =
     (if lastIdx \<ge> n then p else if p > lastIdx then p - lastIdx - 1 else p + n - lastIdx - 1)"

definition scan_next :: "int \<Rightarrow> int \<Rightarrow> int" where
  "scan_next n uid = (if uid + 1 \<ge> n then 0 else uid + 1)"

lemma scan_next_range: "-1 \<le> uid \<Longrightarrow> 0 < n \<Longrightarrow> 0 \<le> scan_next n uid \<and> scan_next n uid < n"
  by (auto simp: scan_next_def)

lemma scan_distance_next:
  "-1 \<le> uid \<Longrightarrow> 0 \<le> p \<Longrightarrow> p < n \<Longrightarrow>
   scan_distance n uid p = (if p = scan_next n uid then 0 else scan_distance n (scan_next n uid) p + 1)"
  by (auto simp: scan_distance_def scan_next_def)

lemma scan_distance_range:
  "-1 \<le> uid \<Longrightarrow> 0 \<le> p \<Longrightarrow> p < n \<Longrightarrow> 0 \<le> scan_distance n uid p \<and> scan_distance n uid p < n"
  by (auto simp: scan_distance_def)

lemma next_scan_step:
  assumes "queues_inv q" and "-1 \<le> uid" and "users q \<noteq> []"
  defines "uid' \<equiv> scan_next (int (length (users q))) uid"
  shows "next_scan q (Suc k) uid =
    (if idle q (nat uid') then next_scan q k uid' else Some (Some (users q ! nat uid'), uid'))"
proof -
  have r: "0 \<le> uid'" "nat uid' < length (users q)"
    using scan_next_range [OF assms(2), of "int (length (users q))"] assms(3)
    by (auto simp: uid'_def)
  show ?thesis
  proof (cases "users q ! nat uid' = ''''")
    case True
    with r show ?thesis by (simp add: idle_def Let_def uid'_def scan_next_def)
  next
    case False
    with queues_inv_user [OF assms(1) r(2)] r show ?thesis
      by (auto simp: idle_def Let_def uid'_def scan_next_def)
  qed
qed

lemma next_scan_finds:
  assumes "queues_inv q" and "p < length (users q)" and "\<not> idle q p" and "-1 \<le> uid"
    and "scan_distance (int (length (users q))) uid (int p) < int k"
  shows "\<exists>i<length (users q). next_scan q k uid = Some (Some (users q ! i), int i) \<and> \<not> idle q i \<and>
    scan_distance (int (length (users q))) uid (int i)
      \<le> scan_distance (int (length (users q))) uid (int p)"
  using assms(4,5)
proof (induction k arbitrary: uid)
  case 0
  then show ?case
    using scan_distance_range [of uid "int p" "int (length (users q))"] assms(2) by simp
next
  case (Suc k)
  let ?n = "int (length (users q))" and ?u = "scan_next (int (length (users q))) uid"
  have ne: "users q \<noteq> []" using assms(2) by auto
  have r: "0 \<le> ?u" "?u < ?n" using scan_next_range [OF Suc.prems(1), of ?n] ne by auto
  note step = next_scan_step [OF assms(1) Suc.prems(1) ne, of k]
  show ?case
  proof (cases "idle q (nat ?u)")
    case False
    then have "next_scan q (Suc k) uid = Some (Some (users q ! nat ?u), int (nat ?u))"
      using step r by simp
    moreover have "scan_distance ?n uid (int (nat ?u)) \<le> scan_distance ?n uid (int p)"
      using scan_distance_next [OF Suc.prems(1) r] r
        scan_distance_range [OF Suc.prems(1), of "int p" ?n] assms(2) by simp
    ultimately show ?thesis using False r by (intro exI [of _ "nat ?u"]) auto
  next
    case True
    with assms(3) have "int p \<noteq> ?u" by (metis nat_int)
    then have d: "scan_distance ?n uid (int p) = scan_distance ?n ?u (int p) + 1"
      using scan_distance_next [OF Suc.prems(1), of "int p" ?n] assms(2) by simp
    with Suc.IH [of ?u] Suc.prems(2) r obtain i where i: "i < length (users q)"
      "next_scan q k ?u = Some (Some (users q ! i), int i)" "\<not> idle q i"
      "scan_distance ?n ?u (int i) \<le> scan_distance ?n ?u (int p)" by auto
    with True have "int i \<noteq> ?u" by (metis nat_int)
    then have "scan_distance ?n uid (int i) = scan_distance ?n ?u (int i) + 1"
      using scan_distance_next [OF Suc.prems(1), of "int i" ?n] i(1) by simp
    with i d True step show ?thesis by auto
  qed
qed

lemma next_scan_none:
  assumes "queues_inv q" and "\<forall>i<length (users q). idle q i" and "-1 \<le> uid"
    and "k \<le> length (users q)"
  shows "\<exists>uid'. next_scan q k uid = Some (None, uid') \<and> -1 \<le> uid'"
  using assms(3,4)
proof (induction k arbitrary: uid)
  case (Suc k)
  then have False: "users q \<noteq> []" by auto
  show ?case
  proof -
    have r: "0 \<le> scan_next (int (length (users q))) uid"
      "nat (scan_next (int (length (users q))) uid) < length (users q)"
      using scan_next_range [OF Suc.prems(1), of "int (length (users q))"] False by auto
    with assms(2) Suc.IH [of "scan_next (int (length (users q))) uid"]
      next_scan_step [OF assms(1) Suc.prems(1) False, of k] Suc.prems
    show ?thesis by auto
  qed
qed auto

lemma getNext_total:
  assumes "queues_inv q" and "-1 \<le> lastIdx"
  shows "(\<exists>i<length (users q). getNextQueueForQuerier q lastIdx = Some (Some (users q ! i), int i)
      \<and> \<not> idle q i) \<or>
    ((\<forall>i<length (users q). idle q i) \<and>
      (\<exists>idx\<ge>-1. getNextQueueForQuerier q lastIdx = Some (None, idx)))"
proof (cases "\<forall>i<length (users q). idle q i")
  case True
  with next_scan_none [OF assms(1) True assms(2) order_refl] show ?thesis
    by (auto simp: getNextQueueForQuerier_def)
next
  case False
  then obtain p where p: "p < length (users q)" "\<not> idle q p" by auto
  with next_scan_finds [OF assms(1) p assms(2), of "length (users q)"]
    scan_distance_range [OF assms(2), of "int p" "int (length (users q))"]
  show ?thesis by (auto simp: getNextQueueForQuerier_def)
qed

subsection \<open>Batches\<close>

lemma take_batch_split:
  "take_batch w n k t q = (b, rest) \<Longrightarrow> k \<le> length q \<Longrightarrow> b @ rest = q \<and> length b \<le> k"
proof (induction w n k t q arbitrary: b rest rule: take_batch.induct)
  case (3 w n k t r q)
  then show ?case by (auto simp: Let_def split: if_splits prod.splits)
qed auto

lemma take_batch_nonempty: "take_batch w n (Suc k) t (r # q) = (b, rest) \<Longrightarrow> b \<noteq> []"
  by (auto simp: Let_def split: if_splits prod.splits)

lemma take_batch_weight:
  "take_batch w n k t q = (b, rest) \<Longrightarrow> t < n \<Longrightarrow> k \<le> length q \<Longrightarrow> b \<noteq> [] \<Longrightarrow>
   t + sum_list (map w (butlast b)) < n \<and> (length b < k \<longrightarrow> n \<le> t + sum_list (map w b))"
proof (induction w n k t q arbitrary: b rest rule: take_batch.induct)
  case (3 w n k t r q)
  show ?case
  proof (cases "n \<le> t + w r")
    case True
    with 3 show ?thesis by (auto simp: Let_def)
  next
    case False
    then obtain b' where b': "take_batch w n k (t + w r) q = (b', rest)" "b = r # b'"
      using "3.prems"(1) by (auto simp: Let_def split: prod.splits)
    show ?thesis
    proof (cases "b' = []")
      case True
      have "k = 0"
      proof (rule ccontr)
        assume "k \<noteq> 0"
        with "3.prems"(3) obtain k' a q' where "k = Suc k'" "q = a # q'"
          by (cases k; cases q) auto
        with take_batch_nonempty b'(1) True show False by metis
      qed
      with True b' "3.prems" show ?thesis by simp
    next
      case ne: False
      with "3.IH" [OF refl, of b' rest] b' False "3.prems" show ?thesis by (auto simp: Let_def)
    qed
  qed
qed auto

subsection \<open>The queue as a service\<close>

text \<open>
  \<open>NewTimerService\<close> calls \<open>cleanupQueues\<close> from its running loop; when the service is told to stop
  the loop returns first and \<open>stopping\<close> runs after it. \<open>upgrading\<close> holds the enqueues that have
  given up the read lock and not yet taken the write lock. \<open>accepted\<close> and \<open>delivered\<close> record what
  \<open>EnqueueRequest\<close> answered without error and what queriers got.
\<close>

datatype phase = Running | Stopping | Terminated

record 'r service =
  rq :: "'r request_queue"
  phase :: phase
  upgrading :: "(string \<times> 'r) list"
  accepted :: "(string \<times> 'r) list"
  delivered :: "(string \<times> 'r) list"

definition new_service :: "nat \<Rightarrow> 'r service" where
  "new_service n = \<lparr>rq = \<lparr>queues_of = newUserQueues n, stopped = False\<rparr>, phase = Running,
     upgrading = [], accepted = [], delivered = []\<rparr>"

inductive service_step :: "('r \<Rightarrow> int) \<Rightarrow> 'r service \<Rightarrow> 'r service \<Rightarrow> bool" for weight where
  enqueue:
    "enqueue_fast u r (rq s) = Done (Inr q) \<Longrightarrow>
     service_step weight s (s\<lparr>rq := q, accepted := accepted s @ [(u, r)]\<rparr>)"
| upgrade:
    "enqueue_fast u r (rq s) = UpgradeLock \<Longrightarrow>
     service_step weight s (s\<lparr>upgrading := (u, r) # upgrading s\<rparr>)"
| enqueue_locked:
    "(u, r) \<in> set (upgrading s) \<Longrightarrow> enqueue_slow u r (rq s) = (Inr a, q) \<Longrightarrow>
     service_step weight s (s\<lparr>rq := q, upgrading := remove1 (u, r) (upgrading s),
       accepted := accepted s @ [(u, r)]\<rparr>)"
| refuse_locked:
    "(u, r) \<in> set (upgrading s) \<Longrightarrow> enqueue_slow u r (rq s) = (Inl e, q) \<Longrightarrow>
     service_step weight s (s\<lparr>rq := q, upgrading := remove1 (u, r) (upgrading s)\<rparr>)"
| dequeue:
    "-1 \<le> lastIdx \<Longrightarrow> get_pass weight ctxDone wait lastIdx n (rq s) = Some (Batch b idx q) \<Longrightarrow>
     service_step weight s (s\<lparr>rq := q, delivered := delivered s @
       map (Pair (users (queues_of (rq s)) ! nat idx)) b\<rparr>)"
| cleanup:
    "phase s = Running \<Longrightarrow> cleanupQueues order (rq s) = Some q \<Longrightarrow>
     service_step weight s (s\<lparr>rq := q\<rparr>)"
| begin_stop:
    "phase s = Running \<Longrightarrow> service_step weight s (s\<lparr>phase := Stopping\<rparr>)"
| finish_stop:
    "phase s = Stopping \<Longrightarrow> stopping (rq s) = Some q \<Longrightarrow>
     service_step weight s (s\<lparr>rq := q, phase := Terminated\<rparr>)"

inductive_cases service_stepE: "service_step weight s t"

definition waiting :: "'r queues \<Rightarrow> string \<Rightarrow> 'r list" where
  "waiting q u = (case userQueues q u of None \<Rightarrow> [] | Some uq \<Rightarrow> ch uq)"

definition of_user :: "string \<Rightarrow> (string \<times> 'r) list \<Rightarrow> 'r list" where
  "of_user u xs = map snd (filter (\<lambda>x. fst x = u) xs)"

lemma of_user_simps [simp]:
  "of_user u [] = []" "of_user u (xs @ ys) = of_user u xs @ of_user u ys"
  "of_user u [(v, r)] = (if v = u then [r] else [])"
  "of_user u (map (Pair v) rs) = (if v = u then rs else [])"
  by (auto simp: of_user_def filter_map comp_def)

text \<open>The invariant: the queues are consistent, and per user what was accepted is what was
  delivered followed by what still waits.\<close>

definition service_inv :: "'r service \<Rightarrow> bool" where
  "service_inv s \<longleftrightarrow> queues_inv (queues_of (rq s)) \<and>
     (\<forall>u. of_user u (accepted s) = of_user u (delivered s) @ waiting (queues_of (rq s)) u)"

lemma send_inv:
  assumes "queues_inv (queues_of s)" and "send u r s = Inr s'"
  shows "queues_inv (queues_of s') \<and> stopped s' = stopped s \<and>
    dom (userQueues (queues_of s')) = dom (userQueues (queues_of s)) \<and>
    waiting (queues_of s') v = waiting (queues_of s) v @ (if v = u then [r] else [])"
  using assms queues_inv_set_ch [OF assms(1), of u]
  by (auto simp: send_def Let_def waiting_def split: option.splits if_splits)

lemma enqueue_slow_inv:
  assumes "queues_inv (queues_of s)" and "enqueue_slow u r s = (a, s')"
  shows "queues_inv (queues_of s') \<and> stopped s' = stopped s \<and>
    dom (userQueues (queues_of s)) \<subseteq> dom (userQueues (queues_of s')) \<and>
    waiting (queues_of s') v = waiting (queues_of s) v @
      (if v = u \<and> (\<exists>x. a = Inr x) then [r] else [])"
proof (cases "getOrAddQueue u (queues_of s)")
  case None
  with assms show ?thesis by (auto simp: enqueue_slow_def)
next
  case (Some x)
  then obtain q' c where g: "getOrAddQueue u (queues_of s) = Some (q', c)" by (cases x) auto
  note gi = getOrAddQueue_inv [OF assms(1) g]
  then have w: "waiting q' v = waiting (queues_of s) v" by (simp add: waiting_def)
  show ?thesis
  proof (cases "send u r (s\<lparr>queues_of := q'\<rparr>)")
    case (Inl e)
    with assms(2) g gi w show ?thesis by (auto simp: enqueue_slow_def)
  next
    case (Inr s2)
    then have "s' = s2" "a = Inr s2" using assms(2) g by (auto simp: enqueue_slow_def)
    with send_inv [of "s\<lparr>queues_of := q'\<rparr>" u r s2 v] Inr gi w show ?thesis by auto
  qed
qed

lemma get_pass_Batch:
  assumes "queues_inv (queues_of s)" and "-1 \<le> lastIdx"
    and "get_pass w ctxDone wait lastIdx n s = Some (Batch b idx s')"
  shows "queues_inv (queues_of s') \<and> stopped s' = stopped s \<and> \<not> stopped s \<and> b \<noteq> [] \<and>
    dom (userQueues (queues_of s')) = dom (userQueues (queues_of s)) \<and>
    waiting (queues_of s) v =
      (if v = users (queues_of s) ! nat idx then b else []) @ waiting (queues_of s') v"
proof -
  let ?q = "queues_of s"
  from assms(3) have ns: "\<not> stopped s" and n: "n \<noteq> 0"
    by (auto simp: get_pass_def Let_def split: if_splits)
  have nx: "getNextQueueForQuerier ?q lastIdx = Some (u, j) \<Longrightarrow>
      (\<exists>i<length (users ?q). u = Some (users ?q ! i) \<and> j = int i \<and> \<not> idle ?q i) \<or> u = None" for u j
    using getNext_total [OF assms(1,2)] by auto
  from assms(3) ns n obtain u where g: "getNextQueueForQuerier ?q lastIdx = Some (Some u, idx)"
    by (auto simp: get_pass_def Let_def split: if_splits option.splits prod.splits Option.bind_splits)
  with nx obtain i where i: "i < length (users ?q)" "u = users ?q ! i" "idx = int i" "\<not> idle ?q i"
    by blast
  then obtain uq where uq: "userQueues ?q u = Some uq" "ch uq \<noteq> []"
    by (auto simp: idle_def split: option.splits)
  obtain rest where gb: "getBatchBuffer w n (ch uq) = (b, rest)"
    and s': "s' = s\<lparr>queues_of := ?q\<lparr>userQueues := (userQueues ?q)(u \<mapsto> uq\<lparr>ch := rest\<rparr>)\<rparr>\<rparr>"
    using assms(3) ns n g uq
    by (auto simp: get_pass_def Let_def split: if_splits prod.splits)
  from gb have tb: "b @ rest = ch uq" "length b \<le> min (length (ch uq)) n"
    unfolding getBatchBuffer_def using take_batch_split by force+
  have "b \<noteq> []"
  proof -
    obtain r l where "ch uq = r # l" using uq(2) by (cases "ch uq") auto
    moreover obtain m where "min (length (ch uq)) n = Suc m"
      using n uq(2) by (cases "min (length (ch uq)) n") (auto simp: min_def split: if_splits)
    ultimately show ?thesis
      using gb take_batch_nonempty unfolding getBatchBuffer_def by metis
  qed
  moreover have "length rest \<le> maxUserQueueSize ?q"
    using queues_inv_queue [OF assms(1) uq(1)] tb(1) by (metis add_leE length_append)
  ultimately show ?thesis
    using queues_inv_set_ch [OF assms(1) uq(1)] ns tb(1) uq i s'
    by (auto simp: waiting_def)
qed

lemma cleanup_inv:
  assumes "queues_inv (queues_of s)" and "cleanupQueues order s = Some s'"
  shows "queues_inv (queues_of s') \<and> stopped s' = stopped s \<and>
    waiting (queues_of s') v = waiting (queues_of s) v"
proof -
  obtain q' b where q: "deleteEmptyQueues order (queues_of s) = Some (q', b)" "queues_inv q'"
    "\<forall>u. userQueues q' u = (case userQueues (queues_of s) u of None \<Rightarrow> None
       | Some uq \<Rightarrow> if u \<in> set order \<and> ch uq = [] then None else Some uq)"
    using deleteEmptyQueues_Some [OF assms(1), of order] by blast
  then have "waiting q' v = waiting (queues_of s) v"
    by (cases "userQueues (queues_of s) v") (simp_all add: waiting_def)
  with q assms(2) show ?thesis by (auto simp: cleanupQueues_def)
qed

lemma service_inv_new [inv_intros]: "service_inv (new_service n)"
  using queues_inv_new [of n]
  by (simp add: service_inv_def new_service_def waiting_def newUserQueues_def)

lemma service_step_inv: "service_step w s t \<Longrightarrow> service_inv s \<Longrightarrow> service_inv t"
proof (induction rule: service_step.induct)
  case (enqueue u r s q)
  then show ?case
    using send_inv [of "rq s" u r q]
    by (auto simp: service_inv_def enqueue_fast_def split: if_splits)
next
  case (enqueue_locked u r s a q)
  then show ?case using enqueue_slow_inv [of "rq s" u r "Inr a" q] by (auto simp: service_inv_def)
next
  case (refuse_locked u r s e q)
  then show ?case using enqueue_slow_inv [of "rq s" u r "Inl e" q] by (auto simp: service_inv_def)
next
  case (dequeue lastIdx ctxDone wait n s b idx q)
  then show ?case
    using get_pass_Batch [OF _ dequeue(1,2)] by (auto simp: service_inv_def)
next
  case (cleanup s order q)
  then show ?case using cleanup_inv by (fastforce simp: service_inv_def)
next
  case (finish_stop s q)
  then show ?case by (auto simp: service_inv_def stopping_def split: if_splits)
qed (auto simp: service_inv_def)

lemma service_reachable_inv: "(service_step w)\<^sup>*\<^sup>* (new_service n) s \<Longrightarrow> service_inv s"
  by (induction rule: rtranclp_induct) (auto intro: service_step_inv inv_intros)

lemma stuck_step:
  assumes "service_step w s t" and "service_inv s" and "phase s = Stopping"
    and "dom (userQueues (queues_of (rq s))) \<noteq> {}" and "\<not> stopped (rq s)"
  shows "phase t = Stopping \<and> dom (userQueues (queues_of (rq t))) \<noteq> {} \<and> \<not> stopped (rq t)"
  using assms
proof (induction rule: service_step.induct)
  case (enqueue u r s q)
  then show ?case
    using send_inv [of "rq s" u r q]
    by (auto simp: service_inv_def enqueue_fast_def simp del: dom_eq_empty_conv split: if_splits)
next
  case (enqueue_locked u r s a q)
  then show ?case using enqueue_slow_inv [of "rq s" u r "Inr a" q] by (auto simp: service_inv_def)
next
  case (refuse_locked u r s e q)
  then show ?case using enqueue_slow_inv [of "rq s" u r "Inl e" q] by (auto simp: service_inv_def)
next
  case (dequeue lastIdx ctxDone wait n s b idx q)
  then show ?case
    using get_pass_Batch [OF _ dequeue(1,2)] by (auto simp: service_inv_def)
next
  case (finish_stop s q)
  then have "0 < queues_len (queues_of (rq s))"
    by (auto simp: queues_len_def service_inv_def card_gt_0_iff finite_queues)
  with finish_stop show ?case by (simp add: stopping_def)
qed auto

lemma get_pass_total:
  assumes "queues_inv (queues_of s)" and "-1 \<le> lastIdx"
  shows "get_pass w ctxDone wait lastIdx n s \<noteq> None"
  using getNext_total [OF assms]
  by (auto simp: get_pass_def Let_def idle_def split: prod.splits option.splits)

subsection \<open>Properties\<close>


definition sample_queues :: "nat queues" where
  "sample_queues = \<lparr>userQueues = [''a'' \<mapsto> \<lparr>ch = [], index = 0\<rparr>, ''b'' \<mapsto> \<lparr>ch = [1, 2], index = 1\<rparr>],
     users = [''a'', ''b''], maxUserQueueSize = 3\<rparr>"

lemma sample_queues_inv: "queues_inv sample_queues"
  by (auto simp: queues_inv_def sample_queues_def nth_Cons' split: if_splits)


text \<open>A batch is a non-empty prefix of the user's queue, at most as long as asked for; all but
  its last request stay below the weight limit, and a shorter batch than possible has reached
  it.\<close>

theorem batch_is_bounded_prefix:
  assumes "getBatchBuffer weight n q = (b, rest)" and "0 < n" and "q \<noteq> []"
  shows "q = b @ rest \<and> b \<noteq> [] \<and> length b \<le> n \<and> sum_list (map weight (butlast b)) < int n \<and>
    (length b < min (length q) n \<longrightarrow> int n \<le> sum_list (map weight b))"
proof -
  obtain r q' where q: "q = r # q'" using assms(3) by (cases q) auto
  obtain k where k: "min (length q) n = Suc k" using assms(2) q by (cases n) auto
  have tb: "take_batch weight (int n) (min (length q) n) 0 q = (b, rest)"
    using assms(1) by (simp add: getBatchBuffer_def)
  have "take_batch weight (int n) (Suc k) 0 (r # q') = (b, rest)" using tb k q by simp
  then have "b \<noteq> []" by (rule take_batch_nonempty)
  with take_batch_split [OF tb] take_batch_weight [OF tb] assms(2) show ?thesis by auto
qed

theorem batch_is_bounded_prefix_witness:
  "getBatchBuffer (\<lambda>r. r) 4 [3, 2, 1] = ([3, 2], [1]) \<and> sum_list (map (\<lambda>r. r) (butlast [3, 2])) < (4::int)"
  using batch_is_bounded_prefix [of "\<lambda>r. r" 4 "[3, 2, 1]" "[3, 2]" "[1]"]
  by (simp add: getBatchBuffer_def eval_nat_numeral)

text \<open>C2. In every reachable state, and for every user, the requests that were accepted are those
  that were delivered, in order and each once, followed by those that still wait: requests are
  neither lost, duplicated nor reordered.\<close>

theorem requests_fifo_exactly_once:
  assumes "(service_step w)\<^sup>*\<^sup>* (new_service n) s"
  shows "of_user u (accepted s) = of_user u (delivered s) @ waiting (queues_of (rq s)) u"
  using service_reachable_inv [OF assms] by (simp add: service_inv_def)

theorem requests_fifo_exactly_once_witness:
  "of_user ''u'' (accepted (new_service 3 :: nat service)) = []"
  using requests_fifo_exactly_once [of "\<lambda>_. 1" 3 "new_service 3 :: nat service" "''u''"]
  by (simp add: new_service_def)

text \<open>C34. No operation of the queue panics in a reachable state: no index into the list of users is
  out of range and no entry of the list lacks its queue.\<close>

theorem queue_never_panics:
  assumes "(service_step w)\<^sup>*\<^sup>* (new_service n) s" and "-1 \<le> lastIdx"
  shows "get_pass w ctxDone wait lastIdx k (rq s) \<noteq> None \<and> cleanupQueues order (rq s) \<noteq> None"
proof -
  have "queues_inv (queues_of (rq s))"
    using service_reachable_inv [OF assms(1)] by (simp add: service_inv_def)
  with assms(2) deleteEmptyQueues_Some [of "queues_of (rq s)" order] show ?thesis
    by (auto simp: get_pass_total cleanupQueues_def)
qed

theorem queue_never_panics_witness:
  "get_pass (\<lambda>_. 1) False False FirstUser 5 (rq (new_service 3 :: nat service)) \<noteq> None"
  using queue_never_panics [of "\<lambda>_. 1" 3 "new_service 3 :: nat service" FirstUser]
  by (simp add: FirstUser_def)

text \<open>Shutdown can hang: the clean-up runs only in the service's running loop, and only the
  clean-up removes queues. Once the service is stopping with any user queue left, even an empty
  one, it never terminates.\<close>

theorem shutdown_waits_forever:
  assumes "(service_step w)\<^sup>*\<^sup>* (new_service n) s" and "phase s = Stopping" and "\<not> stopped (rq s)"
    and "userQueues (queues_of (rq s)) u \<noteq> None" and "(service_step w)\<^sup>*\<^sup>* s t"
  shows "phase t = Stopping \<and> \<not> stopped (rq t)"
proof -
  from assms(5) have "service_inv t \<and> phase t = Stopping \<and>
      dom (userQueues (queues_of (rq t))) \<noteq> {} \<and> \<not> stopped (rq t)"
  proof (induction rule: rtranclp_induct)
    case base
    show ?case using service_reachable_inv [OF assms(1)] assms(2-4) by auto
  next
    case (step y z)
    then show ?case using service_step_inv stuck_step by metis
  qed
  then show ?thesis by simp
qed

text \<open>A run: a request of user \<open>u\<close> arrives, and the service is told to stop.\<close>

definition busy_service :: "phase \<Rightarrow> nat service" where
  "busy_service p = \<lparr>rq = \<lparr>queues_of = \<lparr>userQueues = [''u'' \<mapsto> \<lparr>ch = [7], index = 0\<rparr>],
     users = [''u''], maxUserQueueSize = 3\<rparr>, stopped = False\<rparr>, phase = p, upgrading = [],
     accepted = [(''u'', 7)], delivered = []\<rparr>"

definition upgraded_service :: "nat service" where
  "upgraded_service = (new_service 3)\<lparr>upgrading := [(''u'', 7)]\<rparr>"

lemma three_steps: "r a b \<Longrightarrow> r b c \<Longrightarrow> r c d \<Longrightarrow> r\<^sup>*\<^sup>* a d"
  by (rule rtranclp.rtrancl_into_rtrancl [OF rtranclp.rtrancl_into_rtrancl [OF r_into_rtranclp]])

lemma step_upgrade: "service_step w (new_service 3) upgraded_service"
  using service_step.upgrade [of "''u''" "7::nat" "new_service 3" w]
  by (simp add: upgraded_service_def new_service_def enqueue_fast_def newUserQueues_def)

lemma slow_enqueue_sample:
  "enqueue_slow ''u'' (7::nat) \<lparr>queues_of = newUserQueues 3, stopped = b\<rparr> =
     (Inr \<lparr>queues_of = \<lparr>userQueues = [''u'' \<mapsto> \<lparr>ch = [7], index = 0\<rparr>],
        users = [''u''], maxUserQueueSize = 3\<rparr>, stopped = b\<rparr>,
      \<lparr>queues_of = \<lparr>userQueues = [''u'' \<mapsto> \<lparr>ch = [7], index = 0\<rparr>],
        users = [''u''], maxUserQueueSize = 3\<rparr>, stopped = b\<rparr>)"
  by (simp add: enqueue_slow_def getOrAddQueue_def newUserQueues_def send_def Let_def)

lemma step_busy: "service_step w upgraded_service (busy_service Running)"
  using service_step.enqueue_locked [of "''u''" "7::nat" upgraded_service]
  by (simp add: upgraded_service_def new_service_def slow_enqueue_sample busy_service_def)

lemma step_stopping: "service_step w (busy_service Running) (busy_service Stopping)"
  using service_step.begin_stop [of "busy_service Running" w] by (simp add: busy_service_def)

theorem shutdown_waits_forever_witness:
  "phase (busy_service Stopping) = Stopping \<and> \<not> stopped (rq (busy_service Stopping))"
proof -
  have "(service_step (\<lambda>_. 1))\<^sup>*\<^sup>* (new_service 3) (busy_service Stopping)"
    by (rule three_steps [where r = "service_step (\<lambda>_. 1)", OF step_upgrade step_busy step_stopping])
  from shutdown_waits_forever [OF this, of "''u''"] show ?thesis
    by (simp add: busy_service_def)
qed

text \<open>The comment in \<open>stopping\<close> says that the queue stops only after dispatching what was
  enqueued. That is not so: an enqueue that has passed the test of \<open>stopped\<close> and waits for the
  write lock is accepted after the stop, and then every querier is answered \<open>ErrStopped\<close>.\<close>

theorem accepted_after_stop:
  "\<exists>s. (service_step w)\<^sup>*\<^sup>* (new_service 3) s \<and> stopped (rq s) \<and> accepted s = [(''u'', 7::nat)] \<and>
     waiting (queues_of (rq s)) ''u'' = [7] \<and>
     (\<forall>ctxDone wait lastIdx n. 0 < n \<longrightarrow>
        get_pass w ctxDone wait lastIdx n (rq s) = Some (GetError ErrStopped lastIdx))"
proof -
  let ?s1 = "upgraded_service\<lparr>phase := Stopping\<rparr>"
  let ?s2 = "upgraded_service\<lparr>rq := (rq upgraded_service)\<lparr>stopped := True\<rparr>, phase := Terminated\<rparr>"
  let ?s3 = "(busy_service Terminated)\<lparr>rq := (rq (busy_service Terminated))\<lparr>stopped := True\<rparr>\<rparr>"
  have 1: "service_step w upgraded_service ?s1"
    by (rule service_step.begin_stop) (simp add: upgraded_service_def new_service_def)
  have 2: "service_step w ?s1 ?s2"
    using service_step.finish_stop [of ?s1 "(rq upgraded_service)\<lparr>stopped := True\<rparr>" w]
    by (simp add: stopping_def upgraded_service_def new_service_def newUserQueues_def queues_len_def)
  have 3: "service_step w ?s2 ?s3"
    using service_step.enqueue_locked [of "''u''" "7::nat" ?s2]
    by (simp add: upgraded_service_def new_service_def slow_enqueue_sample busy_service_def)
  have "(service_step w)\<^sup>*\<^sup>* (new_service 3) ?s3"
    by (rule rtranclp.rtrancl_into_rtrancl [OF three_steps [where r = "service_step w", OF step_upgrade 1 2] 3])
  then show ?thesis
    by (intro exI [of _ ?s3]) (simp add: busy_service_def waiting_def get_pass_def)
qed

theorem accepted_after_stop_witness:
  "\<exists>s :: nat service. (service_step (\<lambda>_. 1))\<^sup>*\<^sup>* (new_service 3) s \<and> stopped (rq s)"
  using accepted_after_stop [of "\<lambda>_. 1"] by blast

end
