(* ===== verification/SchedWork.thy ===== *)
theory SchedWork
  imports Prelude "HOL-Library.AList"
begin

section \<open>The backend scheduler's work cache (modules/backendscheduler/work)\<close>

text \<open>
  \<open>Work\<close> of work.go with \<open>Job\<close> of job.go and \<open>batchStore\<close> of batch.go: the jobs of the
  backend scheduler from their registration or submission to their end, in 256 shards, and the
  indexes that answer "is this block busy", "has this tenant jobs of this type", "which job has
  this worker".

  \<^item> Jobs are shared objects: the same \<open>*Job\<close> is in a shard, in \<open>registeredJobs\<close>, in
    \<open>runningBlocks\<close> and in the channel to the workers. The model has a heap of jobs, and a
    pointer is a natural number.
  \<^item> A Go map is a partial function where the code only looks up and stores. The inner maps of the
    tenant indexes, of which the code asks \<open>len(m) == 0\<close>, are association lists with the
    library's \<open>AList.update\<close> and \<open>AList.delete\<close>.
  \<^item> Where the code ranges over a map, the order of the keys is an argument.
  \<^item> Each operation is one step: its critical sections under \<open>shard.mtx\<close> and \<open>pendingMtx\<close>
    are run in their order with nothing between them. \<open>time.Now()\<close> is the argument \<open>now\<close>,
    one instant for all the calls inside an operation.
  \<^item> \<open>Job.JobDetail.Compaction\<close> is a pointer that every creator of a compaction job sets;
    here the detail is a field. The \<open>Redaction\<close> pointer is an option, as the code tests it.
  \<^item> Reading and writing the JSON files is not modelled; the rebuilding of the indexes after
    it is, over the shards that were read.
\<close>

subsection \<open>Jobs (job.go)\<close>

datatype job_type = JOB_TYPE_UNSPECIFIED | JOB_TYPE_COMPACTION | JOB_TYPE_RETENTION | JOB_TYPE_REDACTION
datatype job_status = JOB_STATUS_UNSPECIFIED | JOB_STATUS_SUCCEEDED | JOB_STATUS_FAILED | JOB_STATUS_RUNNING

record compaction_detail =
  Input :: "string list"
  Output :: "string list"

record redaction_detail =
  BlockId :: string
  TraceIds :: "bytes list"
  QuerySel :: "string option"
  Mode :: int
  WindowStart :: "64 word"
  WindowEnd :: "64 word"

record job_detail =
  DetailTenant :: string
  Compaction :: compaction_detail
  Redaction :: "redaction_detail option"
  DetailBatchId :: string

record job =
  JobID :: string
  JobType :: job_type
  JobDetail :: job_detail
  JobStatus :: job_status
  CreatedTime :: time
  JobStartTime :: time
  JobEndTime :: time
  WorkerID :: string
  Retries :: int

definition job_Start :: "time \<Rightarrow> job \<Rightarrow> job" where
  "job_Start now j = j\<lparr>JobStatus := JOB_STATUS_RUNNING, JobStartTime := now\<rparr>"

definition job_Complete :: "time \<Rightarrow> job \<Rightarrow> job" where
  "job_Complete now j = j\<lparr>JobStatus := JOB_STATUS_SUCCEEDED, JobEndTime := now\<rparr>"

definition job_Fail :: "time \<Rightarrow> job \<Rightarrow> job" where
  "job_Fail now j = j\<lparr>JobStatus := JOB_STATUS_FAILED, JobEndTime := now\<rparr>"

definition IsComplete :: "job \<Rightarrow> bool" where
  "IsComplete j \<longleftrightarrow> JobStatus j = JOB_STATUS_SUCCEEDED"

definition IsPending :: "job \<Rightarrow> bool" where
  "IsPending j \<longleftrightarrow> JobStatus j = JOB_STATUS_UNSPECIFIED"

definition Tenant :: "job \<Rightarrow> string" where
  "Tenant j = DetailTenant (JobDetail j)"

definition SetWorkerID :: "string \<Rightarrow> job \<Rightarrow> job" where
  "SetWorkerID wid j = j\<lparr>WorkerID := wid\<rparr>"

definition GetCompactionInput :: "job \<Rightarrow> string list" where
  "GetCompactionInput j = (case JobType j of
     JOB_TYPE_COMPACTION \<Rightarrow> Input (Compaction (JobDetail j)) | _ \<Rightarrow> [])"

definition GetCompactionOutput :: "job \<Rightarrow> string list" where
  "GetCompactionOutput j = (case JobType j of
     JOB_TYPE_COMPACTION \<Rightarrow> Output (Compaction (JobDetail j)) | _ \<Rightarrow> [])"

definition SetCompactionOutput :: "string list \<Rightarrow> job \<Rightarrow> job" where
  "SetCompactionOutput blocks j = (case JobType j of
     JOB_TYPE_COMPACTION \<Rightarrow>
       j\<lparr>JobDetail := (JobDetail j)\<lparr>Compaction := (Compaction (JobDetail j))\<lparr>Output := blocks\<rparr>\<rparr>\<rparr>
   | _ \<Rightarrow> j)"

definition GetRedactionBlockID :: "job \<Rightarrow> string" where
  "GetRedactionBlockID j = (if JobType j \<noteq> JOB_TYPE_REDACTION then ''''
     else case Redaction (JobDetail j) of None \<Rightarrow> '''' | Some r \<Rightarrow> BlockId r)"

text \<open>The index keys: tenant and block id joined by a NUL byte.\<close>

definition NUL :: char where
  "NUL = CHR 0x00"

definition pendingBlockKey :: "string \<Rightarrow> string \<Rightarrow> string" where
  "pendingBlockKey tenantID blockID = tenantID @ [NUL] @ blockID"

definition splitPendingBlockKey :: "string \<Rightarrow> string \<times> string" where
  "splitPendingBlockKey key =
     (takeWhile (\<lambda>c. c \<noteq> NUL) key, tl (dropWhile (\<lambda>c. c \<noteq> NUL) key))"

definition PendingBlockKey :: "job \<Rightarrow> string" where
  "PendingBlockKey j = (case JobType j of
     JOB_TYPE_REDACTION \<Rightarrow> (case Redaction (JobDetail j) of None \<Rightarrow> ''''
       | Some r \<Rightarrow> DetailTenant (JobDetail j) @ [NUL] @ BlockId r)
   | _ \<Rightarrow> '''')"

definition runningBlockKeys :: "job \<Rightarrow> string list" where
  "runningBlockKeys j =
     map (pendingBlockKey (Tenant j)) (GetCompactionInput j)
     @ (let bid = GetRedactionBlockID j in if bid \<noteq> '''' then [pendingBlockKey (Tenant j) bid] else [])"

subsection \<open>The state (\<open>Work\<close>, \<open>Shard\<close>, \<open>batchStore\<close>)\<close>

type_synonym ptr = nat

record shard =
  Jobs :: "string \<rightharpoonup> ptr"
  Pending :: "string \<rightharpoonup> ptr"

record redaction_batch =
  BatchId :: string
  BatchTenantId :: string
  BatchTraceIds :: "bytes list"
  CreatedAtUnixNano :: int
  SkippedCompactionJobIds :: "string list"
  RescanAfterUnixNano :: int
  BatchQuery :: "string option"
  BatchMode :: int
  QuiesceUntilUnixNano :: int
  BatchWindowStart :: "64 word"
  BatchWindowEnd :: "64 word"

record work_config =
  PruneAge :: int
  DeadJobTimeout :: int

record work =
  heap :: "ptr \<Rightarrow> job"
  Shards :: "nat \<Rightarrow> shard"
  cfg :: work_config
  pendingBlocks :: "string \<rightharpoonup> string"
  pendingByTenant :: "string \<rightharpoonup> (job_type \<times> string list) list"
  redactionInFlight :: "string \<Rightarrow> int"
  registeredJobs :: "(string \<times> ptr) list"
  workerJobs :: "string \<rightharpoonup> string"
  runningBlocks :: "string \<rightharpoonup> ptr"
  runningByTenant :: "string \<rightharpoonup> (job_type \<times> int) list"
  pendingBlocksByTenant :: "string \<rightharpoonup> (string \<times> string) list"
  runningBlocksByTenant :: "string \<rightharpoonup> (string \<times> string) list"
  batches :: "string \<rightharpoonup> redaction_batch"

definition ShardCount :: nat where
  "ShardCount = 256"

definition fnv1a_32 :: "string \<Rightarrow> u32" where
  "fnv1a_32 s = foldl (\<lambda>h c. (xor h (of_char c)) * 16777619) 2166136261 s"

definition getShardID :: "string \<Rightarrow> nat" where
  "getShardID jobID = unat (and (fnv1a_32 jobID) 255)"

definition getShard :: "work \<Rightarrow> string \<Rightarrow> shard" where
  "getShard w jobID = Shards w (getShardID jobID)"

definition empty_shard :: shard where
  "empty_shard = \<lparr>Jobs = Map.empty, Pending = Map.empty\<rparr>"

definition newWork :: "work_config \<Rightarrow> (ptr \<Rightarrow> job) \<Rightarrow> work" where
  "newWork c h = \<lparr>heap = h, Shards = (\<lambda>_. empty_shard), cfg = c,
     pendingBlocks = Map.empty, pendingByTenant = Map.empty, redactionInFlight = (\<lambda>_. 0),
     registeredJobs = [], workerJobs = Map.empty, runningBlocks = Map.empty,
     runningByTenant = Map.empty, pendingBlocksByTenant = Map.empty,
     runningBlocksByTenant = Map.empty, batches = Map.empty\<rparr>"

definition upd_job :: "ptr \<Rightarrow> (job \<Rightarrow> job) \<Rightarrow> work \<Rightarrow> work" where
  "upd_job p f w = w\<lparr>heap := (heap w)(p := f (heap w p))\<rparr>"

definition upd_jobs :: "string \<Rightarrow> ((string \<rightharpoonup> ptr) \<Rightarrow> (string \<rightharpoonup> ptr)) \<Rightarrow> work \<Rightarrow> work" where
  "upd_jobs jobID f w = (let i = getShardID jobID; s = Shards w i in
     w\<lparr>Shards := (Shards w)(i := s\<lparr>Jobs := f (Jobs s)\<rparr>)\<rparr>)"

definition upd_pending :: "string \<Rightarrow> ((string \<rightharpoonup> ptr) \<Rightarrow> (string \<rightharpoonup> ptr)) \<Rightarrow> work \<Rightarrow> work" where
  "upd_pending jobID f w = (let i = getShardID jobID; s = Shards w i in
     w\<lparr>Shards := (Shards w)(i := s\<lparr>Pending := f (Pending s)\<rparr>)\<rparr>)"

subsection \<open>The tenant indexes\<close>

definition inner :: "('t \<rightharpoonup> ('k \<times> 'v) list) \<Rightarrow> 't \<Rightarrow> ('k \<times> 'v) list" where
  "inner m t = (case m t of None \<Rightarrow> [] | Some al \<Rightarrow> al)"

definition incRunningByTenant :: "string \<Rightarrow> job_type \<Rightarrow> work \<Rightarrow> work" where
  "incRunningByTenant tenant ty w = (let m = inner (runningByTenant w) tenant;
       n = (case map_of m ty of None \<Rightarrow> 0 | Some n \<Rightarrow> n) in
     w\<lparr>runningByTenant := (runningByTenant w)(tenant \<mapsto> AList.update ty (n + 1) m)\<rparr>)"

definition decRunningByTenant :: "string \<Rightarrow> job_type \<Rightarrow> work \<Rightarrow> work" where
  "decRunningByTenant tenant ty w = (case runningByTenant w tenant of
     None \<Rightarrow> w
   | Some m \<Rightarrow> (let n = (case map_of m ty of None \<Rightarrow> 0 | Some n \<Rightarrow> n) - 1 in
       if n \<le> 0 then
         (let m' = AList.delete ty m in
          if m' = [] then w\<lparr>runningByTenant := (runningByTenant w)(tenant := None)\<rparr>
          else w\<lparr>runningByTenant := (runningByTenant w)(tenant \<mapsto> m')\<rparr>)
       else w\<lparr>runningByTenant := (runningByTenant w)(tenant \<mapsto> AList.update ty n m)\<rparr>))"

definition addRunningBlocksByTenant :: "job \<Rightarrow> work \<Rightarrow> work" where
  "addRunningBlocksByTenant j w = (let tenant = Tenant j; tb0 = inner (runningBlocksByTenant w) tenant;
       tb1 = fold (\<lambda>bid tb. AList.update bid (JobID j) tb) (GetCompactionInput j) tb0;
       bid = GetRedactionBlockID j;
       tb2 = (if bid \<noteq> '''' then AList.update bid (JobID j) tb1 else tb1) in
     w\<lparr>runningBlocksByTenant := (runningBlocksByTenant w)(tenant \<mapsto> tb2)\<rparr>)"

definition del_if_job :: "string \<Rightarrow> string \<Rightarrow> (string \<times> string) list \<Rightarrow> (string \<times> string) list" where
  "del_if_job jobID bid tb = (if map_of tb bid = Some jobID then AList.delete bid tb else tb)"

definition removeRunningBlocksByTenant :: "job \<Rightarrow> work \<Rightarrow> work" where
  "removeRunningBlocksByTenant j w = (case runningBlocksByTenant w (Tenant j) of
     None \<Rightarrow> w
   | Some tb0 \<Rightarrow> (let tb1 = fold (del_if_job (JobID j)) (GetCompactionInput j) tb0;
         bid = GetRedactionBlockID j;
         tb2 = (if bid \<noteq> '''' then del_if_job (JobID j) bid tb1 else tb1) in
       if tb2 = [] then w\<lparr>runningBlocksByTenant := (runningBlocksByTenant w)(Tenant j := None)\<rparr>
       else w\<lparr>runningBlocksByTenant := (runningBlocksByTenant w)(Tenant j \<mapsto> tb2)\<rparr>))"

definition removePendingBlockIndex :: "job \<Rightarrow> work \<Rightarrow> work" where
  "removePendingBlockIndex j w = (let key = PendingBlockKey j in
     if key = '''' then w
     else (let w1 = w\<lparr>pendingBlocks := (pendingBlocks w)(key := None)\<rparr>;
               blockID = snd (splitPendingBlockKey key) in
       case pendingBlocksByTenant w1 (Tenant j) of
         None \<Rightarrow> w1
       | Some tb \<Rightarrow> (let tb' = AList.delete blockID tb in
           if tb' = [] then w1\<lparr>pendingBlocksByTenant := (pendingBlocksByTenant w1)(Tenant j := None)\<rparr>
           else w1\<lparr>pendingBlocksByTenant := (pendingBlocksByTenant w1)(Tenant j \<mapsto> tb')\<rparr>)))"

text \<open>The indexing of one pending job, which \<open>AddPendingJobs\<close>, \<open>Unmarshal\<close> and
  \<open>rebuildPendingIndexes\<close> spell out alike.\<close>

definition index_pending :: "job \<Rightarrow> work \<Rightarrow> work" where
  "index_pending j w = (let key = PendingBlockKey j; tenant = Tenant j;
       w1 = (if key = '''' then w
             else w\<lparr>pendingBlocks := (pendingBlocks w)(key \<mapsto> JobID j),
                    pendingBlocksByTenant := (pendingBlocksByTenant w)(tenant \<mapsto>
                      AList.update (snd (splitPendingBlockKey key)) (JobID j)
                        (inner (pendingBlocksByTenant w) tenant))\<rparr>);
       m = inner (pendingByTenant w1) tenant;
       q = (case map_of m (JobType j) of None \<Rightarrow> [] | Some q \<Rightarrow> q) in
     w1\<lparr>pendingByTenant := (pendingByTenant w1)(tenant \<mapsto> AList.update (JobType j) (q @ [JobID j]) m)\<rparr>)"

subsection \<open>Active jobs\<close>

datatype work_error = ErrJobNil | ErrJobAlreadyExists | ErrBatchAlreadyExists

definition decRedactionInFlightLocked :: "string \<Rightarrow> work \<Rightarrow> work" where
  "decRedactionInFlightLocked t w =
     (if redactionInFlight w t > 0
      then w\<lparr>redactionInFlight := (redactionInFlight w)(t := redactionInFlight w t - 1)\<rparr> else w)"

definition ReleaseRedactionInFlight :: "string \<Rightarrow> work \<Rightarrow> work" where
  "ReleaseRedactionInFlight t w = decRedactionInFlightLocked t w"

definition AddJob :: "time \<Rightarrow> ptr option \<Rightarrow> work \<Rightarrow> work_error option \<times> work" where
  "AddJob now jp w = (case jp of
     None \<Rightarrow> (Some ErrJobNil, w)
   | Some p \<Rightarrow> (let j = heap w p in
       if Jobs (getShard w (JobID j)) (JobID j) \<noteq> None
       then (Some ErrJobAlreadyExists,
             if JobType j = JOB_TYPE_REDACTION then ReleaseRedactionInFlight (Tenant j) w else w)
       else
        (let w1 = upd_job p (\<lambda>j. j\<lparr>CreatedTime := now, JobStatus := JOB_STATUS_UNSPECIFIED\<rparr>) w;
             w2 = upd_jobs (JobID j) (\<lambda>m. m(JobID j \<mapsto> p)) w1;
             w3 = w2\<lparr>registeredJobs := AList.delete (JobID j) (registeredJobs w2)\<rparr>;
             w4 = (if JobType j = JOB_TYPE_REDACTION then decRedactionInFlightLocked (Tenant j) w3 else w3);
             w5 = (if WorkerID j \<noteq> '''' then w4\<lparr>workerJobs := (workerJobs w4)(WorkerID j \<mapsto> JobID j)\<rparr> else w4)
         in (None, incRunningByTenant (Tenant j) (JobType j) w5))))"

definition set_runningBlocks :: "ptr \<Rightarrow> string list \<Rightarrow> work \<Rightarrow> work" where
  "set_runningBlocks p keys w =
     w\<lparr>runningBlocks := fold (\<lambda>key m. m(key \<mapsto> p)) keys (runningBlocks w)\<rparr>"

definition RegisterJob :: "ptr \<Rightarrow> work \<Rightarrow> work" where
  "RegisterJob p w = (let j = heap w p;
       w1 = w\<lparr>registeredJobs := AList.update (JobID j) p (registeredJobs w)\<rparr>;
       w2 = set_runningBlocks p (runningBlockKeys j) w1 in
     addRunningBlocksByTenant j w2)"

definition StartJob :: "time \<Rightarrow> string \<Rightarrow> work \<Rightarrow> work" where
  "StartJob now jobID w = (case Jobs (getShard w jobID) jobID of
     None \<Rightarrow> w
   | Some p \<Rightarrow> if IsPending (heap w p) then upd_job p (job_Start now) w else w)"

definition GetJob :: "work \<Rightarrow> string \<Rightarrow> ptr option" where
  "GetJob w jobID = Jobs (getShard w jobID) jobID"

definition RemoveJob :: "string \<Rightarrow> work \<Rightarrow> work" where
  "RemoveJob jobID w = upd_jobs jobID (\<lambda>m. m(jobID := None)) w"

definition ListJobs :: "(nat \<Rightarrow> string list) \<Rightarrow> work \<Rightarrow> ptr list" where
  "ListJobs orders w = concat (map (\<lambda>i. List.map_filter (Jobs (Shards w i)) (orders i)) [0..<ShardCount])"

definition is_active :: "job \<Rightarrow> bool" where
  "is_active j \<longleftrightarrow> JobStatus j = JOB_STATUS_RUNNING \<or> JobStatus j = JOB_STATUS_UNSPECIFIED"

definition GetJobForWorker :: "work \<Rightarrow> string \<Rightarrow> ptr option" where
  "GetJobForWorker w workerID = (case workerJobs w workerID of
     None \<Rightarrow> None
   | Some jobID \<Rightarrow> (case GetJob w jobID of
       None \<Rightarrow> None
     | Some p \<Rightarrow> if is_active (heap w p) then Some p else None))"

definition finish_job :: "(job \<Rightarrow> job) \<Rightarrow> string \<Rightarrow> work \<Rightarrow> work" where
  "finish_job f jobID w = (case Jobs (getShard w jobID) jobID of
     None \<Rightarrow> w
   | Some p \<Rightarrow>
      (let wasActive = is_active (heap w p);
           w1 = upd_job p f w;
           j = heap w1 p;
           w2 = w1\<lparr>runningBlocks := fold (\<lambda>key m. m(key := None)) (runningBlockKeys j) (runningBlocks w1)\<rparr>;
           w3 = (if WorkerID j \<noteq> '''' then w2\<lparr>workerJobs := (workerJobs w2)(WorkerID j := None)\<rparr> else w2);
           w4 = removeRunningBlocksByTenant j w3
       in if wasActive then decRunningByTenant (Tenant j) (JobType j) w4 else w4))"

definition CompleteJob :: "time \<Rightarrow> string \<Rightarrow> work \<Rightarrow> work" where
  "CompleteJob now jobID w = finish_job (job_Complete now) jobID w"

definition FailJob :: "time \<Rightarrow> string \<Rightarrow> work \<Rightarrow> work" where
  "FailJob now jobID w = finish_job (job_Fail now) jobID w"

definition SetJobCompactionOutput :: "string \<Rightarrow> string list \<Rightarrow> work \<Rightarrow> work" where
  "SetJobCompactionOutput jobID out w = (case Jobs (getShard w jobID) jobID of
     None \<Rightarrow> w | Some p \<Rightarrow> upd_job p (SetCompactionOutput out) w)"

subsection \<open>Pruning\<close>

text \<open>The goroutine of one shard visits its jobs; it deletes old finished jobs and fails the
  running jobs that are over the timeout, which it collects. The shards share no job, so
  their goroutines are run in the order of the shards.\<close>

definition prune_job :: "time \<Rightarrow> string \<Rightarrow> work \<times> ptr list \<Rightarrow> work \<times> ptr list" where
  "prune_job now jobID s = (case s of (w, timedOut) \<Rightarrow>
     (case Jobs (getShard w jobID) jobID of
       None \<Rightarrow> (w, timedOut)
     | Some p \<Rightarrow> (let j = heap w p in
         if JobStatus j = JOB_STATUS_FAILED \<or> JobStatus j = JOB_STATUS_SUCCEEDED then
           (if now - JobEndTime j > PruneAge (cfg w)
            then (upd_jobs jobID (\<lambda>m. m(jobID := None)) w, timedOut) else (w, timedOut))
         else if JobStatus j = JOB_STATUS_RUNNING then
           (if now - JobStartTime j > DeadJobTimeout (cfg w)
            then (upd_job p (job_Fail now) w, timedOut @ [p]) else (w, timedOut))
         else (w, timedOut))))"

definition prune_index :: "ptr \<Rightarrow> work \<Rightarrow> work" where
  "prune_index p w = (let j = heap w p;
       w1 = w\<lparr>runningBlocks := fold (\<lambda>key m. if m key = Some p then m(key := None) else m)
                (runningBlockKeys j) (runningBlocks w)\<rparr>;
       w2 = (if WorkerID j \<noteq> '''' \<and> workerJobs w1 (WorkerID j) = Some (JobID j)
             then w1\<lparr>workerJobs := (workerJobs w1)(WorkerID j := None)\<rparr> else w1);
       w3 = removeRunningBlocksByTenant j w2 in
     decRunningByTenant (Tenant j) (JobType j) w3)"

definition Prune :: "time \<Rightarrow> (nat \<Rightarrow> string list) \<Rightarrow> work \<Rightarrow> work" where
  "Prune now orders w =
     (let (w1, timedOut) = fold (\<lambda>i. fold (prune_job now) (orders i)) [0..<ShardCount] (w, [])
      in fold prune_index timedOut w1)"

subsection \<open>Pending jobs\<close>

definition add_pending :: "time \<Rightarrow> ptr option \<Rightarrow> work \<Rightarrow> work" where
  "add_pending now jp w = (case jp of
     None \<Rightarrow> w
   | Some p \<Rightarrow> (let jobID = JobID (heap w p) in
       if Pending (getShard w jobID) jobID \<noteq> None then w
       else
        (let w1 = upd_job p (\<lambda>j. j\<lparr>CreatedTime := now, JobStatus := JOB_STATUS_UNSPECIFIED\<rparr>) w;
             w2 = upd_pending jobID (\<lambda>m. m(jobID \<mapsto> p)) w1
         in index_pending (heap w2 p) w2)))"

definition AddPendingJobs :: "time \<Rightarrow> ptr option list \<Rightarrow> work \<Rightarrow> work" where
  "AddPendingJobs now jps w = fold (add_pending now) jps w"

definition ListAllPendingJobs :: "(nat \<Rightarrow> string list) \<Rightarrow> work \<Rightarrow> ptr list" where
  "ListAllPendingJobs orders w =
     concat (map (\<lambda>i. List.map_filter (Pending (Shards w i)) (orders i)) [0..<ShardCount])"

definition pendingQueue :: "work \<Rightarrow> string \<Rightarrow> job_type \<Rightarrow> string list" where
  "pendingQueue w t ty = (case map_of (inner (pendingByTenant w) t) ty of None \<Rightarrow> [] | Some q \<Rightarrow> q)"

definition pop_queue :: "string \<Rightarrow> job_type \<Rightarrow> work \<Rightarrow> work" where
  "pop_queue t ty w = (let m = inner (pendingByTenant w) t; q = tl (pendingQueue w t ty) in
     if q = [] then
       (let m' = AList.delete ty m in
        if m' = [] then w\<lparr>pendingByTenant := (pendingByTenant w)(t := None)\<rparr>
        else w\<lparr>pendingByTenant := (pendingByTenant w)(t \<mapsto> m')\<rparr>)
     else w\<lparr>pendingByTenant := (pendingByTenant w)(t \<mapsto> AList.update ty q m)\<rparr>)"

text \<open>\<open>NextPendingJob\<close> loops over stale index entries. Each round of the loop ranges over the
  tenants in an order of its own: the argument is the list of these orders, and the result
  \<open>None\<close> says that the loop has not returned within them.\<close>

fun NextPendingJob :: "string list list \<Rightarrow> job_type \<Rightarrow> work \<Rightarrow> (ptr option \<times> work) option" where
  "NextPendingJob [] ty w = None"
| "NextPendingJob (order # orders) ty w =
     (case find (\<lambda>t. pendingQueue w t ty \<noteq> []) order of
        None \<Rightarrow> Some (None, w)
      | Some t \<Rightarrow>
         (let jobID = hd (pendingQueue w t ty);
              w1 = pop_queue t ty w;
              w2 = (if t \<noteq> '''' \<and> ty = JOB_TYPE_REDACTION
                    then w1\<lparr>redactionInFlight := (redactionInFlight w1)(t := redactionInFlight w1 t + 1)\<rparr>
                    else w1)
          in if t = '''' then Some (None, w2)
             else (let jp = Pending (getShard w2 jobID) jobID;
                       w3 = upd_pending jobID (\<lambda>m. m(jobID := None)) w2
                   in case jp of
                        Some p \<Rightarrow> Some (Some p, removePendingBlockIndex (heap w3 p) w3)
                      | None \<Rightarrow> NextPendingJob orders ty
                          (if ty = JOB_TYPE_REDACTION then ReleaseRedactionInFlight t w3 else w3))))"

subsection \<open>Queries\<close>

definition runningCount :: "work \<Rightarrow> string \<Rightarrow> job_type \<Rightarrow> int" where
  "runningCount w t ty = (case map_of (inner (runningByTenant w) t) ty of None \<Rightarrow> 0 | Some n \<Rightarrow> n)"

definition HasJobsForTenant :: "work \<Rightarrow> string \<Rightarrow> job_type \<Rightarrow> bool" where
  "HasJobsForTenant w t ty = (let
       hasPending = pendingQueue w t ty \<noteq> [];
       hasRunning = runningCount w t ty > 0;
       hasInFlight = (ty = JOB_TYPE_REDACTION \<and> redactionInFlight w t > 0);
       hasInFlight' = (if \<not> hasInFlight \<and> \<not> hasRunning
         then list_ex (\<lambda>(_, p). Tenant (heap w p) = t \<and> JobType (heap w p) = ty) (registeredJobs w)
         else hasInFlight)
     in hasPending \<or> hasRunning \<or> hasInFlight')"

definition IsBlockBusy :: "work \<Rightarrow> string \<Rightarrow> string \<Rightarrow> bool" where
  "IsBlockBusy w t blockID = (let key = pendingBlockKey t blockID in
     pendingBlocks w key \<noteq> None \<or> runningBlocks w key \<noteq> None)"

definition BusyBlocksForTenant :: "work \<Rightarrow> string \<Rightarrow> (string \<rightharpoonup> string)" where
  "BusyBlocksForTenant w t =
     map_of (inner (pendingBlocksByTenant w) t) ++ map_of (inner (runningBlocksByTenant w) t)"

definition PendingJobCounts :: "work \<Rightarrow> string \<Rightarrow> job_type \<Rightarrow> nat option" where
  "PendingJobCounts w t ty = (case map_of (inner (pendingByTenant w) t) ty of
     None \<Rightarrow> None | Some q \<Rightarrow> if q = [] then None else Some (length q))"

subsection \<open>Rebuilding the indexes after a restart\<close>

definition index_active :: "ptr \<Rightarrow> work \<Rightarrow> work" where
  "index_active p w = (let j = heap w p in
     if is_active j then
      (let w1 = set_runningBlocks p (runningBlockKeys j) w;
           w2 = (if WorkerID j \<noteq> '''' then w1\<lparr>workerJobs := (workerJobs w1)(WorkerID j \<mapsto> JobID j)\<rparr> else w1);
           w3 = incRunningByTenant (Tenant j) (JobType j) w2
       in addRunningBlocksByTenant j w3)
     else w)"

definition rebuildPendingIndexes :: "(nat \<Rightarrow> string list) \<Rightarrow> (nat \<Rightarrow> string list) \<Rightarrow> work \<Rightarrow> work" where
  "rebuildPendingIndexes porders jorders w = (let
       w1 = w\<lparr>pendingBlocks := Map.empty, pendingByTenant := Map.empty, pendingBlocksByTenant := Map.empty\<rparr>;
       w2 = fold (\<lambda>p v. index_pending (heap v p) v) (ListAllPendingJobs porders w1) w1;
       w3 = w2\<lparr>workerJobs := Map.empty, runningBlocks := Map.empty, runningByTenant := Map.empty,
               runningBlocksByTenant := Map.empty\<rparr>
     in fold index_active (ListJobs jorders w3) w3)"

text \<open>\<open>Unmarshal\<close> after the decoding: the decoder gives the jobs and, for each shard, a
  pointer that may be nil, with maps that may be nil. Decoding keeps the unexported fields.\<close>

record decoded_shard =
  DecJobs :: "(string \<rightharpoonup> ptr) option"
  DecPending :: "(string \<rightharpoonup> ptr) option"

definition or_make :: "('k \<rightharpoonup> 'v) option \<Rightarrow> ('k \<rightharpoonup> 'v)" where
  "or_make m = (case m of None \<Rightarrow> Map.empty | Some f \<Rightarrow> f)"

definition Unmarshal :: "(ptr \<Rightarrow> job) \<Rightarrow> (nat \<Rightarrow> decoded_shard option) \<Rightarrow> (nat \<Rightarrow> string list)
    \<Rightarrow> (nat \<Rightarrow> string list) \<Rightarrow> work \<Rightarrow> work" where
  "Unmarshal h dec porders jorders w = rebuildPendingIndexes porders jorders
     (w\<lparr>heap := h, Shards := (\<lambda>i. case dec i of
          None \<Rightarrow> empty_shard
        | Some d \<Rightarrow> \<lparr>Jobs = or_make (DecJobs d), Pending = or_make (DecPending d)\<rparr>)\<rparr>)"

subsection \<open>Redaction batches (batch.go)\<close>

definition IsDryRun :: "int \<Rightarrow> bool" where
  "IsDryRun m \<longleftrightarrow> m = 1"

definition AddBatch :: "redaction_batch \<Rightarrow> work \<Rightarrow> work_error option \<times> work" where
  "AddBatch b w = (if batches w (BatchTenantId b) \<noteq> None then (Some ErrBatchAlreadyExists, w)
     else (None, w\<lparr>batches := (batches w)(BatchTenantId b \<mapsto> b)\<rparr>))"

definition GetBatch :: "work \<Rightarrow> string \<Rightarrow> redaction_batch option" where
  "GetBatch w t = batches w t"

definition RemoveBatch :: "string \<Rightarrow> work \<Rightarrow> work" where
  "RemoveBatch t w = w\<lparr>batches := (batches w)(t := None)\<rparr>"

definition TenantPending :: "work \<Rightarrow> string \<Rightarrow> bool" where
  "TenantPending w t = (case batches w t of None \<Rightarrow> False | Some b \<Rightarrow> \<not> IsDryRun (BatchMode b))"

definition SetBatchRescan :: "string \<Rightarrow> string list \<Rightarrow> int \<Rightarrow> work \<Rightarrow> work" where
  "SetBatchRescan t ids afterNano w = (case batches w t of None \<Rightarrow> w
     | Some b \<Rightarrow> w\<lparr>batches := (batches w)(t \<mapsto>
         b\<lparr>SkippedCompactionJobIds := ids, RescanAfterUnixNano := afterNano\<rparr>)\<rparr>)"

definition SetBatchQuiesceUntil :: "string \<Rightarrow> int \<Rightarrow> work \<Rightarrow> work" where
  "SetBatchQuiesceUntil t untilNano w = (case batches w t of None \<Rightarrow> w
     | Some b \<Rightarrow> w\<lparr>batches := (batches w)(t \<mapsto> b\<lparr>QuiesceUntilUnixNano := untilNano\<rparr>)\<rparr>)"

definition BatchQuiescenceState :: "work \<Rightarrow> string \<Rightarrow> int \<times> bool \<times> bool \<times> bool" where
  "BatchQuiescenceState w t = (case batches w t of
     None \<Rightarrow> (0, False, False, False)
   | Some b \<Rightarrow> (QuiesceUntilUnixNano b, RescanAfterUnixNano b > 0, IsDryRun (BatchMode b), True))"

definition load_batches :: "redaction_batch list \<Rightarrow> work \<Rightarrow> work" where
  "load_batches bs w = w\<lparr>batches := fold (\<lambda>b m. m(BatchTenantId b \<mapsto> b)) bs Map.empty\<rparr>"

definition ListBatches :: "string list \<Rightarrow> work \<Rightarrow> redaction_batch list" where
  "ListBatches order w = List.map_filter (batches w) order"

subsection \<open>What each helper changes\<close>

definition PendingJob :: "work \<Rightarrow> string \<Rightarrow> ptr option" where
  "PendingJob w jobID = Pending (getShard w jobID) jobID"

definition placed :: "work \<Rightarrow> bool" where
  "placed w \<longleftrightarrow> (\<forall>i jobID. (Jobs (Shards w i) jobID \<noteq> None \<or> Pending (Shards w i) jobID \<noteq> None)
     \<longrightarrow> i = getShardID jobID)"

lemma getShardID_bound: "getShardID jobID < ShardCount"
proof -
  have "unat (and (fnv1a_32 jobID) 255) \<le> unat (255 :: u32)"
    using word_and_le1 [of "fnv1a_32 jobID" 255] by (simp add: word_le_nat_alt)
  also have "unat (255 :: u32) = 255" by simp
  finally show ?thesis by (simp add: getShardID_def ShardCount_def)
qed

lemma upd_jobs_views [simp]:
  "GetJob (upd_jobs k (\<lambda>m. m(k := x)) w) = (GetJob w)(k := x)"
  "PendingJob (upd_jobs k f w) = PendingJob w"
  by (auto simp: fun_eq_iff GetJob_def PendingJob_def getShard_def upd_jobs_def Let_def)

lemma upd_pending_views [simp]:
  "PendingJob (upd_pending k (\<lambda>m. m(k := x)) w) = (PendingJob w)(k := x)"
  "GetJob (upd_pending k f w) = GetJob w"
  by (auto simp: fun_eq_iff GetJob_def PendingJob_def getShard_def upd_pending_def Let_def)

lemma upd_job_views [simp]:
  "GetJob (upd_job p f w) = GetJob w" "PendingJob (upd_job p f w) = PendingJob w"
  by (auto simp: fun_eq_iff GetJob_def PendingJob_def getShard_def upd_job_def)

lemma placed_upd [simp]:
  "placed w \<Longrightarrow> placed (upd_jobs k (\<lambda>m. m(k := x)) w)"
  "placed w \<Longrightarrow> placed (upd_pending k (\<lambda>m. m(k := x)) w)"
  "placed (upd_job p f w) = placed w"
  by (auto simp: placed_def upd_jobs_def upd_pending_def upd_job_def Let_def split: if_splits)

text \<open>The fields of the state that the queries read; an update of the heap or of a shard
  leaves the indexes alone, and an update of an index leaves heap and shards alone.\<close>

definition store_of :: "work \<Rightarrow> (ptr \<Rightarrow> job) \<times> (nat \<Rightarrow> shard) \<times> work_config" where
  "store_of w = (heap w, Shards w, cfg w)"

lemma store_of_views:
  assumes "store_of w' = store_of w"
  shows "GetJob w' = GetJob w" "PendingJob w' = PendingJob w" "heap w' = heap w"
    "placed w' = placed w" "cfg w' = cfg w" "getShard w' = getShard w"
  using assms by (auto simp: store_of_def fun_eq_iff GetJob_def PendingJob_def getShard_def placed_def)

lemma index_ops_store [frame_simps]:
  "store_of (incRunningByTenant t ty w) = store_of w"
  "store_of (decRunningByTenant t ty w) = store_of w"
  "store_of (addRunningBlocksByTenant j w) = store_of w"
  "store_of (removeRunningBlocksByTenant j w) = store_of w"
  "store_of (removePendingBlockIndex j w) = store_of w"
  "store_of (index_pending j w) = store_of w"
  "store_of (decRedactionInFlightLocked t w) = store_of w"
  "store_of (set_runningBlocks p ks w) = store_of w"
  "store_of (pop_queue t ty w) = store_of w"
  "store_of (prune_index p w) = store_of w"
  by (auto simp: store_of_def incRunningByTenant_def decRunningByTenant_def addRunningBlocksByTenant_def
      removeRunningBlocksByTenant_def removePendingBlockIndex_def index_pending_def
      decRedactionInFlightLocked_def set_runningBlocks_def pop_queue_def prune_index_def Let_def
      split: option.splits)

lemmas index_ops_views [simp] = index_ops_store [THEN store_of_views(1)]
  index_ops_store [THEN store_of_views(2)] index_ops_store [THEN store_of_views(3)]
  index_ops_store [THEN store_of_views(4)] index_ops_store [THEN store_of_views(5)]
  index_ops_store [THEN store_of_views(6)]

text \<open>Updates of single index fields.\<close>

lemma field_upd_views [simp]:
  "GetJob (w\<lparr>registeredJobs := x1\<rparr>) = GetJob w" "PendingJob (w\<lparr>registeredJobs := x1\<rparr>) = PendingJob w"
  "GetJob (w\<lparr>workerJobs := x2\<rparr>) = GetJob w" "PendingJob (w\<lparr>workerJobs := x2\<rparr>) = PendingJob w"
  "GetJob (w\<lparr>runningBlocks := x3\<rparr>) = GetJob w" "PendingJob (w\<lparr>runningBlocks := x3\<rparr>) = PendingJob w"
  "GetJob (w\<lparr>redactionInFlight := x4\<rparr>) = GetJob w" "PendingJob (w\<lparr>redactionInFlight := x4\<rparr>) = PendingJob w"
  "GetJob (w\<lparr>batches := x5\<rparr>) = GetJob w" "PendingJob (w\<lparr>batches := x5\<rparr>) = PendingJob w"
  "placed (w\<lparr>registeredJobs := x1\<rparr>) = placed w" "placed (w\<lparr>workerJobs := x2\<rparr>) = placed w"
  "placed (w\<lparr>runningBlocks := x3\<rparr>) = placed w" "placed (w\<lparr>redactionInFlight := x4\<rparr>) = placed w"
  "placed (w\<lparr>batches := x5\<rparr>) = placed w"
  by (auto simp: fun_eq_iff GetJob_def PendingJob_def getShard_def placed_def)

lemma heap_upd [simp]:
  "heap (upd_job p f w) = (heap w)(p := f (heap w p))"
  "heap (upd_jobs k g w) = heap w" "heap (upd_pending k g w) = heap w"
  by (auto simp: upd_job_def upd_jobs_def upd_pending_def Let_def)

lemma incRunningByTenant_fields [simp]:
  "pendingBlocks (incRunningByTenant t ty w) = pendingBlocks w"
  "pendingByTenant (incRunningByTenant t ty w) = pendingByTenant w"
  "redactionInFlight (incRunningByTenant t ty w) = redactionInFlight w"
  "registeredJobs (incRunningByTenant t ty w) = registeredJobs w"
  "workerJobs (incRunningByTenant t ty w) = workerJobs w"
  "runningBlocks (incRunningByTenant t ty w) = runningBlocks w"
  "pendingBlocksByTenant (incRunningByTenant t ty w) = pendingBlocksByTenant w"
  "runningBlocksByTenant (incRunningByTenant t ty w) = runningBlocksByTenant w"
  "batches (incRunningByTenant t ty w) = batches w"
  by (auto simp: incRunningByTenant_def Let_def split: option.splits)

lemma decRunningByTenant_fields [simp]:
  "pendingBlocks (decRunningByTenant t ty w) = pendingBlocks w"
  "pendingByTenant (decRunningByTenant t ty w) = pendingByTenant w"
  "redactionInFlight (decRunningByTenant t ty w) = redactionInFlight w"
  "registeredJobs (decRunningByTenant t ty w) = registeredJobs w"
  "workerJobs (decRunningByTenant t ty w) = workerJobs w"
  "runningBlocks (decRunningByTenant t ty w) = runningBlocks w"
  "pendingBlocksByTenant (decRunningByTenant t ty w) = pendingBlocksByTenant w"
  "runningBlocksByTenant (decRunningByTenant t ty w) = runningBlocksByTenant w"
  "batches (decRunningByTenant t ty w) = batches w"
  by (auto simp: decRunningByTenant_def Let_def split: option.splits)

lemma addRunningBlocksByTenant_fields [simp]:
  "pendingBlocks (addRunningBlocksByTenant j w) = pendingBlocks w"
  "pendingByTenant (addRunningBlocksByTenant j w) = pendingByTenant w"
  "redactionInFlight (addRunningBlocksByTenant j w) = redactionInFlight w"
  "registeredJobs (addRunningBlocksByTenant j w) = registeredJobs w"
  "workerJobs (addRunningBlocksByTenant j w) = workerJobs w"
  "runningBlocks (addRunningBlocksByTenant j w) = runningBlocks w"
  "runningByTenant (addRunningBlocksByTenant j w) = runningByTenant w"
  "pendingBlocksByTenant (addRunningBlocksByTenant j w) = pendingBlocksByTenant w"
  "batches (addRunningBlocksByTenant j w) = batches w"
  by (auto simp: addRunningBlocksByTenant_def Let_def split: option.splits)

lemma removeRunningBlocksByTenant_fields [simp]:
  "pendingBlocks (removeRunningBlocksByTenant j w) = pendingBlocks w"
  "pendingByTenant (removeRunningBlocksByTenant j w) = pendingByTenant w"
  "redactionInFlight (removeRunningBlocksByTenant j w) = redactionInFlight w"
  "registeredJobs (removeRunningBlocksByTenant j w) = registeredJobs w"
  "workerJobs (removeRunningBlocksByTenant j w) = workerJobs w"
  "runningBlocks (removeRunningBlocksByTenant j w) = runningBlocks w"
  "runningByTenant (removeRunningBlocksByTenant j w) = runningByTenant w"
  "pendingBlocksByTenant (removeRunningBlocksByTenant j w) = pendingBlocksByTenant w"
  "batches (removeRunningBlocksByTenant j w) = batches w"
  by (auto simp: removeRunningBlocksByTenant_def Let_def split: option.splits)

lemma removePendingBlockIndex_fields [simp]:
  "pendingByTenant (removePendingBlockIndex j w) = pendingByTenant w"
  "redactionInFlight (removePendingBlockIndex j w) = redactionInFlight w"
  "registeredJobs (removePendingBlockIndex j w) = registeredJobs w"
  "workerJobs (removePendingBlockIndex j w) = workerJobs w"
  "runningBlocks (removePendingBlockIndex j w) = runningBlocks w"
  "runningByTenant (removePendingBlockIndex j w) = runningByTenant w"
  "runningBlocksByTenant (removePendingBlockIndex j w) = runningBlocksByTenant w"
  "batches (removePendingBlockIndex j w) = batches w"
  by (auto simp: removePendingBlockIndex_def Let_def split: option.splits)

lemma index_pending_fields [simp]:
  "redactionInFlight (index_pending j w) = redactionInFlight w"
  "registeredJobs (index_pending j w) = registeredJobs w"
  "workerJobs (index_pending j w) = workerJobs w"
  "runningBlocks (index_pending j w) = runningBlocks w"
  "runningByTenant (index_pending j w) = runningByTenant w"
  "runningBlocksByTenant (index_pending j w) = runningBlocksByTenant w"
  "batches (index_pending j w) = batches w"
  by (auto simp: index_pending_def Let_def split: option.splits)

lemma decRedactionInFlightLocked_fields [simp]:
  "pendingBlocks (decRedactionInFlightLocked t w) = pendingBlocks w"
  "pendingByTenant (decRedactionInFlightLocked t w) = pendingByTenant w"
  "registeredJobs (decRedactionInFlightLocked t w) = registeredJobs w"
  "workerJobs (decRedactionInFlightLocked t w) = workerJobs w"
  "runningBlocks (decRedactionInFlightLocked t w) = runningBlocks w"
  "runningByTenant (decRedactionInFlightLocked t w) = runningByTenant w"
  "pendingBlocksByTenant (decRedactionInFlightLocked t w) = pendingBlocksByTenant w"
  "runningBlocksByTenant (decRedactionInFlightLocked t w) = runningBlocksByTenant w"
  "batches (decRedactionInFlightLocked t w) = batches w"
  by (auto simp: decRedactionInFlightLocked_def Let_def split: option.splits)

lemma set_runningBlocks_fields [simp]:
  "pendingBlocks (set_runningBlocks p ks w) = pendingBlocks w"
  "pendingByTenant (set_runningBlocks p ks w) = pendingByTenant w"
  "redactionInFlight (set_runningBlocks p ks w) = redactionInFlight w"
  "registeredJobs (set_runningBlocks p ks w) = registeredJobs w"
  "workerJobs (set_runningBlocks p ks w) = workerJobs w"
  "runningByTenant (set_runningBlocks p ks w) = runningByTenant w"
  "pendingBlocksByTenant (set_runningBlocks p ks w) = pendingBlocksByTenant w"
  "runningBlocksByTenant (set_runningBlocks p ks w) = runningBlocksByTenant w"
  "batches (set_runningBlocks p ks w) = batches w"
  by (auto simp: set_runningBlocks_def Let_def split: option.splits)

lemma pop_queue_fields [simp]:
  "pendingBlocks (pop_queue t ty w) = pendingBlocks w"
  "redactionInFlight (pop_queue t ty w) = redactionInFlight w"
  "registeredJobs (pop_queue t ty w) = registeredJobs w"
  "workerJobs (pop_queue t ty w) = workerJobs w"
  "runningBlocks (pop_queue t ty w) = runningBlocks w"
  "runningByTenant (pop_queue t ty w) = runningByTenant w"
  "pendingBlocksByTenant (pop_queue t ty w) = pendingBlocksByTenant w"
  "runningBlocksByTenant (pop_queue t ty w) = runningBlocksByTenant w"
  "batches (pop_queue t ty w) = batches w"
  by (auto simp: pop_queue_def Let_def split: option.splits)

lemma upd_job_fields [simp]:
  "pendingBlocks (upd_job p f w) = pendingBlocks w"
  "pendingByTenant (upd_job p f w) = pendingByTenant w"
  "redactionInFlight (upd_job p f w) = redactionInFlight w"
  "registeredJobs (upd_job p f w) = registeredJobs w"
  "workerJobs (upd_job p f w) = workerJobs w"
  "runningBlocks (upd_job p f w) = runningBlocks w"
  "runningByTenant (upd_job p f w) = runningByTenant w"
  "pendingBlocksByTenant (upd_job p f w) = pendingBlocksByTenant w"
  "runningBlocksByTenant (upd_job p f w) = runningBlocksByTenant w"
  "batches (upd_job p f w) = batches w"
  by (auto simp: upd_job_def Let_def split: option.splits)

lemma upd_jobs_fields [simp]:
  "pendingBlocks (upd_jobs k g w) = pendingBlocks w"
  "pendingByTenant (upd_jobs k g w) = pendingByTenant w"
  "redactionInFlight (upd_jobs k g w) = redactionInFlight w"
  "registeredJobs (upd_jobs k g w) = registeredJobs w"
  "workerJobs (upd_jobs k g w) = workerJobs w"
  "runningBlocks (upd_jobs k g w) = runningBlocks w"
  "runningByTenant (upd_jobs k g w) = runningByTenant w"
  "pendingBlocksByTenant (upd_jobs k g w) = pendingBlocksByTenant w"
  "runningBlocksByTenant (upd_jobs k g w) = runningBlocksByTenant w"
  "batches (upd_jobs k g w) = batches w"
  by (auto simp: upd_jobs_def Let_def split: option.splits)

lemma upd_pending_fields [simp]:
  "pendingBlocks (upd_pending k g w) = pendingBlocks w"
  "pendingByTenant (upd_pending k g w) = pendingByTenant w"
  "redactionInFlight (upd_pending k g w) = redactionInFlight w"
  "registeredJobs (upd_pending k g w) = registeredJobs w"
  "workerJobs (upd_pending k g w) = workerJobs w"
  "runningBlocks (upd_pending k g w) = runningBlocks w"
  "runningByTenant (upd_pending k g w) = runningByTenant w"
  "pendingBlocksByTenant (upd_pending k g w) = pendingBlocksByTenant w"
  "runningBlocksByTenant (upd_pending k g w) = runningBlocksByTenant w"
  "batches (upd_pending k g w) = batches w"
  by (auto simp: upd_pending_def Let_def split: option.splits)

subsection \<open>The count of active jobs\<close>

definition active_jobs :: "work \<Rightarrow> string \<Rightarrow> job_type \<Rightarrow> string set" where
  "active_jobs w t ty = {jobID. \<exists>p. GetJob w jobID = Some p \<and> is_active (heap w p)
     \<and> Tenant (heap w p) = t \<and> JobType (heap w p) = ty}"

definition jobs_wf :: "work \<Rightarrow> bool" where
  "jobs_wf w \<longleftrightarrow> finite (dom (GetJob w)) \<and> (\<forall>jobID p. GetJob w jobID = Some p \<longrightarrow> JobID (heap w p) = jobID)"

definition of_kind :: "work \<Rightarrow> string \<Rightarrow> job_type \<Rightarrow> ptr \<Rightarrow> bool" where
  "of_kind w t ty p \<longleftrightarrow> Tenant (heap w p) = t \<and> JobType (heap w p) = ty"

text \<open>The counter is exact up to the jobs in \<open>lag\<close>, which \<open>Prune\<close> has failed but not yet
  taken out of the indexes.\<close>

definition counted :: "ptr list \<Rightarrow> work \<Rightarrow> bool" where
  "counted lag w \<longleftrightarrow> (\<forall>t ty. runningCount w t ty =
     int (card (active_jobs w t ty)) + int (length (filter (of_kind w t ty) lag)))"

lemma finite_active: "jobs_wf w \<Longrightarrow> finite (active_jobs w t ty)"
  unfolding jobs_wf_def active_jobs_def by (elim conjE, rule finite_subset) (auto simp: dom_def)

lemma runningCount_cong:
  "runningByTenant w' = runningByTenant w \<Longrightarrow> runningCount w' t ty = runningCount w t ty"
  by (simp add: runningCount_def)

lemma runningCount_inc [simp]:
  "runningCount (incRunningByTenant t ty w) t' ty' =
     runningCount w t' ty' + of_bool (t' = t \<and> ty' = ty)"
  by (auto simp: runningCount_def incRunningByTenant_def inner_def Let_def update_conv'
      split: option.splits)

lemma runningCount_dec [simp]:
  "runningCount (decRunningByTenant t ty w) t' ty' =
     (if t' = t \<and> ty' = ty then max 0 (runningCount w t ty - 1) else runningCount w t' ty')"
proof (cases "runningByTenant w t")
  case (Some m)
  have del: "map_of (AList.delete ty m) = (map_of m)(ty := None)" by (rule delete_conv')
  have "AList.delete ty m = [] \<Longrightarrow> ty' \<noteq> ty \<Longrightarrow> map_of m ty' = None"
    using fun_cong [OF del, of ty'] by simp
  then show ?thesis
    by (auto simp: runningCount_def decRunningByTenant_def inner_def Let_def Some del update_conv'
        split: option.splits)
qed (auto simp: runningCount_def decRunningByTenant_def inner_def)

lemma active_card_step:
  assumes wf: "jobs_wf w" "jobs_wf w'"
    and same: "\<And>k p. k \<noteq> jobID \<Longrightarrow> GetJob w' k = GetJob w k"
      "\<And>k p. k \<noteq> jobID \<Longrightarrow> GetJob w k = Some p \<Longrightarrow> heap w' p = heap w p"
  shows "int (card (active_jobs w' t ty)) = int (card (active_jobs w t ty))
    - of_bool (jobID \<in> active_jobs w t ty) + of_bool (jobID \<in> active_jobs w' t ty)"
proof -
  have "active_jobs w' t ty - {jobID} = active_jobs w t ty - {jobID}"
    using same by (auto simp: active_jobs_def)
  moreover have "int (card A) = int (card (A - {jobID})) + of_bool (jobID \<in> A)" if "finite A" for A
    using that card.remove [of A jobID] by (auto simp: Diff_insert_absorb)
  note this [OF finite_active [OF wf(1), of t ty]] this [OF finite_active [OF wf(2), of t ty]]
  ultimately show ?thesis by simp
qed

lemma jobs_wf_upd_job:
  "jobs_wf w \<Longrightarrow> JobID (f (heap w p)) = JobID (heap w p) \<Longrightarrow> jobs_wf (upd_job p f w)"
  by (auto simp: jobs_wf_def)

lemma job_ptr_unique: "jobs_wf w \<Longrightarrow> GetJob w k = Some p \<Longrightarrow> GetJob w k' = Some p \<Longrightarrow> k = k'"
  unfolding jobs_wf_def by metis

lemma jobs_wf_cong:
  "GetJob w' = GetJob w \<Longrightarrow> heap w' = heap w \<Longrightarrow> jobs_wf w' = jobs_wf w"
  by (simp add: jobs_wf_def)

lemma active_jobs_cong:
  "GetJob w' = GetJob w \<Longrightarrow> heap w' = heap w \<Longrightarrow> active_jobs w' t ty = active_jobs w t ty"
  by (simp add: active_jobs_def)

lemma of_kind_cong: "heap w' = heap w \<Longrightarrow> of_kind w' = of_kind w"
  by (simp add: of_kind_def fun_eq_iff)

lemma counted_cong:
  "GetJob w' = GetJob w \<Longrightarrow> heap w' = heap w \<Longrightarrow> runningByTenant w' = runningByTenant w
    \<Longrightarrow> counted lag w' = counted lag w"
  by (simp add: counted_def active_jobs_cong [of w' w] of_kind_cong [of w' w] runningCount_cong [of w' w])

definition same_kind :: "job \<Rightarrow> job \<Rightarrow> bool" where
  "same_kind j' j \<longleftrightarrow> JobID j' = JobID j \<and> Tenant j' = Tenant j \<and> JobType j' = JobType j
     \<and> DetailBatchId (JobDetail j') = DetailBatchId (JobDetail j)
     \<and> GetCompactionInput j' = GetCompactionInput j
     \<and> GetRedactionBlockID j' = GetRedactionBlockID j \<and> PendingBlockKey j' = PendingBlockKey j"

lemma same_kind_refl [simp]: "same_kind j j"
  by (simp add: same_kind_def)

lemma same_kind_trans: "same_kind a b \<Longrightarrow> same_kind b c \<Longrightarrow> same_kind a c"
  by (simp add: same_kind_def)

lemma same_kind_updates [simp]:
  "same_kind (job_Start now j) j" "same_kind (job_Complete now j) j" "same_kind (job_Fail now j) j"
  "same_kind (j\<lparr>CreatedTime := now, JobStatus := s\<rparr>) j" "same_kind (SetWorkerID wid j) j"
  "same_kind (SetCompactionOutput out j) j"
  by (auto simp: same_kind_def job_Start_def job_Complete_def job_Fail_def SetWorkerID_def
      SetCompactionOutput_def Tenant_def GetCompactionInput_def GetRedactionBlockID_def
      PendingBlockKey_def split: job_type.splits option.splits)

lemma is_active_updates [simp]:
  "is_active (job_Start now j)" "\<not> is_active (job_Complete now j)" "\<not> is_active (job_Fail now j)"
  "is_active (j\<lparr>CreatedTime := now, JobStatus := JOB_STATUS_UNSPECIFIED\<rparr>)"
  "is_active (SetWorkerID wid j) = is_active j" "is_active (SetCompactionOutput out j) = is_active j"
  by (auto simp: is_active_def job_Start_def job_Complete_def job_Fail_def SetWorkerID_def
      SetCompactionOutput_def split: job_type.splits)

lemma of_kind_upd_job:
  "same_kind (f (heap w p)) (heap w p) \<Longrightarrow> of_kind (upd_job p f w) = of_kind w"
  by (auto simp: of_kind_def fun_eq_iff same_kind_def)

text \<open>One job changes: the count moves by the difference of its activity.\<close>

lemma counted_upd_job:
  assumes wf: "jobs_wf w" and c: "counted lag w" and k: "same_kind (f (heap w p)) (heap w p)"
    and g: "GetJob w jobID = Some p"
  shows "jobs_wf (upd_job p f w)"
    and "runningCount (upd_job p f w) t ty = int (card (active_jobs (upd_job p f w) t ty))
      + (of_bool (of_kind w t ty p \<and> is_active (heap w p))
         - of_bool (of_kind w t ty p \<and> is_active (f (heap w p))))
      + int (length (filter (of_kind w t ty) lag))"
proof -
  show wf': "jobs_wf (upd_job p f w)"
    using wf k by (intro jobs_wf_upd_job) (auto simp: same_kind_def)
  have "int (card (active_jobs (upd_job p f w) t ty)) = int (card (active_jobs w t ty))
    - of_bool (jobID \<in> active_jobs w t ty) + of_bool (jobID \<in> active_jobs (upd_job p f w) t ty)"
    using job_ptr_unique [OF wf g] by (intro active_card_step wf wf') auto
  moreover have "jobID \<in> active_jobs w t ty \<longleftrightarrow> of_kind w t ty p \<and> is_active (heap w p)"
    "jobID \<in> active_jobs (upd_job p f w) t ty \<longleftrightarrow> of_kind w t ty p \<and> is_active (f (heap w p))"
    using g k by (auto simp: active_jobs_def of_kind_def same_kind_def)
  ultimately show "runningCount (upd_job p f w) t ty = int (card (active_jobs (upd_job p f w) t ty))
      + (of_bool (of_kind w t ty p \<and> is_active (heap w p))
         - of_bool (of_kind w t ty p \<and> is_active (f (heap w p))))
      + int (length (filter (of_kind w t ty) lag))"
    using c by (simp add: counted_def runningCount_cong [of "upd_job p f w" w])
qed

lemma counted_upd_job_same:
  assumes "jobs_wf w" "counted lag w" "same_kind (f (heap w p)) (heap w p)"
    and g: "\<And>jobID. GetJob w jobID = Some p \<Longrightarrow> is_active (f (heap w p)) = is_active (heap w p)"
  shows "jobs_wf (upd_job p f w) \<and> counted lag (upd_job p f w)"
proof (cases "\<exists>jobID. GetJob w jobID = Some p")
  case True
  then show ?thesis
    using counted_upd_job [where f = f, OF assms(1-3)] g of_kind_upd_job [where f = f, OF assms(3)]
    by (auto simp: counted_def)
next
  case False
  then have "jobs_wf (upd_job p f w)" "\<And>t ty. active_jobs (upd_job p f w) t ty = active_jobs w t ty"
    using assms(1,3) by (auto simp: jobs_wf_def same_kind_def active_jobs_def)
  then show ?thesis
    using assms(2) of_kind_upd_job [where f = f, OF assms(3)]
    by (simp add: counted_def runningCount_cong [of "upd_job p f w" w])
qed

lemma redactionInFlight_dec [simp]:
  "redactionInFlight (decRedactionInFlightLocked t w) =
     (redactionInFlight w)(t := redactionInFlight w t - of_bool (redactionInFlight w t > 0))"
  by (simp add: decRedactionInFlightLocked_def)

lemma runningCount_frames [simp]:
  "runningCount (w\<lparr>registeredJobs := x1\<rparr>) = runningCount w"
  "runningCount (w\<lparr>workerJobs := x2\<rparr>) = runningCount w"
  "runningCount (w\<lparr>runningBlocks := x3\<rparr>) = runningCount w"
  "runningCount (w\<lparr>redactionInFlight := x4\<rparr>) = runningCount w"
  "runningCount (w\<lparr>batches := x5\<rparr>) = runningCount w"
  "runningCount (upd_job p f w) = runningCount w" "runningCount (upd_jobs k g w) = runningCount w"
  "runningCount (upd_pending k g w) = runningCount w"
  "runningCount (decRedactionInFlightLocked t w) = runningCount w"
  "runningCount (set_runningBlocks p ks w) = runningCount w"
  "runningCount (addRunningBlocksByTenant j w) = runningCount w"
  "runningCount (removeRunningBlocksByTenant j w) = runningCount w"
  "runningCount (removePendingBlockIndex j w) = runningCount w"
  "runningCount (index_pending j w) = runningCount w" "runningCount (pop_queue t ty w) = runningCount w"
  by (simp_all add: runningCount_def fun_eq_iff)

lemma counted_dec:
  assumes "counted (p # lag) w"
  shows "counted lag (decRunningByTenant (Tenant (heap w p)) (JobType (heap w p)) w)"
proof -
  let ?w = "decRunningByTenant (Tenant (heap w p)) (JobType (heap w p)) w"
  have "runningCount ?w t ty = int (card (active_jobs ?w t ty)) + int (length (filter (of_kind ?w t ty) lag))"
    for t ty
    using assms unfolding counted_def
    by (auto simp: active_jobs_cong [of ?w w] of_kind_cong [of ?w w] of_kind_def)
  then show ?thesis by (simp add: counted_def)
qed

lemma AddJob_new:
  assumes "GetJob w (JobID (heap w p)) = None" and w': "w' = snd (AddJob now (Some p) w)"
  shows "GetJob w' = (GetJob w)(JobID (heap w p) \<mapsto> p)"
    "heap w' = (heap w)(p := (heap w p)\<lparr>CreatedTime := now, JobStatus := JOB_STATUS_UNSPECIFIED\<rparr>)"
    "PendingJob w' = PendingJob w"
    "runningCount w' t ty = runningCount w t ty + of_bool (of_kind w t ty p)"
    "pendingByTenant w' = pendingByTenant w" "batches w' = batches w"
    "registeredJobs w' = AList.delete (JobID (heap w p)) (registeredJobs w)"
    "redactionInFlight w' = (if JobType (heap w p) = JOB_TYPE_REDACTION
       then redactionInFlight (decRedactionInFlightLocked (Tenant (heap w p)) w) else redactionInFlight w)"
  using assms
  by (auto simp: AddJob_def Let_def GetJob_def [symmetric] of_kind_def)

lemma AddJob_placed: "placed w \<Longrightarrow> placed (snd (AddJob now jp w))"
  by (auto simp: AddJob_def Let_def ReleaseRedactionInFlight_def split: option.splits)

lemma AddJob_dup:
  assumes "GetJob w (JobID (heap w p)) \<noteq> None"
  shows "AddJob now (Some p) w = (Some ErrJobAlreadyExists,
    if JobType (heap w p) = JOB_TYPE_REDACTION then decRedactionInFlightLocked (Tenant (heap w p)) w else w)"
  using assms by (simp add: AddJob_def GetJob_def ReleaseRedactionInFlight_def)

lemma AddJob_counted:
  assumes wf: "jobs_wf w" and c: "counted lag w"
  shows "jobs_wf (snd (AddJob now jp w)) \<and> counted lag (snd (AddJob now jp w))"
proof (cases jp)
  case None
  then show ?thesis using assms by (simp add: AddJob_def)
next
  case (Some p)
  let ?j = "heap w p" and ?w = "snd (AddJob now jp w)"
  show ?thesis
  proof (cases "GetJob w (JobID ?j) = None")
    case True
    note new = AddJob_new [OF True, of ?w now, simplified Some, OF refl]
    have no: "GetJob w k \<noteq> Some p" for k
      using wf True unfolding jobs_wf_def by (metis option.distinct(1))
    have wf': "jobs_wf ?w"
      using wf no by (auto simp: jobs_wf_def new Some)
    have "int (card (active_jobs ?w t ty)) = int (card (active_jobs w t ty))
       - of_bool (JobID ?j \<in> active_jobs w t ty) + of_bool (JobID ?j \<in> active_jobs ?w t ty)" for t ty
      using no by (intro active_card_step wf wf') (auto simp: new Some)
    moreover have "JobID ?j \<notin> active_jobs w t ty" "JobID ?j \<in> active_jobs ?w t ty \<longleftrightarrow> of_kind w t ty p" for t ty
      using True by (auto simp: active_jobs_def new Some of_kind_def Tenant_def)
    moreover have "of_kind ?w = of_kind w"
      by (auto simp: of_kind_def fun_eq_iff new Some Tenant_def)
    ultimately have "counted lag ?w"
      using c by (simp add: counted_def new(4) Some)
    then show ?thesis using wf' by simp
  next
    case False
    let ?d = "decRedactionInFlightLocked (Tenant ?j) w"
    have "jobs_wf ?d \<and> counted lag ?d"
      using assms by (simp add: jobs_wf_cong [of ?d w] counted_cong [of ?d w])
    then show ?thesis using assms False by (simp add: Some AddJob_dup)
  qed
qed

lemma finish_job_None: "GetJob w jobID = None \<Longrightarrow> finish_job f jobID w = w"
  by (simp add: finish_job_def GetJob_def)

lemma finish_job_Some:
  assumes "GetJob w jobID = Some p" and k: "same_kind (f (heap w p)) (heap w p)"
    and w': "w' = finish_job f jobID w"
  shows "GetJob w' = GetJob w" "heap w' = (heap w)(p := f (heap w p))" "PendingJob w' = PendingJob w"
    "placed w' = placed w" "pendingByTenant w' = pendingByTenant w" "batches w' = batches w"
    "redactionInFlight w' = redactionInFlight w" "registeredJobs w' = registeredJobs w"
    "runningCount w' t ty = (if of_kind w t ty p \<and> is_active (heap w p)
       then max 0 (runningCount w t ty - 1) else runningCount w t ty)"
  using assms
  by (auto simp: finish_job_def Let_def GetJob_def [symmetric] of_kind_def same_kind_def)

lemma finish_job_counted:
  assumes wf: "jobs_wf w" and c: "counted [] w"
    and f: "\<And>j. same_kind (f j) j" "\<And>j. \<not> is_active (f j)"
  shows "jobs_wf (finish_job f jobID w) \<and> counted [] (finish_job f jobID w)"
proof (cases "GetJob w jobID")
  case None
  then show ?thesis using assms by (simp add: finish_job_None)
next
  case (Some p)
  let ?w = "finish_job f jobID w" and ?u = "upd_job p f w"
  note fin = finish_job_Some [where f = f, OF Some f(1) refl]
  note u = counted_upd_job [where f = f, OF wf c f(1) Some]
  have wf': "jobs_wf ?w" using u(1) by (simp add: jobs_wf_cong [of ?w ?u] fin)
  have "runningCount ?w t ty = int (card (active_jobs ?w t ty))" for t ty
    using u(2) [of t ty] f(2)
    by (auto simp: active_jobs_cong [of ?w ?u] fin)
  then show ?thesis using wf' by (simp add: counted_def)
qed

lemma pending_is_active: "IsPending j \<Longrightarrow> is_active j"
  by (simp add: IsPending_def is_active_def)

lemma StartJob_counted:
  "jobs_wf w \<Longrightarrow> counted lag w \<Longrightarrow> jobs_wf (StartJob now jobID w) \<and> counted lag (StartJob now jobID w)"
  using counted_upd_job_same [of w lag "job_Start now"]
  by (auto simp: StartJob_def pending_is_active split: option.splits)

lemma SetJobCompactionOutput_counted:
  "jobs_wf w \<Longrightarrow> counted lag w \<Longrightarrow>
   jobs_wf (SetJobCompactionOutput jobID out w) \<and> counted lag (SetJobCompactionOutput jobID out w)"
  using counted_upd_job_same [of w lag "SetCompactionOutput out"]
  by (auto simp: SetJobCompactionOutput_def split: option.splits)

text \<open>What every operation on active jobs keeps: no job appears, none becomes active, and the
  jobs keep what identifies them.\<close>

definition settles :: "work \<Rightarrow> work \<Rightarrow> bool" where
  "settles w w' \<longleftrightarrow> PendingJob w' = PendingJob w \<and> pendingByTenant w' = pendingByTenant w
     \<and> redactionInFlight w' = redactionInFlight w \<and> registeredJobs w' = registeredJobs w
     \<and> batches w' = batches w \<and> (\<forall>p. same_kind (heap w' p) (heap w p))
     \<and> (placed w \<longrightarrow> placed w') \<and> (\<forall>k p. GetJob w' k = Some p \<longrightarrow> GetJob w k = Some p)
     \<and> (\<forall>k p. GetJob w' k = Some p \<longrightarrow> is_active (heap w' p) \<longrightarrow> is_active (heap w p))"

lemma settles_refl [simp]: "settles w w"
  by (simp add: settles_def)

lemma settles_trans: "settles w v \<Longrightarrow> settles v u \<Longrightarrow> settles w u"
  unfolding settles_def using same_kind_trans by metis

lemma settles_finish_job:
  assumes "\<And>j. same_kind (f j) j" "\<And>j. \<not> is_active (f j)"
  shows "settles w (finish_job f jobID w)"
proof (cases "GetJob w jobID")
  case None
  then show ?thesis by (simp add: finish_job_None)
next
  case (Some p)
  note fin = finish_job_Some [where f = f, OF Some assms(1) refl]
  show ?thesis by (auto simp: settles_def fin assms)
qed

lemma settles_upd_job:
  "same_kind (f (heap w p)) (heap w p) \<Longrightarrow> (is_active (f (heap w p)) \<Longrightarrow> is_active (heap w p))
    \<Longrightarrow> settles w (upd_job p f w)"
  by (auto simp: settles_def)

lemma settles_StartJob: "settles w (StartJob now jobID w)"
  by (auto simp: StartJob_def pending_is_active intro!: settles_upd_job split: option.splits)

lemma settles_SetOutput: "settles w (SetJobCompactionOutput jobID out w)"
  by (auto simp: SetJobCompactionOutput_def intro!: settles_upd_job split: option.splits)

lemma prune_job_keeps:
  assumes "jobs_wf (fst s) \<and> counted (snd s) (fst s) \<and> settles w0 (fst s)"
  shows "jobs_wf (fst (prune_job now jobID s)) \<and> counted (snd (prune_job now jobID s)) (fst (prune_job now jobID s))
    \<and> settles w0 (fst (prune_job now jobID s))"
proof -
  obtain w lag where s: "s = (w, lag)" by (cases s)
  have wf: "jobs_wf w" and c: "counted lag w" and st: "settles w0 w" using assms by (auto simp: s)
  show ?thesis
  proof (cases "GetJob w jobID")
    case None
    then show ?thesis using assms by (simp add: s prune_job_def GetJob_def)
  next
    case (Some p)
    let ?j = "heap w p"
    let ?old = "\<not> is_active ?j \<and> now - JobEndTime ?j > PruneAge (cfg w)"
    let ?dead = "JobStatus ?j = JOB_STATUS_RUNNING \<and> now - JobStartTime ?j > DeadJobTimeout (cfg w)"
    have eq: "prune_job now jobID s = (if ?old then (upd_jobs jobID (\<lambda>m. m(jobID := None)) w, lag)
       else if ?dead then (upd_job p (job_Fail now) w, lag @ [p]) else (w, lag))"
      using Some by (cases "JobStatus ?j") (auto simp: s prune_job_def GetJob_def is_active_def Let_def)
    show ?thesis
    proof (cases ?old)
      case True
      let ?w = "upd_jobs jobID (\<lambda>m. m(jobID := None)) w"
      have "jobs_wf ?w" using wf by (auto simp: jobs_wf_def)
      moreover have "active_jobs ?w t ty = active_jobs w t ty" for t ty
        using True Some by (auto simp: active_jobs_def)
      then have "counted lag ?w"
        using c by (simp add: counted_def of_kind_cong [of ?w w])
      moreover have "settles w ?w"
        by (auto simp: settles_def split: if_splits)
      ultimately show ?thesis using True st settles_trans by (auto simp: eq)
    next
      case old: False
      show ?thesis
      proof (cases ?dead)
        case True
        let ?w = "upd_job p (job_Fail now) w"
        note u = counted_upd_job [where f = "job_Fail now", OF wf c same_kind_updates(3) Some]
        have act: "is_active ?j" using True by (simp add: is_active_def)
        have "counted (lag @ [p]) ?w"
          using u(2) act of_kind_upd_job [where f = "job_Fail now" and w = w and p = p]
          by (auto simp: counted_def)
        moreover have "settles w ?w" by (rule settles_upd_job) auto
        ultimately show ?thesis using True old u(1) st settles_trans by (auto simp: eq)
      qed (use old assms in \<open>auto simp: s eq [unfolded s]\<close>)
    qed
  qed
qed

lemma prune_index_fields:
  "GetJob (prune_index p w) = GetJob w" "PendingJob (prune_index p w) = PendingJob w"
  "heap (prune_index p w) = heap w" "pendingByTenant (prune_index p w) = pendingByTenant w"
  "redactionInFlight (prune_index p w) = redactionInFlight w"
  "registeredJobs (prune_index p w) = registeredJobs w" "batches (prune_index p w) = batches w"
  "placed (prune_index p w) = placed w"
  by (simp_all add: prune_index_def Let_def)

lemma settles_prune_index: "settles w (prune_index p w)"
  by (simp add: settles_def prune_index_fields)

lemma prune_index_counted:
  assumes "counted (p # lag) w"
  shows "counted lag (prune_index p w)"
proof -
  let ?d = "decRunningByTenant (Tenant (heap w p)) (JobType (heap w p)) w"
  have "runningCount (prune_index p w) = runningCount ?d"
    by (auto simp: prune_index_def Let_def fun_eq_iff)
  then have "counted lag (prune_index p w) = counted lag ?d"
    by (simp add: counted_def active_jobs_def of_kind_def [abs_def] prune_index_fields)
  then show ?thesis using counted_dec [OF assms] by simp
qed

lemma prune_indexes_keep:
  "jobs_wf w \<Longrightarrow> counted lag w \<Longrightarrow> settles w0 w \<Longrightarrow>
   jobs_wf (fold prune_index lag w) \<and> counted [] (fold prune_index lag w) \<and> settles w0 (fold prune_index lag w)"
proof (induction lag arbitrary: w)
  case (Cons p lag)
  then show ?case
    using prune_index_counted [OF Cons.prems(2)] settles_trans [OF Cons.prems(3) settles_prune_index]
    by (simp add: jobs_wf_cong [of "prune_index p w" w] prune_index_fields)
qed simp

lemma Prune_keeps:
  assumes "jobs_wf w" "counted [] w"
  shows "jobs_wf (Prune now orders w) \<and> counted [] (Prune now orders w) \<and> settles w (Prune now orders w)"
proof -
  let ?P = "\<lambda>s. jobs_wf (fst s) \<and> counted (snd s) (fst s) \<and> settles w (fst s)"
  have inner: "?P (fold (prune_job now) ids s)" if "?P s" for ids s
    by (rule fold_invariant [where P = ?P and Q = "\<lambda>_. True"]) (use that prune_job_keeps in auto)
  have "?P (fold (\<lambda>i. fold (prune_job now) (orders i)) [0..<ShardCount] (w, []))"
    by (rule fold_invariant [where P = ?P and Q = "\<lambda>_. True"]) (use assms inner in auto)
  then show ?thesis
    using prune_indexes_keep by (auto simp: Prune_def case_prod_beta)
qed

subsection \<open>The queues of pending jobs\<close>

definition queues_ok :: "work \<Rightarrow> bool" where
  "queues_ok w \<longleftrightarrow> (\<forall>jobID p. PendingJob w jobID = Some p \<longrightarrow> JobID (heap w p) = jobID)
     \<and> (\<forall>t ty. distinct (pendingQueue w t ty) \<and>
          set (pendingQueue w t ty) = {jobID. \<exists>p. PendingJob w jobID = Some p \<and> of_kind w t ty p})"

lemma pendingQueue_cong: "pendingByTenant w' = pendingByTenant w \<Longrightarrow> pendingQueue w' = pendingQueue w"
  by (intro ext) (simp add: pendingQueue_def)

lemma inner_upd:
  "inner (m(t \<mapsto> al)) t' = (if t' = t then al else inner m t')"
  "inner (m(t := None)) t' = (if t' = t then [] else inner m t')"
  by (auto simp: inner_def)

lemma pendingQueue_index [simp]:
  "pendingQueue (index_pending j w) t ty =
     pendingQueue w t ty @ (if t = Tenant j \<and> ty = JobType j then [JobID j] else [])"
  by (auto simp: pendingQueue_def index_pending_def inner_def Let_def update_conv' split: option.splits)

lemma pendingQueue_pop [simp]:
  assumes "pendingQueue w t ty \<noteq> []"
  shows "pendingQueue (pop_queue t ty w) t' ty' =
     (if t' = t \<and> ty' = ty then tl (pendingQueue w t ty) else pendingQueue w t' ty')"
proof -
  let ?m = "inner (pendingByTenant w) t"
  have del: "map_of (AList.delete ty ?m) = (map_of ?m)(ty := None)" by (rule delete_conv')
  have "AList.delete ty ?m = [] \<Longrightarrow> ty' \<noteq> ty \<Longrightarrow> map_of ?m ty' = None"
    using fun_cong [OF del, of ty'] by simp
  then show ?thesis
    by (auto simp: pendingQueue_def pop_queue_def Let_def inner_upd del update_conv' split: option.splits)
qed

lemma queues_ok_settles: "settles w w' \<Longrightarrow> queues_ok w \<Longrightarrow> queues_ok w'"
  unfolding settles_def queues_ok_def
  by (auto simp: pendingQueue_def of_kind_def same_kind_def)

lemma queues_ok_cong:
  "PendingJob w' = PendingJob w \<Longrightarrow> heap w' = heap w \<Longrightarrow> pendingByTenant w' = pendingByTenant w
    \<Longrightarrow> queues_ok w' = queues_ok w"
  by (simp add: queues_ok_def pendingQueue_cong [of w' w] of_kind_cong [of w' w])

lemma add_pending_new:
  assumes "PendingJob w (JobID (heap w p)) = None" and w': "w' = add_pending now (Some p) w"
  shows "PendingJob w' = (PendingJob w)(JobID (heap w p) \<mapsto> p)"
    "heap w' = (heap w)(p := (heap w p)\<lparr>CreatedTime := now, JobStatus := JOB_STATUS_UNSPECIFIED\<rparr>)"
    "GetJob w' = GetJob w" "placed w \<Longrightarrow> placed w'" "runningCount w' = runningCount w"
    "pendingQueue w' t ty = pendingQueue w t ty @ (if of_kind w t ty p then [JobID (heap w p)] else [])"
    "batches w' = batches w" "registeredJobs w' = registeredJobs w" "redactionInFlight w' = redactionInFlight w"
  using assms
  by (auto simp: add_pending_def Let_def PendingJob_def [symmetric] of_kind_def Tenant_def
      pendingQueue_cong [of "upd_pending k g v" v for k g v]
      pendingQueue_cong [of "upd_job k g v" v for k g v])

lemma add_pending_dup:
  "PendingJob w (JobID (heap w p)) \<noteq> None \<Longrightarrow> add_pending now (Some p) w = w"
  by (simp add: add_pending_def PendingJob_def)

lemma add_pending_queues:
  assumes q: "queues_ok w"
  shows "queues_ok (add_pending now jp w)"
proof (cases jp)
  case None
  then show ?thesis using q by (simp add: add_pending_def)
next
  case (Some p)
  let ?j = "heap w p" and ?w = "add_pending now (Some p) w"
  show ?thesis
  proof (cases "PendingJob w (JobID ?j) = None")
    case True
    note new = add_pending_new [where now = now, OF True refl]
    have k: "of_kind ?w = of_kind w"
      by (auto simp: of_kind_def fun_eq_iff new Tenant_def)
    have pend: "PendingJob ?w jobID = Some r \<Longrightarrow> JobID (heap ?w r) = jobID" for jobID r
      using q by (auto simp: queues_ok_def new split: if_splits)
    have "distinct (pendingQueue ?w t ty) \<and>
      set (pendingQueue ?w t ty) = {jobID. \<exists>p. PendingJob ?w jobID = Some p \<and> of_kind ?w t ty p}" for t ty
    proof -
      have "distinct (pendingQueue w t ty)"
        "set (pendingQueue w t ty) = {jobID. \<exists>p. PendingJob w jobID = Some p \<and> of_kind w t ty p}"
        using q by (auto simp: queues_ok_def)
      then show ?thesis using True by (auto simp: new(6) new(1) k)
    qed
    then show ?thesis using pend by (simp add: queues_ok_def Some)
  next
    case False
    then show ?thesis using q by (simp add: Some add_pending_dup)
  qed
qed

lemma add_pending_counted:
  assumes "jobs_wf w" "counted lag w" "\<And>p k. jp = Some p \<Longrightarrow> GetJob w k \<noteq> Some p"
  shows "jobs_wf (add_pending now jp w) \<and> counted lag (add_pending now jp w)"
proof (cases jp)
  case None
  then show ?thesis using assms by (simp add: add_pending_def)
next
  case (Some p)
  let ?j = "heap w p" and ?w = "add_pending now (Some p) w"
    and ?u = "upd_job p (\<lambda>j. j\<lparr>CreatedTime := now, JobStatus := JOB_STATUS_UNSPECIFIED\<rparr>) w"
  show ?thesis
  proof (cases "PendingJob w (JobID ?j) = None")
    case True
    note new = add_pending_new [where now = now, OF True refl]
    have u: "jobs_wf ?u \<and> counted lag ?u"
      using assms Some by (intro counted_upd_job_same) auto
    have "GetJob ?w = GetJob ?u" "heap ?w = heap ?u" "runningCount ?w = runningCount ?u"
      by (simp_all add: new)
    then show ?thesis
      using u by (simp add: Some jobs_wf_cong [of ?w ?u] counted_def active_jobs_cong [of ?w ?u] of_kind_cong [of ?w ?u])
  next
    case False
    then show ?thesis using assms by (simp add: Some add_pending_dup)
  qed
qed

lemma NextPendingJob_finds:
  assumes q: "queues_ok w" and no: "pendingQueue w '''' ty = []"
    and find: "find (\<lambda>t. pendingQueue w t ty \<noteq> []) order = Some t"
  obtains jobID p w' where "NextPendingJob (order # orders) ty w = Some (Some p, w')"
    "pendingQueue w t ty = jobID # tl (pendingQueue w t ty)" "PendingJob w jobID = Some p" "of_kind w t ty p"
    "PendingJob w' = (PendingJob w)(jobID := None)" "heap w' = heap w" "GetJob w' = GetJob w"
    "placed w \<Longrightarrow> placed w'" "runningCount w' = runningCount w" "batches w' = batches w"
    "registeredJobs w' = registeredJobs w"
    "\<And>t' ty'. pendingQueue w' t' ty' =
       (if t' = t \<and> ty' = ty then tl (pendingQueue w t ty) else pendingQueue w t' ty')"
    "redactionInFlight w' = (if ty = JOB_TYPE_REDACTION
       then (redactionInFlight w)(t := redactionInFlight w t + 1) else redactionInFlight w)"
proof -
  have ne: "pendingQueue w t ty \<noteq> []" using find by (auto simp: find_Some_iff)
  with no have tne: "t \<noteq> ''''" by auto
  let ?id = "hd (pendingQueue w t ty)"
  have "?id \<in> set (pendingQueue w t ty)" using ne by simp
  then obtain p where p: "PendingJob w ?id = Some p" "of_kind w t ty p"
    using q by (auto simp: queues_ok_def)
  define w1 where "w1 = pop_queue t ty w"
  define w2 where "w2 = (if ty = JOB_TYPE_REDACTION
    then w1\<lparr>redactionInFlight := (redactionInFlight w1)(t := redactionInFlight w1 t + 1)\<rparr> else w1)"
  define w3 where "w3 = upd_pending ?id (\<lambda>m. m(?id := None)) w2"
  have views: "PendingJob w2 = PendingJob w" "heap w2 = heap w" "GetJob w2 = GetJob w"
    "placed w2 = placed w" "runningCount w2 = runningCount w" "batches w2 = batches w"
    "registeredJobs w2 = registeredJobs w" "pendingByTenant w2 = pendingByTenant w1"
    by (simp_all add: w2_def w1_def)
  have "NextPendingJob (order # orders) ty w = (case PendingJob w2 ?id of
      Some p \<Rightarrow> Some (Some p, removePendingBlockIndex (heap w3 p) w3)
    | None \<Rightarrow> NextPendingJob orders ty
        (if ty = JOB_TYPE_REDACTION then ReleaseRedactionInFlight t w3 else w3))"
    unfolding w3_def w2_def w1_def PendingJob_def
    by (simp only: NextPendingJob.simps find option.simps Let_def tne not_False_eq_True simp_thms if_False)
  then have "NextPendingJob (order # orders) ty w = Some (Some p, removePendingBlockIndex (heap w3 p) w3)"
    using p(1) by (simp only: views option.simps)
  then show thesis
  proof (rule that)
    show "pendingQueue w t ty = ?id # tl (pendingQueue w t ty)" using ne by simp
    fix t' ty'
    let ?w' = "removePendingBlockIndex (heap w3 p) w3"
    have "pendingQueue ?w' = pendingQueue w1"
      by (rule pendingQueue_cong) (simp add: w3_def views)
    then show "pendingQueue ?w' t' ty' =
       (if t' = t \<and> ty' = ty then tl (pendingQueue w t ty) else pendingQueue w t' ty')"
      using ne by (simp add: w1_def)
  next
    show "redactionInFlight (removePendingBlockIndex (heap w3 p) w3) = (if ty = JOB_TYPE_REDACTION
       then (redactionInFlight w)(t := redactionInFlight w t + 1) else redactionInFlight w)"
      by (simp add: w3_def w2_def w1_def)
  qed (use p in \<open>auto simp: w3_def views\<close>)
qed

lemma NextPendingJob_none:
  assumes "find (\<lambda>t. pendingQueue w t ty \<noteq> []) order = None"
  shows "NextPendingJob (order # orders) ty w = Some (None, w)"
  using assms by simp

lemma NextPendingJob_queues:
  assumes q: "queues_ok w" and no: "pendingQueue w '''' ty = []"
    and n: "NextPendingJob (order # orders) ty w = Some (jp, w')"
  shows "queues_ok w'"
proof (cases "find (\<lambda>t. pendingQueue w t ty \<noteq> []) order")
  case None
  then show ?thesis using n q by simp
next
  case (Some t)
  show ?thesis
  proof (rule NextPendingJob_finds [OF q no Some, of orders])
    fix jobID p w''
    assume *: "NextPendingJob (order # orders) ty w = Some (Some p, w'')"
      "pendingQueue w t ty = jobID # tl (pendingQueue w t ty)" "PendingJob w jobID = Some p" "of_kind w t ty p"
      "PendingJob w'' = (PendingJob w)(jobID := None)" "heap w'' = heap w"
      "\<And>t' ty'. pendingQueue w'' t' ty' =
        (if t' = t \<and> ty' = ty then tl (pendingQueue w t ty) else pendingQueue w t' ty')"
    have w'': "w'' = w'" using n *(1) by simp
    have k: "of_kind w'' = of_kind w" by (rule of_kind_cong) (rule *(6))
    have "distinct (pendingQueue w'' t' ty') \<and> set (pendingQueue w'' t' ty') =
      {jobID. \<exists>p. PendingJob w'' jobID = Some p \<and> of_kind w'' t' ty' p}" for t' ty'
    proof -
      have d: "distinct (jobID # tl (pendingQueue w t ty))"
        using q *(2) unfolding queues_ok_def by metis
      have s: "set (pendingQueue w t' ty') = {jobID. \<exists>p. PendingJob w jobID = Some p \<and> of_kind w t' ty' p}"
        "distinct (pendingQueue w t' ty')"
        using q by (auto simp: queues_ok_def)
      have kk: "of_kind w t' ty' p \<longleftrightarrow> t' = t \<and> ty' = ty" using *(4) by (auto simp: of_kind_def)
      show ?thesis
      proof (cases "t' = t \<and> ty' = ty")
        case True
        then have "set (tl (pendingQueue w t ty)) = set (pendingQueue w t ty) - {jobID}"
          using d *(2) by (metis Diff_insert_absorb distinct.simps(2) list.simps(15))
        then show ?thesis using True d s *(3,5,7) k by (auto split: if_splits)
      next
        case False
        then show ?thesis using s kk *(3,5,7) k by (auto split: if_splits)
      qed
    qed
    moreover have "PendingJob w'' k = Some r \<Longrightarrow> JobID (heap w'' r) = k" for k r
      using q *(5,6) by (auto simp: queues_ok_def split: if_splits)
    ultimately show ?thesis by (simp add: queues_ok_def w'')
  qed
qed

subsection \<open>Ranging over the shards\<close>

lemma listed_all:
  fixes M :: "nat \<Rightarrow> string \<rightharpoonup> ptr"
  assumes pl: "\<And>i k. M i k \<noteq> None \<Longrightarrow> i = getShardID k"
  shows "(\<And>i. i < n \<Longrightarrow> enumerates (orders i) (M i)) \<Longrightarrow>
    concat (map (\<lambda>i. List.map_filter (M i) (orders i)) [0..<n])
       = map (\<lambda>k. the (M (getShardID k) k)) (concat (map orders [0..<n]))
    \<and> distinct (concat (map orders [0..<n]))
    \<and> set (concat (map orders [0..<n])) = {k. getShardID k < n \<and> M (getShardID k) k \<noteq> None}"
proof (induction n)
  case (Suc n)
  have IH: "concat (map (\<lambda>i. List.map_filter (M i) (orders i)) [0..<n])
       = map (\<lambda>k. the (M (getShardID k) k)) (concat (map orders [0..<n]))"
    "distinct (concat (map orders [0..<n]))"
    "set (concat (map orders [0..<n])) = {k. getShardID k < n \<and> M (getShardID k) k \<noteq> None}"
    using Suc.IH Suc.prems by simp_all
  have n: "distinct (orders n)" "set (orders n) = dom (M n)"
    using Suc.prems [of n] by (auto simp: enumerates_def)
  have sh: "M n k \<noteq> None \<Longrightarrow> getShardID k = n" for k using pl [of n k] by auto
  have mf: "List.map_filter (M n) ks = map (\<lambda>k. the (M (getShardID k) k)) ks"
    if "set ks \<subseteq> dom (M n)" for ks
    using that sh by (induction ks) (auto simp: map_filter_simps)
  have mem: "getShardID k < Suc n \<and> M (getShardID k) k \<noteq> None \<longleftrightarrow>
      (getShardID k < n \<and> M (getShardID k) k \<noteq> None) \<or> M n k \<noteq> None" for k
    using sh [of k] by (auto simp: less_Suc_eq)
  have "set (concat (map orders [0..<n])) \<inter> set (orders n) = {}"
    using IH(3) sh n(2) by (fastforce simp: dom_def)
  then have "distinct (concat (map orders [0..<Suc n]))" using IH(2) n(1) by simp
  moreover have "set (concat (map orders [0..<Suc n])) =
      {k. getShardID k < Suc n \<and> M (getShardID k) k \<noteq> None}"
    unfolding mem using IH(3) n(2) by (simp add: Collect_disj_eq dom_def)
  ultimately show ?case using IH(1) mf [of "orders n"] n(2) by simp
qed simp

lemmas listed = listed_all [THEN conjunct1] listed_all [THEN conjunct2, THEN conjunct1]
  listed_all [THEN conjunct2, THEN conjunct2]

lemma ListJobs_listed:
  assumes pl: "placed w" and en: "\<And>i. enumerates (orders i) (Jobs (Shards w i))"
  obtains ks where "ListJobs orders w = map (\<lambda>k. the (GetJob w k)) ks" "distinct ks"
    "set ks = dom (GetJob w)"
proof -
  have g: "GetJob w = (\<lambda>k. Jobs (Shards w (getShardID k)) k)"
    by (simp add: GetJob_def getShard_def fun_eq_iff)
  have "Jobs (Shards w i) k \<noteq> None \<Longrightarrow> i = getShardID k" for i k
    using pl by (auto simp: placed_def)
  note l = listed [where M = "\<lambda>i. Jobs (Shards w i)" and orders = orders and n = ShardCount, OF this en]
  show thesis
    by (rule that [of "concat (map orders [0..<ShardCount])"])
      (use l getShardID_bound in \<open>auto simp: g ListJobs_def dom_def\<close>)
qed

lemma ListAllPendingJobs_listed:
  assumes pl: "placed w" and en: "\<And>i. enumerates (orders i) (Pending (Shards w i))"
  obtains ks where "ListAllPendingJobs orders w = map (\<lambda>k. the (PendingJob w k)) ks" "distinct ks"
    "set ks = dom (PendingJob w)"
proof -
  have g: "PendingJob w = (\<lambda>k. Pending (Shards w (getShardID k)) k)"
    by (simp add: PendingJob_def getShard_def fun_eq_iff)
  have "Pending (Shards w i) k \<noteq> None \<Longrightarrow> i = getShardID k" for i k
    using pl by (auto simp: placed_def)
  note l = listed [where M = "\<lambda>i. Pending (Shards w i)" and orders = orders and n = ShardCount, OF this en]
  show thesis
    by (rule that [of "concat (map orders [0..<ShardCount])"])
      (use l getShardID_bound in \<open>auto simp: g ListAllPendingJobs_def dom_def\<close>)
qed

lemma index_pending_fold:
  "let w' = fold (\<lambda>p v. index_pending (heap v p) v) ps w in
     store_of w' = store_of w \<and> pendingQueue w' t ty = pendingQueue w t ty
       @ map (\<lambda>p. JobID (heap w p)) (filter (of_kind w t ty) ps)"
proof (induction ps arbitrary: w)
  case (Cons p ps)
  let ?v = "index_pending (heap w p) w"
  have h: "heap ?v = heap w" by simp
  show ?case
    using Cons [of ?v]
    by (auto simp: Let_def index_ops_store of_kind_cong [OF h] of_kind_def)
qed simp

lemma index_active_fields:
  "heap (index_active p w) = heap w" "GetJob (index_active p w) = GetJob w"
  "PendingJob (index_active p w) = PendingJob w" "placed (index_active p w) = placed w"
  "pendingByTenant (index_active p w) = pendingByTenant w"
  "runningCount (index_active p w) t ty =
     runningCount w t ty + of_bool (is_active (heap w p) \<and> of_kind w t ty p)"
  by (auto simp: index_active_def Let_def of_kind_def)

lemma index_active_fold:
  "let w' = fold index_active ps w in heap w' = heap w \<and> GetJob w' = GetJob w
     \<and> PendingJob w' = PendingJob w \<and> placed w' = placed w \<and> pendingByTenant w' = pendingByTenant w
     \<and> runningCount w' t ty = runningCount w t ty
         + int (length (filter (\<lambda>p. is_active (heap w p) \<and> of_kind w t ty p) ps))"
proof (induction ps arbitrary: w)
  case (Cons p ps)
  let ?v = "index_active p w"
  have h: "heap ?v = heap w" by (simp add: index_active_fields)
  show ?case
    using Cons [of ?v] by (auto simp: Let_def index_active_fields of_kind_cong [OF h])
qed simp

text \<open>What a restart needs: the shard files are well formed.\<close>

definition shards_wf :: "work \<Rightarrow> bool" where
  "shards_wf w \<longleftrightarrow> placed w \<and> jobs_wf w
     \<and> (\<forall>jobID p. PendingJob w jobID = Some p \<longrightarrow> JobID (heap w p) = jobID)"

lemma rebuild_indexes:
  assumes wf: "shards_wf w"
    and po: "\<And>i. enumerates (porders i) (Pending (Shards w i))"
    and jo: "\<And>i. enumerates (jorders i) (Jobs (Shards w i))"
    and w': "w' = rebuildPendingIndexes porders jorders w"
  shows "counted [] w' \<and> queues_ok w' \<and> heap w' = heap w \<and> GetJob w' = GetJob w \<and> PendingJob w' = PendingJob w"
proof -
  define w1 where "w1 = w\<lparr>pendingBlocks := Map.empty, pendingByTenant := Map.empty, pendingBlocksByTenant := Map.empty\<rparr>"
  define w2 where "w2 = fold (\<lambda>p v. index_pending (heap v p) v) (ListAllPendingJobs porders w1) w1"
  define w3 where "w3 = w2\<lparr>workerJobs := Map.empty, runningBlocks := Map.empty, runningByTenant := Map.empty,
               runningBlocksByTenant := Map.empty\<rparr>"
  define w4 where "w4 = fold index_active (ListJobs jorders w3) w3"
  have w4: "rebuildPendingIndexes porders jorders w = w4"
    by (simp add: rebuildPendingIndexes_def Let_def w4_def w3_def w2_def w1_def)
  have s1: "store_of w1 = store_of w" by (simp add: w1_def store_of_def)
  have s2: "store_of w2 = store_of w1" and
    q2: "pendingQueue w2 t ty = pendingQueue w1 t ty
      @ map (\<lambda>p. JobID (heap w1 p)) (filter (of_kind w1 t ty) (ListAllPendingJobs porders w1))" for t ty
    using index_pending_fold [of "ListAllPendingJobs porders w1" w1 t ty] by (simp_all add: Let_def w2_def)
  have s3: "store_of w3 = store_of w" using s1 s2 by (simp add: w3_def store_of_def)
  note v1 = store_of_views [OF s1] and v3 = store_of_views [OF s3]
  have r3: "runningCount w3 t ty = 0" for t ty by (simp add: w3_def runningCount_def inner_def)
  have p3: "pendingByTenant w3 = pendingByTenant w2" by (simp add: w3_def)
  have fin: "heap w4 = heap w" "GetJob w4 = GetJob w" "PendingJob w4 = PendingJob w"
    "pendingByTenant w4 = pendingByTenant w2" and
    c4: "runningCount w4 t ty = int (length (filter (\<lambda>p. is_active (heap w p) \<and> of_kind w t ty p) (ListJobs jorders w3)))" for t ty
    using index_active_fold [of "ListJobs jorders w3" w3 t ty] of_kind_cong [OF v3(3)]
    by (simp_all add: Let_def w4_def [symmetric] v3 r3 p3)
  obtain js where js: "ListJobs jorders w3 = map (\<lambda>k. the (GetJob w k)) js" "distinct js" "set js = dom (GetJob w)"
    using ListJobs_listed [of w3 jorders] wf jo s3 by (auto simp: v3 shards_wf_def store_of_def)
  obtain ps where ps: "ListAllPendingJobs porders w1 = map (\<lambda>k. the (PendingJob w k)) ps" "distinct ps"
      "set ps = dom (PendingJob w)"
    using ListAllPendingJobs_listed [of w1 porders] wf po s1 by (auto simp: v1 shards_wf_def store_of_def)
  have k4: "of_kind w4 = of_kind w" by (rule of_kind_cong) (rule fin(1))
  have "counted [] w4"
  proof -
    have "active_jobs w4 t ty = set (filter (\<lambda>k. is_active (heap w (the (GetJob w k))) \<and> of_kind w t ty (the (GetJob w k))) js)"
      for t ty using js(3) by (auto simp: active_jobs_def fin of_kind_def dom_def)
    then have "card (active_jobs w4 t ty) = length (filter (\<lambda>k. is_active (heap w (the (GetJob w k))) \<and> of_kind w t ty (the (GetJob w k))) js)"
      for t ty using distinct_card [OF distinct_filter [OF js(2)]] by simp
    then show ?thesis by (simp add: counted_def c4 js(1) filter_map o_def)
  qed
  moreover have "queues_ok w4"
  proof -
    have "pendingQueue w1 t ty = []" for t ty by (simp add: w1_def pendingQueue_def inner_def)
    moreover have ids: "map (\<lambda>p. JobID (heap w p)) (filter (of_kind w t ty) (map (\<lambda>k. the (PendingJob w k)) ps))
        = filter (\<lambda>k. of_kind w t ty (the (PendingJob w k))) ps" for t ty
    proof -
      have "k \<in> set ps \<Longrightarrow> JobID (heap w (the (PendingJob w k))) = k" for k
        using wf ps(3) by (auto simp: shards_wf_def dom_def)
      then show ?thesis unfolding filter_map map_map o_def by (intro map_idI) simp
    qed
    ultimately have "pendingQueue w4 t ty = filter (\<lambda>k. of_kind w t ty (the (PendingJob w k))) ps" for t ty
      using q2 [of t ty] of_kind_cong [OF v1(3)]
      by (simp add: pendingQueue_cong [OF fin(4)] ps(1) v1)
    then show ?thesis
      using wf ps(2,3) by (auto simp: queues_ok_def fin k4 shards_wf_def dom_def)
  qed
  ultimately show ?thesis using fin by (simp add: w' w4)
qed

subsection \<open>Properties\<close>

text \<open>With the queue index in step with the shards and no job of an empty tenant,
  \<open>NextPendingJob\<close> returns in one round of its loop: nil, with the state unchanged, exactly when no
  job of the type is pending, and otherwise the oldest pending job of its tenant and type, which leaves
  the queue, the shard and nothing else; whatever the order in which the tenants are visited.\<close>

theorem next_pending_job_is_oldest:
  assumes q: "queues_ok w" and no: "pendingQueue w '''' ty = []"
    and cov: "\<And>t. pendingQueue w t ty \<noteq> [] \<Longrightarrow> t \<in> set order"
  shows "(NextPendingJob (order # orders) ty w = Some (None, w) \<and> (\<forall>t. pendingQueue w t ty = []))
    \<or> (\<exists>t p w'. NextPendingJob (order # orders) ty w = Some (Some p, w') \<and> queues_ok w'
         \<and> of_kind w t ty p \<and> PendingJob w (JobID (heap w p)) = Some p
         \<and> PendingJob w' = (PendingJob w)(JobID (heap w p) := None) \<and> heap w' = heap w
         \<and> pendingQueue w t ty = JobID (heap w p) # pendingQueue w' t ty
         \<and> (\<forall>t' ty'. (t', ty') \<noteq> (t, ty) \<longrightarrow> pendingQueue w' t' ty' = pendingQueue w t' ty'))"
proof (cases "find (\<lambda>t. pendingQueue w t ty \<noteq> []) order")
  case None
  have "pendingQueue w t ty = []" for t
    using None cov [of t] unfolding find_None_iff by blast
  then show ?thesis using NextPendingJob_none [OF None, of orders] by blast
next
  case (Some t)
  show ?thesis
  proof (rule NextPendingJob_finds [OF q no Some, of orders])
    fix jobID p w'
    assume *: "NextPendingJob (order # orders) ty w = Some (Some p, w')"
      "pendingQueue w t ty = jobID # tl (pendingQueue w t ty)" "PendingJob w jobID = Some p" "of_kind w t ty p"
      "PendingJob w' = (PendingJob w)(jobID := None)" "heap w' = heap w"
      "\<And>t' ty'. pendingQueue w' t' ty' =
        (if t' = t \<and> ty' = ty then tl (pendingQueue w t ty) else pendingQueue w t' ty')"
    have "JobID (heap w p) = jobID" using q *(3) by (auto simp: queues_ok_def)
    moreover have "queues_ok w'" by (rule NextPendingJob_queues [OF q no *(1)])
    ultimately show ?thesis using *
      by (intro disjI2 exI [of _ t] exI [of _ p] exI [of _ w'] conjI allI impI)
        (simp_all del: NextPendingJob.simps, blast)
  qed
qed

definition demo_job :: "string \<Rightarrow> string \<Rightarrow> string \<Rightarrow> job" where
  "demo_job jobID tenant blockID = \<lparr>JobID = jobID, JobType = JOB_TYPE_REDACTION,
     JobDetail = \<lparr>DetailTenant = tenant, Compaction = \<lparr>Input = [], Output = []\<rparr>,
       Redaction = Some \<lparr>BlockId = blockID, TraceIds = [], QuerySel = None, Mode = 0, WindowStart = 0, WindowEnd = 0\<rparr>,
       DetailBatchId = ''batch''\<rparr>,
     JobStatus = JOB_STATUS_UNSPECIFIED, CreatedTime = 0, JobStartTime = 0, JobEndTime = 0,
     WorkerID = '''', Retries = 0\<rparr>"

definition demo_heap :: "ptr \<Rightarrow> job" where
  "demo_heap p = (if p = 0 then demo_job ''j0'' ''a'' ''b0'' else if p = 1 then demo_job ''j1'' ''b'' ''b1''
     else demo_job ''j2'' ''b'' ''b2'')"

definition demo_config :: work_config where
  "demo_config = \<lparr>PruneAge = 100, DeadJobTimeout = 1000\<rparr>"

definition demo_work :: work where
  "demo_work = AddPendingJobs 7 [Some 0, Some 1, None, Some 2, Some 1] (newWork demo_config demo_heap)"

lemma queues_ok_new: "queues_ok (newWork c h)"
  by (simp add: queues_ok_def newWork_def PendingJob_def getShard_def empty_shard_def pendingQueue_def inner_def)

lemma AddPendingJobs_queues: "queues_ok w \<Longrightarrow> queues_ok (AddPendingJobs now jps w)"
  unfolding AddPendingJobs_def
  by (rule fold_invariant [where P = queues_ok and Q = "\<lambda>_. True"]) (auto intro: add_pending_queues)

lemma add_pending_same_kind: "same_kind (heap (add_pending now jp w) p) (heap w p)"
proof (cases jp)
  case (Some r)
  show ?thesis
  proof (cases "PendingJob w (JobID (heap w r)) = None")
    case True
    then show ?thesis by (simp add: Some add_pending_new(2) [where now = now, OF True refl])
  qed (simp add: Some add_pending_dup)
qed (simp add: add_pending_def)

lemma AddPendingJobs_same_kind: "same_kind (heap (AddPendingJobs now jps w) p) (heap w p)"
proof (induction jps arbitrary: w)
  case (Cons jp jps)
  then show ?case
    using same_kind_trans add_pending_same_kind by (simp add: AddPendingJobs_def) blast
qed (simp add: AddPendingJobs_def)

lemma demo_queues_ok: "queues_ok demo_work"
  unfolding demo_work_def by (intro AddPendingJobs_queues queues_ok_new)

lemma demo_tenants: "pendingQueue demo_work t ty \<noteq> [] \<Longrightarrow> t \<in> {''b'', ''a''}"
proof -
  assume "pendingQueue demo_work t ty \<noteq> []"
  then obtain jobID where "jobID \<in> set (pendingQueue demo_work t ty)"
    by (cases "pendingQueue demo_work t ty") auto
  then obtain p where "of_kind demo_work t ty p"
    using demo_queues_ok by (auto simp: queues_ok_def)
  moreover have "same_kind (heap demo_work p) (demo_heap p)"
    using AddPendingJobs_same_kind [of _ _ "newWork demo_config demo_heap" p]
    by (simp add: demo_work_def newWork_def)
  ultimately show ?thesis
    by (auto simp: of_kind_def same_kind_def demo_heap_def demo_job_def Tenant_def split: if_splits)
qed

theorem next_pending_job_is_oldest_witness:
  "pendingQueue demo_work ''b'' JOB_TYPE_REDACTION = [''j1'', ''j2''] \<and>
   ((NextPendingJob [[''b'', ''a'']] JOB_TYPE_REDACTION demo_work = Some (None, demo_work)
      \<and> (\<forall>t. pendingQueue demo_work t JOB_TYPE_REDACTION = []))
    \<or> (\<exists>t p w'. NextPendingJob [[''b'', ''a'']] JOB_TYPE_REDACTION demo_work = Some (Some p, w') \<and> queues_ok w'
         \<and> of_kind demo_work t JOB_TYPE_REDACTION p \<and> PendingJob demo_work (JobID (heap demo_work p)) = Some p
         \<and> PendingJob w' = (PendingJob demo_work)(JobID (heap demo_work p) := None) \<and> heap w' = heap demo_work
         \<and> pendingQueue demo_work t JOB_TYPE_REDACTION = JobID (heap demo_work p) # pendingQueue w' t JOB_TYPE_REDACTION
         \<and> (\<forall>t' ty'. (t', ty') \<noteq> (t, JOB_TYPE_REDACTION) \<longrightarrow> pendingQueue w' t' ty' = pendingQueue demo_work t' ty')))"
proof (rule conjI)
  show "pendingQueue demo_work ''b'' JOB_TYPE_REDACTION = [''j1'', ''j2'']" by code_simp
  have no: "pendingQueue demo_work '''' JOB_TYPE_REDACTION = []" by code_simp
  have cov: "pendingQueue demo_work t JOB_TYPE_REDACTION \<noteq> [] \<Longrightarrow> t \<in> set [''b'', ''a'']" for t
    using demo_tenants by simp
  show "(NextPendingJob [[''b'', ''a'']] JOB_TYPE_REDACTION demo_work = Some (None, demo_work)
      \<and> (\<forall>t. pendingQueue demo_work t JOB_TYPE_REDACTION = []))
    \<or> (\<exists>t p w'. NextPendingJob [[''b'', ''a'']] JOB_TYPE_REDACTION demo_work = Some (Some p, w') \<and> queues_ok w'
         \<and> of_kind demo_work t JOB_TYPE_REDACTION p \<and> PendingJob demo_work (JobID (heap demo_work p)) = Some p
         \<and> PendingJob w' = (PendingJob demo_work)(JobID (heap demo_work p) := None) \<and> heap w' = heap demo_work
         \<and> pendingQueue demo_work t JOB_TYPE_REDACTION = JobID (heap demo_work p) # pendingQueue w' t JOB_TYPE_REDACTION
         \<and> (\<forall>t' ty'. (t', ty') \<noteq> (t, JOB_TYPE_REDACTION) \<longrightarrow> pendingQueue w' t' ty' = pendingQueue demo_work t' ty'))"
    by (rule next_pending_job_is_oldest [OF demo_queues_ok no cov])
qed

text \<open>\<open>NextPendingJob\<close> always returns: each round that goes on has consumed a queue entry,
  so it runs at most one round more than the queues of the type have entries, stale ones included,
  whatever the state of the shards.\<close>

theorem next_pending_job_returns:
  assumes "finite T" and "\<And>t. pendingQueue w t ty \<noteq> [] \<Longrightarrow> t \<in> T"
    and "length orders > (\<Sum>t\<in>T. length (pendingQueue w t ty))"
  shows "NextPendingJob orders ty w \<noteq> None"
  using assms(2,3)
proof (induction orders arbitrary: w)
  case (Cons order orders)
  show ?case
  proof (cases "find (\<lambda>t. pendingQueue w t ty \<noteq> []) order")
    case (Some t)
    then have ne: "pendingQueue w t ty \<noteq> []" by (auto simp: find_Some_iff)
    let ?n = "\<lambda>w. \<Sum>t\<in>T. length (pendingQueue w t ty)"
    have "NextPendingJob orders ty v \<noteq> None" if v: "pendingByTenant v = pendingByTenant (pop_queue t ty w)" for v
    proof (rule Cons.IH)
      have q: "pendingQueue v t' ty = (if t' = t then tl (pendingQueue w t ty) else pendingQueue w t' ty)" for t'
        using ne by (simp add: pendingQueue_cong [OF v])
      then show "t' \<in> T" if "pendingQueue v t' ty \<noteq> []" for t'
        using that Cons.prems(1) ne by (auto split: if_splits)
      have "?n v < ?n w"
        using Cons.prems(1) ne assms(1) by (intro sum_strict_mono_ex1 bexI [of _ t] ballI) (auto simp: q)
      then show "?n v < length orders" using Cons.prems(2) by simp
    qed
    then show ?thesis
      using Some by (auto simp: Let_def ReleaseRedactionInFlight_def split: option.splits)
  qed simp
qed simp

theorem next_pending_job_returns_witness:
  "NextPendingJob [[''b'', ''a''], [''a'', ''b''], [''a''], [''b'']] JOB_TYPE_REDACTION demo_work \<noteq> None"
proof (rule next_pending_job_returns [where T = "{''b'', ''a''}"])
  have "length (pendingQueue demo_work ''a'' JOB_TYPE_REDACTION) = 1"
    "length (pendingQueue demo_work ''b'' JOB_TYPE_REDACTION) = 2" by code_simp+
  then show "(\<Sum>t\<in>{''b'', ''a''}. length (pendingQueue demo_work t JOB_TYPE_REDACTION))
     < length [[''b'', ''a''], [''a'', ''b''], [''a''], [''b'']]" by simp
qed (use demo_tenants in auto)

text \<open>C30. A restart rebuilds the tenant indexes exactly: whatever the order in which the shards'
  maps are read, afterwards the running count of a tenant and type is the number of its active jobs, and
  its pending queue lists each of its pending jobs once. Jobs and shards are as they were read.\<close>

theorem restart_rebuilds_indexes:
  assumes "shards_wf w"
    and "\<And>i. enumerates (porders i) (Pending (Shards w i))"
    and "\<And>i. enumerates (jorders i) (Jobs (Shards w i))"
  shows "let w' = rebuildPendingIndexes porders jorders w in
    runningCount w' t ty = int (card (active_jobs w t ty))
    \<and> distinct (pendingQueue w' t ty)
    \<and> set (pendingQueue w' t ty) = {jobID. \<exists>p. PendingJob w jobID = Some p \<and> of_kind w t ty p}
    \<and> heap w' = heap w \<and> GetJob w' = GetJob w \<and> PendingJob w' = PendingJob w"
proof -
  define w' where "w' = rebuildPendingIndexes porders jorders w"
  note r = rebuild_indexes [OF assms w'_def]
  then have "active_jobs w' t ty = active_jobs w t ty" "of_kind w' = of_kind w"
    by (simp_all add: active_jobs_cong [of w' w] of_kind_cong [of w' w])
  then show ?thesis using r by (simp add: Let_def w'_def [symmetric] counted_def queues_ok_def)
qed

definition demo_disk :: work where
  "demo_disk = (newWork demo_config demo_heap)\<lparr>Shards := (\<lambda>i.
     \<lparr>Jobs = (if i = getShardID ''j0'' then [''j0'' \<mapsto> 0] else Map.empty),
      Pending = (if i = getShardID ''j1'' then [''j1'' \<mapsto> 1] else Map.empty)\<rparr>)\<rparr>"

theorem restart_rebuilds_indexes_witness:
  "let w' = rebuildPendingIndexes (\<lambda>i. if i = getShardID ''j1'' then [''j1''] else [])
        (\<lambda>i. if i = getShardID ''j0'' then [''j0''] else []) demo_disk in
    runningCount w' ''a'' JOB_TYPE_REDACTION = int (card (active_jobs demo_disk ''a'' JOB_TYPE_REDACTION))
    \<and> distinct (pendingQueue w' ''a'' JOB_TYPE_REDACTION)
    \<and> set (pendingQueue w' ''a'' JOB_TYPE_REDACTION) =
        {jobID. \<exists>p. PendingJob demo_disk jobID = Some p \<and> of_kind demo_disk ''a'' JOB_TYPE_REDACTION p}
    \<and> heap w' = heap demo_disk \<and> GetJob w' = GetJob demo_disk \<and> PendingJob w' = PendingJob demo_disk"
proof (rule restart_rebuilds_indexes)
  show "shards_wf demo_disk"
    by (auto simp: shards_wf_def placed_def jobs_wf_def demo_disk_def newWork_def GetJob_def PendingJob_def
        getShard_def demo_heap_def demo_job_def dom_def split: if_splits)
qed (auto simp: enumerates_def demo_disk_def)

text \<open>A late report frees blocks that a newer job is working on. \<open>CompleteJob\<close> (and
  \<open>FailJob\<close>) deletes the keys of the reported job from \<open>runningBlocks\<close> without asking whose they are,
  while \<open>Prune\<close> and \<open>removeRunningBlocksByTenant\<close> only delete entries of the job itself. So when a job
  was timed out by \<open>Prune\<close>, its block was given to another job, and the first worker then reports,
  \<open>IsBlockBusy\<close> says that the block is free although \<open>BusyBlocksForTenant\<close> still names the job that
  works on it.\<close>

theorem late_completion_frees_busy_block:
  assumes "GetJob w jobID = Some p" and "JobID (heap w p) = jobID"
    and "JobType (heap w p) = JOB_TYPE_COMPACTION" and "b \<in> set (GetCompactionInput (heap w p))"
    and "map_of (inner (runningBlocksByTenant w) (Tenant (heap w p))) b = Some newer" and "newer \<noteq> jobID"
    and "pendingBlocks w (pendingBlockKey (Tenant (heap w p)) b) = None"
  shows "let w' = CompleteJob now jobID w in
    \<not> IsBlockBusy w' (Tenant (heap w p)) b
    \<and> BusyBlocksForTenant w' (Tenant (heap w p)) b = Some newer"
proof -
  let ?j = "job_Complete now (heap w p)"
  have k: "same_kind ?j (heap w p)" by simp
  have rb: "runningBlocks (CompleteJob now jobID w) = fold (\<lambda>key m. m(key := None)) (runningBlockKeys ?j) (runningBlocks w)"
    using assms(1) by (simp add: CompleteJob_def finish_job_def Let_def GetJob_def [symmetric])
  have none: "fold (\<lambda>key m. m(key := None)) ks m key = None" if "key \<in> set ks \<or> m key = None"
    for ks key and m :: "string \<rightharpoonup> ptr"
    using that by (induction ks arbitrary: m) auto
  have "pendingBlockKey (Tenant (heap w p)) b \<in> set (runningBlockKeys ?j)"
    using assms(4) k by (auto simp: runningBlockKeys_def same_kind_def Let_def)
  then have 1: "runningBlocks (CompleteJob now jobID w) (pendingBlockKey (Tenant (heap w p)) b) = None"
    by (simp add: rb none)
  have keep: "map_of (fold (del_if_job jobID) bs tb) b = Some newer" if "map_of tb b = Some newer" for bs tb
    using that
  proof (induction bs arbitrary: tb)
    case (Cons a bs)
    have "map_of (del_if_job jobID a tb) b = Some newer"
      using Cons.prems assms(6) by (auto simp: del_if_job_def delete_conv')
    then show ?case using Cons.IH by simp
  qed simp
  have keep_ne: "fold (del_if_job jobID) bs tb \<noteq> []" if "map_of tb b = Some newer" for bs tb
    using keep [OF that, of bs] by auto
  have "GetRedactionBlockID ?j = ''''"
    using assms(3) k by (auto simp: GetRedactionBlockID_def same_kind_def)
  then have 2: "map_of (inner (runningBlocksByTenant (CompleteJob now jobID w)) (Tenant (heap w p))) b = Some newer"
    using assms(1,2,5) k keep keep_ne
    by (auto simp: CompleteJob_def finish_job_def Let_def GetJob_def [symmetric] removeRunningBlocksByTenant_def
        inner_upd same_kind_def inner_def [of "runningBlocksByTenant w"] split: option.splits)
  have 3: "pendingBlocks (CompleteJob now jobID w) = pendingBlocks w"
    by (simp add: CompleteJob_def finish_job_def Let_def split: option.splits)
  show ?thesis
    using 1 2 3 assms(7) by (simp add: Let_def IsBlockBusy_def BusyBlocksForTenant_def)
qed

text \<open>A run that ends there: compaction \<open>c0\<close> of block \<open>x\<close> is handed to worker \<open>w0\<close>, times out, the
  block goes to \<open>c1\<close> on worker \<open>w1\<close>, and then \<open>w0\<close> reports.\<close>

definition demo_compaction :: "string \<Rightarrow> job" where
  "demo_compaction jobID = \<lparr>JobID = jobID, JobType = JOB_TYPE_COMPACTION,
     JobDetail = \<lparr>DetailTenant = ''t'', Compaction = \<lparr>Input = [''x''], Output = []\<rparr>,
       Redaction = None, DetailBatchId = ''''\<rparr>,
     JobStatus = JOB_STATUS_UNSPECIFIED, CreatedTime = 0, JobStartTime = 0, JobEndTime = 0,
     WorkerID = '''', Retries = 0\<rparr>"

definition assign :: "time \<Rightarrow> ptr \<Rightarrow> string \<Rightarrow> work \<Rightarrow> work" where
  "assign now p wid w = (let w1 = snd (AddJob now (Some p) (upd_job p (SetWorkerID wid) w))
     in StartJob now (JobID (heap w1 p)) w1)"

definition late_run :: work where
  "late_run = (let
     w0 = newWork demo_config (\<lambda>p. demo_compaction (if p = 0 then ''c0'' else ''c1''));
     w1 = assign 0 0 ''w0'' (RegisterJob 0 w0);
     w2 = Prune 5000 (\<lambda>i. if i = getShardID ''c0'' then [''c0''] else []) w1
   in assign 5001 1 ''w1'' (RegisterJob 1 w2))"

theorem late_completion_frees_busy_block_witness:
  "let w' = CompleteJob 6000 ''c0'' late_run in
    \<not> IsBlockBusy w' (Tenant (heap late_run 0)) ''x''
    \<and> BusyBlocksForTenant w' (Tenant (heap late_run 0)) ''x'' = Some ''c1''"
proof -
  have "GetJob late_run ''c0'' = Some 0 \<and> JobID (heap late_run 0) = ''c0''
      \<and> JobType (heap late_run 0) = JOB_TYPE_COMPACTION \<and> ''x'' \<in> set (GetCompactionInput (heap late_run 0))
      \<and> map_of (inner (runningBlocksByTenant late_run) (Tenant (heap late_run 0))) ''x'' = Some ''c1''
      \<and> pendingBlocks late_run (pendingBlockKey (Tenant (heap late_run 0)) ''x'') = None"
    by code_simp
  then show ?thesis by (intro late_completion_frees_busy_block) auto
qed

text \<open>A report about an earlier job also takes the worker's current job away from it:
  \<open>CompleteJob\<close> deletes the worker's entry of \<open>workerJobs\<close> whichever job it names, so after a
  repeated report \<open>GetJobForWorker\<close> finds nothing for a worker that has an active job, and the
  scheduler would hand it a second one. \<open>Prune\<close> tests the entry first.\<close>

theorem repeated_report_orphans_worker:
  assumes "GetJob w jobID = Some p" and "WorkerID (heap w p) = wid" and "wid \<noteq> ''''"
    and "GetJobForWorker w wid = Some q" and "q \<noteq> p"
  shows "let w' = CompleteJob now jobID w in
    GetJobForWorker w' wid = None \<and> is_active (heap w' q) \<and> GetJob w' = GetJob w"
proof -
  have k: "same_kind (job_Complete now (heap w p)) (heap w p)" by simp
  note fin = finish_job_Some [where f = "job_Complete now", OF assms(1) k refl]
  have "workerJobs (CompleteJob now jobID w) wid = None"
    using assms(1-3) by (simp add: CompleteJob_def finish_job_def Let_def GetJob_def [symmetric] job_Complete_def)
  moreover have "is_active (heap w q)"
    using assms(4) by (auto simp: GetJobForWorker_def split: option.splits if_splits)
  ultimately show ?thesis
    using assms(5) by (simp add: Let_def GetJobForWorker_def fin [folded CompleteJob_def])
qed

definition repeat_run :: work where
  "repeat_run = (let
     w0 = newWork demo_config (\<lambda>p. demo_compaction (if p = 0 then ''c0'' else ''c1''));
     w1 = CompleteJob 5 ''c0'' (assign 0 0 ''w0'' (RegisterJob 0 w0))
   in assign 6 1 ''w0'' (RegisterJob 1 w1))"

theorem repeated_report_orphans_worker_witness:
  "let w' = CompleteJob 7 ''c0'' repeat_run in
    GetJobForWorker w' ''w0'' = None \<and> is_active (heap w' 1) \<and> GetJob w' = GetJob repeat_run"
proof -
  have "GetJob repeat_run ''c0'' = Some 0 \<and> WorkerID (heap repeat_run 0) = ''w0''
      \<and> GetJobForWorker repeat_run ''w0'' = Some 1" by code_simp
  then show ?thesis by (intro repeated_report_orphans_worker) auto
qed

lemma pending_key_split:
  "NUL \<notin> set t \<Longrightarrow> splitPendingBlockKey (pendingBlockKey t b) = (t, b)"
  by (induction t) (auto simp: splitPendingBlockKey_def pendingBlockKey_def)

text \<open>The key of a block in the indexes names the tenant and the block: for tenants without
  a NUL byte, \<open>splitPendingBlockKey\<close> undoes \<open>pendingBlockKey\<close>, and two keys are equal only for the
  same tenant and block.\<close>

theorem pending_block_key_roundtrip:
  assumes "NUL \<notin> set t" and "NUL \<notin> set t'"
  shows "splitPendingBlockKey (pendingBlockKey t b) = (t, b)
    \<and> (pendingBlockKey t b = pendingBlockKey t' b' \<longleftrightarrow> t = t' \<and> b = b')"
  using assms pending_key_split by (metis prod.inject)

theorem pending_block_key_roundtrip_witness:
  "splitPendingBlockKey (pendingBlockKey ''a'' [NUL]) = (''a'', [NUL])
    \<and> (pendingBlockKey ''a'' [NUL] = pendingBlockKey ''ab'' ''c'' \<longleftrightarrow> ''a'' = ''ab'' \<and> [NUL] = ''c'')"
  by (rule pending_block_key_roundtrip) (simp_all add: NUL_def)

end
