(* ===== verification/TqlTypes.thy ===== *)
theory TqlTypes
  imports Prelude "HOL-Library.Signed_Division"
begin

section \<open>Types, operators and values of TraceQL (pkg/traceql)\<close>

text \<open>
  The enumerations of \<open>enum_operators.go\<close>, \<open>enum_statics.go\<close> and \<open>enum_attributes.go\<close> with the
  functions over them, the attributes, and the values (\<open>Static\<close>) of \<open>ast.go\<close> with their comparisons.

  A Go \<open>int\<close> and a \<open>time.Duration\<close> are 64-bit words read as signed. A \<open>float64\<close> is its
  bit pattern: bit equality is HOL's equality and the IEEE comparisons are computed from the pattern. What
  rounds (arithmetic, conversions, \<open>math.Mod\<close>, \<open>math.Pow\<close>) is a parameter, the record
  \<open>float_ops\<close>; no property relies on what it computes.

  A \<open>Static\<close> is a tagged union in the code (a type, a scalar, bytes, strings) that only the
  constructor functions \<open>NewStatic...\<close> build; it is the datatype of what they take. The difference
  between a nil and an empty array is not kept: no modelled function shows it.
\<close>

type_synonym i64 = "64 word"
type_synonym f64 = "64 word"

subsection \<open>Types (enum_statics.go)\<close>

datatype static_type =
  TypeNil | TypeSpanset | TypeAttribute | TypeInt | TypeFloat | TypeString | TypeBoolean
  | TypeIntArray | TypeFloatArray | TypeStringArray | TypeBooleanArray | TypeDuration | TypeStatus
  | TypeKind

definition isNumeric :: "static_type \<Rightarrow> bool" where
  "isNumeric t \<longleftrightarrow> t = TypeInt \<or> t = TypeFloat \<or> t = TypeDuration"

definition isArray :: "static_type \<Rightarrow> bool" where
  "isArray t \<longleftrightarrow> t = TypeIntArray \<or> t = TypeFloatArray \<or> t = TypeStringArray \<or> t = TypeBooleanArray"

text \<open>The type of the elements of an array type.\<close>

definition element_type :: "static_type \<Rightarrow> static_type option" where
  "element_type t = (case t of TypeIntArray \<Rightarrow> Some TypeInt | TypeFloatArray \<Rightarrow> Some TypeFloat
     | TypeStringArray \<Rightarrow> Some TypeString | TypeBooleanArray \<Rightarrow> Some TypeBoolean | _ \<Rightarrow> None)"

definition arrays_left :: "static_type \<Rightarrow> nat" where
  "arrays_left t = (if element_type t = None then 0 else 1)"

text \<open>The two functions call each other; each call replaces an array type by its element type.\<close>

function isMatchingOperand :: "static_type \<Rightarrow> static_type \<Rightarrow> bool"
  and isMatchingArrayElement :: "static_type \<Rightarrow> static_type \<Rightarrow> bool" where
  "isMatchingOperand t otherT =
     (if t = TypeAttribute \<or> otherT = TypeAttribute then True
      else if t = otherT then True
      else if isNumeric t \<and> isNumeric otherT then True
      else if t = TypeNil \<or> otherT = TypeNil then True
      else isMatchingArrayElement t otherT)"
| "isMatchingArrayElement t otherT =
     (case element_type t of
        Some e \<Rightarrow> isMatchingOperand e otherT
      | None \<Rightarrow> (case element_type otherT of
          Some e \<Rightarrow> isMatchingOperand e t
        | None \<Rightarrow> False))"
  by pat_completeness auto

termination
  by (relation "measure (\<lambda>x. case x of Inl (t, u) \<Rightarrow> 2 * (arrays_left t + arrays_left u) + 1
        | Inr (t, u) \<Rightarrow> 2 * (arrays_left t + arrays_left u))")
    (auto simp: arrays_left_def element_type_def split: static_type.splits)

declare isMatchingOperand.simps [simp del] isMatchingArrayElement.simps [simp del]

lemma isMatchingOperand_sym: "isMatchingOperand t u = isMatchingOperand u t"
  by (cases t; cases u) (simp_all add: isMatchingOperand.simps isMatchingArrayElement.simps isNumeric_def
      element_type_def)

subsection \<open>Operators (enum_operators.go)\<close>

datatype operator =
  OpNone | OpAdd | OpSub | OpDiv | OpMod | OpMult | OpEqual | OpNotEqual | OpRegex | OpNotRegex
  | OpGreater | OpGreaterEqual | OpLess | OpLessEqual | OpPower | OpAnd | OpOr | OpNot
  | OpSpansetChild | OpSpansetParent | OpSpansetDescendant | OpSpansetAncestor | OpSpansetAnd
  | OpSpansetUnion | OpSpansetSibling | OpSpansetNotChild | OpSpansetNotParent
  | OpSpansetNotSibling | OpSpansetNotAncestor | OpSpansetNotDescendant | OpSpansetUnionChild
  | OpSpansetUnionParent | OpSpansetUnionSibling | OpSpansetUnionAncestor
  | OpSpansetUnionDescendant | OpExists | OpNotExists | OpIn | OpNotIn | OpRegexMatchAny
  | OpRegexMatchNone

definition isArithmetic :: "operator \<Rightarrow> bool" where
  "isArithmetic op \<longleftrightarrow> op \<in> {OpAdd, OpSub, OpMult, OpDiv}"

definition isBoolean :: "operator \<Rightarrow> bool" where
  "isBoolean op \<longleftrightarrow> op \<in> {OpOr, OpAnd, OpEqual, OpNotEqual, OpRegex, OpNotRegex, OpGreater, OpGreaterEqual,
     OpLess, OpLessEqual, OpNot, OpExists, OpNotExists, OpIn, OpNotIn, OpRegexMatchAny, OpRegexMatchNone}"

definition binaryTypeValid :: "operator \<Rightarrow> static_type \<Rightarrow> bool" where
  "binaryTypeValid op t \<longleftrightarrow>
     (if t = TypeAttribute then True
      else if t \<in> {TypeBoolean, TypeBooleanArray} then op \<in> {OpAnd, OpOr, OpEqual, OpNotEqual, OpIn, OpNotIn}
      else if t \<in> {TypeFloat, TypeFloatArray, TypeInt, TypeIntArray, TypeDuration} then
        op \<in> {OpAdd, OpSub, OpMult, OpDiv, OpMod, OpPower, OpEqual, OpNotEqual, OpGreater, OpGreaterEqual,
          OpLess, OpLessEqual, OpIn, OpNotIn}
      else if t \<in> {TypeString, TypeStringArray} then
        op \<in> {OpEqual, OpNotEqual, OpRegex, OpNotRegex, OpGreater, OpGreaterEqual, OpLess, OpLessEqual,
          OpIn, OpNotIn, OpRegexMatchAny, OpRegexMatchNone}
      else if t \<in> {TypeNil, TypeStatus, TypeKind} then op \<in> {OpEqual, OpNotEqual}
      else False)"

definition binaryTypesValid :: "operator \<Rightarrow> static_type \<Rightarrow> static_type \<Rightarrow> bool" where
  "binaryTypesValid op lhsT rhsT \<longleftrightarrow> binaryTypeValid op lhsT \<and> binaryTypeValid op rhsT"

definition unaryTypesValid :: "operator \<Rightarrow> static_type \<Rightarrow> bool" where
  "unaryTypesValid op t \<longleftrightarrow>
     (if t = TypeAttribute then True
      else if op = OpSub then isNumeric t
      else if op = OpNot then t = TypeBoolean
      else op = OpExists \<or> op = OpNotExists)"

definition isArrayOp :: "operator \<Rightarrow> bool" where
  "isArrayOp op \<longleftrightarrow> op \<in> {OpIn, OpNotIn, OpRegexMatchAny, OpRegexMatchNone}"

definition toElementOp :: "operator \<Rightarrow> operator" where
  "toElementOp op = (case op of OpIn \<Rightarrow> OpEqual | OpNotIn \<Rightarrow> OpNotEqual | OpRegexMatchAny \<Rightarrow> OpRegex
     | OpRegexMatchNone \<Rightarrow> OpNotRegex | _ \<Rightarrow> op)"

definition getFlippedOp :: "operator \<Rightarrow> operator" where
  "getFlippedOp op = (case op of OpGreater \<Rightarrow> OpLess | OpGreaterEqual \<Rightarrow> OpLessEqual | OpLess \<Rightarrow> OpGreater
     | OpLessEqual \<Rightarrow> OpGreaterEqual | _ \<Rightarrow> op)"

definition op_String :: "operator \<Rightarrow> string" where
  "op_String op = (case map_of [
       (OpAdd, ''+''), (OpSub, ''-''), (OpDiv, ''/''), (OpMod, ''%''), (OpMult, ''*''),
       (OpEqual, ''=''), (OpNotEqual, ''!=''), (OpRegex, ''=~''), (OpNotRegex, ''!~''),
       (OpGreater, ''>''), (OpGreaterEqual, ''>=''), (OpLess, ''<''), (OpLessEqual, ''<=''),
       (OpPower, ''^''), (OpAnd, ''&&''), (OpOr, ''||''), (OpNot, ''!''),
       (OpSpansetChild, ''>''), (OpSpansetParent, ''<''), (OpSpansetDescendant, ''>>''),
       (OpSpansetAncestor, ''<<''), (OpSpansetAnd, ''&&''), (OpSpansetSibling, ''~''),
       (OpSpansetUnion, ''||''), (OpSpansetNotChild, ''!>''), (OpSpansetNotParent, ''!<''),
       (OpSpansetNotSibling, ''!~''), (OpSpansetNotAncestor, ''!<<''),
       (OpSpansetNotDescendant, ''!>>''), (OpSpansetUnionChild, ''&>''),
       (OpSpansetUnionParent, ''&<''), (OpSpansetUnionSibling, ''&~''),
       (OpSpansetUnionAncestor, ''&<<''), (OpSpansetUnionDescendant, ''&>>''), (OpIn, ''IN''),
       (OpNotIn, ''NOT IN''), (OpRegexMatchAny, ''MATCH ANY''),
       (OpRegexMatchNone, ''MATCH NONE''), (OpNone, ''operator(0)''),
       (OpExists, ''operator(35)''), (OpNotExists, ''operator(36)'')] op of Some s \<Rightarrow> s | None \<Rightarrow> '''')"

subsection \<open>Attributes (enum_attributes.go, ast.go)\<close>

datatype attribute_scope = AttributeScopeNone | AttributeScopeTrace | AttributeScopeResource
  | AttributeScopeSpan | AttributeScopeEvent | AttributeScopeLink | AttributeScopeInstrumentation
  | AttributeScopeUnknown

datatype intrinsic =
  IntrinsicNone | IntrinsicDuration | IntrinsicName | IntrinsicStatus | IntrinsicStatusMessage
  | IntrinsicKind | IntrinsicChildCount | IntrinsicTraceRootService | IntrinsicTraceRootSpan
  | IntrinsicTraceDuration | IntrinsicNestedSetLeft | IntrinsicNestedSetRight
  | IntrinsicNestedSetParent | IntrinsicEventName | IntrinsicEventTimeSinceStart
  | IntrinsicLinkSpanID | IntrinsicLinkTraceID | IntrinsicInstrumentationName
  | IntrinsicInstrumentationVersion | IntrinsicParent | IntrinsicStructuralDescendant
  | IntrinsicStructuralSibling | IntrinsicStructuralChild | IntrinsicTraceID | IntrinsicSpanID
  | IntrinsicParentID | ScopedIntrinsicSpanStatus | ScopedIntrinsicSpanStatusMessage
  | ScopedIntrinsicSpanDuration | ScopedIntrinsicSpanName | ScopedIntrinsicSpanKind
  | ScopedIntrinsicTraceRootName | ScopedIntrinsicTraceRootService
  | ScopedIntrinsicTraceDuration | IntrinsicTraceStartTime | IntrinsicSpanStartTime
  | IntrinsicServiceStats | IntrinsicSpanMultiplier

definition intrinsic_String :: "intrinsic \<Rightarrow> string" where
  "intrinsic_String i = (case map_of [
       (IntrinsicNone, ''none''), (IntrinsicDuration, ''duration''), (IntrinsicName, ''name''),
       (IntrinsicStatus, ''status''), (IntrinsicStatusMessage, ''statusMessage''),
       (IntrinsicKind, ''kind''), (IntrinsicChildCount, ''span:childCount''),
       (IntrinsicEventName, ''event:name''),
       (IntrinsicEventTimeSinceStart, ''event:timeSinceStart''),
       (IntrinsicLinkSpanID, ''link:spanID''), (IntrinsicLinkTraceID, ''link:traceID''),
       (IntrinsicParent, ''parent''), (IntrinsicTraceRootService, ''rootServiceName''),
       (IntrinsicTraceRootSpan, ''rootName''), (IntrinsicTraceDuration, ''traceDuration''),
       (IntrinsicTraceID, ''trace:id''), (IntrinsicTraceStartTime, ''traceStartTime''),
       (ScopedIntrinsicSpanStatus, ''span:status''),
       (ScopedIntrinsicSpanStatusMessage, ''span:statusMessage''),
       (ScopedIntrinsicSpanDuration, ''span:duration''),
       (ScopedIntrinsicSpanName, ''span:name''), (ScopedIntrinsicSpanKind, ''span:kind''),
       (ScopedIntrinsicTraceRootName, ''trace:rootName''),
       (ScopedIntrinsicTraceRootService, ''trace:rootService''),
       (ScopedIntrinsicTraceDuration, ''trace:duration''), (IntrinsicSpanID, ''span:id''),
       (IntrinsicParentID, ''span:parentID''),
       (IntrinsicInstrumentationName, ''instrumentation:name''),
       (IntrinsicInstrumentationVersion, ''instrumentation:version''),
       (IntrinsicSpanStartTime, ''spanStartTime''),
       (IntrinsicNestedSetLeft, ''nestedSetLeft''),
       (IntrinsicNestedSetRight, ''nestedSetRight''),
       (IntrinsicNestedSetParent, ''nestedSetParent''),
       (IntrinsicSpanMultiplier, ''span:multiplier''), (IntrinsicStructuralDescendant, ''intrinsic(20)''),
       (IntrinsicStructuralSibling, ''intrinsic(21)''), (IntrinsicStructuralChild, ''intrinsic(22)''),
       (IntrinsicServiceStats, ''intrinsic(36)'')] i of Some s \<Rightarrow> s | None \<Rightarrow> '''')"

definition intrinsicFromString :: "string \<Rightarrow> intrinsic" where
  "intrinsicFromString s = (case map_of [
       (''duration'', IntrinsicDuration), (''name'', IntrinsicName),
       (''status'', IntrinsicStatus), (''statusMessage'', IntrinsicStatusMessage),
       (''kind'', IntrinsicKind), (''event:name'', IntrinsicEventName),
       (''event:timeSinceStart'', IntrinsicEventTimeSinceStart),
       (''link:spanID'', IntrinsicLinkSpanID), (''link:traceID'', IntrinsicLinkTraceID),
       (''parent'', IntrinsicParent), (''rootServiceName'', IntrinsicTraceRootService),
       (''rootName'', IntrinsicTraceRootSpan), (''traceDuration'', IntrinsicTraceDuration),
       (''trace:id'', IntrinsicTraceID), (''traceStartTime'', IntrinsicTraceStartTime),
       (''span:id'', IntrinsicSpanID), (''span:parentID'', IntrinsicParentID),
       (''span:status'', IntrinsicStatus), (''span:statusMessage'', IntrinsicStatusMessage),
       (''span:duration'', IntrinsicDuration), (''span:name'', IntrinsicName),
       (''span:kind'', IntrinsicKind), (''span:childCount'', IntrinsicChildCount),
       (''trace:rootName'', IntrinsicTraceRootSpan),
       (''trace:rootService'', IntrinsicTraceRootService),
       (''trace:duration'', IntrinsicTraceDuration),
       (''instrumentation:name'', IntrinsicInstrumentationName),
       (''instrumentation:version'', IntrinsicInstrumentationVersion),
       (''spanStartTime'', IntrinsicSpanStartTime),
       (''nestedSetLeft'', IntrinsicNestedSetLeft),
       (''nestedSetRight'', IntrinsicNestedSetRight),
       (''nestedSetParent'', IntrinsicNestedSetParent)] s of Some i \<Rightarrow> i | None \<Rightarrow> IntrinsicNone)"

record attribute =
  Scope :: attribute_scope
  Parent :: bool
  Name :: string
  Intrinsic :: intrinsic

definition NewAttribute :: "string \<Rightarrow> attribute" where
  "NewAttribute att = \<lparr>Scope = AttributeScopeNone, Parent = False, Name = att, Intrinsic = IntrinsicNone\<rparr>"

definition NewScopedAttribute :: "attribute_scope \<Rightarrow> bool \<Rightarrow> string \<Rightarrow> attribute" where
  "NewScopedAttribute sc par att = \<lparr>Scope = sc, Parent = par, Name = att,
     Intrinsic = (if sc = AttributeScopeNone \<and> \<not> par then intrinsicFromString att else IntrinsicNone)\<rparr>"

definition NewIntrinsic :: "intrinsic \<Rightarrow> attribute" where
  "NewIntrinsic n = \<lparr>Scope = AttributeScopeNone, Parent = False, Name = intrinsic_String n, Intrinsic = n\<rparr>"

definition attribute_type :: "attribute \<Rightarrow> static_type" where
  "attribute_type a = (case Intrinsic a of
       IntrinsicDuration \<Rightarrow> TypeDuration | IntrinsicChildCount \<Rightarrow> TypeInt | IntrinsicName \<Rightarrow> TypeString
     | IntrinsicStatus \<Rightarrow> TypeStatus | IntrinsicStatusMessage \<Rightarrow> TypeString | IntrinsicKind \<Rightarrow> TypeKind
     | IntrinsicEventName \<Rightarrow> TypeString | IntrinsicEventTimeSinceStart \<Rightarrow> TypeDuration
     | IntrinsicLinkTraceID \<Rightarrow> TypeString | IntrinsicLinkSpanID \<Rightarrow> TypeString | IntrinsicParent \<Rightarrow> TypeNil
     | IntrinsicTraceDuration \<Rightarrow> TypeDuration | IntrinsicTraceRootService \<Rightarrow> TypeString
     | IntrinsicTraceRootSpan \<Rightarrow> TypeString | IntrinsicNestedSetLeft \<Rightarrow> TypeInt
     | IntrinsicNestedSetRight \<Rightarrow> TypeInt | IntrinsicNestedSetParent \<Rightarrow> TypeInt
     | IntrinsicTraceID \<Rightarrow> TypeString | IntrinsicSpanID \<Rightarrow> TypeString | IntrinsicParentID \<Rightarrow> TypeString
     | _ \<Rightarrow> TypeAttribute)"

subsection \<open>Floats\<close>

record float_ops =
  f_add :: "f64 \<Rightarrow> f64 \<Rightarrow> f64"
  f_sub :: "f64 \<Rightarrow> f64 \<Rightarrow> f64"
  f_mul :: "f64 \<Rightarrow> f64 \<Rightarrow> f64"
  f_div :: "f64 \<Rightarrow> f64 \<Rightarrow> f64"
  f_mod :: "f64 \<Rightarrow> f64 \<Rightarrow> f64"
  f_pow :: "f64 \<Rightarrow> f64 \<Rightarrow> f64"
  f_of_int :: "i64 \<Rightarrow> f64"
  f_of_uint :: "u64 \<Rightarrow> f64"
  f_to_int :: "f64 \<Rightarrow> i64"

definition f64_NaN :: f64 where
  "f64_NaN = 0x7FF8000000000001"

definition f64_abs :: "f64 \<Rightarrow> f64" where
  "f64_abs x = and x 0x7FFFFFFFFFFFFFFF"

definition isNaN :: "f64 \<Rightarrow> bool" where
  "isNaN x \<longleftrightarrow> 0x7FF0000000000000 < f64_abs x"

text \<open>The order of the floats is the order of their patterns, read as sign and magnitude.\<close>

definition f64_key :: "f64 \<Rightarrow> int" where
  "f64_key x = (if bit x 63 then - uint (f64_abs x) else uint (f64_abs x))"

definition f64_eq :: "f64 \<Rightarrow> f64 \<Rightarrow> bool" where
  "f64_eq x y \<longleftrightarrow> \<not> isNaN x \<and> \<not> isNaN y \<and> f64_key x = f64_key y"

definition f64_less :: "f64 \<Rightarrow> f64 \<Rightarrow> bool" where
  "f64_less x y \<longleftrightarrow> \<not> isNaN x \<and> \<not> isNaN y \<and> f64_key x < f64_key y"

definition f64_le :: "f64 \<Rightarrow> f64 \<Rightarrow> bool" where
  "f64_le x y \<longleftrightarrow> \<not> isNaN x \<and> \<not> isNaN y \<and> f64_key x \<le> f64_key y"

lemma f64_less_NaN [simp]: "\<not> f64_less f64_NaN y" "\<not> f64_less x f64_NaN" "\<not> f64_le f64_NaN y"
    "\<not> f64_le x f64_NaN" "\<not> f64_eq f64_NaN y" "\<not> f64_eq x f64_NaN"
proof -
  have "isNaN f64_NaN" by code_simp
  then show "\<not> f64_less f64_NaN y" "\<not> f64_less x f64_NaN" "\<not> f64_le f64_NaN y"
    "\<not> f64_le x f64_NaN" "\<not> f64_eq f64_NaN y" "\<not> f64_eq x f64_NaN"
    by (simp_all add: f64_less_def f64_le_def f64_eq_def)
qed

lemma f64_eq_sym: "f64_eq x y = f64_eq y x"
  by (auto simp: f64_eq_def)

subsection \<open>Values (\<open>Static\<close>)\<close>

datatype static =
    StaticNil
  | StaticInt i64
  | StaticFloat f64
  | StaticString string
  | StaticBool bool
  | StaticDuration i64
  | StaticStatus i64
  | StaticKind i64
  | StaticIntArray "i64 list"
  | StaticFloatArray "f64 list"
  | StaticStringArray "string list"
  | StaticBooleanArray "bool list"

definition StaticTrue :: static where "StaticTrue = StaticBool True"
definition StaticFalse :: static where "StaticFalse = StaticBool False"

fun static_Type :: "static \<Rightarrow> static_type" where
  "static_Type StaticNil = TypeNil"
| "static_Type (StaticInt _) = TypeInt"
| "static_Type (StaticFloat _) = TypeFloat"
| "static_Type (StaticString _) = TypeString"
| "static_Type (StaticBool _) = TypeBoolean"
| "static_Type (StaticDuration _) = TypeDuration"
| "static_Type (StaticStatus _) = TypeStatus"
| "static_Type (StaticKind _) = TypeKind"
| "static_Type (StaticIntArray _) = TypeIntArray"
| "static_Type (StaticFloatArray _) = TypeFloatArray"
| "static_Type (StaticStringArray _) = TypeStringArray"
| "static_Type (StaticBooleanArray _) = TypeBooleanArray"

definition static_Bool :: "static \<Rightarrow> bool option" where
  "static_Bool s = (case s of StaticBool b \<Rightarrow> Some b | _ \<Rightarrow> None)"

text \<open>\<open>Float\<close>: the value as a float; not a number for everything that is not numeric.\<close>

definition static_Float :: "float_ops \<Rightarrow> static \<Rightarrow> f64" where
  "static_Float ops s = (case s of StaticFloat f \<Rightarrow> f | StaticInt i \<Rightarrow> f_of_int ops i
     | StaticDuration d \<Rightarrow> f_of_int ops d | _ \<Rightarrow> f64_NaN)"

definition static_Equals :: "float_ops \<Rightarrow> static \<Rightarrow> static \<Rightarrow> bool" where
  "static_Equals ops s u = (case s of
       StaticNil \<Rightarrow> False
     | StaticInt i \<Rightarrow> (case u of StaticInt j \<Rightarrow> i = j | StaticDuration j \<Rightarrow> i = j | StaticStatus j \<Rightarrow> i = j
         | StaticFloat f \<Rightarrow> f64_eq (static_Float ops s) f | _ \<Rightarrow> False)
     | StaticDuration i \<Rightarrow> (case u of StaticInt j \<Rightarrow> i = j | StaticDuration j \<Rightarrow> i = j
         | StaticFloat f \<Rightarrow> f64_eq (static_Float ops s) f | _ \<Rightarrow> False)
     | StaticStatus i \<Rightarrow> (case u of StaticInt j \<Rightarrow> i = j | StaticStatus j \<Rightarrow> i = j | _ \<Rightarrow> False)
     | StaticFloat f \<Rightarrow> u \<noteq> StaticNil \<and> f64_eq f (static_Float ops u)
     | _ \<Rightarrow> s = u)"

definition static_NotEquals :: "float_ops \<Rightarrow> static \<Rightarrow> static \<Rightarrow> bool" where
  "static_NotEquals ops s u \<longleftrightarrow> s \<noteq> StaticNil \<and> u \<noteq> StaticNil \<and> \<not> static_Equals ops s u"

definition StrictEquals :: "static \<Rightarrow> static \<Rightarrow> bool" where
  "StrictEquals s u = (case (s, u) of (StaticFloat f, StaticFloat g) \<Rightarrow> f64_eq f g | _ \<Rightarrow> s = u)"

lemma static_Equals_nil [simp]: "\<not> static_Equals ops StaticNil u" "\<not> static_Equals ops s StaticNil"
  by (simp_all add: static_Equals_def split: static.splits)

lemma static_Equals_sym: "static_Equals ops s u = static_Equals ops u s"
  by (cases s; cases u) (auto simp: static_Equals_def static_Float_def f64_eq_sym)

subsection \<open>Order\<close>

text \<open>\<open>cmp.Compare\<close> of two integers, and of two floats: there a NaN is below every other number.\<close>

definition cmp_int :: "int \<Rightarrow> int \<Rightarrow> int" where
  "cmp_int x y = (if x < y then -1 else if x = y then 0 else 1)"

definition cmp_float :: "f64 \<Rightarrow> f64 \<Rightarrow> int" where
  "cmp_float x y = (if isNaN x then (if isNaN y then 0 else -1)
     else if isNaN y then 1
     else if f64_less x y then -1 else if f64_less y x then 1 else 0)"

fun compare_lists :: "('a \<Rightarrow> 'a \<Rightarrow> int) \<Rightarrow> 'a list \<Rightarrow> 'a list \<Rightarrow> int" where
  "compare_lists c [] [] = 0"
| "compare_lists c [] (y # ys) = -1"
| "compare_lists c (x # xs) [] = 1"
| "compare_lists c (x # xs) (y # ys) = (if c x y \<noteq> 0 then c x y else compare_lists c xs ys)"

definition compare_strings :: "string \<Rightarrow> string \<Rightarrow> int" where
  "compare_strings = compare_lists (\<lambda>x y. cmp_int (of_char x) (of_char y))"

definition type_code :: "static_type \<Rightarrow> int" where
  "type_code t = (case t of TypeNil \<Rightarrow> 0 | TypeSpanset \<Rightarrow> 1 | TypeAttribute \<Rightarrow> 2 | TypeInt \<Rightarrow> 3 | TypeFloat \<Rightarrow> 4
     | TypeString \<Rightarrow> 5 | TypeBoolean \<Rightarrow> 6 | TypeIntArray \<Rightarrow> 7 | TypeFloatArray \<Rightarrow> 8 | TypeStringArray \<Rightarrow> 9
     | TypeBooleanArray \<Rightarrow> 10 | TypeDuration \<Rightarrow> 11 | TypeStatus \<Rightarrow> 12 | TypeKind \<Rightarrow> 13)"

text \<open>\<open>compare\<close>. Two scalars of one type, floats too, are compared by the signed value of the
  machine word that holds them.\<close>

definition static_compare :: "float_ops \<Rightarrow> static \<Rightarrow> static \<Rightarrow> int" where
  "static_compare ops s u =
     (if static_Type s \<noteq> static_Type u then
        (if isNumeric (static_Type s) \<and> isNumeric (static_Type u)
         then cmp_float (static_Float ops s) (static_Float ops u)
         else cmp_int (type_code (static_Type s)) (type_code (static_Type u)))
      else case (s, u) of
        (StaticString x, StaticString y) \<Rightarrow> compare_strings x y
      | (StaticBooleanArray x, StaticBooleanArray y) \<Rightarrow> compare_lists (\<lambda>a b. cmp_int (of_bool a) (of_bool b)) x y
      | (StaticIntArray x, StaticIntArray y) \<Rightarrow> compare_lists (\<lambda>a b. cmp_int (sint a) (sint b)) x y
      | (StaticFloatArray x, StaticFloatArray y) \<Rightarrow> compare_lists cmp_float x y
      | (StaticStringArray x, StaticStringArray y) \<Rightarrow> compare_lists compare_strings x y
      | (StaticInt x, StaticInt y) \<Rightarrow> cmp_int (sint x) (sint y)
      | (StaticFloat x, StaticFloat y) \<Rightarrow> cmp_int (sint x) (sint y)
      | (StaticBool x, StaticBool y) \<Rightarrow> cmp_int (of_bool x) (of_bool y)
      | (StaticDuration x, StaticDuration y) \<Rightarrow> cmp_int (sint x) (sint y)
      | (StaticStatus x, StaticStatus y) \<Rightarrow> cmp_int (sint x) (sint y)
      | (StaticKind x, StaticKind y) \<Rightarrow> cmp_int (sint x) (sint y)
      | _ \<Rightarrow> 0)"

subsection \<open>Arithmetic and arrays\<close>

definition sumInto :: "float_ops \<Rightarrow> static \<Rightarrow> static \<Rightarrow> static" where
  "sumInto ops s u = (case (s, u) of
       (StaticInt x, StaticInt y) \<Rightarrow> StaticInt (x + y)
     | (StaticDuration x, StaticDuration y) \<Rightarrow> StaticDuration (x + y)
     | (StaticFloat x, StaticFloat y) \<Rightarrow> StaticFloat (f_add ops x y)
     | _ \<Rightarrow> s)"

text \<open>Go's integer division truncates; dividing by 0 panics, and no caller divides by 0.\<close>

definition divideBy :: "float_ops \<Rightarrow> static \<Rightarrow> f64 \<Rightarrow> static" where
  "divideBy ops s f = (case s of
       StaticInt x \<Rightarrow> StaticFloat (f_div ops (f_of_uint ops x) f)
     | StaticDuration x \<Rightarrow> StaticDuration (word_of_int (sint x sdiv sint (f_to_int ops f)))
     | StaticFloat x \<Rightarrow> StaticFloat (f_div ops x f)
     | _ \<Rightarrow> s)"

text \<open>\<open>Elements\<close>: a value that is not an array is its own only element.\<close>

definition Elements :: "static \<Rightarrow> static list" where
  "Elements s = (case s of StaticIntArray xs \<Rightarrow> map StaticInt xs | StaticFloatArray xs \<Rightarrow> map StaticFloat xs
     | StaticStringArray xs \<Rightarrow> map StaticString xs | StaticBooleanArray xs \<Rightarrow> map StaticBool xs | _ \<Rightarrow> [s])"

definition static_append :: "static \<Rightarrow> static \<Rightarrow> static option" where
  "static_append s u = (case s of
       StaticString x \<Rightarrow> (case u of StaticString y \<Rightarrow> Some (StaticStringArray [x, y])
         | StaticStringArray ys \<Rightarrow> Some (StaticStringArray (x # ys)) | _ \<Rightarrow> None)
     | StaticStringArray xs \<Rightarrow> (case u of StaticString y \<Rightarrow> Some (StaticStringArray (xs @ [y]))
         | StaticStringArray ys \<Rightarrow> Some (StaticStringArray (xs @ ys)) | _ \<Rightarrow> None)
     | StaticInt x \<Rightarrow> (case u of StaticInt y \<Rightarrow> Some (StaticIntArray [x, y])
         | StaticIntArray ys \<Rightarrow> Some (StaticIntArray (x # ys)) | _ \<Rightarrow> None)
     | StaticIntArray xs \<Rightarrow> (case u of StaticInt y \<Rightarrow> Some (StaticIntArray (xs @ [y]))
         | StaticIntArray ys \<Rightarrow> Some (StaticIntArray (xs @ ys)) | _ \<Rightarrow> None)
     | StaticFloat x \<Rightarrow> (case u of StaticFloat y \<Rightarrow> Some (StaticFloatArray [x, y])
         | StaticFloatArray ys \<Rightarrow> Some (StaticFloatArray (x # ys)) | _ \<Rightarrow> None)
     | StaticFloatArray xs \<Rightarrow> (case u of StaticFloat y \<Rightarrow> Some (StaticFloatArray (xs @ [y]))
         | StaticFloatArray ys \<Rightarrow> Some (StaticFloatArray (xs @ ys)) | _ \<Rightarrow> None)
     | StaticBool x \<Rightarrow> (case u of StaticBool y \<Rightarrow> Some (StaticBooleanArray [x, y])
         | StaticBooleanArray ys \<Rightarrow> Some (StaticBooleanArray (x # ys)) | _ \<Rightarrow> None)
     | StaticBooleanArray xs \<Rightarrow> (case u of StaticBool y \<Rightarrow> Some (StaticBooleanArray (xs @ [y]))
         | StaticBooleanArray ys \<Rightarrow> Some (StaticBooleanArray (xs @ ys)) | _ \<Rightarrow> None)
     | _ \<Rightarrow> None)"

lemma static_append_elements:
  "static_append s u = Some v \<Longrightarrow> Elements v = Elements s @ Elements u"
  by (cases s; cases u) (auto simp: static_append_def Elements_def)

lemma element_types: "isArray (static_Type s) \<Longrightarrow> e \<in> set (Elements s) \<Longrightarrow>
    element_type (static_Type s) = Some (static_Type e)"
  by (cases s) (auto simp: isArray_def Elements_def element_type_def)

text \<open>A pattern is its sign bit and its magnitude.\<close>

lemma f64_abs_take: "f64_abs x = take_bit 63 x"
  unfolding f64_abs_def by (simp add: take_bit_eq_mask mask_numeral)

lemma uint_f64: "uint x = (if bit x 63 then 2 ^ 63 else 0) + uint (f64_abs x)"
proof -
  have "take_bit 64 (uint x) = uint x"
    using uint_lt2p [of x] by (simp add: take_bit_eq_mod mod_pos_pos_trivial)
  moreover have "take_bit (Suc 63) (uint x) = of_bool (bit (uint x) 63) * 2 ^ 63 + take_bit 63 (uint x)"
    using take_bit_Suc_from_most [of 63 "uint x"] by simp
  ultimately show ?thesis
    by (cases "bit x 63") (simp_all add: f64_abs_take unsigned_take_bit_eq bit_uint_iff)
qed

lemma f64_abs_bound: "uint (f64_abs x) < 2 ^ 63"
  using take_bit_int_less_exp [of 63 "uint x"] by (simp add: f64_abs_take unsigned_take_bit_eq)

lemma sint_f64: "sint x = (if bit x 63 then - (2 ^ 63) else 0) + uint (f64_abs x)" for x :: f64
proof -
  have m: "bit x 63 \<longleftrightarrow> sint x < 0" using bit_last_iff [of x] by simp
  have "- (2 ^ 63) \<le> sint x" "sint x < 2 ^ 63" using sint_greater_eq [of x] sint_less [of x] by simp_all
  moreover have "uint x = sint x mod 2 ^ 64" by (simp add: uint_sint take_bit_eq_mod)
  moreover have "sint x mod 2 ^ 64 = (sint x + 2 ^ 64) mod 2 ^ 64" by simp
  ultimately have "sint x = (if bit x 63 then uint x - 2 ^ 64 else uint x)"
    using m by (cases "bit x 63") (simp_all add: mod_pos_pos_trivial del: mod_add_self2)
  then show ?thesis using uint_f64 [of x] by simp
qed

text \<open>The order that the aggregates \<open>min\<close> and \<open>max\<close> use on floats (\<open>Static.compare\<close>) is the order of
  the numbers except when both are negative: then it is reversed, because the patterns are compared as
  integers.\<close>

theorem float_compare_reversed_on_negatives:
  assumes "f64_less x y"
  shows "static_compare ops (StaticFloat x) (StaticFloat y) = (if bit x 63 \<and> bit y 63 then 1 else -1)"
proof -
  have "0 \<le> uint (f64_abs x)" "0 \<le> uint (f64_abs y)" by simp_all
  then show ?thesis
    using assms f64_abs_bound [of x] f64_abs_bound [of y]
    by (cases "bit x 63"; cases "bit y 63")
      (simp_all del: uint_ge_0 unsigned_greater_eq add: static_compare_def f64_less_def f64_key_def sint_f64 cmp_int_def)
qed

text \<open>The patterns of -2, -1 and 1.\<close>

theorem float_compare_reversed_on_negatives_witness:
  "\<forall>ops. static_compare ops (StaticFloat 0xC000000000000000) (StaticFloat 0xBFF0000000000000) = 1
    \<and> static_compare ops (StaticFloat 0xC000000000000000) (StaticFloat 0x3FF0000000000000) = -1"
proof
  fix ops
  have l: "f64_less 0xC000000000000000 0xBFF0000000000000" "f64_less 0xC000000000000000 0x3FF0000000000000"
    and b: "bit (0xC000000000000000 :: f64) 63" "bit (0xBFF0000000000000 :: f64) 63" "\<not> bit (0x3FF0000000000000 :: f64) 63"
    by code_simp+
  show "static_compare ops (StaticFloat 0xC000000000000000) (StaticFloat 0xBFF0000000000000) = 1
    \<and> static_compare ops (StaticFloat 0xC000000000000000) (StaticFloat 0x3FF0000000000000) = -1"
    using float_compare_reversed_on_negatives [OF l(1), of ops] float_compare_reversed_on_negatives [OF l(2), of ops] b
    by simp
qed

end
