(* ===== verification/TqlExpr.thy ===== *)
theory TqlExpr
  imports TqlTypes
begin

section \<open>Field expressions of TraceQL (pkg/traceql/ast.go, ast_validate.go, ast_execute.go)\<close>

text \<open>
  The expressions inside a spanset filter: their types, their validation, and their evaluation on one
  span. A span is the map of its attributes (the method \<open>AttributeFor\<close>). \<open>regexp\<close> gives for a
  pattern the matcher that \<open>NewRegexp\<close> builds, or None when the pattern does not compile.

  \<open>eval\<close> is \<open>execute\<close> with both operands always evaluated and no regular expression cached;
  theory \<open>TqlSampling\<close> models the mutable nodes (samples, swapped operands, cached expressions).
\<close>

datatype field_expression =
    BinaryOperation operator field_expression field_expression
  | UnaryOperation operator field_expression
  | Attribute attribute
  | Static static

type_synonym span_attributes = "attribute \<rightharpoonup> static"

record tql_env =
  float :: float_ops
  regexp :: "string \<Rightarrow> (string \<Rightarrow> bool) option"

subsection \<open>Types\<close>

fun impliedType :: "field_expression \<Rightarrow> static_type" where
  "impliedType (BinaryOperation op l r) =
     (if isBoolean op then TypeBoolean
      else if impliedType l \<noteq> TypeAttribute then impliedType l else impliedType r)"
| "impliedType (UnaryOperation op e) =
     (if op = OpExists \<or> op = OpNotExists then TypeBoolean else impliedType e)"
| "impliedType (Attribute a) = attribute_type a"
| "impliedType (Static s) = static_Type s"

fun referencesSpan :: "field_expression \<Rightarrow> bool" where
  "referencesSpan (BinaryOperation op l r) \<longleftrightarrow> referencesSpan l \<or> referencesSpan r"
| "referencesSpan (UnaryOperation op e) \<longleftrightarrow> referencesSpan e"
| "referencesSpan (Attribute a) \<longleftrightarrow> True"
| "referencesSpan (Static s) \<longleftrightarrow> False"

subsection \<open>Operations on two values\<close>

datatype expr_error = ErrDivisionByZero | ErrModuloByZero | ErrUnsupported | ErrTwoArrays | ErrArrayOnLeft
  | ErrRegex | ErrRegexCache | ErrUnexpectedOperator operator | ErrExpectedBoolean | ErrExpectedNumeric
  | ErrUnaryOperator operator

text \<open>None: no operation was executed, the caller falls through to the float operations.\<close>

definition string_op :: "tql_env \<Rightarrow> operator \<Rightarrow> string \<Rightarrow> string \<Rightarrow> (expr_error + static) option" where
  "string_op env op l r = (case op of
       OpGreater \<Rightarrow> Some (Inr (StaticBool (compare_strings l r > 0)))
     | OpGreaterEqual \<Rightarrow> Some (Inr (StaticBool (compare_strings l r \<ge> 0)))
     | OpLess \<Rightarrow> Some (Inr (StaticBool (compare_strings l r < 0)))
     | OpLessEqual \<Rightarrow> Some (Inr (StaticBool (compare_strings l r \<le> 0)))
     | OpRegex \<Rightarrow> Some (case regexp env r of None \<Rightarrow> Inl ErrRegex | Some m \<Rightarrow> Inr (StaticBool (m l)))
     | OpNotRegex \<Rightarrow> Some (case regexp env r of None \<Rightarrow> Inl ErrRegex | Some m \<Rightarrow> Inr (StaticBool (\<not> m l)))
     | _ \<Rightarrow> None)"

definition intPow :: "float_ops \<Rightarrow> i64 \<Rightarrow> i64 \<Rightarrow> i64" where
  "intPow ops base e = f_to_int ops (f_pow ops (f_of_int ops base) (f_of_int ops e))"

definition int_op :: "tql_env \<Rightarrow> operator \<Rightarrow> i64 \<Rightarrow> i64 \<Rightarrow> (expr_error + static) option" where
  "int_op env op l r = (case op of
       OpAdd \<Rightarrow> Some (Inr (StaticInt (l + r)))
     | OpSub \<Rightarrow> Some (Inr (StaticInt (l - r)))
     | OpDiv \<Rightarrow> Some (if r = 0 then Inl ErrDivisionByZero else Inr (StaticInt (word_of_int (sint l sdiv sint r))))
     | OpMod \<Rightarrow> Some (if r = 0 then Inl ErrModuloByZero else Inr (StaticInt (word_of_int (sint l smod sint r))))
     | OpMult \<Rightarrow> Some (Inr (StaticInt (l * r)))
     | OpGreater \<Rightarrow> Some (Inr (StaticBool (sint l > sint r)))
     | OpGreaterEqual \<Rightarrow> Some (Inr (StaticBool (sint l \<ge> sint r)))
     | OpLess \<Rightarrow> Some (Inr (StaticBool (sint l < sint r)))
     | OpLessEqual \<Rightarrow> Some (Inr (StaticBool (sint l \<le> sint r)))
     | OpPower \<Rightarrow> Some (Inr (StaticInt (intPow (float env) r l)))
     | _ \<Rightarrow> None)"

definition bool_op :: "operator \<Rightarrow> bool \<Rightarrow> bool \<Rightarrow> (expr_error + static) option" where
  "bool_op op l r = (case op of
       OpAnd \<Rightarrow> Some (Inr (StaticBool (l \<and> r)))
     | OpOr \<Rightarrow> Some (Inr (StaticBool (l \<or> r)))
     | _ \<Rightarrow> None)"

definition float_op :: "tql_env \<Rightarrow> operator \<Rightarrow> static \<Rightarrow> static \<Rightarrow> expr_error + static" where
  "float_op env op lhs rhs = (let ops = float env; l = static_Float ops lhs; r = static_Float ops rhs in case op of
       OpAdd \<Rightarrow> Inr (StaticFloat (f_add ops l r))
     | OpSub \<Rightarrow> Inr (StaticFloat (f_sub ops l r))
     | OpDiv \<Rightarrow> Inr (StaticFloat (f_div ops l r))
     | OpMod \<Rightarrow> Inr (StaticFloat (f_mod ops l r))
     | OpMult \<Rightarrow> Inr (StaticFloat (f_mul ops l r))
     | OpGreater \<Rightarrow> Inr (StaticBool (f64_less r l))
     | OpGreaterEqual \<Rightarrow> Inr (StaticBool (f64_le r l))
     | OpLess \<Rightarrow> Inr (StaticBool (f64_less l r))
     | OpLessEqual \<Rightarrow> Inr (StaticBool (f64_le l r))
     | OpPower \<Rightarrow> Inr (StaticFloat (f_pow ops l r))
     | OpEqual \<Rightarrow> Inr (StaticBool (static_Equals ops lhs rhs))
     | OpNotEqual \<Rightarrow> Inr (StaticBool (static_NotEquals ops lhs rhs))
     | _ \<Rightarrow> Inl (ErrUnexpectedOperator op))"

text \<open>The cases for two values of one type, and what remains.\<close>

definition typed_op :: "tql_env \<Rightarrow> operator \<Rightarrow> static \<Rightarrow> static \<Rightarrow> (expr_error + static) option" where
  "typed_op env op lhs rhs = (case (lhs, rhs) of
       (StaticString l, StaticString r) \<Rightarrow> string_op env op l r
     | (StaticInt l, StaticInt r) \<Rightarrow> int_op env op l r
     | (StaticBool l, StaticBool r) \<Rightarrow> bool_op op l r
     | _ \<Rightarrow> None)"

definition binOpExecuteScalar :: "tql_env \<Rightarrow> operator \<Rightarrow> static \<Rightarrow> static \<Rightarrow> expr_error + static" where
  "binOpExecuteScalar env op lhs rhs =
     (if \<not> isMatchingOperand (static_Type lhs) (static_Type rhs)
         \<or> \<not> binaryTypesValid op (static_Type lhs) (static_Type rhs)
      then Inr StaticFalse
      else case typed_op env op lhs rhs of Some res \<Rightarrow> res | None \<Rightarrow> float_op env op lhs rhs)"

subsection \<open>Arrays\<close>

text \<open>The loop over the elements. \<open>flip\<close>: the array came from the left operand of a regular
  expression, so each element goes back to the left.\<close>

fun array_loop :: "tql_env \<Rightarrow> operator \<Rightarrow> bool \<Rightarrow> bool \<Rightarrow> static \<Rightarrow> static list \<Rightarrow> nat \<Rightarrow> nat \<Rightarrow> expr_error + static" where
  "array_loop env elemOp matchAll flip scalar [] elemCount matchCount =
     Inr (StaticBool (if matchAll then matchCount = elemCount else matchCount > 0))"
| "array_loop env elemOp matchAll flip scalar (e # es) elemCount matchCount =
     (case (if flip then binOpExecuteScalar env elemOp e scalar else binOpExecuteScalar env elemOp scalar e) of
        Inl err \<Rightarrow> Inl err
      | Inr res \<Rightarrow>
         (if static_Bool res = Some True then
            (if matchAll then array_loop env elemOp matchAll flip scalar es (elemCount + 1) (matchCount + 1)
             else Inr (StaticBool True))
          else array_loop env elemOp matchAll flip scalar es (elemCount + 1) matchCount))"

definition array_op :: "tql_env \<Rightarrow> operator \<Rightarrow> static \<Rightarrow> static \<Rightarrow> expr_error + static" where
  "array_op env op lhs rhs =
     (if \<not> isBoolean op then Inl ErrUnsupported
      else if isArray (static_Type lhs) \<and> isArray (static_Type rhs) then Inl ErrTwoArrays
      else if isArrayOp op then
        (if \<not> isArray (static_Type rhs) then Inl ErrArrayOnLeft
         else array_loop env (toElementOp op) (toElementOp op \<in> {OpNotEqual, OpNotRegex}) False lhs (Elements rhs) 0 0)
      else if isArray (static_Type lhs) then
        (let elemOp = getFlippedOp op in
         array_loop env elemOp (elemOp \<in> {OpNotEqual, OpNotRegex}) (elemOp \<in> {OpRegex, OpNotRegex}) rhs (Elements lhs) 0 0)
      else array_loop env op (op \<in> {OpNotEqual, OpNotRegex}) False lhs (Elements rhs) 0 0)"

definition binary_op :: "tql_env \<Rightarrow> operator \<Rightarrow> static \<Rightarrow> static \<Rightarrow> expr_error + static" where
  "binary_op env op lhs rhs =
     (if \<not> isMatchingOperand (static_Type lhs) (static_Type rhs)
         \<or> \<not> binaryTypesValid op (static_Type lhs) (static_Type rhs)
      then Inr StaticFalse
      else if isMatchingArrayElement (static_Type lhs) (static_Type rhs)
      then array_op env op lhs rhs
      else case typed_op env op lhs rhs of Some res \<Rightarrow> res | None \<Rightarrow> float_op env op lhs rhs)"

definition unary_op :: "tql_env \<Rightarrow> operator \<Rightarrow> static \<Rightarrow> expr_error + static" where
  "unary_op env op s =
     (if op = OpNot then (case static_Bool s of None \<Rightarrow> Inl ErrExpectedBoolean | Some b \<Rightarrow> Inr (StaticBool (\<not> b)))
      else if op = OpSub then
        (case s of StaticInt n \<Rightarrow> Inr (StaticInt (- n))
         | StaticFloat f \<Rightarrow> Inr (StaticFloat (f_mul (float env) 0xBFF0000000000000 f))
         | StaticDuration d \<Rightarrow> Inr (StaticDuration (- d))
         | _ \<Rightarrow> Inl ErrExpectedNumeric)
      else if op = OpExists then Inr (StaticBool (s \<noteq> StaticNil))
      else if op = OpNotExists then Inr (StaticBool (static_Equals (float env) s (StaticString ''nil'')))
      else Inl (ErrUnaryOperator op))"

subsection \<open>Evaluation\<close>

definition attribute_value :: "span_attributes \<Rightarrow> attribute \<Rightarrow> static" where
  "attribute_value span a = (case span a of Some s \<Rightarrow> s | None \<Rightarrow> StaticNil)"

fun eval :: "tql_env \<Rightarrow> span_attributes \<Rightarrow> field_expression \<Rightarrow> expr_error + static" where
  "eval env span (BinaryOperation op l r) =
     (case eval env span l of Inl e \<Rightarrow> Inl e
      | Inr lhs \<Rightarrow> (case eval env span r of Inl e \<Rightarrow> Inl e
         | Inr rhs \<Rightarrow> binary_op env op lhs rhs))"
| "eval env span (UnaryOperation op e) =
     (case eval env span e of Inl err \<Rightarrow> Inl err | Inr s \<Rightarrow> unary_op env op s)"
| "eval env span (Attribute a) = Inr (attribute_value span a)"
| "eval env span (Static s) = Inr s"

text \<open>What a filter asks of the result: it is a boolean and true.\<close>

definition matches :: "tql_env \<Rightarrow> span_attributes \<Rightarrow> field_expression \<Rightarrow> bool" where
  "matches env span e \<longleftrightarrow> eval env span e = Inr (StaticBool True)"

subsection \<open>Validation (ast_validate.go)\<close>

datatype validate_error = ErrIllegalOperation | ErrTypeMismatch | ErrIllegalTypes | ErrRegexOperand
  | ErrInvalidRegex | ErrIntrinsicNil | ErrServiceNameNil | ErrUnsupportedFeature | ErrNotBooleanFilter

definition regex_operand_error :: "(string \<Rightarrow> bool) \<Rightarrow> static_type \<Rightarrow> field_expression \<Rightarrow> validate_error option" where
  "regex_operand_error compiles rhsT rhs = (case rhs of
       Static s \<Rightarrow>
         (if rhsT = TypeString then
            (case s of StaticString p \<Rightarrow> if compiles p then None else Some ErrInvalidRegex | _ \<Rightarrow> None)
          else if rhsT = TypeStringArray then
            (case s of StaticStringArray ps \<Rightarrow> if list_all compiles ps then None else Some ErrInvalidRegex | _ \<Rightarrow> None)
          else Some ErrRegexOperand)
     | _ \<Rightarrow> Some ErrRegexOperand)"

definition spanset_relations :: "operator set" where
  "spanset_relations = {OpSpansetChild, OpSpansetParent, OpSpansetDescendant, OpSpansetAncestor, OpSpansetSibling,
     OpSpansetNotChild, OpSpansetNotParent, OpSpansetNotSibling, OpSpansetNotAncestor, OpSpansetNotDescendant,
     OpSpansetUnionChild, OpSpansetUnionParent, OpSpansetUnionSibling, OpSpansetUnionAncestor,
     OpSpansetUnionDescendant}"

definition validate_binary :: "(string \<Rightarrow> bool) \<Rightarrow> operator \<Rightarrow> field_expression \<Rightarrow> field_expression \<Rightarrow> validate_error option" where
  "validate_binary compiles op l r = (let lhsT = impliedType l; rhsT = impliedType r in
     if op = OpNotExists \<or> op = OpExists then Some ErrIllegalOperation
     else if \<not> isMatchingOperand lhsT rhsT then Some ErrTypeMismatch
     else if \<not> binaryTypesValid op lhsT rhsT then Some ErrIllegalTypes
     else if (op = OpRegex \<or> op = OpNotRegex) \<and> regex_operand_error compiles rhsT r \<noteq> None
     then regex_operand_error compiles rhsT r
     else if op \<in> spanset_relations then Some ErrUnsupportedFeature
     else None)"

definition validate_unary :: "operator \<Rightarrow> field_expression \<Rightarrow> validate_error option" where
  "validate_unary op e = (let t = impliedType e;
       nilErr = (case e of
           Attribute a \<Rightarrow>
             (if op = OpNotExists then
                (if Intrinsic a \<noteq> IntrinsicNone then Some ErrIntrinsicNil
                 else if a = NewScopedAttribute AttributeScopeResource False ''service.name'' then Some ErrServiceNameNil
                 else None)
              else None)
         | _ \<Rightarrow> None)
     in if nilErr \<noteq> None then nilErr
        else if t = TypeAttribute then None
        else if \<not> unaryTypesValid op t then Some ErrIllegalOperation
        else None)"

fun validate :: "(string \<Rightarrow> bool) \<Rightarrow> field_expression \<Rightarrow> validate_error option" where
  "validate compiles (BinaryOperation op l r) =
     (case validate compiles l of Some e \<Rightarrow> Some e
      | None \<Rightarrow> (case validate compiles r of Some e \<Rightarrow> Some e | None \<Rightarrow> validate_binary compiles op l r))"
| "validate compiles (UnaryOperation op e) =
     (case validate compiles e of Some err \<Rightarrow> Some err | None \<Rightarrow> validate_unary op e)"
| "validate compiles (Attribute a) =
     (if Parent a then Some ErrUnsupportedFeature
      else if Intrinsic a = IntrinsicParent then Some ErrUnsupportedFeature else None)"
| "validate compiles (Static s) = None"

definition validate_filter :: "(string \<Rightarrow> bool) \<Rightarrow> field_expression \<Rightarrow> validate_error option" where
  "validate_filter compiles e = (case validate compiles e of
       Some err \<Rightarrow> Some err
     | None \<Rightarrow> (if impliedType e \<noteq> TypeAttribute \<and> impliedType e \<noteq> TypeBoolean then Some ErrNotBooleanFilter else None))"

subsection \<open>How the parser builds nodes\<close>

definition normalizeTraceIDOperand :: "static \<Rightarrow> static" where
  "normalizeTraceIDOperand s = (case s of StaticString t \<Rightarrow> StaticString (dropWhile (\<lambda>c. c = CHR ''0'') t) | _ \<Rightarrow> s)"

definition trace_id_operand :: "field_expression \<Rightarrow> field_expression \<Rightarrow> field_expression" where
  "trace_id_operand e other = (case (other, e) of
       (Attribute a, Static s) \<Rightarrow> if Intrinsic a = IntrinsicTraceID then Static (normalizeTraceIDOperand s) else e
     | _ \<Rightarrow> e)"

text \<open>A node that does not mention the span is replaced by its value when it is valid and evaluates.\<close>

definition fold_constant :: "tql_env \<Rightarrow> (string \<Rightarrow> bool) \<Rightarrow> field_expression \<Rightarrow> field_expression" where
  "fold_constant env compiles e =
     (if \<not> referencesSpan e \<and> validate compiles e = None then
        (case eval env Map.empty e of Inr s \<Rightarrow> Static s | Inl _ \<Rightarrow> e)
      else e)"

definition newBinaryOperation ::
  "tql_env \<Rightarrow> (string \<Rightarrow> bool) \<Rightarrow> operator \<Rightarrow> field_expression \<Rightarrow> field_expression \<Rightarrow> field_expression" where
  "newBinaryOperation env compiles op l r =
     fold_constant env compiles (BinaryOperation op (trace_id_operand l r) (trace_id_operand r l))"

definition newUnaryOperation :: "tql_env \<Rightarrow> (string \<Rightarrow> bool) \<Rightarrow> operator \<Rightarrow> field_expression \<Rightarrow> field_expression" where
  "newUnaryOperation env compiles op e = fold_constant env compiles (UnaryOperation op e)"

text \<open>Without a span to look at the value is the same on every span.\<close>

lemma eval_constant: "\<not> referencesSpan e \<Longrightarrow> eval env span e = eval env span' e"
  by (induction e) (auto split: sum.splits)

lemma eval_fold_constant: "eval env span (fold_constant env compiles e) = eval env span e"
  using eval_constant [of e env Map.empty span] by (auto simp: fold_constant_def split: sum.splits)

lemma eval_newUnaryOperation: "eval env span (newUnaryOperation env compiles op e) = eval env span (UnaryOperation op e)"
  by (simp add: newUnaryOperation_def eval_fold_constant)

subsection \<open>The operators on values\<close>

lemma binOpExecuteScalar_Equal:
  "binOpExecuteScalar env OpEqual l r = Inr (StaticBool (isMatchingOperand (static_Type l) (static_Type r)
     \<and> binaryTypesValid OpEqual (static_Type l) (static_Type r) \<and> static_Equals (float env) l r))"
  by (auto simp: binOpExecuteScalar_def typed_op_def string_op_def int_op_def bool_op_def float_op_def Let_def
      StaticFalse_def split: static.splits)

lemma binOpExecuteScalar_NotEqual:
  "binOpExecuteScalar env OpNotEqual l r = Inr (StaticBool (isMatchingOperand (static_Type l) (static_Type r)
     \<and> binaryTypesValid OpNotEqual (static_Type l) (static_Type r) \<and> static_NotEquals (float env) l r))"
  by (auto simp: binOpExecuteScalar_def typed_op_def string_op_def int_op_def bool_op_def float_op_def Let_def
      StaticFalse_def split: static.splits)

lemma binary_op_scalar:
  "\<not> isMatchingArrayElement (static_Type l) (static_Type r) \<Longrightarrow> binary_op env op l r = binOpExecuteScalar env op l r"
  by (simp add: binary_op_def binOpExecuteScalar_def)

lemma static_Type_not_Attribute [simp]: "static_Type s \<noteq> TypeAttribute" "static_Type s \<noteq> TypeSpanset"
  by (cases s; simp)+

text \<open>What a scalar operator does to the elements of an array: some element, or all of them.\<close>

lemma array_loop_any:
  assumes "\<And>e. e \<in> set es \<Longrightarrow> (if flip then binOpExecuteScalar env op e x else binOpExecuteScalar env op x e)
      = Inr (StaticBool (P e))"
  shows "array_loop env op False flip x es n m = Inr (StaticBool (m > 0 \<or> (\<exists>e\<in>set es. P e)))"
  using assms by (induction es arbitrary: n) (auto simp: static_Bool_def)

lemma array_loop_all:
  assumes "\<And>e. e \<in> set es \<Longrightarrow> (if flip then binOpExecuteScalar env op e x else binOpExecuteScalar env op x e)
      = Inr (StaticBool (P e))" and "m \<le> n"
  shows "array_loop env op True flip x es n m = Inr (StaticBool (m = n \<and> (\<forall>e\<in>set es. P e)))"
  using assms by (induction es arbitrary: n m) (auto simp: static_Bool_def)

subsection \<open>Boolean results\<close>

lemma array_loop_bool: "array_loop env op a f x es n m = Inr v \<Longrightarrow> \<exists>b. v = StaticBool b"
  by (induction es arbitrary: n m) (auto split: if_splits sum.splits)

lemma typed_op_bool: "isBoolean op \<Longrightarrow> typed_op env op l r = Some (Inr v) \<Longrightarrow> \<exists>b. v = StaticBool b"
  by (auto simp: typed_op_def isBoolean_def string_op_def int_op_def bool_op_def split: static.splits option.splits)

lemma float_op_bool: "isBoolean op \<Longrightarrow> float_op env op l r = Inr v \<Longrightarrow> \<exists>b. v = StaticBool b"
  by (auto simp: float_op_def isBoolean_def Let_def)

lemma binary_op_bool:
  assumes "isBoolean op" and "binary_op env op l r = Inr v"
  shows "\<exists>b. v = StaticBool b"
  using assms array_loop_bool typed_op_bool [OF assms(1)] float_op_bool [OF assms(1)]
  by (auto simp: binary_op_def StaticFalse_def array_op_def Let_def split: if_splits option.splits)

lemma bool_connectives:
  "binary_op env OpOr (StaticBool p) (StaticBool q) = Inr (StaticBool (p \<or> q))"
  "binary_op env OpAnd (StaticBool p) (StaticBool q) = Inr (StaticBool (p \<and> q))"
  by (simp_all add: binary_op_def typed_op_def bool_op_def isMatchingOperand.simps isMatchingArrayElement.simps
      element_type_def binaryTypesValid_def binaryTypeValid_def)

text \<open>A node whose value, if it has one, is a boolean.\<close>

fun boolean_node :: "field_expression \<Rightarrow> bool" where
  "boolean_node (BinaryOperation op l r) \<longleftrightarrow> isBoolean op"
| "boolean_node (UnaryOperation op e) \<longleftrightarrow> op = OpNot \<or> op = OpExists \<or> op = OpNotExists"
| "boolean_node (Attribute a) \<longleftrightarrow> False"
| "boolean_node (Static s) \<longleftrightarrow> (\<exists>b. s = StaticBool b)"

lemma eval_boolean_node: "boolean_node e \<Longrightarrow> eval env span e = Inr v \<Longrightarrow> \<exists>b. v = StaticBool b"
  by (cases e) (auto simp: unary_op_def split: sum.splits if_splits option.splits dest: binary_op_bool)

lemma matches_And:
  assumes "boolean_node l" and "boolean_node r"
  shows "matches env span (BinaryOperation OpAnd l r) \<longleftrightarrow> matches env span l \<and> matches env span r"
  using eval_boolean_node [OF assms(1), of env span] eval_boolean_node [OF assms(2), of env span]
  by (auto simp: matches_def bool_connectives split: sum.splits)

lemma matches_Or:
  assumes "boolean_node l" and "boolean_node r" and "matches env span (BinaryOperation OpOr l r)"
  shows "matches env span l \<or> matches env span r"
  using assms(3) eval_boolean_node [OF assms(1), of env span] eval_boolean_node [OF assms(2), of env span]
  by (auto simp: matches_def bool_connectives split: sum.splits)

text \<open>A comparison holds of no missing attribute.\<close>

definition comparison :: "operator \<Rightarrow> bool" where
  "comparison op \<longleftrightarrow> isBoolean op \<and> op \<notin> {OpAnd, OpOr, OpNot, OpExists, OpNotExists}"

lemma scalar_nil:
  assumes "comparison op"
  shows "binOpExecuteScalar env op StaticNil s \<noteq> Inr (StaticBool True)"
    and "binOpExecuteScalar env op s StaticNil \<noteq> Inr (StaticBool True)"
  using assms
  by (auto simp: binOpExecuteScalar_def StaticFalse_def comparison_def isBoolean_def binaryTypesValid_def
      binaryTypeValid_def typed_op_def float_op_def Let_def static_NotEquals_def split: static.splits if_splits)

lemma array_loop_never:
  assumes "\<And>e. (if flip then binOpExecuteScalar env op e x else binOpExecuteScalar env op x e) \<noteq> Inr (StaticBool True)"
  shows "array_loop env op all flip x es n m = Inr (StaticBool b) \<Longrightarrow> m = 0 \<Longrightarrow> b \<Longrightarrow> all \<and> n = 0 \<and> es = []"
proof (induction es arbitrary: n)
  case (Cons e es)
  have "static_Bool v \<noteq> Some True"
    if "(if flip then binOpExecuteScalar env op e x else binOpExecuteScalar env op x e) = Inr v" for v
    using assms [of e] that by (auto simp: static_Bool_def split: static.splits)
  then show ?case using Cons by (auto split: sum.splits if_splits)
qed (auto split: if_splits)

lemma comparison_flip: "comparison op \<Longrightarrow> comparison (getFlippedOp op)"
  by (cases op) (simp_all add: comparison_def isBoolean_def getFlippedOp_def)

lemma comparison_nil:
  assumes op: "comparison op" and y: "Elements y \<noteq> []"
  shows "binary_op env op StaticNil y \<noteq> Inr (StaticBool True)" and "binary_op env op y StaticNil \<noteq> Inr (StaticBool True)"
proof -
  have flip: "comparison (getFlippedOp op)" using op by (rule comparison_flip)
  have loop: "array_loop env op' a f StaticNil (Elements y) 0 0 \<noteq> Inr (StaticBool True)" if "comparison op'" for op' a f
  proof
    assume l: "array_loop env op' a f StaticNil (Elements y) 0 0 = Inr (StaticBool True)"
    have "(if f then binOpExecuteScalar env op' e StaticNil else binOpExecuteScalar env op' StaticNil e)
        \<noteq> Inr (StaticBool True)" for e
      using scalar_nil [OF that] by simp
    then show False using array_loop_never [OF _ l] y by blast
  qed
  have no: "\<not> binaryTypesValid op t u" if "isArrayOp op" "t = TypeNil \<or> u = TypeNil" for t u
    using that by (auto simp: binaryTypesValid_def binaryTypeValid_def isArrayOp_def)
  have arr: "array_op env op StaticNil y \<noteq> Inr (StaticBool True)"
      "isMatchingArrayElement (static_Type y) TypeNil \<Longrightarrow> array_op env op y StaticNil \<noteq> Inr (StaticBool True)"
    if "\<not> isArrayOp op"
  proof -
    have "isArray t" if "isMatchingArrayElement t TypeNil" for t
      using that by (cases t) (simp_all add: isMatchingArrayElement.simps element_type_def isArray_def)
    then show "array_op env op StaticNil y \<noteq> Inr (StaticBool True)"
      "isMatchingArrayElement (static_Type y) TypeNil \<Longrightarrow> array_op env op y StaticNil \<noteq> Inr (StaticBool True)"
      using that loop [OF op] loop [OF flip] by (simp_all add: array_op_def Let_def isArray_def)
  qed
  have sc: "(case typed_op env op l r of Some res \<Rightarrow> res | None \<Rightarrow> float_op env op l r) \<noteq> Inr (StaticBool True)"
    if "l = StaticNil \<or> r = StaticNil" "isMatchingOperand (static_Type l) (static_Type r)"
      "binaryTypesValid op (static_Type l) (static_Type r)" for l r
    using scalar_nil [OF op, of env r] scalar_nil [OF op, of env l] that by (auto simp: binOpExecuteScalar_def)
  show "binary_op env op StaticNil y \<noteq> Inr (StaticBool True)" "binary_op env op y StaticNil \<noteq> Inr (StaticBool True)"
    using no arr sc [of StaticNil y] sc [of y StaticNil] by (auto simp: binary_op_def StaticFalse_def)
qed

end
