(* ===== verification/TqlRewrite.thy ===== *)
theory TqlRewrite
  imports TqlExpr
begin

section \<open>The rewriting of TraceQL expressions (pkg/traceql/ast_rewriter.go)\<close>

text \<open>
  Chains of comparisons of one attribute become one array operation: \<open>.a = x || .a = y\<close> becomes
  \<open>.a IN [x, y]\<close>, and so on for the three other operators. The rewriter walks the expression bottom up
  and rebuilds each binary node with the parser's constructor. The walk over pipelines and the maps of
  the root expression is plumbing and not modelled.

  The main result is that the rewriting keeps the value of a parsed, valid expression on every span
  whose attributes are not arrays, and that it does not on a span that has an array attribute.
\<close>

subsection \<open>Definitions\<close>

definition getOperandsFromBinaryOperation :: "field_expression \<Rightarrow> operator set \<Rightarrow> (attribute \<times> static) option" where
  "getOperandsFromBinaryOperation e operators = (case e of
       BinaryOperation op l r \<Rightarrow>
         (if op \<notin> operators then None
          else case (l, r) of
            (Attribute a, Static v) \<Rightarrow> Some (a, v)
          | (Static v, Attribute a) \<Rightarrow> Some (a, v)
          | _ \<Rightarrow> None)
     | _ \<Rightarrow> None)"

definition rewriteBinaryOperationsToArrayEquivalent ::
  "tql_env \<Rightarrow> (string \<Rightarrow> bool) \<Rightarrow> field_expression \<Rightarrow> operator \<Rightarrow> operator \<Rightarrow> operator \<Rightarrow> static_type set
    \<Rightarrow> field_expression \<times> nat" where
  "rewriteBinaryOperationsToArrayEquivalent env compiles fe opOuter opScalar opArray restrictTypes = (case fe of
       BinaryOperation op l r \<Rightarrow>
         (if op \<noteq> opOuter then (fe, 0)
          else case (getOperandsFromBinaryOperation l {opScalar, opArray}, getOperandsFromBinaryOperation r {opScalar, opArray}) of
            (Some (attrLHS, valLHS), Some (attrRHS, valRHS)) \<Rightarrow>
              (if attrLHS \<noteq> attrRHS then (fe, 0)
               else if restrictTypes \<noteq> {} \<and> (static_Type valLHS \<notin> restrictTypes \<or> static_Type valRHS \<notin> restrictTypes)
               then (fe, 0)
               else case static_append valLHS valRHS of
                   None \<Rightarrow> (fe, 0)
                 | Some array \<Rightarrow> (newBinaryOperation env compiles opArray (Attribute attrLHS) (Static array), 1))
          | _ \<Rightarrow> (fe, 0))
     | _ \<Rightarrow> (fe, 0))"

definition rewriteOrToIn :: "tql_env \<Rightarrow> (string \<Rightarrow> bool) \<Rightarrow> field_expression \<Rightarrow> field_expression \<times> nat" where
  "rewriteOrToIn env compiles fe = rewriteBinaryOperationsToArrayEquivalent env compiles fe OpOr OpEqual OpIn {}"

definition rewriteAndToNotIn :: "tql_env \<Rightarrow> (string \<Rightarrow> bool) \<Rightarrow> field_expression \<Rightarrow> field_expression \<times> nat" where
  "rewriteAndToNotIn env compiles fe = rewriteBinaryOperationsToArrayEquivalent env compiles fe OpAnd OpNotEqual OpNotIn {}"

definition rewriteOrToMatchAny :: "tql_env \<Rightarrow> (string \<Rightarrow> bool) \<Rightarrow> field_expression \<Rightarrow> field_expression \<times> nat" where
  "rewriteOrToMatchAny env compiles fe =
     rewriteBinaryOperationsToArrayEquivalent env compiles fe OpOr OpRegex OpRegexMatchAny {TypeString, TypeStringArray}"

definition rewriteAndToMatchNone :: "tql_env \<Rightarrow> (string \<Rightarrow> bool) \<Rightarrow> field_expression \<Rightarrow> field_expression \<times> nat" where
  "rewriteAndToMatchNone env compiles fe =
     rewriteBinaryOperationsToArrayEquivalent env compiles fe OpAnd OpNotRegex OpRegexMatchNone {TypeString, TypeStringArray}"

definition rewrite_node :: "tql_env \<Rightarrow> (string \<Rightarrow> bool) \<Rightarrow> field_expression \<Rightarrow> field_expression \<times> nat" where
  "rewrite_node env compiles fe = fold (\<lambda>fn (e, n). let (e', k) = fn env compiles e in (e', n + k))
     [rewriteOrToIn, rewriteAndToNotIn, rewriteOrToMatchAny, rewriteAndToMatchNone] (fe, 0)"

text \<open>The code descends into \<open>*UnaryOperation\<close>, but the parser builds \<open>UnaryOperation\<close> values, which do
  not match that case: a unary node is left as it is.\<close>

fun rewriteFieldExpression :: "tql_env \<Rightarrow> (string \<Rightarrow> bool) \<Rightarrow> field_expression \<Rightarrow> field_expression \<times> nat" where
  "rewriteFieldExpression env compiles (BinaryOperation op l r) =
     (let (lhs, n) = rewriteFieldExpression env compiles l;
          (rhs, m) = rewriteFieldExpression env compiles r;
          (e, k) = rewrite_node env compiles (newBinaryOperation env compiles op lhs rhs)
      in (e, n + m + k))"
| "rewriteFieldExpression env compiles e = rewrite_node env compiles e"

subsection \<open>What the parser produces\<close>

text \<open>The parsed, valid expressions: no array operators and no array literals (neither has a syntax), a
  literal on the right of a regular expression operator whose pattern compiles, and every node as its
  constructor returns it.\<close>

definition compiled_literal :: "tql_env \<Rightarrow> field_expression \<Rightarrow> bool" where
  "compiled_literal env e \<longleftrightarrow> (case e of
       Static s \<Rightarrow> (case s of StaticString p \<Rightarrow> regexp env p \<noteq> None | _ \<Rightarrow> True)
     | _ \<Rightarrow> False)"

lemma compiled_literal_iff [simp]:
  "compiled_literal env e \<longleftrightarrow> (\<exists>s. e = Static s \<and> (\<forall>p. s = StaticString p \<longrightarrow> regexp env p \<noteq> None))"
  by (auto simp: compiled_literal_def split: field_expression.splits static.splits)

fun parsed :: "tql_env \<Rightarrow> (string \<Rightarrow> bool) \<Rightarrow> field_expression \<Rightarrow> bool" where
  "parsed env compiles (BinaryOperation op l r) \<longleftrightarrow>
     parsed env compiles l \<and> parsed env compiles r \<and> \<not> isArrayOp op
     \<and> newBinaryOperation env compiles op l r = BinaryOperation op l r
     \<and> (op \<in> {OpRegex, OpNotRegex} \<longrightarrow> compiled_literal env r)"
| "parsed env compiles (UnaryOperation op e) \<longleftrightarrow> True"
| "parsed env compiles (Attribute a) \<longleftrightarrow> True"
| "parsed env compiles (Static s) \<longleftrightarrow> \<not> isArray (static_Type s)"

definition scalar_span :: "span_attributes \<Rightarrow> bool" where
  "scalar_span span \<longleftrightarrow> (\<forall>a. \<not> isArray (static_Type (attribute_value span a)))"

text \<open>The four rewritings, and the pattern of a comparison that each collects.\<close>

definition rewriting :: "operator \<Rightarrow> operator \<Rightarrow> operator \<Rightarrow> static_type set \<Rightarrow> bool" where
  "rewriting opOuter opScalar opArray types \<longleftrightarrow> (opOuter, opScalar, opArray, types) \<in>
     {(OpOr, OpEqual, OpIn, {}), (OpAnd, OpNotEqual, OpNotIn, {}),
      (OpOr, OpRegex, OpRegexMatchAny, {TypeString, TypeStringArray}),
      (OpAnd, OpNotRegex, OpRegexMatchNone, {TypeString, TypeStringArray})}"

text \<open>The nodes that the rewriting leaves: as parsed, or an array operation of an attribute with an array
  literal that is not empty.\<close>

definition array_literal :: "tql_env \<Rightarrow> operator \<Rightarrow> static \<Rightarrow> bool" where
  "array_literal env op s \<longleftrightarrow> isArray (static_Type s) \<and> Elements s \<noteq> []
     \<and> (op \<in> {OpRegexMatchAny, OpRegexMatchNone} \<longrightarrow>
          (\<forall>e\<in>set (Elements s). \<exists>p. e = StaticString p \<and> regexp env p \<noteq> None))"

fun rewritten :: "tql_env \<Rightarrow> field_expression \<Rightarrow> bool" where
  "rewritten env (BinaryOperation op l r) \<longleftrightarrow>
     (if isArrayOp op then (\<exists>a s. l = Attribute a \<and> r = Static s \<and> array_literal env op s)
      else rewritten env l \<and> rewritten env r
        \<and> (op \<in> {OpRegex, OpNotRegex} \<longrightarrow> compiled_literal env r))"
| "rewritten env (UnaryOperation op e) \<longleftrightarrow> True"
| "rewritten env (Attribute a) \<longleftrightarrow> True"
| "rewritten env (Static s) \<longleftrightarrow> \<not> isArray (static_Type s)"

subsection \<open>One comparison, read as a set of comparisons with single values\<close>

definition element_holds :: "tql_env \<Rightarrow> operator \<Rightarrow> static \<Rightarrow> static \<Rightarrow> bool" where
  "element_holds env op x e \<longleftrightarrow> binOpExecuteScalar env op x e = Inr (StaticBool True)"

definition quantified :: "operator \<Rightarrow> (static \<Rightarrow> bool) \<Rightarrow> static list \<Rightarrow> bool" where
  "quantified op P es \<longleftrightarrow> (if op \<in> {OpNotEqual, OpNotRegex} then \<forall>e\<in>set es. P e else \<exists>e\<in>set es. P e)"

lemma quantified_append:
  "quantified op P (xs @ ys) \<longleftrightarrow> (if op \<in> {OpNotEqual, OpNotRegex} then quantified op P xs \<and> quantified op P ys
     else quantified op P xs \<or> quantified op P ys)"
  by (auto simp: quantified_def)

lemma static_Type_String: "static_Type s = TypeString \<longleftrightarrow> (\<exists>p. s = StaticString p)"
  by (cases s) auto

lemma regex_types:
  "binaryTypeValid op t \<Longrightarrow> op \<in> {OpRegex, OpNotRegex, OpRegexMatchAny, OpRegexMatchNone} \<Longrightarrow>
    t \<in> {TypeAttribute, TypeString, TypeStringArray}"
  by (auto simp: binaryTypeValid_def split: if_splits)

lemma string_types:
  "isMatchingOperand TypeString TypeString" "binaryTypesValid OpRegex TypeString TypeString"
  "binaryTypesValid OpNotRegex TypeString TypeString"
  by (simp_all add: isMatchingOperand.simps binaryTypesValid_def binaryTypeValid_def)

lemma regex_comparison:
  assumes "op \<in> {OpRegex, OpNotRegex}" and "\<not> isArray (static_Type x)" and "\<not> isArray (static_Type e)"
  shows "binOpExecuteScalar env op x e = (case (x, e) of
       (StaticString v, StaticString p) \<Rightarrow> (case regexp env p of
           None \<Rightarrow> Inl ErrRegex | Some m \<Rightarrow> Inr (StaticBool (m v = (op = OpRegex))))
     | _ \<Rightarrow> Inr StaticFalse)"
proof (cases "\<exists>v p. x = StaticString v \<and> e = StaticString p")
  case True
  then show ?thesis using assms(1)
    by (auto simp: binOpExecuteScalar_def typed_op_def string_op_def string_types split: option.splits)
next
  case False
  have "\<not> binaryTypesValid op (static_Type x) (static_Type e)"
  proof
    assume "binaryTypesValid op (static_Type x) (static_Type e)"
    then have "static_Type x = TypeString" "static_Type e = TypeString"
      using regex_types [of op "static_Type x"] regex_types [of op "static_Type e"] assms
      by (auto simp: binaryTypesValid_def isArray_def)
    then show False using False by (auto simp: static_Type_String)
  qed
  then have "binOpExecuteScalar env op x e = Inr StaticFalse" by (simp add: binOpExecuteScalar_def)
  moreover have "(case (x, e) of (StaticString v, StaticString p) \<Rightarrow> (case regexp env p of
           None \<Rightarrow> Inl ErrRegex | Some m \<Rightarrow> Inr (StaticBool (m v = (op = OpRegex)))) | _ \<Rightarrow> Inr StaticFalse)
      = (Inr StaticFalse :: expr_error + static)"
    using False by (auto split: static.splits)
  ultimately show ?thesis by simp
qed

definition pattern_ok :: "tql_env \<Rightarrow> operator \<Rightarrow> static \<Rightarrow> bool" where
  "pattern_ok env op e \<longleftrightarrow> \<not> isArray (static_Type e)
     \<and> (op \<in> {OpRegex, OpNotRegex} \<longrightarrow> (\<forall>p. e = StaticString p \<longrightarrow> regexp env p \<noteq> None))"

text \<open>A comparison of a value with a literal has a boolean value.\<close>

lemma scalar_comparison:
  assumes op: "op \<in> {OpEqual, OpNotEqual, OpRegex, OpNotRegex}" and e: "pattern_ok env op e"
    and x: "\<not> isArray (static_Type x)"
  shows "binOpExecuteScalar env op x e = Inr (StaticBool (element_holds env op x e))"
proof -
  have "\<exists>b. binOpExecuteScalar env op x e = Inr (StaticBool b)"
  proof (cases "op \<in> {OpRegex, OpNotRegex}")
    case True
    then show ?thesis
      using e x regex_comparison [of op x e env]
      by (auto simp: pattern_ok_def StaticFalse_def split: static.splits option.splits)
  next
    case False
    then show ?thesis using op by (auto simp: binOpExecuteScalar_Equal binOpExecuteScalar_NotEqual)
  qed
  then show ?thesis by (auto simp: element_holds_def)
qed

lemma element_holds_sym:
  "op \<in> {OpEqual, OpNotEqual} \<Longrightarrow> binOpExecuteScalar env op x e = binOpExecuteScalar env op e x"
  by (auto simp: binOpExecuteScalar_Equal binOpExecuteScalar_NotEqual isMatchingOperand_sym binaryTypesValid_def
      static_NotEquals_def static_Equals_sym)

text \<open>A comparison with a single literal.\<close>

lemma eval_scalar_node:
  assumes "op \<in> {OpEqual, OpNotEqual, OpRegex, OpNotRegex}" and "pattern_ok env op s"
    and "\<not> isArray (static_Type x)"
  shows "binary_op env op x s = Inr (StaticBool (quantified op (element_holds env op x) (Elements s)))"
proof -
  have "\<not> isMatchingArrayElement (static_Type x) (static_Type s)"
    using assms by (cases "static_Type x"; cases "static_Type s")
      (auto simp: isMatchingArrayElement.simps element_type_def pattern_ok_def isArray_def)
  moreover have "Elements s = [s]"
    using assms(2) by (cases s) (auto simp: Elements_def pattern_ok_def isArray_def)
  ultimately show ?thesis
    using scalar_comparison [OF assms] by (simp add: binary_op_scalar quantified_def)
qed

subsection \<open>A comparison with an array literal\<close>

lemma element_type_iff: "isArray t \<longleftrightarrow> element_type t \<noteq> None"
  by (cases t) (simp_all add: isArray_def element_type_def)

lemma matching_lift:
  assumes "element_type ts = Some te" and "\<not> isArray tx" and "tx \<notin> {TypeNil, TypeAttribute}"
  shows "isMatchingOperand tx ts \<longleftrightarrow> isMatchingArrayElement tx ts" and "isMatchingArrayElement tx ts \<longleftrightarrow> isMatchingOperand te tx"
  using assms
  by (auto simp: isMatchingOperand.simps [of tx ts] isMatchingArrayElement.simps [of tx ts] element_type_iff isNumeric_def)
    (auto simp: element_type_def split: static_type.splits)

lemma valid_lift:
  assumes "binaryTypesValid (toElementOp opArray) tx te" and "isArrayOp opArray" and "element_type ts = Some te"
    and "isMatchingOperand tx te" and "\<not> isArray tx" and "tx \<noteq> TypeNil"
  shows "binaryTypesValid opArray tx ts"
proof -
  have "tx \<notin> {TypeStatus, TypeKind}"
    using assms(3,4) by (auto simp: isMatchingOperand.simps isMatchingArrayElement.simps isNumeric_def element_type_def
        split: static_type.splits)
  then show ?thesis
    using assms by (cases opArray; cases tx)
      (auto simp: isArrayOp_def toElementOp_def binaryTypesValid_def binaryTypeValid_def isArray_def element_type_def
        split: static_type.splits)
qed

lemma element_holds_types:
  "element_holds env op x e \<Longrightarrow> isMatchingOperand (static_Type x) (static_Type e) \<and> binaryTypesValid op (static_Type x) (static_Type e)"
  by (auto simp: element_holds_def binOpExecuteScalar_def StaticFalse_def split: if_splits)

lemma element_holds_nil:
  "op \<in> {OpEqual, OpNotEqual, OpRegex, OpNotRegex} \<Longrightarrow> \<not> isArray (static_Type e) \<Longrightarrow> \<not> element_holds env op StaticNil e"
  by (auto simp: element_holds_def binOpExecuteScalar_Equal binOpExecuteScalar_NotEqual static_NotEquals_def
      regex_comparison isArray_def StaticFalse_def)

lemma array_ops:
  "isArrayOp opArray \<Longrightarrow> toElementOp opArray \<in> {OpEqual, OpNotEqual, OpRegex, OpNotRegex}"
  "isArrayOp opArray \<Longrightarrow> isBoolean opArray"
  "isArrayOp opArray \<Longrightarrow> toElementOp opArray \<in> {OpRegex, OpNotRegex} \<longleftrightarrow> opArray \<in> {OpRegexMatchAny, OpRegexMatchNone}"
  by (auto simp: isArrayOp_def toElementOp_def isBoolean_def)

lemma array_literal_elements:
  assumes "array_literal env opArray s" and "isArrayOp opArray" and "e \<in> set (Elements s)"
  shows "pattern_ok env (toElementOp opArray) e" and "element_type (static_Type s) = Some (static_Type e)"
proof -
  show t: "element_type (static_Type s) = Some (static_Type e)"
    using assms element_types by (auto simp: array_literal_def)
  then have "\<not> isArray (static_Type e)"
    by (cases "static_Type s") (auto simp: element_type_def isArray_def)
  then show "pattern_ok env (toElementOp opArray) e"
    using assms array_ops(3) [of opArray] by (auto simp: array_literal_def pattern_ok_def)
qed

lemma eval_array_node:
  assumes op: "isArrayOp opArray" and s: "array_literal env opArray s" and x: "\<not> isArray (static_Type x)"
  shows "binary_op env opArray x s = Inr (StaticBool (quantified (toElementOp opArray)
    (element_holds env (toElementOp opArray) x) (Elements s)))"
proof -
  let ?op = "toElementOp opArray" and ?tx = "static_Type x" and ?ts = "static_Type s"
  have ne: "Elements s \<noteq> []" and ar: "isArray ?ts" using s by (auto simp: array_literal_def)
  have holds: "binOpExecuteScalar env ?op x e = Inr (StaticBool (element_holds env ?op x e))"
    if "e \<in> set (Elements s)" for e
    using scalar_comparison [OF array_ops(1) [OF op] array_literal_elements(1) [OF s op that] x] .
  have lift: "isMatchingOperand ?tx ?ts \<and> binaryTypesValid opArray ?tx ?ts \<and> x \<noteq> StaticNil"
    if "e \<in> set (Elements s)" and h: "element_holds env ?op x e" for e
  proof -
    have et: "element_type ?ts = Some (static_Type e)" and pe: "pattern_ok env ?op e"
      using array_literal_elements [OF s op that(1)] by auto
    have nil: "x \<noteq> StaticNil"
      using h element_holds_nil [OF array_ops(1) [OF op], of e env] pe by (auto simp: pattern_ok_def)
    then have "?tx \<noteq> TypeNil" by (cases x) auto
    then show ?thesis
      using element_holds_types [OF h] matching_lift [OF et x] valid_lift [OF _ op et _ x] nil
      by (auto simp: isMatchingOperand_sym)
  qed
  show ?thesis
  proof (cases "isMatchingOperand ?tx ?ts \<and> binaryTypesValid opArray ?tx ?ts")
    case True
    have "?tx \<noteq> TypeNil" using True op by (auto simp: binaryTypesValid_def binaryTypeValid_def isArrayOp_def)
    then have "isMatchingArrayElement ?tx ?ts"
      using True matching_lift(1) x ar by (auto simp: element_type_iff)
    then have "binary_op env opArray x s =
        array_loop env ?op (?op \<in> {OpNotEqual, OpNotRegex}) False x (Elements s) 0 0"
      using True x ar op array_ops(2) [OF op] by (simp add: binary_op_def array_op_def)
    then show ?thesis
      using array_loop_any [of "Elements s" False env ?op x "element_holds env ?op x" 0 0]
        array_loop_all [of "Elements s" False env ?op x "element_holds env ?op x" 0 0] holds
      by (auto simp: quantified_def)
  next
    case False
    then have "\<not> element_holds env ?op x e" if "e \<in> set (Elements s)" for e using lift that by blast
    then have "\<not> quantified ?op (element_holds env ?op x) (Elements s)"
      using ne by (cases "Elements s") (auto simp: quantified_def)
    then show ?thesis using False by (auto simp: binary_op_def StaticFalse_def)
  qed
qed

subsection \<open>One rewriting step\<close>

lemma rewriting_ops:
  assumes "rewriting opOuter opScalar opArray types"
  shows "toElementOp opArray = opScalar" "isArrayOp opArray" "\<not> isArrayOp opScalar" "\<not> isArrayOp opOuter"
    "opScalar \<in> {OpEqual, OpNotEqual, OpRegex, OpNotRegex}" "opOuter \<notin> {OpRegex, OpNotRegex}"
    "opScalar \<in> {OpRegex, OpNotRegex} \<longleftrightarrow> types = {TypeString, TypeStringArray}"
    "opArray \<in> {OpRegexMatchAny, OpRegexMatchNone} \<longleftrightarrow> types = {TypeString, TypeStringArray}"
    "opOuter = OpAnd \<longleftrightarrow> opScalar \<in> {OpNotEqual, OpNotRegex}" "opOuter = OpOr \<or> opOuter = OpAnd"
  using assms by (auto simp: rewriting_def toElementOp_def isArrayOp_def)

lemma operands_cases:
  assumes "getOperandsFromBinaryOperation n {opScalar, opArray} = Some (a, v)"
  obtains op where "n = BinaryOperation op (Attribute a) (Static v)" "op \<in> {opScalar, opArray}"
  | op where "n = BinaryOperation op (Static v) (Attribute a)" "op \<in> {opScalar, opArray}"
  using assms by (auto simp: getOperandsFromBinaryOperation_def split: field_expression.splits if_splits)

lemma leaf_literal:
  assumes r: "rewriting opOuter opScalar opArray types" and n: "rewritten env n"
    and g: "getOperandsFromBinaryOperation n {opScalar, opArray} = Some (a, v)"
  shows "array_literal env opArray v \<or> pattern_ok env opScalar v"
  using g
proof (cases rule: operands_cases)
  case (1 op)
  then show ?thesis using n rewriting_ops [OF r] by (auto simp: pattern_ok_def split: if_splits)
next
  case (2 op)
  then show ?thesis using n rewriting_ops [OF r] by (auto simp: pattern_ok_def split: if_splits)
qed

lemma eval_leaf:
  assumes r: "rewriting opOuter opScalar opArray types" and n: "rewritten env n" and sp: "scalar_span span"
    and g: "getOperandsFromBinaryOperation n {opScalar, opArray} = Some (a, v)"
  shows "eval env span n = Inr (StaticBool (quantified opScalar (element_holds env opScalar (attribute_value span a)) (Elements v)))"
  using g
proof (cases rule: operands_cases)
  case (1 op)
  have x: "\<not> isArray (static_Type (attribute_value span a))" using sp by (simp add: scalar_span_def)
  show ?thesis
  proof (cases "op = opArray")
    case True
    then have "array_literal env opArray v" using 1 n rewriting_ops [OF r] by auto
    then show ?thesis
      using eval_array_node [OF _ _ x, of opArray env v] rewriting_ops [OF r] 1 True by simp
  next
    case False
    then have "pattern_ok env opScalar v" using 1 n rewriting_ops [OF r] by (auto simp: pattern_ok_def)
    then show ?thesis using eval_scalar_node [OF rewriting_ops(5) [OF r] _ x, of env v] 1 False by simp
  qed
next
  case (2 op)
  have x: "\<not> isArray (static_Type (attribute_value span a))" using sp by (simp add: scalar_span_def)
  have op: "op = opScalar" using 2 n rewriting_ops [OF r] by (auto split: if_splits)
  then have eq: "opScalar \<in> {OpEqual, OpNotEqual}" and v: "pattern_ok env opScalar v"
    using 2 n rewriting_ops [OF r] by (auto simp: pattern_ok_def)
  have na: "\<not> isMatchingArrayElement (static_Type v) (static_Type (attribute_value span a))"
    using x v by (auto simp: isMatchingArrayElement.simps element_type_iff pattern_ok_def)
  then have "binary_op env opScalar v (attribute_value span a) = binary_op env opScalar (attribute_value span a) v"
    using element_holds_sym [OF eq] x v
    by (auto simp: binary_op_scalar isMatchingArrayElement.simps element_type_iff pattern_ok_def)
  then show ?thesis using eval_scalar_node [OF rewriting_ops(5) [OF r] v x] 2 op by simp
qed

lemma append_literal:
  assumes r: "rewriting opOuter opScalar opArray types"
    and ap: "static_append v w = Some arr"
    and v: "array_literal env opArray v \<or> pattern_ok env opScalar v" and w: "array_literal env opArray w \<or> pattern_ok env opScalar w"
    and t: "types \<noteq> {} \<longrightarrow> static_Type v \<in> types \<and> static_Type w \<in> types"
  shows "array_literal env opArray arr"
proof -
  have el: "Elements arr = Elements v @ Elements w" using ap by (rule static_append_elements)
  have ar: "isArray (static_Type arr)"
    using ap by (cases v; cases w) (auto simp: static_append_def isArray_def)
  have scalar: "Elements s = [s]" if "pattern_ok env opScalar s" for s
    using that by (cases s) (auto simp: Elements_def pattern_ok_def isArray_def)
  have ne: "Elements v \<noteq> []" using v scalar by (auto simp: array_literal_def)
  have str: "\<exists>p. e = StaticString p \<and> regexp env p \<noteq> None"
    if "types = {TypeString, TypeStringArray}" "e \<in> set (Elements s)"
      "array_literal env opArray s \<or> pattern_ok env opScalar s" "static_Type s \<in> types" for e s
    using that scalar rewriting_ops [OF r]
    by (auto simp: array_literal_def pattern_ok_def isArray_def static_Type_String)
  show ?thesis
    using ar ne el str v w t rewriting_ops(8) [OF r] unfolding array_literal_def
    by (metis Un_iff append_is_Nil_conv insert_not_empty set_append)
qed

lemma new_array_node:
  "isArray (static_Type s) \<Longrightarrow>
    newBinaryOperation env compiles op (Attribute a) (Static s) = BinaryOperation op (Attribute a) (Static s)"
  by (cases s) (auto simp: newBinaryOperation_def fold_constant_def trace_id_operand_def normalizeTraceIDOperand_def isArray_def)

text \<open>A step either leaves the node or makes an array operation of a node that mentions the span.\<close>

lemma rewrite_step_cases:
  assumes "fst (rewriteBinaryOperationsToArrayEquivalent env compiles fe opOuter opScalar opArray types) \<noteq> fe"
  obtains l r a v w arr where "fe = BinaryOperation opOuter l r"
    "getOperandsFromBinaryOperation l {opScalar, opArray} = Some (a, v)"
    "getOperandsFromBinaryOperation r {opScalar, opArray} = Some (a, w)"
    "types \<noteq> {} \<longrightarrow> static_Type v \<in> types \<and> static_Type w \<in> types"
    "static_append v w = Some arr"
    "fst (rewriteBinaryOperationsToArrayEquivalent env compiles fe opOuter opScalar opArray types)
      = newBinaryOperation env compiles opArray (Attribute a) (Static arr)"
  using assms
  by (auto simp: rewriteBinaryOperationsToArrayEquivalent_def split: field_expression.splits if_splits option.splits)

lemma rewrite_step:
  fixes compiles :: "string \<Rightarrow> bool"
  assumes r: "rewriting opOuter opScalar opArray types" and fe: "rewritten env fe" and sp: "scalar_span span"
  defines "e' \<equiv> fst (rewriteBinaryOperationsToArrayEquivalent env compiles fe opOuter opScalar opArray types)"
  shows "rewritten env e' \<and> eval env span e' = eval env span fe"
proof (cases "e' = fe")
  case False
  obtain l rr a v w arr where f: "fe = BinaryOperation opOuter l rr"
    and l: "getOperandsFromBinaryOperation l {opScalar, opArray} = Some (a, v)"
    and rr: "getOperandsFromBinaryOperation rr {opScalar, opArray} = Some (a, w)"
    and t: "types \<noteq> {} \<longrightarrow> static_Type v \<in> types \<and> static_Type w \<in> types"
    and ap: "static_append v w = Some arr"
    and e': "e' = newBinaryOperation env compiles opArray (Attribute a) (Static arr)"
    using False rewrite_step_cases [of env compiles fe opOuter opScalar opArray types] unfolding e'_def by metis
  have kids: "rewritten env l" "rewritten env rr" using fe f rewriting_ops [OF r] by auto
  have arr: "array_literal env opArray arr"
    using append_literal [OF r ap leaf_literal [OF r kids(1) l] leaf_literal [OF r kids(2) rr] t] .
  then have e'': "e' = BinaryOperation opArray (Attribute a) (Static arr)"
    using e' new_array_node by (simp add: array_literal_def)
  let ?x = "attribute_value span a" and ?P = "element_holds env opScalar (attribute_value span a)"
  have "eval env span e' = Inr (StaticBool (quantified opScalar ?P (Elements v @ Elements w)))"
    using eval_array_node [OF rewriting_ops(2) [OF r] arr, of ?x] sp rewriting_ops(1) [OF r]
      static_append_elements [OF ap] by (simp add: e'' scalar_span_def)
  moreover have "eval env span fe = Inr (StaticBool (quantified opScalar ?P (Elements v @ Elements w)))"
    using eval_leaf [OF r kids(1) sp l] eval_leaf [OF r kids(2) sp rr] rewriting_ops(9,10) [OF r]
    by (auto simp: f bool_connectives quantified_append)
  ultimately show ?thesis using arr rewriting_ops(2) [OF r] by (simp add: e'')
qed (use fe in simp)

subsection \<open>The walk\<close>

lemma rewritings:
  "rewriting OpOr OpEqual OpIn {}" "rewriting OpAnd OpNotEqual OpNotIn {}"
  "rewriting OpOr OpRegex OpRegexMatchAny {TypeString, TypeStringArray}"
  "rewriting OpAnd OpNotRegex OpRegexMatchNone {TypeString, TypeStringArray}"
  by (simp_all add: rewriting_def)

lemmas rewrite_fns = rewriteOrToIn_def rewriteAndToNotIn_def rewriteOrToMatchAny_def rewriteAndToMatchNone_def

definition step_ok :: "tql_env \<Rightarrow> span_attributes \<Rightarrow> field_expression \<Rightarrow> field_expression \<Rightarrow> bool" where
  "step_ok env span e e' \<longleftrightarrow> (rewritten env e \<longrightarrow> rewritten env e' \<and> eval env span e' = eval env span e)"

lemma step_ok_trans: "step_ok env span a b \<Longrightarrow> step_ok env span b c \<Longrightarrow> step_ok env span a c"
  by (auto simp: step_ok_def)

lemma step_ok_fns:
  assumes "scalar_span span"
  shows "step_ok env span e (fst (rewriteOrToIn env compiles e))"
    "step_ok env span e (fst (rewriteAndToNotIn env compiles e))"
    "step_ok env span e (fst (rewriteOrToMatchAny env compiles e))"
    "step_ok env span e (fst (rewriteAndToMatchNone env compiles e))"
  using rewrite_step [OF _ _ assms] rewritings by (auto simp: step_ok_def rewrite_fns)

lemma rewrite_node_chain:
  "fst (rewrite_node env compiles e) = fst (rewriteAndToMatchNone env compiles
     (fst (rewriteOrToMatchAny env compiles (fst (rewriteAndToNotIn env compiles (fst (rewriteOrToIn env compiles e)))))))"
  by (simp add: rewrite_node_def case_prod_unfold Let_def)

lemma step_ok_node: "scalar_span span \<Longrightarrow> step_ok env span e (fst (rewrite_node env compiles e))"
  unfolding rewrite_node_chain
  by (intro step_ok_trans [OF step_ok_trans [OF step_ok_trans [OF step_ok_fns(1) step_ok_fns(2)] step_ok_fns(3)] step_ok_fns(4)])

text \<open>Every step keeps or loses nothing of the shape that the constructors look at.\<close>

definition same_shape :: "field_expression \<Rightarrow> field_expression \<Rightarrow> bool" where
  "same_shape e e' \<longleftrightarrow> e' = e \<or> (referencesSpan e \<and> referencesSpan e' \<and> (\<exists>op l r. e = BinaryOperation op l r)
     \<and> (\<exists>op l r. e' = BinaryOperation op l r))"

lemma same_shape_trans: "same_shape a b \<Longrightarrow> same_shape b c \<Longrightarrow> same_shape a c"
  by (auto simp: same_shape_def)

lemma operands_reference: "getOperandsFromBinaryOperation n ops = Some x \<Longrightarrow> referencesSpan n"
  by (auto simp: getOperandsFromBinaryOperation_def split: field_expression.splits if_splits)

lemma same_shape_step:
  "same_shape e (fst (rewriteBinaryOperationsToArrayEquivalent env compiles e opOuter opScalar opArray types))"
proof (cases "fst (rewriteBinaryOperationsToArrayEquivalent env compiles e opOuter opScalar opArray types) = e")
  case False
  then obtain l r a v w arr where e: "e = BinaryOperation opOuter l r"
    and l: "getOperandsFromBinaryOperation l {opScalar, opArray} = Some (a, v)" and ap: "static_append v w = Some arr"
    and e': "fst (rewriteBinaryOperationsToArrayEquivalent env compiles e opOuter opScalar opArray types)
      = newBinaryOperation env compiles opArray (Attribute a) (Static arr)"
    by (rule rewrite_step_cases) blast
  have "isArray (static_Type arr)"
    using ap by (cases v; cases w) (auto simp: static_append_def isArray_def)
  then have "fst (rewriteBinaryOperationsToArrayEquivalent env compiles e opOuter opScalar opArray types)
      = BinaryOperation opArray (Attribute a) (Static arr)"
    using e' new_array_node by simp
  then show ?thesis
    using operands_reference [OF l] unfolding same_shape_def e by simp
qed (simp add: same_shape_def)

lemma same_shape_node: "same_shape e (fst (rewrite_node env compiles e))"
  unfolding rewrite_node_chain rewrite_fns using same_shape_step same_shape_trans by blast

lemma new_kept:
  assumes "newBinaryOperation env compiles op l r = BinaryOperation op l r" and "same_shape l l'" and "same_shape r r'"
  shows "newBinaryOperation env compiles op l' r' = BinaryOperation op l' r'"
proof (cases "l' = l \<and> r' = r")
  case False
  then have "referencesSpan l' \<and> (\<exists>op x y. l' = BinaryOperation op x y)
      \<or> referencesSpan r' \<and> (\<exists>op x y. r' = BinaryOperation op x y)"
    using assms by (auto simp: same_shape_def)
  then show ?thesis
    by (auto simp: newBinaryOperation_def fold_constant_def trace_id_operand_def split: field_expression.splits)
qed (use assms in simp)

lemma same_shape_rewrite: "parsed env compiles e \<Longrightarrow> same_shape e (fst (rewriteFieldExpression env compiles e))"
proof (induction e)
  case (BinaryOperation op l r)
  let ?l = "fst (rewriteFieldExpression env compiles l)" and ?r = "fst (rewriteFieldExpression env compiles r)"
  have kids: "same_shape l ?l" "same_shape r ?r" using BinaryOperation by simp_all
  have n: "newBinaryOperation env compiles op ?l ?r = BinaryOperation op ?l ?r"
    using new_kept [OF _ kids] BinaryOperation.prems by simp
  have "same_shape (BinaryOperation op l r) (BinaryOperation op ?l ?r)" using kids by (auto simp: same_shape_def)
  then show ?case
    using same_shape_trans [OF _ same_shape_node] by (simp add: case_prod_unfold Let_def n)
qed (use same_shape_node in auto)

lemma rewrite_walk:
  assumes "parsed env compiles e" and sp: "scalar_span span"
  shows "rewritten env (fst (rewriteFieldExpression env compiles e))
    \<and> eval env span (fst (rewriteFieldExpression env compiles e)) = eval env span e"
  using assms(1)
proof (induction e)
  case (BinaryOperation op l r)
  let ?l = "fst (rewriteFieldExpression env compiles l)" and ?r = "fst (rewriteFieldExpression env compiles r)"
  let ?e = "BinaryOperation op ?l ?r"
  have kids: "same_shape l ?l" "same_shape r ?r" using BinaryOperation.prems same_shape_rewrite by simp_all
  have n: "newBinaryOperation env compiles op ?l ?r = ?e"
    using new_kept [OF _ kids] BinaryOperation.prems by simp
  have "rewritten env ?e"
    using BinaryOperation kids(2) by (auto simp: same_shape_def)
  moreover have "eval env span ?e = eval env span (BinaryOperation op l r)"
    using BinaryOperation by (simp split: sum.splits)
  ultimately show ?case
    using step_ok_node [OF sp, of env ?e compiles] by (simp add: step_ok_def case_prod_unfold Let_def n)
qed (use step_ok_node [OF sp, of env _ compiles] in \<open>auto simp: step_ok_def\<close>)

subsection \<open>Properties\<close>

text \<open>C13. The rewriting keeps the meaning of a query: a parsed and valid expression and its rewritten form have
  the same value (or the same error) on every span whose attributes are not arrays.\<close>

theorem rewrite_keeps_meaning:
  assumes "parsed env compiles e" and "scalar_span span"
  shows "eval env span (fst (rewriteFieldExpression env compiles e)) = eval env span e"
  using rewrite_walk [OF assms] by blast

definition demo_floats :: float_ops where
  "demo_floats = \<lparr>f_add = (\<lambda>x y. x), f_sub = (\<lambda>x y. x), f_mul = (\<lambda>x y. x), f_div = (\<lambda>x y. x), f_mod = (\<lambda>x y. x),
     f_pow = (\<lambda>x y. x), f_of_int = (\<lambda>i. i), f_of_uint = (\<lambda>i. i), f_to_int = (\<lambda>f. f)\<rparr>"

text \<open>Patterns that match themselves only.\<close>

definition demo_env :: tql_env where
  "demo_env = \<lparr>float = demo_floats, regexp = (\<lambda>p. Some (\<lambda>s. s = p))\<rparr>"

definition demo_attr :: field_expression where
  "demo_attr = Attribute (NewAttribute ''a'')"

definition demo_or :: field_expression where
  "demo_or = BinaryOperation OpOr (BinaryOperation OpOr
      (BinaryOperation OpEqual demo_attr (Static (StaticString ''x'')))
      (BinaryOperation OpEqual demo_attr (Static (StaticString ''y''))))
    (BinaryOperation OpEqual demo_attr (Static (StaticString ''z'')))"

definition demo_span :: "static \<Rightarrow> span_attributes" where
  "demo_span s = [NewAttribute ''a'' \<mapsto> s]"

theorem rewrite_keeps_meaning_witness:
  "rewriteFieldExpression demo_env (\<lambda>_. True) demo_or =
      (BinaryOperation OpIn demo_attr (Static (StaticStringArray [''x'', ''y'', ''z''])), 2)
    \<and> eval demo_env (demo_span (StaticString ''z'')) (fst (rewriteFieldExpression demo_env (\<lambda>_. True) demo_or))
      = eval demo_env (demo_span (StaticString ''z'')) demo_or
    \<and> eval demo_env (demo_span (StaticString ''z'')) demo_or = Inr (StaticBool True)"
proof (intro conjI)
  have p: "parsed demo_env (\<lambda>_. True) demo_or" by code_simp
  have s: "scalar_span (demo_span (StaticString ''z''))"
    by (simp add: scalar_span_def demo_span_def attribute_value_def isArray_def)
  show "eval demo_env (demo_span (StaticString ''z'')) (fst (rewriteFieldExpression demo_env (\<lambda>_. True) demo_or))
      = eval demo_env (demo_span (StaticString ''z'')) demo_or"
    by (rule rewrite_keeps_meaning [OF p s])
  show "rewriteFieldExpression demo_env (\<lambda>_. True) demo_or =
      (BinaryOperation OpIn demo_attr (Static (StaticStringArray [''x'', ''y'', ''z''])), 2)" by code_simp
  show "eval demo_env (demo_span (StaticString ''z'')) demo_or = Inr (StaticBool True)" by code_simp
qed

text \<open>On a span with an array attribute the rewriting turns a match into an error that fails the query:
  \<open>.a = x || .a = y\<close> holds of a span whose \<open>.a\<close> is the array with element \<open>x\<close>, but the rewritten
  \<open>.a IN [x, y]\<close> compares two arrays, which is refused.\<close>

theorem rewrite_fails_on_array_attributes:
  "eval demo_env (demo_span (StaticStringArray [''x''])) demo_or = Inr (StaticBool True)
    \<and> eval demo_env (demo_span (StaticStringArray [''x''])) (fst (rewriteFieldExpression demo_env (\<lambda>_. True) demo_or))
      = Inl ErrTwoArrays"
  by code_simp

end
