(* ===== verification/TqlAst.thy ===== *)
theory TqlAst
  imports TqlExpr
begin

section \<open>Pipelines of TraceQL (pkg/traceql/ast.go, ast_validate.go)\<close>

text \<open>
  A query is a pipeline: filters on spans, structural and boolean operations on spansets, aggregates and
  the scalar filters on them, grouping, coalescing and selecting. A spanset expression of the code is one
  of the first four constructors, a scalar expression is a type of its own; both contain whole pipelines.
\<close>

datatype aggregate_op = aggregateCount | aggregateMax | aggregateMin | aggregateSum | aggregateAvg

datatype aggregate = Aggregate aggregate_op "field_expression option"

datatype pipeline_element =
    SpansetFilter field_expression
  | SpansetOperation operator pipeline_element pipeline_element
  | Pipeline "pipeline_element list"
  | ScalarFilter operator scalar_expression scalar_expression
  | AggregateElement aggregate
  | GroupOperation field_expression
  | CoalesceOperation
  | SelectOperation "attribute list"
and scalar_expression =
    ScalarOperation operator scalar_expression scalar_expression
  | ScalarAggregate aggregate
  | ScalarStatic static
  | ScalarPipeline "pipeline_element list"

subsection \<open>Types\<close>

definition aggregate_type :: "aggregate \<Rightarrow> static_type" where
  "aggregate_type a = (case a of Aggregate op e \<Rightarrow>
     if op = aggregateCount then TypeInt else (case e of None \<Rightarrow> TypeInt | Some fe \<Rightarrow> impliedType fe))"

definition pipeline_type :: "pipeline_element list \<Rightarrow> static_type" where
  "pipeline_type es = (if es = [] then TypeSpanset
     else case last es of AggregateElement a \<Rightarrow> aggregate_type a | _ \<Rightarrow> TypeSpanset)"

fun scalar_type :: "scalar_expression \<Rightarrow> static_type" where
  "scalar_type (ScalarOperation op l r) =
     (if isBoolean op then TypeBoolean else if scalar_type l \<noteq> TypeAttribute then scalar_type l else scalar_type r)"
| "scalar_type (ScalarAggregate a) = aggregate_type a"
| "scalar_type (ScalarStatic s) = static_Type s"
| "scalar_type (ScalarPipeline es) = pipeline_type es"

subsection \<open>Validation\<close>

datatype pipeline_error = ErrField validate_error | ErrGroupWithoutSpan | ErrScalarOperation | ErrScalarMismatch
  | ErrScalarTypes | ErrAggregateType | ErrAggregateWithoutSpan | ErrSpansetOperation | ErrScalarFilterLhs
  | ErrScalarFilterRhs

definition validate_aggregate :: "(string \<Rightarrow> bool) \<Rightarrow> aggregate \<Rightarrow> pipeline_error option" where
  "validate_aggregate compiles a = (case a of Aggregate op oe \<Rightarrow> (case oe of
       None \<Rightarrow> None
     | Some e \<Rightarrow> (case validate compiles e of
          Some err \<Rightarrow> Some (ErrField err)
        | None \<Rightarrow> (if impliedType e \<noteq> TypeAttribute \<and> \<not> isNumeric (impliedType e) then Some ErrAggregateType
            else if \<not> referencesSpan e then Some ErrAggregateWithoutSpan else None))))"

fun first_error :: "('a \<Rightarrow> 'e option) \<Rightarrow> 'a list \<Rightarrow> 'e option" where
  "first_error f [] = None"
| "first_error f (x # xs) = (case f x of Some e \<Rightarrow> Some e | None \<Rightarrow> first_error f xs)"

lemma first_error_cong [fundef_cong]:
  "xs = ys \<Longrightarrow> (\<And>x. x \<in> set ys \<Longrightarrow> f x = g x) \<Longrightarrow> first_error f xs = first_error g ys"
  by (induction ys arbitrary: xs) (auto split: option.splits)

fun validate_element :: "(string \<Rightarrow> bool) \<Rightarrow> pipeline_element \<Rightarrow> pipeline_error option"
  and validate_scalar :: "(string \<Rightarrow> bool) \<Rightarrow> scalar_expression \<Rightarrow> pipeline_error option" where
  "validate_element compiles (SpansetFilter e) = map_option ErrField (validate_filter compiles e)"
| "validate_element compiles (SpansetOperation op l r) = (case validate_element compiles l of
     Some err \<Rightarrow> Some err
   | None \<Rightarrow> (if op = OpNotExists \<or> op = OpExists then Some ErrSpansetOperation else validate_element compiles r))"
| "validate_element compiles (Pipeline es) = first_error (validate_element compiles) es"
| "validate_element compiles (ScalarFilter op l r) = (case validate_scalar compiles l of
     Some err \<Rightarrow> Some err
   | None \<Rightarrow> (case validate_scalar compiles r of
       Some err \<Rightarrow> Some err
     | None \<Rightarrow>
         (if \<not> isMatchingOperand (scalar_type l) (scalar_type r) then Some ErrScalarMismatch
          else if \<not> binaryTypesValid op (scalar_type l) (scalar_type r) then Some ErrScalarTypes
          else case l of
            ScalarAggregate _ \<Rightarrow> (case r of ScalarStatic _ \<Rightarrow> None | _ \<Rightarrow> Some ErrScalarFilterRhs)
          | _ \<Rightarrow> Some ErrScalarFilterLhs)))"
| "validate_element compiles (AggregateElement a) = validate_aggregate compiles a"
| "validate_element compiles (GroupOperation e) =
     (if \<not> referencesSpan e then Some ErrGroupWithoutSpan else map_option ErrField (validate compiles e))"
| "validate_element compiles CoalesceOperation = None"
| "validate_element compiles (SelectOperation attrs) =
     map_option ErrField (first_error (\<lambda>a. validate compiles (Attribute a)) attrs)"
| "validate_scalar compiles (ScalarOperation op l r) = (case validate_scalar compiles l of
     Some err \<Rightarrow> Some err
   | None \<Rightarrow> (case validate_scalar compiles r of
       Some err \<Rightarrow> Some err
     | None \<Rightarrow>
         (if op = OpNotExists \<or> op = OpExists then Some ErrScalarOperation
          else if \<not> isMatchingOperand (scalar_type l) (scalar_type r) then Some ErrScalarMismatch
          else if \<not> binaryTypesValid op (scalar_type l) (scalar_type r) then Some ErrScalarTypes
          else None)))"
| "validate_scalar compiles (ScalarAggregate a) = validate_aggregate compiles a"
| "validate_scalar compiles (ScalarStatic s) = None"
| "validate_scalar compiles (ScalarPipeline es) = first_error (validate_element compiles) es"

definition validate_pipeline :: "(string \<Rightarrow> bool) \<Rightarrow> pipeline_element list \<Rightarrow> pipeline_error option" where
  "validate_pipeline compiles es = first_error (validate_element compiles) es"

end
