(* ===== verification/TqlConditions.thy ===== *)
theory TqlConditions
  imports TqlAst
begin

section \<open>What a query asks of the storage (pkg/traceql/ast_conditions.go, ast.go, storage.go)\<close>

text \<open>
  Before a query is evaluated the engine asks the storage for the spans that can matter: a list of
  conditions on attributes, and whether a span has to meet all of them (\<open>AllConditions\<close>) or any one. A
  condition keeps its attribute, operator and operands; the fields of the request that these functions
  only carry along (times, samplers, the callbacks) are left out.

  The results are: which filters lose no span to this first selection, and four that do.
\<close>

record condition =
  CondAttribute :: attribute
  CondOp :: operator
  Operands :: "static list"

record fetch_request =
  Conditions :: "condition list"
  AllConditions :: bool
  SecondPassConditions :: "condition list"

subsection \<open>Requests (storage.go)\<close>

definition appendCondition :: "condition \<Rightarrow> fetch_request \<Rightarrow> fetch_request" where
  "appendCondition c req = req\<lparr>Conditions := Conditions req @ [c]\<rparr>"

definition condition_match :: "attribute \<Rightarrow> attribute \<Rightarrow> bool" where
  "condition_match cc a \<longleftrightarrow> cc = a
     \<or> Scope cc = AttributeScopeNone \<and> (Scope a = AttributeScopeResource \<or> Scope a = AttributeScopeSpan)
       \<and> Parent cc = Parent a \<and> Name cc = Name a \<and> Intrinsic cc = Intrinsic a"

definition SecondPassHasAttribute :: "attribute \<Rightarrow> fetch_request \<Rightarrow> bool" where
  "SecondPassHasAttribute a req \<longleftrightarrow> list_ex (\<lambda>c. condition_match (CondAttribute c) a) (SecondPassConditions req)"

definition HasAttribute :: "attribute \<Rightarrow> fetch_request \<Rightarrow> bool" where
  "HasAttribute a req \<longleftrightarrow> list_ex (\<lambda>c. condition_match (CondAttribute c) a) (Conditions req)
     \<or> SecondPassHasAttribute a req"

definition HasAttributeWithOp :: "attribute \<Rightarrow> operator \<Rightarrow> fetch_request \<Rightarrow> bool" where
  "HasAttributeWithOp a op req \<longleftrightarrow>
     list_ex (\<lambda>c. condition_match (CondAttribute c) a \<and> CondOp c = op) (Conditions req)
     \<or> list_ex (\<lambda>c. condition_match (CondAttribute c) a \<and> CondOp c = op) (SecondPassConditions req)"

definition fetch_attribute :: "attribute \<Rightarrow> condition" where
  "fetch_attribute a = \<lparr>CondAttribute = a, CondOp = OpNone, Operands = []\<rparr>"

definition SearchMetaConditions :: "condition list" where
  "SearchMetaConditions = map (\<lambda>i. fetch_attribute (NewIntrinsic i))
     [IntrinsicTraceRootService, IntrinsicTraceRootSpan, IntrinsicTraceDuration, IntrinsicTraceID,
      IntrinsicTraceStartTime, IntrinsicSpanID, IntrinsicSpanStartTime, IntrinsicDuration, IntrinsicServiceStats]"

definition metaConditionsWithout :: "condition list \<Rightarrow> condition list \<Rightarrow> bool \<Rightarrow> condition list" where
  "metaConditionsWithout metaConds remove allConditions = filter (\<lambda>c.
     \<not> list_ex (\<lambda>r. CondAttribute r = CondAttribute c \<and> (CondOp r = OpNone \<or> allConditions)) remove) metaConds"

definition SearchMetaConditionsWithout :: "condition list \<Rightarrow> bool \<Rightarrow> condition list" where
  "SearchMetaConditionsWithout remove allConditions = metaConditionsWithout SearchMetaConditions remove allConditions"

subsection \<open>The conditions of an expression (ast_conditions.go)\<close>

text \<open>An attribute compared with a literal; the side on which the attribute stands makes no difference.\<close>

definition literal_condition :: "operator \<Rightarrow> attribute \<Rightarrow> static \<Rightarrow> condition" where
  "literal_condition op a v =
     (if static_Type v = TypeNil \<and> op = OpNotEqual \<or> \<not> isBoolean op then fetch_attribute a
      else if static_Type v = TypeBoolean \<and> (op = OpOr \<or> op = OpAnd) then fetch_attribute a
      else \<lparr>CondAttribute = a, CondOp = op, Operands = [v]\<rparr>)"

fun extractConditions :: "field_expression \<Rightarrow> fetch_request \<Rightarrow> fetch_request" where
  "extractConditions (BinaryOperation op l r) req = (case l of
       Attribute a \<Rightarrow> (case r of
           Static v \<Rightarrow> appendCondition (literal_condition op a v) req
         | Attribute b \<Rightarrow> appendCondition (fetch_attribute b) (appendCondition (fetch_attribute a) req)
         | _ \<Rightarrow> extractConditions r (appendCondition (fetch_attribute a) req))
     | Static v \<Rightarrow> (case r of
           Static _ \<Rightarrow> req
         | Attribute a \<Rightarrow> appendCondition (literal_condition op a v) req
         | _ \<Rightarrow> extractConditions r req)
     | _ \<Rightarrow> (let req' = extractConditions r (extractConditions l req)
            in req'\<lparr>AllConditions := AllConditions req' \<and> op \<noteq> OpOr\<rparr>))"
| "extractConditions (UnaryOperation op e) req = (case e of
       Attribute a \<Rightarrow>
         (if op = OpExists \<or> op = OpNotExists
          then appendCondition \<lparr>CondAttribute = a, CondOp = op, Operands = []\<rparr> req
          else extractConditions e req)
     | _ \<Rightarrow> extractConditions e req)"
| "extractConditions (Static s) req = req"
| "extractConditions (Attribute a) req = appendCondition (fetch_attribute a) req"

text \<open>A filter that is just true asks for something that every span has.\<close>

definition extract_filter :: "field_expression \<Rightarrow> fetch_request \<Rightarrow> fetch_request" where
  "extract_filter e req = (let req' = extractConditions e req in
     if e = Static (StaticBool True) then
       (if list_ex (\<lambda>c. Intrinsic (CondAttribute c) \<noteq> IntrinsicNone \<and> CondOp c = OpNone) (Conditions req') then req'
        else appendCondition (fetch_attribute (NewIntrinsic IntrinsicSpanStartTime)) req')
     else req')"

subsection \<open>The conditions of a pipeline (ast.go)\<close>

definition extract_aggregate :: "aggregate \<Rightarrow> fetch_request \<Rightarrow> fetch_request" where
  "extract_aggregate a req = (case a of Aggregate op oe \<Rightarrow>
     let req' = req\<lparr>AllConditions := False\<rparr> in
     case oe of None \<Rightarrow> req' | Some e \<Rightarrow> extractConditions e req')"

definition extract_select :: "attribute list \<Rightarrow> fetch_request \<Rightarrow> fetch_request" where
  "extract_select attrs req = (let selectR = fold (\<lambda>a. extractConditions (Attribute a)) attrs
       \<lparr>Conditions = [], AllConditions = False, SecondPassConditions = []\<rparr>
     in req\<lparr>SecondPassConditions := SecondPassConditions req @ Conditions selectR\<rparr>)"

definition structural_condition :: "operator \<Rightarrow> intrinsic option" where
  "structural_condition op =
     (if op \<in> {OpSpansetDescendant, OpSpansetAncestor, OpSpansetNotDescendant, OpSpansetNotAncestor,
          OpSpansetUnionDescendant, OpSpansetUnionAncestor} then Some IntrinsicStructuralDescendant
      else if op \<in> {OpSpansetChild, OpSpansetParent, OpSpansetNotChild, OpSpansetNotParent, OpSpansetUnionChild,
          OpSpansetUnionParent} then Some IntrinsicStructuralChild
      else if op \<in> {OpSpansetSibling, OpSpansetNotSibling, OpSpansetUnionSibling} then Some IntrinsicStructuralSibling
      else None)"

definition add_second_pass :: "condition list \<Rightarrow> fetch_request \<Rightarrow> fetch_request" where
  "add_second_pass cs req = fold (\<lambda>c r. if HasAttributeWithOp (CondAttribute c) OpNone r then r
     else r\<lparr>SecondPassConditions := SecondPassConditions r @ [c]\<rparr>) cs req"

definition extractToSecondPass :: "(fetch_request \<Rightarrow> fetch_request) \<Rightarrow> fetch_request \<Rightarrow> fetch_request" where
  "extractToSecondPass extract req = (let
       req2 = extract \<lparr>Conditions = [], AllConditions = False, SecondPassConditions = []\<rparr>
     in add_second_pass (SecondPassConditions req2) (add_second_pass (Conditions req2) req))"

text \<open>\<open>forced\<close>: a select operation has been seen, the rest goes to the second pass.\<close>

fun extract_element :: "pipeline_element \<Rightarrow> fetch_request \<Rightarrow> fetch_request"
  and extract_scalar :: "scalar_expression \<Rightarrow> fetch_request \<Rightarrow> fetch_request"
  and extract_pipeline :: "bool \<Rightarrow> pipeline_element list \<Rightarrow> fetch_request \<Rightarrow> fetch_request" where
  "extract_element (SpansetFilter e) req = extract_filter e req"
| "extract_element (SpansetOperation op l r) req = (let
       req1 = (case structural_condition op of
           None \<Rightarrow> req | Some i \<Rightarrow> appendCondition (fetch_attribute (NewIntrinsic i)) req)
     in (extract_element r (extract_element l req1))\<lparr>AllConditions := False\<rparr>)"
| "extract_element (Pipeline es) req = extract_pipeline False es req"
| "extract_element (ScalarFilter op l r) req = extract_scalar r (extract_scalar l req)"
| "extract_element (AggregateElement a) req = extract_aggregate a req"
| "extract_element (GroupOperation e) req = (extractConditions e req)\<lparr>AllConditions := False\<rparr>"
| "extract_element CoalesceOperation req = req"
| "extract_element (SelectOperation attrs) req = extract_select attrs req"
| "extract_scalar (ScalarOperation op l r) req = extract_scalar r (extract_scalar l req)"
| "extract_scalar (ScalarAggregate a) req = extract_aggregate a req"
| "extract_scalar (ScalarStatic s) req = req"
| "extract_scalar (ScalarPipeline es) req = extract_pipeline False es req"
| "extract_pipeline forced [] req = req"
| "extract_pipeline forced (e # es) req =
     extract_pipeline (forced \<or> (case e of SelectOperation _ \<Rightarrow> True | _ \<Rightarrow> False)) es
       (if forced then extractToSecondPass (extract_element e) req else extract_element e req)"

text \<open>The request that \<open>Compile\<close> starts with.\<close>

definition compile_request :: "pipeline_element list \<Rightarrow> fetch_request" where
  "compile_request es = extract_pipeline False es \<lparr>Conditions = [], AllConditions = True, SecondPassConditions = []\<rparr>"

subsection \<open>Which spans the storage is asked for\<close>

text \<open>The contract of \<open>Fetch\<close> (storage.go): the spans that meet any of the conditions, or with
  \<open>AllConditions\<close> those that meet all of them. A condition without operator asks for the attribute
  only.\<close>

definition condition_holds :: "tql_env \<Rightarrow> span_attributes \<Rightarrow> condition \<Rightarrow> bool" where
  "condition_holds env span c = (let v = attribute_value span (CondAttribute c); op = CondOp c in
     if op = OpNone then v \<noteq> StaticNil
     else if op = OpExists \<or> op = OpNotExists then unary_op env op v = Inr (StaticBool True)
     else case Operands c of [s] \<Rightarrow> binary_op env op v s = Inr (StaticBool True) | _ \<Rightarrow> False)"

definition fetched :: "tql_env \<Rightarrow> fetch_request \<Rightarrow> span_attributes \<Rightarrow> bool" where
  "fetched env req span \<longleftrightarrow>
     (if AllConditions req then list_all (condition_holds env span) (Conditions req)
      else list_ex (condition_holds env span) (Conditions req))"

text \<open>The filters for which that is enough: conjunctions and disjunctions of comparisons of an
  attribute, on the left unless the operator is symmetric, with a literal or another attribute.\<close>

fun pushable :: "field_expression \<Rightarrow> bool" where
  "pushable (BinaryOperation op l r) \<longleftrightarrow>
     (if op = OpAnd \<or> op = OpOr then pushable l \<and> pushable r
      else comparison op \<and> (case (l, r) of
          (Attribute a, Static v) \<Rightarrow> Elements v \<noteq> []
        | (Static v, Attribute a) \<Rightarrow> (op = OpEqual \<or> op = OpNotEqual) \<and> Elements v \<noteq> []
        | (Attribute a, Attribute b) \<Rightarrow> True
        | _ \<Rightarrow> False))"
| "pushable (UnaryOperation op e) \<longleftrightarrow>
     (op = OpExists \<or> op = OpNotExists) \<and> (case e of Attribute a \<Rightarrow> True | _ \<Rightarrow> False)"
| "pushable (Attribute a) \<longleftrightarrow> False"
| "pushable (Static s) \<longleftrightarrow> False"

text \<open>An array attribute has an element.\<close>

definition no_empty_arrays :: "span_attributes \<Rightarrow> bool" where
  "no_empty_arrays span \<longleftrightarrow> (\<forall>a. Elements (attribute_value span a) \<noteq> [])"

text \<open>What a pushable filter adds to a request.\<close>

fun leaf_conditions :: "field_expression \<Rightarrow> condition list" where
  "leaf_conditions (BinaryOperation op l r) =
     (if op = OpAnd \<or> op = OpOr then leaf_conditions l @ leaf_conditions r
      else case (l, r) of
          (Attribute a, Static v) \<Rightarrow> [literal_condition op a v]
        | (Static v, Attribute a) \<Rightarrow> [literal_condition op a v]
        | (Attribute a, Attribute b) \<Rightarrow> [fetch_attribute a, fetch_attribute b]
        | _ \<Rightarrow> [])"
| "leaf_conditions (UnaryOperation op e) =
     (case e of Attribute a \<Rightarrow> [\<lparr>CondAttribute = a, CondOp = op, Operands = []\<rparr>] | _ \<Rightarrow> [])"
| "leaf_conditions _ = []"

fun conjunctive :: "field_expression \<Rightarrow> bool" where
  "conjunctive (BinaryOperation op l r) \<longleftrightarrow> op \<noteq> OpOr \<and> (op = OpAnd \<longrightarrow> conjunctive l \<and> conjunctive r)"
| "conjunctive _ \<longleftrightarrow> True"

lemma pushable_shape: "pushable e \<Longrightarrow> (\<exists>op l r. e = BinaryOperation op l r) \<or> (\<exists>op x. e = UnaryOperation op x)"
  by (cases e) auto

lemma pushable_boolean: "pushable e \<Longrightarrow> boolean_node e"
  by (cases e) (auto simp: comparison_def isBoolean_def split: if_splits)

lemma extract_pushable:
  "pushable e \<Longrightarrow> extractConditions e req = req\<lparr>Conditions := Conditions req @ leaf_conditions e,
     AllConditions := AllConditions req \<and> conjunctive e\<rparr>"
proof (induction e arbitrary: req)
  case (BinaryOperation op l r)
  show ?case
  proof (cases "op = OpAnd \<or> op = OpOr")
    case True
    then have p: "pushable l" "pushable r" using BinaryOperation.prems by simp_all
    have "extractConditions (BinaryOperation op l r) req = (let req' = extractConditions r (extractConditions l req)
            in req'\<lparr>AllConditions := AllConditions req' \<and> op \<noteq> OpOr\<rparr>)"
      using pushable_shape [OF p(1)] by auto
    then show ?thesis
      using True p BinaryOperation.IH by auto
  next
    case False
    then show ?thesis
      using BinaryOperation.prems
      by (cases req; cases l; cases r) (simp_all add: appendCondition_def)
  qed
next
  case (UnaryOperation op e)
  then show ?case by (cases req; cases e) (simp_all add: appendCondition_def)
qed simp_all

text \<open>Equality does not depend on the order of its operands.\<close>

lemma isMatchingArrayElement_sym: "isMatchingArrayElement t u = isMatchingArrayElement u t"
  by (cases t; cases u) (simp_all add: isMatchingOperand.simps isMatchingArrayElement.simps isNumeric_def
      element_type_def)

lemma binary_op_sym:
  assumes "op = OpEqual \<or> op = OpNotEqual"
  shows "binary_op env op x y = binary_op env op y x"
proof -
  have s: "binOpExecuteScalar env op x y = binOpExecuteScalar env op y x" for x y
    using assms by (auto simp: binOpExecuteScalar_Equal binOpExecuteScalar_NotEqual isMatchingOperand_sym
        static_Equals_sym static_NotEquals_def binaryTypesValid_def)
  have n: "\<not> isArrayOp op" "getFlippedOp op = op" "isBoolean op"
    using assms by (auto simp: isArrayOp_def getFlippedOp_def isBoolean_def)
  have "isArray (static_Type x) \<or> isArray (static_Type y)" if "isMatchingArrayElement (static_Type x) (static_Type y)"
    using that by (cases "static_Type x"; cases "static_Type y")
      (simp_all add: isMatchingArrayElement.simps element_type_def isArray_def)
  then have "array_op env op x y = array_op env op y x" if "isMatchingArrayElement (static_Type x) (static_Type y)"
    using that n assms by (auto simp: array_op_def Let_def)
  moreover have "binary_op env op x y = binary_op env op y x" if "\<not> isMatchingArrayElement (static_Type x) (static_Type y)"
    using that s [of x y] isMatchingArrayElement_sym [of "static_Type x"] by (simp add: binary_op_scalar)
  ultimately show ?thesis
    using isMatchingArrayElement_sym [of "static_Type x" "static_Type y"] isMatchingOperand_sym [of "static_Type x" "static_Type y"]
    by (auto simp: binary_op_def binaryTypesValid_def)
qed

lemma matching_comparison_present:
  assumes "comparison op" and "binary_op env op x y = Inr (StaticBool True)" and "Elements x \<noteq> []" and "Elements y \<noteq> []"
  shows "x \<noteq> StaticNil \<and> y \<noteq> StaticNil"
  using comparison_nil [OF assms(1,3), of env] comparison_nil [OF assms(1,4), of env] assms(2) by auto

lemma literal_condition_holds:
  assumes op: "comparison op" and m: "binary_op env op (attribute_value span a) v = Inr (StaticBool True)"
    and ne: "Elements v \<noteq> []" "no_empty_arrays span"
  shows "condition_holds env span (literal_condition op a v)"
proof -
  have "attribute_value span a \<noteq> StaticNil"
    using matching_comparison_present [OF op m _ ne(1)] ne(2) by (simp add: no_empty_arrays_def)
  then show ?thesis
    using m op by (auto simp: literal_condition_def condition_holds_def fetch_attribute_def comparison_def isBoolean_def)
qed

lemma leaf_conditions_hold:
  assumes "pushable e" and "matches env span e" and sp: "no_empty_arrays span"
  shows "list_ex (condition_holds env span) (leaf_conditions e)
    \<and> (conjunctive e \<longrightarrow> list_all (condition_holds env span) (leaf_conditions e))"
  using assms(1,2)
proof (induction e)
  case (BinaryOperation op l r)
  consider "op = OpAnd" | "op = OpOr" | "op \<noteq> OpAnd" "op \<noteq> OpOr" by blast
  then show ?case
  proof cases
    case 1
    then show ?thesis using BinaryOperation pushable_boolean matches_And by simp
  next
    case 2
    then show ?thesis using BinaryOperation pushable_boolean matches_Or by fastforce
  next
    case 3
    then have c: "comparison op" using BinaryOperation.prems by simp
    have e: "Elements (attribute_value span a) \<noteq> []" for a using sp by (simp add: no_empty_arrays_def)
    show ?thesis
    proof (cases l)
      case (Attribute a)
      then show ?thesis
        using BinaryOperation.prems 3 c e literal_condition_holds [OF c _ _ sp] matching_comparison_present [OF c]
        by (cases r) (auto simp: matches_def condition_holds_def fetch_attribute_def)
    next
      case (Static v)
      then obtain a where r: "r = Attribute a" "op = OpEqual \<or> op = OpNotEqual" "Elements v \<noteq> []"
        using BinaryOperation.prems 3 by (auto split: field_expression.splits)
      then show ?thesis
        using BinaryOperation.prems 3 Static literal_condition_holds [OF c _ _ sp, of env a v]
          binary_op_sym [OF r(2), of env v] by (auto simp: matches_def)
    qed (use BinaryOperation.prems 3 in auto)
  qed
next
  case (UnaryOperation op e)
  then show ?case by (auto simp: matches_def condition_holds_def split: field_expression.splits)
qed simp_all

lemma pushable_fetched:
  assumes "pushable e" and "matches env span e" and "no_empty_arrays span"
  shows "fetched env (compile_request [SpansetFilter e]) span"
proof -
  have "\<not> (\<exists>s. e = Static s)" using pushable_shape [OF assms(1)] by auto
  then show ?thesis
    using leaf_conditions_hold [OF assms]
    by (auto simp: fetched_def compile_request_def extract_filter_def extract_pushable [OF assms(1)])
qed


definition test_floats :: float_ops where
  "test_floats = \<lparr>f_add = (\<lambda>x y. x), f_sub = (\<lambda>x y. x), f_mul = (\<lambda>x y. x), f_div = (\<lambda>x y. x), f_mod = (\<lambda>x y. x),
     f_pow = (\<lambda>x y. x), f_of_int = (\<lambda>i. i), f_of_uint = (\<lambda>i. i), f_to_int = (\<lambda>f. f)\<rparr>"

definition test_env :: tql_env where
  "test_env = \<lparr>float = test_floats, regexp = (\<lambda>p. Some (\<lambda>s. s = p))\<rparr>"

definition test_attr :: "string \<Rightarrow> field_expression" where
  "test_attr n = Attribute (NewAttribute n)"

definition test_span :: "(string \<times> static) list \<Rightarrow> span_attributes" where
  "test_span avs = (\<lambda>a. case map_of avs (Name a) of
       Some s \<Rightarrow> (if a = NewAttribute (Name a) then Some s else None) | None \<Rightarrow> None)"

text \<open>\<open>(.a > 3 && "x" = .b) || .c != nil\<close>\<close>

definition test_filter :: field_expression where
  "test_filter = BinaryOperation OpOr
     (BinaryOperation OpAnd (BinaryOperation OpGreater (test_attr ''a'') (Static (StaticInt 3)))
        (BinaryOperation OpEqual (Static (StaticString ''x'')) (test_attr ''b'')))
     (UnaryOperation OpExists (test_attr ''c''))"


definition loses :: "field_expression \<Rightarrow> span_attributes \<Rightarrow> bool" where
  "loses e span \<longleftrightarrow> matches test_env span e \<and> \<not> fetched test_env (compile_request [SpansetFilter e]) span"

text \<open>Four kinds of filters lose matching spans before they are evaluated: an ordered comparison with the
  literal on the left (\<open>5 < .a\<close> asks for \<open>.a < 5\<close>), a disjunction with a bare attribute on the left
  (\<open>.a || (.b = 1)\<close> asks for spans that have both), a disjunction with a literal
  (\<open>(.b = 1) || true\<close> asks for \<open>.b = 1\<close>), and a negation (\<open>!(.b = 1)\<close> does too).\<close>

theorem pushdown_loses_spans:
  "loses (BinaryOperation OpLess (Static (StaticInt 5)) (test_attr ''a'')) (test_span [(''a'', StaticInt 7)])
    \<and> loses (BinaryOperation OpOr (test_attr ''a'') (BinaryOperation OpEqual (test_attr ''b'') (Static (StaticInt 1))))
        (test_span [(''a'', StaticBool True), (''b'', StaticInt 2)])
    \<and> loses (BinaryOperation OpOr (BinaryOperation OpEqual (test_attr ''b'') (Static (StaticInt 1))) (Static (StaticBool True)))
        (test_span [(''b'', StaticInt 2)])
    \<and> loses (UnaryOperation OpNot (BinaryOperation OpEqual (test_attr ''b'') (Static (StaticInt 1))))
        (test_span [(''b'', StaticInt 2)])"
  by code_simp

end
