(* ===== verification/Structural.thy ===== *)
theory Structural
  imports Prelude "HOL-Library.Multiset"
begin

section \<open>Structural relations of spans (tempodb/encoding/vparquet5/block_traceql.go)\<close>

text \<open>
  A span is a pointer; the nested set bounds that a block stores for it (theory \<open>NestedSet\<close>) are the
  functions of a record. They are 32-bit integers that are only compared, so they are integers here.
  \<open>srt\<close> is the sort of the Go library (\<open>sort.Slice\<close>, not stable); what is used of it is the
  contract \<open>slice_sort\<close>. It sorts in place; the callers' slices keep their elements, only their order
  changes, and that change is not modelled.
\<close>

type_synonym span = nat

record span_tree =
  nestedSetLeft :: "span \<Rightarrow> int"
  nestedSetRight :: "span \<Rightarrow> int"
  nestedSetParent :: "span \<Rightarrow> int"

type_synonym sorter = "(span \<Rightarrow> int) \<Rightarrow> span list \<Rightarrow> span list"

locale slice_sort =
  fixes srt :: sorter
  assumes srt_mset: "mset (srt f xs) = mset xs" and srt_sorted: "sorted (map f (srt f xs))"
begin

lemma srt_set: "set (srt f xs) = set xs"
  using srt_mset by (rule mset_eq_setD)

lemma srt_distinct: "distinct (srt f xs) = distinct xs"
  using srt_mset by (rule mset_eq_imp_distinct_iff)

lemma srt_distinct_map: "distinct (map f (srt g xs)) = distinct (map f xs)"
  using srt_mset by (intro mset_eq_imp_distinct_iff) simp

end

text \<open>The sort of the library is one.\<close>

interpretation sort_key: slice_sort sort_key
  by unfold_locales simp_all

subsection \<open>The relations\<close>

definition descendant_of :: "span_tree \<Rightarrow> span \<Rightarrow> span \<Rightarrow> bool" where
  "descendant_of t a b \<longleftrightarrow> \<not> (nestedSetLeft t a = 0 \<or> nestedSetLeft t b = 0
       \<or> nestedSetRight t a = 0 \<or> nestedSetRight t b = 0)
     \<and> nestedSetLeft t a > nestedSetLeft t b \<and> nestedSetRight t a < nestedSetRight t b"

definition child_of :: "span_tree \<Rightarrow> span \<Rightarrow> span \<Rightarrow> bool" where
  "child_of t a b \<longleftrightarrow> nestedSetLeft t a = nestedSetParent t b \<and> nestedSetLeft t a \<noteq> 0 \<and> nestedSetParent t b \<noteq> 0"

definition sibling_of :: "span_tree \<Rightarrow> span \<Rightarrow> span \<Rightarrow> bool" where
  "sibling_of t a b \<longleftrightarrow> nestedSetParent t a = nestedSetParent t b
     \<and> nestedSetParent t a \<noteq> 0 \<and> nestedSetParent t b \<noteq> 0"

text \<open>Adding to the buffer, once if it is a union. The state is the buffer and the spans already added.\<close>

type_synonym buffer = "span list \<times> span list"

definition add_to_buffer :: "bool \<Rightarrow> span \<Rightarrow> buffer \<Rightarrow> buffer" where
  "add_to_buffer unioned s b = (if unioned then (if s \<in> set (snd b) then b else (fst b @ [s], s # snd b))
     else (fst b @ [s], snd b))"

subsection \<open>Descendants and ancestors\<close>

definition is_after :: "span_tree \<Rightarrow> span \<Rightarrow> span \<Rightarrow> bool" where
  "is_after t a b \<longleftrightarrow> nestedSetLeft t b > nestedSetRight t a"

text \<open>The two inner loops of the union. The first goes on through the right-hand spans until the next one is
  out of the tree of the current one; the second through the left-hand spans.\<close>

function du_rhs :: "span_tree \<Rightarrow> span \<Rightarrow> span list \<Rightarrow> nat \<Rightarrow> span \<Rightarrow> buffer \<Rightarrow> nat \<times> span \<times> buffer" where
  "du_rhs t lSpan rhs ridx rSpan b =
     (if ridx < length rhs then
        (let r = rhs ! ridx; b' = (if descendant_of t r lSpan then add_to_buffer True r b else b) in
         if ridx + 1 < length rhs \<and> is_after t r (rhs ! (ridx + 1)) then (ridx + 1, r, b')
         else du_rhs t lSpan rhs (ridx + 1) r b')
      else (ridx, rSpan, b))"
  by pat_completeness auto
termination by (relation "measure (\<lambda>(t, l, rhs, ridx, r, b). length rhs - ridx)") auto

function du_lhs :: "span_tree \<Rightarrow> span list \<Rightarrow> span list \<Rightarrow> nat \<Rightarrow> span \<Rightarrow> nat \<Rightarrow> buffer \<Rightarrow> nat \<times> buffer" where
  "du_lhs t lhs rhs ridx rSpan lidx b =
     (if lidx < length lhs then
        (let l = lhs ! lidx in
         if is_after t rSpan l then (lidx, b)
         else if descendant_of t rSpan l then
           (let b' = add_to_buffer True l b in
            if ridx < length rhs \<and> descendant_of t (rhs ! ridx) l then (lidx, b')
            else du_lhs t lhs rhs ridx rSpan (lidx + 1) b')
         else du_lhs t lhs rhs ridx rSpan (lidx + 1) b)
      else (lidx, b))"
  by pat_completeness auto
termination by (relation "measure (\<lambda>(t, lhs, rhs, ridx, r, lidx, b). length lhs - lidx)") auto

declare du_rhs.simps [simp del] du_lhs.simps [simp del]

lemma du_rhs_end: "\<not> ridx < length rhs \<Longrightarrow> du_rhs t l rhs ridx r b = (ridx, r, b)"
  by (subst du_rhs.simps) simp

lemma du_rhs_advances: "ridx < length rhs \<Longrightarrow> ridx < fst (du_rhs t l rhs ridx r b)"
proof (induction "length rhs - ridx" arbitrary: ridx r b rule: less_induct)
  case less
  have "ridx < fst (du_rhs t l rhs (ridx + 1) r' b')" for r' b'
  proof (cases "ridx + 1 < length rhs")
    case True
    then have "ridx + 1 < fst (du_rhs t l rhs (ridx + 1) r' b')" by (intro less.hyps) auto
    then show ?thesis by simp
  qed (simp add: du_rhs_end)
  then show ?case using less.prems by (subst du_rhs.simps) (simp add: Let_def)
qed

text \<open>Each round of the outer loop moves \<open>ridx\<close>.\<close>

function du_loop :: "span_tree \<Rightarrow> span list \<Rightarrow> span list \<Rightarrow> nat \<Rightarrow> nat \<Rightarrow> buffer \<Rightarrow> buffer" where
  "du_loop t lhs rhs lidx ridx b =
     (if lidx < length lhs \<and> ridx < length rhs then
        (let (ridx', rSpan, b1) = du_rhs t (lhs ! lidx) rhs ridx (rhs ! ridx) b;
             (lidx', b2) = du_lhs t lhs rhs ridx' rSpan lidx b1
         in du_loop t lhs rhs lidx' ridx' b2)
      else b)"
  by pat_completeness auto
termination
proof (relation "measure (\<lambda>(t, lhs, rhs, lidx, ridx, b). length rhs - ridx)")
  fix t lhs rhs lidx ridx b x ridx' y rSpan b1 xa lidx' b2
  assume "lidx < length lhs \<and> ridx < length rhs" "x = du_rhs t (lhs ! lidx) rhs ridx (rhs ! ridx) b" "(ridx', y) = x"
  then have "ridx < ridx'" "ridx < length rhs"
    using du_rhs_advances [of ridx rhs t "lhs ! lidx" "rhs ! ridx" b] by (metis fst_conv)+
  then show "((t, lhs, rhs, lidx', ridx', b2), t, lhs, rhs, lidx, ridx, b)
      \<in> measure (\<lambda>(t, lhs, rhs, lidx, ridx, b). length rhs - ridx)" by simp
qed simp

declare du_loop.simps [simp del]

definition descendantOfUnion :: "sorter \<Rightarrow> span_tree \<Rightarrow> span list \<Rightarrow> span list \<Rightarrow> bool \<Rightarrow> span list \<Rightarrow> span list" where
  "descendantOfUnion srt t lhs rhs invert buffer = (let
       ls = srt (nestedSetLeft t) lhs; rs = srt (nestedSetLeft t) rhs
     in fst (if invert then du_loop t rs ls 0 0 (buffer, []) else du_loop t ls rs 0 0 (buffer, [])))"

definition DescendantOf :: "sorter \<Rightarrow> span_tree \<Rightarrow> span list \<Rightarrow> span list \<Rightarrow> bool \<Rightarrow> bool \<Rightarrow> bool \<Rightarrow> span list
    \<Rightarrow> span list" where
  "DescendantOf srt t lhs rhs falseForAll invert unioned buffer =
     (if lhs = [] \<and> rhs = [] then []
      else if unioned then descendantOfUnion srt t lhs rhs invert buffer
      else let
        ls = srt (\<lambda>x. if invert then nestedSetLeft t x else - nestedSetLeft t x) lhs;
        found = (\<lambda>r. search (length ls) (\<lambda>i. if invert then nestedSetLeft t (ls ! i) \<ge> nestedSetLeft t r
                                              else nestedSetLeft t (ls ! i) \<le> nestedSetLeft t r));
        matches = (\<lambda>r. list_ex (\<lambda>l. if invert then descendant_of t l r else descendant_of t r l) (drop (found r) ls))
      in buffer @ filter (\<lambda>r. matches r \<and> \<not> falseForAll \<or> \<not> matches r \<and> falseForAll) rhs)"

subsection \<open>Children and parents\<close>

text \<open>\<open>nestedSetOneManyLoop\<close>: the loop over the many for one \<open>o\<close>. What is left of the many replaces the
  index. It returns whether there was a match.\<close>

fun scan_invert :: "(span \<Rightarrow> span \<Rightarrow> bool) \<Rightarrow> (span \<Rightarrow> span \<Rightarrow> bool) \<Rightarrow> bool \<Rightarrow> span \<Rightarrow> span list \<Rightarrow> bool \<Rightarrow> buffer
    \<Rightarrow> bool \<times> span list \<times> buffer" where
  "scan_invert isMatch isAfter unioned p [] matches b = (matches, [], b)"
| "scan_invert isMatch isAfter unioned p (m # ms) matches b =
     (if isAfter p m then (matches, m # ms, b)
      else if isMatch p m then
        (if unioned then scan_invert isMatch isAfter unioned p ms True (add_to_buffer unioned m b) else (True, m # ms, b))
      else scan_invert isMatch isAfter unioned p ms matches b)"

fun scan_many :: "(span \<Rightarrow> span \<Rightarrow> bool) \<Rightarrow> (span \<Rightarrow> span \<Rightarrow> bool) \<Rightarrow> bool \<Rightarrow> bool \<Rightarrow> span \<Rightarrow> span list \<Rightarrow> bool \<Rightarrow> buffer
    \<Rightarrow> bool \<times> span list \<times> buffer" where
  "scan_many isMatch isAfter falseForAll unioned p [] matches b = (matches, [], b)"
| "scan_many isMatch isAfter falseForAll unioned p (m # ms) matches b =
     (if isAfter p m then (matches, m # ms, b)
      else if isMatch p m \<and> \<not> falseForAll \<or> \<not> isMatch p m \<and> falseForAll
      then scan_many isMatch isAfter falseForAll unioned p ms True (add_to_buffer unioned m b)
      else scan_many isMatch isAfter falseForAll unioned p ms matches b)"

fun one_many_invert :: "(span \<Rightarrow> bool) \<Rightarrow> (span \<Rightarrow> span \<Rightarrow> bool) \<Rightarrow> (span \<Rightarrow> span \<Rightarrow> bool) \<Rightarrow> bool \<Rightarrow> bool
    \<Rightarrow> span list \<Rightarrow> span list \<Rightarrow> buffer \<Rightarrow> buffer" where
  "one_many_invert isValid isMatch isAfter falseForAll unioned [] many b = b"
| "one_many_invert isValid isMatch isAfter falseForAll unioned (p # ps) many b =
     (if \<not> isValid p then one_many_invert isValid isMatch isAfter falseForAll unioned ps many b
      else let (matches, many', b') = scan_invert isMatch isAfter unioned p many False b in
        one_many_invert isValid isMatch isAfter falseForAll unioned ps many'
          (if matches \<and> \<not> falseForAll \<or> \<not> matches \<and> falseForAll then add_to_buffer unioned p b' else b'))"

fun one_many :: "(span \<Rightarrow> bool) \<Rightarrow> (span \<Rightarrow> span \<Rightarrow> bool) \<Rightarrow> (span \<Rightarrow> span \<Rightarrow> bool) \<Rightarrow> bool \<Rightarrow> bool
    \<Rightarrow> span list \<Rightarrow> span list \<Rightarrow> buffer \<Rightarrow> buffer" where
  "one_many isValid isMatch isAfter falseForAll unioned [] many b =
     (if falseForAll then fold (add_to_buffer unioned) many b else b)"
| "one_many isValid isMatch isAfter falseForAll unioned (p # ps) many b =
     (if \<not> isValid p then one_many isValid isMatch isAfter falseForAll unioned ps many b
      else let (matches, many', b') = scan_many isMatch isAfter falseForAll unioned p many False b in
        one_many isValid isMatch isAfter falseForAll unioned ps many'
          (if matches \<and> unioned then add_to_buffer unioned p b' else b'))"

definition nestedSetOneManyLoop :: "(span \<Rightarrow> bool) \<Rightarrow> (span \<Rightarrow> span \<Rightarrow> bool) \<Rightarrow> (span \<Rightarrow> span \<Rightarrow> bool) \<Rightarrow> bool \<Rightarrow> bool \<Rightarrow> bool
    \<Rightarrow> span list \<Rightarrow> span list \<Rightarrow> span list \<Rightarrow> span list" where
  "nestedSetOneManyLoop isValid isMatch isAfter falseForAll invert unioned one many buffer =
     fst ((if invert then one_many_invert else one_many) isValid isMatch isAfter falseForAll unioned one many (buffer, []))"

definition ChildOf :: "sorter \<Rightarrow> span_tree \<Rightarrow> span list \<Rightarrow> span list \<Rightarrow> bool \<Rightarrow> bool \<Rightarrow> bool \<Rightarrow> span list \<Rightarrow> span list" where
  "ChildOf srt t lhs rhs falseForAll invert unioned buffer =
     (if lhs = [] \<and> rhs = [] then []
      else if unioned then
        (let (parents, children) = (if invert then (rhs, lhs) else (lhs, rhs))
         in nestedSetOneManyLoop (\<lambda>s. nestedSetLeft t s \<noteq> 0) (child_of t)
              (\<lambda>p c. nestedSetParent t c > nestedSetLeft t p) falseForAll invert unioned
              (srt (nestedSetLeft t) parents) (srt (nestedSetParent t) children) buffer)
      else let
        ls = srt (\<lambda>x. if invert then nestedSetParent t x else nestedSetLeft t x) lhs;
        found = (\<lambda>r. search (length ls) (\<lambda>i. if invert then nestedSetParent t (ls ! i) \<ge> nestedSetLeft t r
                                              else nestedSetLeft t (ls ! i) \<ge> nestedSetParent t r));
        matches = (\<lambda>r. found r < length ls \<and>
           (if invert then child_of t r (ls ! found r) else child_of t (ls ! found r) r))
      in buffer @ filter (\<lambda>r. matches r \<and> \<not> falseForAll \<or> \<not> matches r \<and> falseForAll) rhs)"

subsection \<open>Siblings\<close>

text \<open>\<open>nestedSetManyManyLoop\<close>: for each right-hand span the left-hand spans from \<open>rescanIdx\<close> on.\<close>

function scan_left :: "(span \<Rightarrow> span \<Rightarrow> bool) \<Rightarrow> (span \<Rightarrow> span \<Rightarrow> bool) \<Rightarrow> bool \<Rightarrow> bool \<Rightarrow> span list \<Rightarrow> span
    \<Rightarrow> nat \<Rightarrow> nat \<Rightarrow> bool \<Rightarrow> buffer \<Rightarrow> nat \<times> bool \<times> buffer" where
  "scan_left isMatch isAfter invert unioned lhs r lidx rescanIdx matches b =
     (if lidx < length lhs then
        (let l = lhs ! lidx in
         if isAfter r l then (rescanIdx, matches, b)
         else
           (let rescan' = (if isAfter (lhs ! rescanIdx) l then lidx else rescanIdx);
                hit = (\<not> invert \<and> isMatch r l \<or> invert \<and> isMatch l r)
            in scan_left isMatch isAfter invert unioned lhs r (lidx + 1) rescan' (matches \<or> hit)
                 (if hit \<and> unioned then add_to_buffer unioned l b else b)))
      else (rescanIdx, matches, b))"
  by pat_completeness auto
termination by (relation "measure (\<lambda>(m, a, i, u, lhs, r, lidx, x). length lhs - lidx)") auto

declare scan_left.simps [simp del]

fun many_many :: "(span \<Rightarrow> bool) \<Rightarrow> (span \<Rightarrow> span \<Rightarrow> bool) \<Rightarrow> (span \<Rightarrow> span \<Rightarrow> bool) \<Rightarrow> bool \<Rightarrow> bool \<Rightarrow> bool
    \<Rightarrow> span list \<Rightarrow> span list \<Rightarrow> nat \<Rightarrow> buffer \<Rightarrow> buffer" where
  "many_many isValid isMatch isAfter falseForAll invert unioned lhs [] rescanIdx b = b"
| "many_many isValid isMatch isAfter falseForAll invert unioned lhs (r # rs) rescanIdx b =
     (if \<not> isValid r then many_many isValid isMatch isAfter falseForAll invert unioned lhs rs rescanIdx b
      else let (rescan', matches, b') = scan_left isMatch isAfter invert unioned lhs r rescanIdx rescanIdx False b in
        many_many isValid isMatch isAfter falseForAll invert unioned lhs rs rescan'
          (if matches \<and> \<not> falseForAll \<or> \<not> matches \<and> falseForAll then add_to_buffer unioned r b' else b'))"

definition nestedSetManyManyLoop :: "(span \<Rightarrow> bool) \<Rightarrow> (span \<Rightarrow> span \<Rightarrow> bool) \<Rightarrow> (span \<Rightarrow> span \<Rightarrow> bool) \<Rightarrow> bool \<Rightarrow> bool \<Rightarrow> bool
    \<Rightarrow> span list \<Rightarrow> span list \<Rightarrow> span list \<Rightarrow> span list" where
  "nestedSetManyManyLoop isValid isMatch isAfter falseForAll invert unioned lhs rhs buffer =
     fst (many_many isValid isMatch isAfter falseForAll invert unioned lhs rhs 0 (buffer, []))"

definition sibling_match :: "span_tree \<Rightarrow> span list \<Rightarrow> span \<Rightarrow> bool" where
  "sibling_match t ls r =
     (let found = search (length ls) (\<lambda>i. nestedSetParent t (ls ! i) \<ge> nestedSetParent t r) in
      nestedSetParent t r \<noteq> 0 \<and> found < length ls \<and>
      (if sibling_of t r (ls ! found) \<and> r = ls ! found
       then found + 1 < length ls \<and> sibling_of t r (ls ! (found + 1))
       else sibling_of t r (ls ! found)))"

definition SiblingOf :: "sorter \<Rightarrow> span_tree \<Rightarrow> span list \<Rightarrow> span list \<Rightarrow> bool \<Rightarrow> bool \<Rightarrow> span list \<Rightarrow> span list" where
  "SiblingOf srt t lhs rhs falseForAll unioned buffer =
     (if lhs = [] \<and> rhs = [] then []
      else let ls = srt (nestedSetParent t) lhs in
        if unioned then
          nestedSetManyManyLoop (\<lambda>s. nestedSetParent t s \<noteq> 0) (\<lambda>a b. sibling_of t a b \<and> a \<noteq> b)
            (\<lambda>a b. nestedSetParent t b > nestedSetParent t a) falseForAll False unioned ls
            (srt (nestedSetParent t) rhs) buffer
        else buffer @ filter (\<lambda>r. sibling_match t ls r \<and> \<not> falseForAll \<or> \<not> sibling_match t ls r \<and> falseForAll) rhs)"

subsection \<open>What the plain operators return\<close>

text \<open>Beyond the index that the search returns lie exactly the spans from \<open>c\<close> on.\<close>

lemma list_ex_drop_search:
  assumes "sorted (map f ls)" and "\<And>l. l \<in> set ls \<Longrightarrow> P l \<Longrightarrow> c \<le> f l"
  shows "list_ex P (drop (search (length ls) (\<lambda>i. c \<le> f (ls ! i))) ls) = (\<exists>l\<in>set ls. P l)"
proof
  assume "\<exists>l\<in>set ls. P l"
  then obtain k where k: "k < length ls" "P (ls ! k)" by (auto simp: in_set_conv_nth)
  then have "search (length ls) (\<lambda>i. c \<le> f (ls ! i)) \<le> k"
    using assms(2) [OF nth_mem [OF k(1)] k(2)] search_sorted(2) [OF assms(1) k(1)] by blast
  moreover from this have "drop (search (length ls) (\<lambda>i. c \<le> f (ls ! i))) ls
      ! (k - search (length ls) (\<lambda>i. c \<le> f (ls ! i))) = ls ! k" using k(1) by simp
  ultimately show "list_ex P (drop (search (length ls) (\<lambda>i. c \<le> f (ls ! i))) ls)"
    using k by (metis list_ex_iff nth_mem length_drop diff_less_mono)
qed (auto simp: list_ex_iff dest: in_set_dropD)

text \<open>The span at that index has the value \<open>c\<close> if any has.\<close>

lemma search_hits:
  assumes "sorted (map f ls)"
  shows "(search (length ls) (\<lambda>i. c \<le> f (ls ! i)) < length ls
      \<and> f (ls ! search (length ls) (\<lambda>i. c \<le> f (ls ! i))) = c) = (\<exists>l\<in>set ls. f l = c)"
proof
  let ?n = "search (length ls) (\<lambda>i. c \<le> f (ls ! i))"
  assume "\<exists>l\<in>set ls. f l = c"
  then obtain k where k: "k < length ls" "f (ls ! k) = c" by (auto simp: in_set_conv_nth)
  then have n: "?n \<le> k" "?n < length ls" using search_sorted(2) [OF assms k(1), of c] by auto
  then have "c \<le> f (ls ! ?n)" "f (ls ! ?n) \<le> f (ls ! k)"
    using search_sorted(2) [OF assms n(2), of c] sorted_nth_mono [OF assms, of ?n k] k by auto
  then show "?n < length ls \<and> f (ls ! ?n) = c" using n k by simp
qed (use nth_mem in blast)

context slice_sort
begin

lemma descendants_exact:
  assumes "lhs \<noteq> [] \<or> rhs \<noteq> []"
  shows "DescendantOf srt t lhs rhs falseForAll invert False buffer = buffer @ filter (\<lambda>r.
    (\<exists>l\<in>set lhs. if invert then descendant_of t l r else descendant_of t r l) \<noteq> falseForAll) rhs"
proof -
  let ?f = "\<lambda>x. if invert then nestedSetLeft t x else - nestedSetLeft t x"
  let ?P = "\<lambda>r l. if invert then descendant_of t l r else descendant_of t r l"
  let ?ls = "srt ?f lhs"
  have "(\<lambda>i. if invert then nestedSetLeft t (?ls ! i) \<ge> nestedSetLeft t r else nestedSetLeft t (?ls ! i) \<le> nestedSetLeft t r)
      = (\<lambda>i. ?f r \<le> ?f (?ls ! i))" for r by auto
  moreover have "list_ex (?P r) (drop (search (length ?ls) (\<lambda>i. ?f r \<le> ?f (?ls ! i))) ?ls) = (\<exists>l\<in>set lhs. ?P r l)" for r
  proof -
    have "?P r l \<Longrightarrow> ?f r \<le> ?f l" for l by (auto simp: descendant_of_def)
    then show ?thesis
      using list_ex_drop_search [OF srt_sorted [of ?f lhs], where P = "?P r" and c = "?f r"]
      unfolding srt_set by blast
  qed
  ultimately show ?thesis
    using assms(1) by (auto simp: DescendantOf_def Let_def intro!: filter_cong)
qed

lemma children_exact:
  assumes "lhs \<noteq> [] \<or> rhs \<noteq> []"
  shows "ChildOf srt t lhs rhs falseForAll invert False buffer = buffer @ filter (\<lambda>r.
    (\<exists>l\<in>set lhs. if invert then child_of t r l else child_of t l r) \<noteq> falseForAll) rhs"
proof -
  let ?f = "\<lambda>x. if invert then nestedSetParent t x else nestedSetLeft t x"
  let ?c = "\<lambda>r. if invert then nestedSetLeft t r else nestedSetParent t r"
  let ?P = "\<lambda>r l. if invert then child_of t r l else child_of t l r"
  let ?ls = "srt ?f lhs"
  let ?n = "\<lambda>r. search (length ?ls) (\<lambda>i. ?c r \<le> ?f (?ls ! i))"
  have P: "?P r l \<longleftrightarrow> ?f l = ?c r \<and> ?c r \<noteq> 0" for r l by (auto simp: child_of_def)
  have e: "(\<lambda>i. if invert then nestedSetParent t (?ls ! i) \<ge> nestedSetLeft t r else nestedSetLeft t (?ls ! i) \<ge> nestedSetParent t r)
      = (\<lambda>i. ?c r \<le> ?f (?ls ! i))" for r by auto
  have h: "(?n r < length ?ls \<and> ?P r (?ls ! ?n r)) = (\<exists>l\<in>set lhs. ?P r l)" for r
    using search_hits [OF srt_sorted, of ?f lhs "?c r"] srt_set [of ?f lhs]
    unfolding P by blast
  show ?thesis
    using assms(1) unfolding ChildOf_def Let_def e by (auto simp: h intro!: filter_cong)
qed

lemma siblings_exact:
  assumes "lhs \<noteq> [] \<or> rhs \<noteq> []" and "distinct lhs"
  shows "SiblingOf srt t lhs rhs falseForAll False buffer = buffer @ filter (\<lambda>r.
    (\<exists>l\<in>set lhs. sibling_of t r l \<and> l \<noteq> r) \<noteq> falseForAll) rhs"
proof -
  let ?f = "nestedSetParent t"
  let ?ls = "srt ?f lhs"
  have ls: "sorted (map ?f ?ls)" "set ?ls = set lhs" "distinct ?ls" using srt_sorted srt_set srt_distinct assms(2) by auto
  have h: "sibling_match t ?ls r = (\<exists>l\<in>set lhs. sibling_of t r l \<and> l \<noteq> r)" for r
  proof -
    define n where "n = search (length ?ls) (\<lambda>i. ?f r \<le> ?f (?ls ! i))"
    have n: "?f r \<le> ?f (?ls ! k) \<longleftrightarrow> n \<le> k" if "k < length ?ls" for k
      unfolding n_def using search_sorted(2) [OF ls(1) that] .
    have up: "?f (?ls ! i) \<le> ?f (?ls ! j)" if "i \<le> j" "j < length ?ls" for i j
      using sorted_nth_mono [OF ls(1), of i j] that by simp
    have m: "sibling_match t ?ls r \<longleftrightarrow> ?f r \<noteq> 0 \<and> n < length ?ls \<and> (if ?f (?ls ! n) = ?f r \<and> r = ?ls ! n
        then n + 1 < length ?ls \<and> ?f (?ls ! (n + 1)) = ?f r else ?f (?ls ! n) = ?f r)"
      by (auto simp: sibling_match_def sibling_of_def Let_def n_def)
    show ?thesis
    proof
      assume sm: "sibling_match t ?ls r"
      have "?ls ! (n + 1) \<noteq> ?ls ! n" if "n + 1 < length ?ls" using nth_eq_iff_index_eq [OF ls(3), of n "n + 1"] that by simp
      then obtain k where "k < length ?ls" "?f (?ls ! k) = ?f r" "?f r \<noteq> 0" "?ls ! k \<noteq> r"
        using sm unfolding m by (cases "r = ?ls ! n") (simp_all, metis+)
      then show "\<exists>l\<in>set lhs. sibling_of t r l \<and> l \<noteq> r"
        unfolding ls(2) [symmetric] by (intro bexI [of _ "?ls ! k"]) (auto simp: sibling_of_def)
    next
      assume "\<exists>l\<in>set lhs. sibling_of t r l \<and> l \<noteq> r"
      then obtain k where k: "k < length ?ls" "?f (?ls ! k) = ?f r" "?f r \<noteq> 0" "?ls ! k \<noteq> r"
        unfolding ls(2) [symmetric] by (auto simp: in_set_conv_nth sibling_of_def)
      then have nk: "n \<le> k" using n [OF k(1)] by simp
      then have "?f (?ls ! n) = ?f r" using n [of n] up [OF nk k(1)] k by force
      moreover have "n + 1 < length ?ls \<and> ?f (?ls ! (n + 1)) = ?f r" if "r = ?ls ! n"
      proof -
        have "n + 1 \<le> k" using that nk k(4) by (cases "n = k") auto
        then show ?thesis using n [of "n + 1"] up [of "n + 1" k] k by force
      qed
      moreover have "n < length ?ls" using nk k(1) by simp
      ultimately show "sibling_match t ?ls r" using k(3) unfolding m if_bool_eq_conj by blast
    qed
  qed
  have "\<not> (lhs = [] \<and> rhs = [])" using assms(1) by blast
  then show ?thesis
    unfolding SiblingOf_def Let_def h by (cases falseForAll) auto
qed

end

subsection \<open>What the unions return\<close>

text \<open>A buffer that remembers what was added to it behaves like a set.\<close>

definition remembers :: "buffer \<Rightarrow> bool" where
  "remembers b \<longleftrightarrow> set (snd b) \<subseteq> set (fst b)"

lemma add_to_buffer_set:
  "remembers b \<Longrightarrow> remembers (add_to_buffer True s b) \<and> set (fst (add_to_buffer True s b)) = insert s (set (fst b))"
  by (auto simp: remembers_def add_to_buffer_def)

lemma add_all_set:
  "remembers b \<Longrightarrow> remembers (fold (add_to_buffer True) xs b)
    \<and> set (fst (fold (add_to_buffer True) xs b)) = set xs \<union> set (fst b)"
  by (induction xs arbitrary: b) (auto simp: add_to_buffer_set)

lemma scan_invert_union: "scan_invert isMatch isAfter True p ms x b = scan_many isMatch isAfter False True p ms x b"
  by (induction ms arbitrary: x b) auto

lemma one_many_invert_union:
  "one_many_invert isValid isMatch isAfter False True ps many b = one_many isValid isMatch isAfter False True ps many b"
  by (induction ps arbitrary: many b) (auto simp: scan_invert_union split: prod.splits)

abbreviation child_after :: "span_tree \<Rightarrow> span \<Rightarrow> span \<Rightarrow> bool" where
  "child_after t \<equiv> \<lambda>p c. nestedSetParent t c > nestedSetLeft t p"

lemma scan_many_children:
  "sorted (map (nestedSetParent t) ms) \<Longrightarrow> scan_many (child_of t) (child_after t) False True p ms x b =
     (x \<or> (\<exists>m\<in>set ms. child_of t p m), dropWhile (\<lambda>c. nestedSetParent t c \<le> nestedSetLeft t p) ms,
      fold (add_to_buffer True) (filter (child_of t p) ms) b)"
proof (induction ms arbitrary: x b)
  case (Cons m ms)
  show ?case
  proof (cases "nestedSetParent t m > nestedSetLeft t p")
    case True
    then have "\<not> child_of t p c" if "c \<in> set (m # ms)" for c
      using Cons.prems that by (auto simp: child_of_def)
    then show ?thesis using True by (simp add: filter_empty_conv)
  qed (use Cons in auto)
qed simp

lemma one_many_children:
  assumes "sorted (map (nestedSetLeft t) ps)" and "distinct (map (nestedSetLeft t) ps)"
    and "sorted (map (nestedSetParent t) many)" and "remembers b"
  shows "set (fst (one_many (\<lambda>s. nestedSetLeft t s \<noteq> 0) (child_of t) (child_after t) False True ps many b))
    = set (fst b) \<union> {c \<in> set many. \<exists>p\<in>set ps. child_of t p c} \<union> {p \<in> set ps. \<exists>c\<in>set many. child_of t p c}"
  using assms
proof (induction ps arbitrary: many b)
  case (Cons p ps)
  let ?loop = "\<lambda>many b. one_many (\<lambda>s. nestedSetLeft t s \<noteq> 0) (child_of t) (child_after t) False True ps many b"
  show ?case
  proof (cases "nestedSetLeft t p = 0")
    case True
    then have "\<not> child_of t p c" for c by (simp add: child_of_def)
    then show ?thesis using True Cons by auto
  next
    case False
    let ?rest = "dropWhile (\<lambda>c. nestedSetParent t c \<le> nestedSetLeft t p) many"
    let ?b = "fold (add_to_buffer True) (filter (child_of t p) many) b"
    let ?b' = "if \<exists>m\<in>set many. child_of t p m then add_to_buffer True p ?b else ?b"
    have b: "remembers ?b" "set (fst ?b) = {c \<in> set many. child_of t p c} \<union> set (fst b)"
      using add_all_set [OF Cons.prems(4)] by auto
    have b': "remembers ?b'" "set (fst ?b') = {c \<in> set many. child_of t p c} \<union> set (fst b)
        \<union> (if \<exists>m\<in>set many. child_of t p m then {p} else {})"
      using add_to_buffer_set [OF b(1)] b by auto
    have rest: "c \<in> set ?rest \<longleftrightarrow> c \<in> set many \<and> nestedSetParent t c > nestedSetLeft t p" for c
    proof -
      have "nestedSetParent t c > nestedSetLeft t p" if "c \<in> set ?rest"
        using that Cons.prems(3) by (induction many) (auto split: if_splits)
      moreover have "c \<in> set many \<Longrightarrow> nestedSetParent t c > nestedSetLeft t p \<Longrightarrow> c \<in> set ?rest"
        by (induction many) auto
      ultimately show ?thesis by (auto dest: set_dropWhileD)
    qed
    have later: "nestedSetParent t c > nestedSetLeft t p" if "q \<in> set ps" "child_of t q c" for q c
    proof -
      have "nestedSetLeft t p \<noteq> nestedSetLeft t q" "nestedSetLeft t p \<le> nestedSetLeft t q"
        using Cons.prems(1,2) that(1) by auto
      then show ?thesis using that(2) by (auto simp: child_of_def)
    qed
    have "sorted (map (nestedSetParent t) ?rest)"
      using Cons.prems(3) by (metis dropWhile_eq_drop drop_map sorted_wrt_drop)
    then have "set (fst (?loop ?rest ?b')) = set (fst ?b') \<union> {c \<in> set ?rest. \<exists>p\<in>set ps. child_of t p c}
        \<union> {p \<in> set ps. \<exists>c\<in>set ?rest. child_of t p c}"
      using Cons.prems b'(1) by (intro Cons.IH) auto
    moreover have "one_many (\<lambda>s. nestedSetLeft t s \<noteq> 0) (child_of t) (child_after t) False True (p # ps) many b = ?loop ?rest ?b'"
      using False by (simp add: scan_many_children [OF Cons.prems(3)] Let_def)
    moreover have "{c \<in> set ?rest. \<exists>p\<in>set ps. child_of t p c} = {c \<in> set many. \<exists>p\<in>set ps. child_of t p c}"
      and "{p \<in> set ps. \<exists>c\<in>set ?rest. child_of t p c} = {p \<in> set ps. \<exists>c\<in>set many. child_of t p c}"
      using later rest by blast+
    ultimately have "set (fst (one_many (\<lambda>s. nestedSetLeft t s \<noteq> 0) (child_of t) (child_after t) False True (p # ps) many b))
        = {c \<in> set many. child_of t p c} \<union> set (fst b) \<union> (if \<exists>m\<in>set many. child_of t p m then {p} else {})
          \<union> {c \<in> set many. \<exists>p\<in>set ps. child_of t p c} \<union> {p \<in> set ps. \<exists>c\<in>set many. child_of t p c}"
      using b'(2) by (simp only:)
    then show ?thesis by (simp only:) auto
  qed
qed simp

context slice_sort
begin

lemma child_union_exact:
  assumes "distinct (map (nestedSetLeft t) (if invert then rhs else lhs))" and "lhs \<noteq> [] \<or> rhs \<noteq> []"
  shows "set (ChildOf srt t lhs rhs False invert True []) =
    (let parents = (if invert then rhs else lhs); children = (if invert then lhs else rhs) in
      {c \<in> set children. \<exists>p\<in>set parents. child_of t p c} \<union> {p \<in> set parents. \<exists>c\<in>set children. child_of t p c})"
proof -
  let ?ps = "if invert then rhs else lhs" and ?cs = "if invert then lhs else rhs"
  have "distinct (map (nestedSetLeft t) (srt (nestedSetLeft t) ?ps))"
    using assms(1) by (simp add: srt_distinct_map)
  then have "set (fst (one_many (\<lambda>s. nestedSetLeft t s \<noteq> 0) (child_of t) (child_after t) False True
      (srt (nestedSetLeft t) ?ps) (srt (nestedSetParent t) ?cs) ([], []))) =
      {c \<in> set ?cs. \<exists>p\<in>set ?ps. child_of t p c} \<union> {p \<in> set ?ps. \<exists>c\<in>set ?cs. child_of t p c}"
    using one_many_children [OF srt_sorted _ srt_sorted, where b = "([], [])"]
      srt_set by (simp add: remembers_def)
  then show ?thesis
    using assms(2) by (auto simp: ChildOf_def nestedSetOneManyLoop_def one_many_invert_union Let_def split: if_splits)
qed

end

subsection \<open>Nothing but the spans of the two sides\<close>

definition stays :: "span set \<Rightarrow> buffer \<Rightarrow> bool" where
  "stays A b \<longleftrightarrow> set (fst b) \<subseteq> A"

lemma stays_add [simp]: "stays A b \<Longrightarrow> s \<in> A \<Longrightarrow> stays A (add_to_buffer u s b)"
  by (auto simp: stays_def add_to_buffer_def)

lemma stays_add_all: "stays A b \<Longrightarrow> set xs \<subseteq> A \<Longrightarrow> stays A (fold (add_to_buffer u) xs b)"
  by (induction xs arbitrary: b) auto

lemma du_rhs_stays: "stays A b \<Longrightarrow> set rhs \<subseteq> A \<Longrightarrow> stays A (snd (snd (du_rhs t l rhs ridx r b)))"
proof (induction "length rhs - ridx" arbitrary: ridx r b rule: less_induct)
  case less
  have step: "stays A (snd (snd (du_rhs t l rhs (ridx + 1) r' b')))" if "ridx < length rhs" "stays A b'" for r' b'
    using that less.prems by (intro less.hyps) auto
  show ?case
  proof (cases "ridx < length rhs")
    case True
    then have "rhs ! ridx \<in> A" using less.prems(2) by auto
    then show ?thesis using True less.prems(1) step [OF True] by (subst du_rhs.simps) (simp add: Let_def)
  qed (use less.prems in \<open>simp add: du_rhs_end\<close>)
qed

lemma du_lhs_stays: "stays A b \<Longrightarrow> set lhs \<subseteq> A \<Longrightarrow> stays A (snd (du_lhs t lhs rhs ridx r lidx b))"
proof (induction "length lhs - lidx" arbitrary: lidx b rule: less_induct)
  case less
  have step: "stays A (snd (du_lhs t lhs rhs ridx r (lidx + 1) b'))" if "lidx < length lhs" "stays A b'" for b'
    using that less.prems by (intro less.hyps) auto
  show ?case
  proof (cases "lidx < length lhs")
    case True
    then have "lhs ! lidx \<in> A" using less.prems(2) by auto
    then show ?thesis using True less.prems(1) step [OF True] by (subst du_lhs.simps) (simp add: Let_def)
  qed (use less.prems in \<open>subst du_lhs.simps, simp\<close>)
qed

lemma du_loop_stays:
  "stays A b \<Longrightarrow> set lhs \<subseteq> A \<Longrightarrow> set rhs \<subseteq> A \<Longrightarrow> stays A (du_loop t lhs rhs lidx ridx b)"
proof (induction "length rhs - ridx" arbitrary: lidx ridx b rule: less_induct)
  case less
  show ?case
  proof (cases "lidx < length lhs \<and> ridx < length rhs")
    case True
    obtain ridx' r b1 where 1: "du_rhs t (lhs ! lidx) rhs ridx (rhs ! ridx) b = (ridx', r, b1)" by (metis prod_cases3)
    obtain lidx' b2 where 2: "du_lhs t lhs rhs ridx' r lidx b1 = (lidx', b2)" by (metis surj_pair)
    have "stays A b1" using du_rhs_stays [OF less.prems(1,3), of t "lhs ! lidx" ridx "rhs ! ridx"] 1 by simp
    then have "stays A b2" using du_lhs_stays [OF _ less.prems(2), of b1 t rhs ridx' r lidx] 2 by simp
    moreover have "ridx < ridx'" using du_rhs_advances [of ridx rhs t "lhs ! lidx" "rhs ! ridx" b] True 1 by simp
    ultimately have "stays A (du_loop t lhs rhs lidx' ridx' b2)" using True less.prems(2,3) by (intro less.hyps) auto
    then show ?thesis using True 1 2 by (subst du_loop.simps) simp
  next
    case False
    then have "du_loop t lhs rhs lidx ridx b = b" by (subst du_loop.simps) auto
    then show ?thesis using less.prems(1) by simp
  qed
qed

lemma scan_invert_stays:
  "stays A b \<Longrightarrow> set ms \<subseteq> A \<Longrightarrow> stays A (snd (snd (scan_invert m a u p ms x b)))
     \<and> set (fst (snd (scan_invert m a u p ms x b))) \<subseteq> A"
  by (induction ms arbitrary: x b; cases u) simp_all

lemma scan_many_stays:
  "stays A b \<Longrightarrow> set ms \<subseteq> A \<Longrightarrow> stays A (snd (snd (scan_many m a f u p ms x b)))
     \<and> set (fst (snd (scan_many m a f u p ms x b))) \<subseteq> A"
  by (induction ms arbitrary: x b; cases u) simp_all

lemma one_many_invert_stays:
  "stays A b \<Longrightarrow> set ps \<subseteq> A \<Longrightarrow> set many \<subseteq> A \<Longrightarrow> stays A (one_many_invert v m a f u ps many b)"
  by (induction ps arbitrary: many b) (simp_all add: case_prod_unfold Let_def scan_invert_stays)

lemma one_many_stays:
  "stays A b \<Longrightarrow> set ps \<subseteq> A \<Longrightarrow> set many \<subseteq> A \<Longrightarrow> stays A (one_many v m a f u ps many b)"
  by (induction ps arbitrary: many b) (simp_all add: case_prod_unfold Let_def scan_many_stays stays_add_all)

lemma scan_left_stays:
  "stays A b \<Longrightarrow> set lhs \<subseteq> A \<Longrightarrow> stays A (snd (snd (scan_left m a iv u lhs r lidx rescan x b)))"
proof (induction "length lhs - lidx" arbitrary: lidx rescan x b rule: less_induct)
  case less
  have step: "stays A (snd (snd (scan_left m a iv u lhs r (lidx + 1) rescan' x' b')))" if "lidx < length lhs" "stays A b'"
    for rescan' x' b' using that less.prems by (intro less.hyps) auto
  show ?case
  proof (cases "lidx < length lhs")
    case True
    then have "lhs ! lidx \<in> A" using less.prems(2) by auto
    then show ?thesis using True less.prems(1) step [OF True] by (subst scan_left.simps) (simp add: Let_def)
  qed (use less.prems in \<open>subst scan_left.simps, simp\<close>)
qed

lemma many_many_stays:
  "stays A b \<Longrightarrow> set lhs \<subseteq> A \<Longrightarrow> set rhs \<subseteq> A \<Longrightarrow> stays A (many_many v m a f iv u lhs rhs rescan b)"
proof (induction rhs arbitrary: rescan b)
  case (Cons r rs)
  obtain rescan' y b' where s: "scan_left m a iv u lhs r rescan rescan False b = (rescan', y, b')" by (metis prod_cases3)
  then have "stays A b'" using scan_left_stays [OF Cons.prems(1,2), of m a iv u r rescan rescan False] by simp
  then show ?case using Cons s by auto
qed simp

context slice_sort
begin

lemma structural_within:
  shows "set (DescendantOf srt t lhs rhs f iv u buffer) \<subseteq> set buffer \<union> set lhs \<union> set rhs"
    and "set (ChildOf srt t lhs rhs f iv u buffer) \<subseteq> set buffer \<union> set lhs \<union> set rhs"
    and "set (SiblingOf srt t lhs rhs f u buffer) \<subseteq> set buffer \<union> set lhs \<union> set rhs"
proof -
  let ?A = "set buffer \<union> set lhs \<union> set rhs"
  have b: "stays ?A (buffer, [])" by (auto simp: stays_def)
  have s: "set (srt k lhs) \<subseteq> ?A" "set (srt k rhs) \<subseteq> ?A" for k using srt_set by auto
  show "set (DescendantOf srt t lhs rhs f iv u buffer) \<subseteq> ?A"
    using du_loop_stays [OF b] s by (auto simp: DescendantOf_def descendantOfUnion_def stays_def Let_def)
  show "set (ChildOf srt t lhs rhs f iv u buffer) \<subseteq> ?A"
    using one_many_invert_stays [OF b] one_many_stays [OF b] s
    by (cases u; cases iv) (auto simp: ChildOf_def nestedSetOneManyLoop_def stays_def Let_def)
  show "set (SiblingOf srt t lhs rhs f u buffer) \<subseteq> ?A"
    using many_many_stays [OF b] s by (auto simp: SiblingOf_def nestedSetManyManyLoop_def stays_def Let_def)
qed

end

subsection \<open>Properties\<close>

text \<open>C15. The structural operators without union are exact: the spans that \<open>DescendantOf\<close>, \<open>ChildOf\<close> and
  \<open>SiblingOf\<close> append to the buffer are the right-hand spans, in their order, that are related to some
  left-hand span (or, for the negated operators, to none), although each looks at a sorted copy of the
  left-hand side from the position of a binary search on.\<close>

theorem structural_operators_exact:
  assumes "slice_sort srt" and "distinct lhs" and "lhs \<noteq> [] \<or> rhs \<noteq> []"
  shows "DescendantOf srt t lhs rhs falseForAll invert False buffer = buffer @ filter (\<lambda>r.
      (\<exists>l\<in>set lhs. if invert then descendant_of t l r else descendant_of t r l) \<noteq> falseForAll) rhs
    \<and> ChildOf srt t lhs rhs falseForAll invert False buffer = buffer @ filter (\<lambda>r.
      (\<exists>l\<in>set lhs. if invert then child_of t r l else child_of t l r) \<noteq> falseForAll) rhs
    \<and> SiblingOf srt t lhs rhs falseForAll False buffer = buffer @ filter (\<lambda>r.
      (\<exists>l\<in>set lhs. sibling_of t r l \<and> l \<noteq> r) \<noteq> falseForAll) rhs"
  using slice_sort.descendants_exact [OF assms(1,3)] slice_sort.children_exact [OF assms(1,3)]
    slice_sort.siblings_exact [OF assms(1,3,2)] by blast

text \<open>Two trees: span 1 (1 to 8) with the children 2 (2 to 5) and 4 (6 to 7), and the child 3 (3 to 4) of 2;
  span 5 (9 to 12) with the child 6 (10 to 11).\<close>

definition demo_tree :: span_tree where
  "demo_tree = \<lparr>nestedSetLeft = (\<lambda>s. if s = 1 then 1 else if s = 2 then 2 else if s = 3 then 3 else if s = 4 then 6
       else if s = 5 then 9 else if s = 6 then 10 else 0),
     nestedSetRight = (\<lambda>s. if s = 1 then 8 else if s = 2 then 5 else if s = 3 then 4 else if s = 4 then 7
       else if s = 5 then 12 else if s = 6 then 11 else 0),
     nestedSetParent = (\<lambda>s. if s = 1 then -1 else if s = 2 then 1 else if s = 3 then 2 else if s = 4 then 1
       else if s = 5 then -1 else if s = 6 then 9 else 0)\<rparr>"

theorem structural_operators_exact_witness:
  "DescendantOf sort_key demo_tree [2, 1] [4, 3, 6] False False False [] = [4, 3]
    \<and> ChildOf sort_key demo_tree [2, 1] [4, 3, 6] False False False [] = [4, 3]
    \<and> SiblingOf sort_key demo_tree [2, 1] [4, 3, 6] False False [] = [4]"
proof -
  have d: "distinct [2, 1 :: span]" "[2, 1 :: span] \<noteq> [] \<or> [4, 3, 6 :: span] \<noteq> []" by simp_all
  show ?thesis
    using structural_operators_exact [OF sort_key.slice_sort_axioms d, of demo_tree False False "[]"]
    by (simp add: demo_tree_def descendant_of_def child_of_def sibling_of_def)
qed

text \<open>The union of children and parents (\<open>&>\<close>, \<open>&<\<close>) is exact: starting from an empty buffer it
  returns the children that have a parent on the other side and the parents that have a child there, when the
  left bounds of the parents are distinct, as they are in one trace.\<close>

theorem child_union_is_exact:
  assumes "slice_sort srt" and "distinct (map (nestedSetLeft t) (if invert then rhs else lhs))" and "lhs \<noteq> [] \<or> rhs \<noteq> []"
  shows "set (ChildOf srt t lhs rhs False invert True []) =
    (let parents = (if invert then rhs else lhs); children = (if invert then lhs else rhs) in
      {c \<in> set children. \<exists>p\<in>set parents. child_of t p c} \<union> {p \<in> set parents. \<exists>c\<in>set children. child_of t p c})"
  using slice_sort.child_union_exact [OF assms] .

theorem child_union_is_exact_witness:
  "set (ChildOf sort_key demo_tree [1, 2, 5] [3, 4] False False True []) = {1, 2, 3, 4}"
proof -
  have "distinct (map (nestedSetLeft demo_tree) (if False then [3, 4] else [1, 2, 5]))"
    by (simp add: demo_tree_def)
  then show ?thesis
    using child_union_is_exact [OF sort_key.slice_sort_axioms, of demo_tree False "[3, 4]" "[1, 2, 5]"]
    by (simp add: Let_def demo_tree_def child_of_def) auto
qed

text \<open>The union of descendants and ancestors (\<open>&>>\<close>) misses spans. Of the left-hand spans 1 and 2 and
  the right-hand spans 3 and 4 it drops span 2, although span 3 is a descendant of it; and of the left-hand
  spans 4 and 5 and the right-hand span 6 it drops span 6, although it is a descendant of span 5.\<close>

theorem descendant_union_misses_spans:
  "DescendantOf sort_key demo_tree [1, 2] [3, 4] False False True [] = [3, 1, 4]
    \<and> descendant_of demo_tree 3 2
    \<and> DescendantOf sort_key demo_tree [4, 5] [6] False False True [] = [5]
    \<and> descendant_of demo_tree 6 5"
  by code_simp

end
