(* ===== verification/NestedSet.thy ===== *)
theory NestedSet
  imports Structural TraceId "HOL-Library.While_Combinator" "HOL-Library.List_Lexorder" "HOL-Library.AList"
begin

section \<open>Nested set bounds of a trace (tempodb/encoding/vparquet5/nested_set_model.go)\<close>

text \<open>
  Before a trace is written its spans get numbers: one walk over the tree of parents and children gives every
  span a left bound on the way down and a right bound on the way up. The structural operators
  (\<open>Structural\<close>) compare these numbers only.

  A node of the tree is an index into the list of all spans of the trace. The bounds are 32-bit integers in the
  code; two bounds per span stay below 2^31 for every trace that fits in memory, so they are integers here.
\<close>

record pq_span =
  SpanID :: bytes
  ParentSpanID :: bytes
  SpanKind :: int
  StatusCode :: int
  NestedSetLeft :: int
  NestedSetRight :: int
  ParentID :: int
  ChildCount :: int

record resource_spans =
  ResourceServiceName :: string
  ScopeSpans :: "pq_span list list"

record service_stats =
  StatsServiceName :: string
  SpanCount :: nat
  ErrorCount :: nat

definition IsRoot :: "pq_span \<Rightarrow> bool" where
  "IsRoot s \<longleftrightarrow> ParentSpanID s = []"

definition nestedSetRootParent :: int where
  "nestedSetRootParent = -1"

definition STATUS_CODE_ERROR :: int where "STATUS_CODE_ERROR = 2"
definition SPAN_KIND_SERVER :: int where "SPAN_KIND_SERVER = 2"
definition SPAN_KIND_CLIENT :: int where "SPAN_KIND_CLIENT = 3"

subsection \<open>The spans of a trace\<close>

definition all_nodes :: "resource_spans list \<Rightarrow> pq_span list" where
  "all_nodes rss = concat (concat (map ScopeSpans rss))"

text \<open>The first loop: the nodes by id, in the order of the spans; \<open>undoAssignment\<close> when an id occurs a third
  time.\<close>

record node_index =
  nodesByID :: "u64 \<rightharpoonup> nat list"
  rootNodes :: "nat list"
  undoAssignment :: bool

definition index_node :: "pq_span list \<Rightarrow> nat \<Rightarrow> node_index \<Rightarrow> node_index" where
  "index_node nodes i ix = (let
       s = nodes ! i;
       ident = SpanIDToUint64 (SpanID s);
       ix1 = (if IsRoot s then ix\<lparr>rootNodes := rootNodes ix @ [i]\<rparr> else ix)
     in case nodesByID ix ident of
         Some ns \<Rightarrow> ix1\<lparr>nodesByID := (nodesByID ix)(ident \<mapsto> ns @ [i]),
            undoAssignment := undoAssignment ix \<or> length (ns @ [i]) > 2\<rparr>
       | None \<Rightarrow> ix1\<lparr>nodesByID := (nodesByID ix)(ident \<mapsto> [i])\<rparr>)"

definition index_nodes :: "pq_span list \<Rightarrow> node_index" where
  "index_nodes nodes = fold (index_node nodes) [0..<length nodes]
     \<lparr>nodesByID = Map.empty, rootNodes = [], undoAssignment = False\<rparr>"

text \<open>The statistics of the services, sorted by name.\<close>

definition count_resource :: "resource_spans \<Rightarrow> (string \<times> service_stats) list \<Rightarrow> (string \<times> service_stats) list" where
  "count_resource rs ss = (let
       name = ResourceServiceName rs;
       old = (case map_of ss name of None \<Rightarrow> \<lparr>StatsServiceName = '''', SpanCount = 0, ErrorCount = 0\<rparr> | Some s \<Rightarrow> s);
       spans = concat (ScopeSpans rs);
       new = old\<lparr>SpanCount := SpanCount old + length spans,
         ErrorCount := ErrorCount old + length (filter (\<lambda>s. StatusCode s = STATUS_CODE_ERROR) spans)\<rparr>
     in AList.update name new ss)"

definition serviceStats :: "resource_spans list \<Rightarrow> service_stats list" where
  "serviceStats rss = map (\<lambda>(name, s). s\<lparr>StatsServiceName := name\<rparr>) (sort_key fst (fold count_resource rss []))"

subsection \<open>Linking\<close>

definition findParentNodeInMap :: "pq_span list \<Rightarrow> (u64 \<rightharpoonup> nat list) \<Rightarrow> nat \<Rightarrow> nat option" where
  "findParentNodeInMap nodes byID i =
     (if IsRoot (nodes ! i) then None
      else case byID (SpanIDToUint64 (ParentSpanID (nodes ! i))) of
          Some [p] \<Rightarrow> Some p
        | Some [p, q] \<Rightarrow> (let
             kindWant = (if SpanKind (nodes ! i) = SPAN_KIND_SERVER then SPAN_KIND_CLIENT else SPAN_KIND_SERVER)
           in if SpanKind (nodes ! p) = kindWant then Some p
              else if SpanKind (nodes ! q) = kindWant then Some q else None)
        | _ \<Rightarrow> None)"

record links =
  parent :: "nat \<Rightarrow> nat option"
  children :: "nat \<Rightarrow> nat list"
  connected :: bool

definition link_node :: "pq_span list \<Rightarrow> (u64 \<rightharpoonup> nat list) \<Rightarrow> nat \<Rightarrow> links \<Rightarrow> links" where
  "link_node nodes byID i ls = (case findParentNodeInMap nodes byID i of
       None \<Rightarrow> (if \<not> IsRoot (nodes ! i) then ls\<lparr>connected := False\<rparr> else ls)
     | Some p \<Rightarrow> ls\<lparr>parent := (parent ls)(i := Some p), children := (children ls)(p := children ls p @ [i])\<rparr>)"

definition link_nodes :: "pq_span list \<Rightarrow> (u64 \<rightharpoonup> nat list) \<Rightarrow> links" where
  "link_nodes nodes byID = fold (link_node nodes byID) [0..<length nodes]
     \<lparr>parent = (\<lambda>_. None), children = (\<lambda>_. []), connected = True\<rparr>"

subsection \<open>The walk\<close>

record walk =
  current :: "nat option"
  nextChild :: "nat \<Rightarrow> nat"
  lft :: "nat \<Rightarrow> int"
  rgt :: "nat \<Rightarrow> int"
  pid :: "nat \<Rightarrow> int"
  nestedSetBound :: int

definition walk_step :: "links \<Rightarrow> walk \<Rightarrow> walk" where
  "walk_step ls w = (case current w of
       None \<Rightarrow> w
     | Some i \<Rightarrow>
         (if nextChild w i < length (children ls i) then
            (let next = children ls i ! nextChild w i in
             w\<lparr>nextChild := (nextChild w)(i := nextChild w i + 1), lft := (lft w)(next := nestedSetBound w),
               pid := (pid w)(next := lft w i), nestedSetBound := nestedSetBound w + 1, current := Some next\<rparr>)
          else w\<lparr>rgt := (rgt w)(i := nestedSetBound w), nestedSetBound := nestedSetBound w + 1, current := parent ls i\<rparr>))"

definition walk_loop :: "links \<Rightarrow> walk \<Rightarrow> walk option" where
  "walk_loop ls = while_option (\<lambda>w. current w \<noteq> None) (walk_step ls)"

definition enter_root :: "nat \<Rightarrow> walk \<Rightarrow> walk" where
  "enter_root r w = w\<lparr>current := Some r, lft := (lft w)(r := nestedSetBound w), pid := (pid w)(r := nestedSetRootParent),
     nestedSetBound := nestedSetBound w + 1\<rparr>"

fun walk_roots :: "links \<Rightarrow> nat list \<Rightarrow> walk \<Rightarrow> walk option" where
  "walk_roots ls [] w = Some w"
| "walk_roots ls (r # rs) w = (case walk_loop ls (enter_root r w) of
     None \<Rightarrow> None | Some w' \<Rightarrow> walk_roots ls rs w')"

definition start_walk :: "pq_span list \<Rightarrow> walk" where
  "start_walk nodes = \<lparr>current = None, nextChild = (\<lambda>_. 0), lft = (\<lambda>i. NestedSetLeft (nodes ! i)),
     rgt = (\<lambda>i. NestedSetRight (nodes ! i)), pid = (\<lambda>i. ParentID (nodes ! i)), nestedSetBound = 1\<rparr>"

definition store_bounds :: "links \<Rightarrow> walk \<Rightarrow> pq_span list \<Rightarrow> pq_span list" where
  "store_bounds ls w nodes = map (\<lambda>i. (nodes ! i)\<lparr>NestedSetLeft := lft w i, NestedSetRight := rgt w i,
     ParentID := pid w i, ChildCount := int (length (children ls i))\<rparr>) [0..<length nodes]"

text \<open>The numbered spans, the statistics and whether the trace is connected; \<open>None\<close>: the walk does not end.\<close>

definition assignNestedSetModelBoundsAndServiceStats ::
    "resource_spans list \<Rightarrow> (pq_span list \<times> service_stats list \<times> bool) option" where
  "assignNestedSetModelBoundsAndServiceStats rss = (let
       nodes = all_nodes rss; stats = serviceStats rss; ix = index_nodes nodes
     in if rootNodes ix = [] then Some (nodes, stats, False)
        else if undoAssignment ix then
          Some (map (\<lambda>s. s\<lparr>NestedSetLeft := 0, NestedSetRight := 0, ParentID := 0, ChildCount := 0\<rparr>) nodes, stats, False)
        else (let ls = link_nodes nodes (nodesByID ix) in
          case walk_roots ls (rootNodes ix) (start_walk nodes) of
            None \<Rightarrow> None
          | Some w \<Rightarrow> Some (store_bounds ls w nodes, stats, connected ls)))"

subsection \<open>The relation of parents and children\<close>

definition parent_rel :: "(nat \<Rightarrow> nat option) \<Rightarrow> (nat \<times> nat) set" where
  "parent_rel par = {(p, c). par c = Some p}"

lemma parent_rel_iff [simp]: "(p, c) \<in> parent_rel par \<longleftrightarrow> par c = Some p"
  by (simp add: parent_rel_def)

text \<open>The numbered trees, with the nodes in the order of the walk.\<close>

datatype rose = Rose (node_of: nat) (subtrees: "rose list")

fun rose_nodes :: "rose \<Rightarrow> nat list" where
  "rose_nodes (Rose i ts) = i # concat (map rose_nodes ts)"

fun follows :: "(nat \<Rightarrow> nat list) \<Rightarrow> rose \<Rightarrow> bool" where
  "follows ch (Rose i ts) \<longleftrightarrow> map node_of ts = ch i \<and> list_all (follows ch) ts"

abbreviation forest_nodes :: "rose list \<Rightarrow> nat list" where
  "forest_nodes ts \<equiv> concat (map rose_nodes ts)"

lemma node_in_rose [simp]: "node_of t \<in> set (rose_nodes t)"
  by (cases t) simp

lemma distinct_forest:
  assumes "distinct (map node_of ts)" and "\<And>t. t \<in> set ts \<Longrightarrow> distinct (rose_nodes t)"
    and "\<And>t u. t \<in> set ts \<Longrightarrow> u \<in> set ts \<Longrightarrow> node_of t \<noteq> node_of u \<Longrightarrow> set (rose_nodes t) \<inter> set (rose_nodes u) = {}"
  shows "distinct (forest_nodes ts)"
  using assms
proof (induction ts)
  case (Cons t ts)
  have "set (rose_nodes t) \<inter> set (rose_nodes u) = {}" if "u \<in> set ts" for u
    using Cons.prems(1) that by (intro Cons.prems(3)) auto
  then show ?case using Cons by auto
qed simp

locale linked_spans =
  fixes par :: "nat \<Rightarrow> nat option" and ch :: "nat \<Rightarrow> nat list"
  assumes children_of: "c \<in> set (ch p) \<longleftrightarrow> par c = Some p"
    and children_once: "distinct (ch p)"
    and finite_links: "finite (parent_rel par)"
begin

lemma ancestors_comparable:
  assumes "(a, x) \<in> (parent_rel par)\<^sup>*" and "(b, x) \<in> (parent_rel par)\<^sup>*"
  shows "(a, b) \<in> (parent_rel par)\<^sup>* \<or> (b, a) \<in> (parent_rel par)\<^sup>*"
  using assms
proof (induction rule: rtrancl_induct)
  case (step y z)
  from step.prems show ?case
  proof (cases rule: rtranclE)
    case base
    then show ?thesis using step.hyps by (blast intro: rtrancl_into_rtrancl)
  next
    case (step y')
    then have "y' = y" using \<open>(y, z) \<in> parent_rel par\<close> by simp
    then show ?thesis using step \<open>(b, y) \<in> (parent_rel par)\<^sup>* \<Longrightarrow> _\<close> by blast
  qed
qed blast

text \<open>Nothing below a root is on a cycle.\<close>

lemma acyclic_below_root:
  assumes "par r = None" and "(r, x) \<in> (parent_rel par)\<^sup>*"
  shows "(x, x) \<notin> (parent_rel par)\<^sup>+"
  using assms(2)
proof (induction rule: rtrancl_induct)
  case base
  show ?case using assms(1) by (auto dest: tranclD2)
next
  case (step y z)
  show ?case
  proof
    assume "(z, z) \<in> (parent_rel par)\<^sup>+"
    then obtain w where "(z, w) \<in> (parent_rel par)\<^sup>*" "(w, z) \<in> parent_rel par" by (auto dest: tranclD2)
    then have "(z, y) \<in> (parent_rel par)\<^sup>*" using step.hyps(2) by simp
    then show False using step by (meson rtrancl_into_trancl2)
  qed
qed

lemma tree_of_node:
  assumes r: "par r = None" and x: "(r, x) \<in> (parent_rel par)\<^sup>*"
  shows "\<exists>t. node_of t = x \<and> follows ch t"
proof -
  let ?P = "parent_rel par"
  let ?Q = "{(p, c) \<in> ?P. (r, p) \<in> ?P\<^sup>*}"
  have sub: "?Q\<^sup>+ \<subseteq> ?P\<^sup>+" by (intro trancl_mono_subset) auto
  have "acyclic ?Q"
  proof (rule acyclicI, intro allI notI)
    fix y assume y: "(y, y) \<in> ?Q\<^sup>+"
    then have "(r, y) \<in> ?P\<^sup>*" by (auto dest: tranclD)
    then show False using acyclic_below_root [OF r] y sub by blast
  qed
  moreover have "finite ?Q" by (rule finite_subset [OF _ finite_links]) auto
  ultimately have "wf (?Q\<inverse>)" by (intro finite_acyclic_wf_converse)
  then show ?thesis using x
  proof (induction x rule: wf_induct_rule)
    case (less x)
    have "\<exists>t. node_of t = c \<and> follows ch t" if "c \<in> set (ch x)" for c
    proof -
      have c: "(x, c) \<in> ?P" using that by (simp add: children_of)
      then have "(r, c) \<in> ?P\<^sup>*" using less.prems by (rule rtrancl_into_rtrancl [rotated])
      moreover have "(c, x) \<in> ?Q\<inverse>" using c less.prems by simp
      ultimately show ?thesis using less.IH by blast
    qed
    then obtain f where f: "\<And>c. c \<in> set (ch x) \<Longrightarrow> node_of (f c) = c \<and> follows ch (f c)" by metis
    have "map (\<lambda>c. node_of (f c)) (ch x) = ch x" using f by (simp add: map_idI)
    then have "node_of (Rose x (map f (ch x))) = x \<and> follows ch (Rose x (map f (ch x)))"
      using f by (simp add: list_all_iff comp_def)
    then show ?case by blast
  qed
qed

lemma nodes_of_tree: "follows ch t \<Longrightarrow> set (rose_nodes t) = {y. (node_of t, y) \<in> (parent_rel par)\<^sup>*}"
proof (induction t)
  case (Rose i ts)
  have sub: "set (rose_nodes t) = {y. (node_of t, y) \<in> (parent_rel par)\<^sup>*}" if "t \<in> set ts" for t
    using Rose that by (simp add: list_all_iff)
  have lab: "node_of ` set ts = {c. (i, c) \<in> parent_rel par}"
    using Rose.prems children_of by (auto simp flip: set_map)
  have "y \<in> {y. (i, y) \<in> (parent_rel par)\<^sup>*} \<longleftrightarrow> y = i \<or> (\<exists>c. (i, c) \<in> parent_rel par \<and> (c, y) \<in> (parent_rel par)\<^sup>*)" for y
    by (auto elim: converse_rtranclE intro: converse_rtrancl_into_rtrancl)
  also have "\<dots> y \<longleftrightarrow> y = i \<or> (\<exists>t\<in>set ts. (node_of t, y) \<in> (parent_rel par)\<^sup>*)" for y
    using lab by (metis (mono_tags, lifting) image_iff mem_Collect_eq)
  also have "\<dots> y \<longleftrightarrow> y \<in> set (rose_nodes (Rose i ts))" for y using sub by auto
  finally show ?case by auto
qed

end

subsection \<open>The numbers of a tree\<close>

definition width :: "rose \<Rightarrow> int" where
  "width t = 2 * int (length (rose_nodes t))"

fun numbers :: "int \<Rightarrow> int \<Rightarrow> rose \<Rightarrow> nat \<rightharpoonup> int \<times> int \<times> int"
  and forest_numbers :: "int \<Rightarrow> int \<Rightarrow> rose list \<Rightarrow> nat \<rightharpoonup> int \<times> int \<times> int" where
  "numbers pv b (Rose i ts) = (forest_numbers b (b + 1) ts)(i \<mapsto> (b, b + 1 + sum_list (map width ts), pv))"
| "forest_numbers pv b [] = Map.empty"
| "forest_numbers pv b (t # ts) = numbers pv b t ++ forest_numbers pv (b + width t) ts"

lemma width_Rose: "width (Rose i ts) = 2 + sum_list (map width ts)"
proof -
  have "int (length (forest_nodes ts)) = sum_list (map (\<lambda>t. int (length (rose_nodes t))) ts)"
    by (induction ts) auto
  moreover have "sum_list (map width ts) = 2 * sum_list (map (\<lambda>t. int (length (rose_nodes t))) ts)"
    by (induction ts) (auto simp: width_def)
  ultimately show ?thesis by (simp add: width_def)
qed

lemma width_pos: "width t > 0"
  by (cases t) (simp add: width_def)

lemma widths_nonneg: "sum_list (map width ts) \<ge> 0"
  by (intro sum_list_nonneg) (auto simp: less_imp_le width_pos)

lemma dom_numbers:
  "dom (numbers pv b t) = set (rose_nodes t)"
  "dom (forest_numbers pv b ts) = set (forest_nodes ts)"
  by (induction pv b t and pv b ts rule: numbers_forest_numbers.induct)
    (simp_all only: numbers.simps forest_numbers.simps dom_fun_upd dom_map_add dom_empty option.distinct if_False
      rose_nodes.simps list.map concat.simps list.set set_append Un_commute)

lemma numbers_None: "numbers pv b t j = None \<longleftrightarrow> j \<notin> set (rose_nodes t)"
  using dom_numbers(1) [of pv b t] by blast

lemma not_in_tree: "j \<notin> set (rose_nodes t) \<Longrightarrow> j \<noteq> node_of t"
  by auto

lemma numbers_bounds:
  "numbers pv b t j = Some (l, r, p) \<Longrightarrow> b \<le> l \<and> l < r \<and> r < b + width t"
  "forest_numbers pv b ts j = Some (l, r, p) \<Longrightarrow> b \<le> l \<and> l < r \<and> r < b + sum_list (map width ts)"
proof (induction pv b t and pv b ts arbitrary: l r p and l r p rule: numbers_forest_numbers.induct)
  case (1 pv b i ts)
  then show ?case using widths_nonneg [of ts] by (auto simp: width_Rose split: if_splits)
next
  case (3 pv b t ts)
  then show ?case using widths_nonneg [of ts] width_pos [of t] by (fastforce simp: map_add_Some_iff)
qed simp

lemma forest_number_of:
  "distinct (forest_nodes ts) \<Longrightarrow> forest_numbers pv b ts j = Some n \<Longrightarrow>
     \<exists>t\<in>set ts. j \<in> set (rose_nodes t) \<and> (\<exists>b'. numbers pv b' t j = Some n \<and> b \<le> b')"
proof (induction ts arbitrary: b)
  case (Cons t ts)
  show ?case
  proof (cases "forest_numbers pv (b + width t) ts j = Some n")
    case True
    then obtain u b' where "u \<in> set ts" "j \<in> set (rose_nodes u)" "numbers pv b' u j = Some n" "b + width t \<le> b'"
      using Cons.IH Cons.prems(1) by fastforce
    then show ?thesis using width_pos [of t] by (intro bexI [of _ u]) (auto intro!: exI [of _ b'])
  next
    case False
    then have "numbers pv b t j = Some n" using Cons.prems(2) by (auto simp: map_add_Some_iff)
    then show ?thesis using dom_numbers(1) [of pv b t] by (auto intro!: exI [of _ b])
  qed
qed simp

context linked_spans
begin

lemma tree_closed:
  "follows ch t \<Longrightarrow> j \<in> set (rose_nodes t) \<Longrightarrow> (j, k) \<in> (parent_rel par)\<^sup>* \<Longrightarrow> k \<in> set (rose_nodes t)"
  using nodes_of_tree by (auto intro: rtrancl_trans)

lemma siblings_apart:
  assumes r: "par r = None" and i: "(r, i) \<in> (parent_rel par)\<^sup>*"
    and t: "follows ch t" "par (node_of t) = Some i" and u: "follows ch u" "par (node_of u) = Some i"
    and ne: "node_of t \<noteq> node_of u"
  shows "set (rose_nodes t) \<inter> set (rose_nodes u) = {}"
proof -
  have no: "(node_of t, node_of u) \<notin> (parent_rel par)\<^sup>*"
    if h: "par (node_of t) = Some i" "par (node_of u) = Some i" "node_of t \<noteq> node_of u" for t u
  proof
    assume "(node_of t, node_of u) \<in> (parent_rel par)\<^sup>*"
    then obtain w where "(node_of t, w) \<in> (parent_rel par)\<^sup>*" "par (node_of u) = Some w"
      using h(3) by (auto elim: rtranclE)
    then have "(node_of t, i) \<in> (parent_rel par)\<^sup>*" using h by simp
    then have "(i, i) \<in> (parent_rel par)\<^sup>+" using h(1) by (meson parent_rel_iff rtrancl_into_trancl2)
    then show False using acyclic_below_root [OF r i] by blast
  qed
  have "(node_of t, x) \<in> (parent_rel par)\<^sup>* \<Longrightarrow> (node_of u, x) \<notin> (parent_rel par)\<^sup>*" for x
    using ancestors_comparable [of "node_of t" x "node_of u"] no [OF t(2) u(2) ne] no [OF u(2) t(2) ne [symmetric]] by blast
  then show ?thesis using nodes_of_tree [OF t(1)] nodes_of_tree [OF u(1)] by blast
qed

lemma tree_distinct:
  "follows ch t \<Longrightarrow> par r = None \<Longrightarrow> (r, node_of t) \<in> (parent_rel par)\<^sup>* \<Longrightarrow> distinct (rose_nodes t)"
proof (induction t)
  case (Rose i ts)
  have i: "(r, i) \<in> (parent_rel par)\<^sup>*" using Rose.prems(3) by simp
  have lab: "map node_of ts = ch i" using Rose.prems(1) by simp
  have kids: "follows ch t" "par (node_of t) = Some i" "(r, node_of t) \<in> (parent_rel par)\<^sup>*" if "t \<in> set ts" for t
  proof -
    show "follows ch t" using Rose.prems(1) that by (simp add: list_all_iff)
    have "node_of t \<in> set (ch i)" using that by (simp flip: lab)
    then show "par (node_of t) = Some i" by (simp add: children_of)
    then show "(r, node_of t) \<in> (parent_rel par)\<^sup>*" using i by (auto intro: rtrancl_into_rtrancl)
  qed
  have "distinct (forest_nodes ts)"
  proof (rule distinct_forest)
    show "distinct (map node_of ts)" using lab children_once by simp
    show "distinct (rose_nodes t)" if "t \<in> set ts" for t using Rose.IH [OF that] kids [OF that] Rose.prems(2) by blast
    show "set (rose_nodes t) \<inter> set (rose_nodes u) = {}" if "t \<in> set ts" "u \<in> set ts" "node_of t \<noteq> node_of u" for t u
      using siblings_apart [OF Rose.prems(2) i] kids that by blast
  qed
  moreover have "i \<notin> set (rose_nodes t)" if "t \<in> set ts" for t
  proof
    assume "i \<in> set (rose_nodes t)"
    then have "(node_of t, i) \<in> (parent_rel par)\<^sup>*" using nodes_of_tree kids(1) [OF that] by blast
    then have "(i, i) \<in> (parent_rel par)\<^sup>+" using kids(2) [OF that] by (meson parent_rel_iff rtrancl_into_trancl2)
    then show False using acyclic_below_root [OF Rose.prems(2) i] by blast
  qed
  ultimately show ?case by auto
qed

end

subsection \<open>Intervals lie in each other exactly for descendants\<close>

definition inside :: "int \<times> int \<times> int \<Rightarrow> int \<times> int \<times> int \<Rightarrow> bool" where
  "inside n m \<longleftrightarrow> fst n > fst m \<and> fst (snd n) < fst (snd m)"

definition nests :: "(nat \<times> nat) set \<Rightarrow> nat set \<Rightarrow> (nat \<rightharpoonup> int \<times> int \<times> int) \<Rightarrow> bool" where
  "nests P A num \<longleftrightarrow> (\<forall>j\<in>A. \<forall>k\<in>A. \<forall>n m. num j = Some n \<longrightarrow> num k = Some m \<longrightarrow> (inside m n \<longleftrightarrow> (j, k) \<in> P\<^sup>+))"

definition closed_under :: "(nat \<times> nat) set \<Rightarrow> nat set \<Rightarrow> bool" where
  "closed_under P A \<longleftrightarrow> (\<forall>j\<in>A. \<forall>k. (j, k) \<in> P\<^sup>+ \<longrightarrow> k \<in> A)"

lemma nestsD:
  "nests P A num \<Longrightarrow> j \<in> A \<Longrightarrow> k \<in> A \<Longrightarrow> num j = Some n \<Longrightarrow> num k = Some m \<Longrightarrow> inside m n \<longleftrightarrow> (j, k) \<in> P\<^sup>+"
  unfolding nests_def by blast

lemma forest_nests:
  assumes "distinct (forest_nodes ts)"
    and "\<And>t pv b. t \<in> set ts \<Longrightarrow> nests P (set (rose_nodes t)) (numbers pv b t)"
    and "\<And>t. t \<in> set ts \<Longrightarrow> closed_under P (set (rose_nodes t))"
  shows "nests P (set (forest_nodes ts)) (forest_numbers pv b ts)"
  using assms
proof (induction ts arbitrary: b)
  case (Cons t ts)
  let ?rest = "forest_numbers pv (b + width t) ts"
  have IH: "nests P (set (forest_nodes ts)) ?rest" using Cons.prems by (intro Cons.IH) auto
  have t: "nests P (set (rose_nodes t)) (numbers pv b t)" and ct: "closed_under P (set (rose_nodes t))"
    and cts: "closed_under P (set (forest_nodes ts))"
    using Cons.prems(2,3) by (auto simp: closed_under_def) blast
  have disj: "set (rose_nodes t) \<inter> set (forest_nodes ts) = {}" using Cons.prems(1) by auto
  have dt: "dom (numbers pv b t) = set (rose_nodes t)" and dr: "dom ?rest = set (forest_nodes ts)"
    by (rule dom_numbers)+
  have inT: "(numbers pv b t ++ ?rest) j = numbers pv b t j" if "j \<in> set (rose_nodes t)" for j
    using that disj dr by (intro map_add_dom_app_simps(3)) blast
  have inR: "(numbers pv b t ++ ?rest) j = ?rest j" if "j \<in> set (forest_nodes ts)" for j
    using that dr by (intro map_add_dom_app_simps(1)) blast
  have apart: "\<not> inside m n \<and> \<not> inside n m" if "numbers pv b t j = Some n" "?rest k = Some m" for j k n m
    using numbers_bounds(1) [of pv b t j "fst n" "fst (snd n)" "snd (snd n)"]
      numbers_bounds(2) [of pv "b + width t" ts k "fst m" "fst (snd m)" "snd (snd m)"] that
    by (auto simp: inside_def)
  show ?case unfolding nests_def
  proof (intro ballI allI impI)
    fix j k n m
    assume jk: "j \<in> set (forest_nodes (t # ts))" "k \<in> set (forest_nodes (t # ts))"
      and n: "forest_numbers pv b (t # ts) j = Some n" and m: "forest_numbers pv b (t # ts) k = Some m"
    consider "j \<in> set (rose_nodes t)" "k \<in> set (rose_nodes t)" | "j \<in> set (rose_nodes t)" "k \<in> set (forest_nodes ts)"
      | "j \<in> set (forest_nodes ts)" "k \<in> set (rose_nodes t)" | "j \<in> set (forest_nodes ts)" "k \<in> set (forest_nodes ts)"
      using jk by auto
    then show "inside m n \<longleftrightarrow> (j, k) \<in> P\<^sup>+"
    proof cases
      case 1
      then show ?thesis using n m inT by (intro nestsD [OF t]) simp_all
    next
      case 2
      then have "\<not> inside m n" using n m inT inR apart by auto
      moreover have "(j, k) \<notin> P\<^sup>+" using 2 ct disj unfolding closed_under_def by blast
      ultimately show ?thesis by blast
    next
      case 3
      then have "\<not> inside m n" using n m inT inR apart by auto
      moreover have "(j, k) \<notin> P\<^sup>+" using 3 cts disj unfolding closed_under_def by blast
      ultimately show ?thesis by blast
    next
      case 4
      then show ?thesis using n m inR by (intro nestsD [OF IH]) simp_all
    qed
  qed
qed (simp add: nests_def)

context linked_spans
begin

lemma tree_is_closed: "follows ch t \<Longrightarrow> closed_under (parent_rel par) (set (rose_nodes t))"
  unfolding closed_under_def using tree_closed by (blast intro: trancl_into_rtrancl)

lemma subtree_facts:
  assumes "follows ch (Rose i ts)" and "(r, i) \<in> (parent_rel par)\<^sup>*" and "t \<in> set ts"
  shows "follows ch t" and "par (node_of t) = Some i" and "(r, node_of t) \<in> (parent_rel par)\<^sup>*"
proof -
  show "follows ch t" using assms by (simp add: list_all_iff)
  have "map node_of ts = ch i" using assms(1) by simp
  then have "node_of t \<in> set (ch i)" using assms(3) by (metis image_eqI set_map)
  then show "par (node_of t) = Some i" by (simp add: children_of)
  then show "(r, node_of t) \<in> (parent_rel par)\<^sup>*" using assms(2) by (auto intro: rtrancl_into_rtrancl)
qed

lemma tree_nests:
  "follows ch t \<Longrightarrow> par r = None \<Longrightarrow> (r, node_of t) \<in> (parent_rel par)\<^sup>* \<Longrightarrow>
     nests (parent_rel par) (set (rose_nodes t)) (numbers pv b t)"
proof (induction t arbitrary: pv b)
  case (Rose i ts)
  let ?P = "parent_rel par" and ?sub = "forest_numbers b (b + 1) ts"
  have i: "(r, i) \<in> ?P\<^sup>*" using Rose.prems(3) by simp
  note kids = subtree_facts [OF Rose.prems(1) i]
  have d: "distinct (rose_nodes (Rose i ts))" by (rule tree_distinct [OF Rose.prems])
  have IH: "nests ?P (set (forest_nodes ts)) ?sub"
    using d Rose.IH kids Rose.prems(2) tree_is_closed by (intro forest_nests) auto
  have below: "(i, k) \<in> ?P\<^sup>+" if "k \<in> set (forest_nodes ts)" for k
  proof -
    have "\<exists>t\<in>set ts. k \<in> set (rose_nodes t)" using that by simp
    then obtain t where t: "t \<in> set ts" "k \<in> set (rose_nodes t)" by blast
    then have "(node_of t, k) \<in> ?P\<^sup>*" using nodes_of_tree kids(1) by blast
    moreover have "(i, node_of t) \<in> ?P" using kids(2) [OF t(1)] by simp
    ultimately show ?thesis by (rule rtrancl_into_trancl2 [rotated])
  qed
  have up: "(j, i) \<notin> ?P\<^sup>+" if "j \<in> set (rose_nodes (Rose i ts))" for j
  proof
    assume "(j, i) \<in> ?P\<^sup>+"
    then have "(i, i) \<in> ?P\<^sup>+" using that below by (auto intro: trancl_trans)
    then show False using acyclic_below_root [OF Rose.prems(2) i] by blast
  qed
  have sub: "fst n > b \<and> fst (snd n) < b + 1 + sum_list (map width ts)" if "?sub k = Some n" for k n
    using numbers_bounds(2) [of b "b + 1" ts k "fst n" "fst (snd n)" "snd (snd n)"] that by simp
  have notin: "i \<notin> set (forest_nodes ts)" using d by auto
  show ?case unfolding nests_def
  proof (intro ballI allI impI)
    fix j k n m
    assume jk: "j \<in> set (rose_nodes (Rose i ts))" "k \<in> set (rose_nodes (Rose i ts))"
      and n: "numbers pv b (Rose i ts) j = Some n" and m: "numbers pv b (Rose i ts) k = Some m"
    consider "k = i" | "k \<noteq> i" "j = i" | "k \<noteq> i" "j \<noteq> i" by blast
    then show "inside m n \<longleftrightarrow> (j, k) \<in> ?P\<^sup>+"
    proof cases
      case 1
      then have "m = (b, b + 1 + sum_list (map width ts), pv)" using m by simp
      moreover have "n = m \<or> ?sub j = Some n" using n m 1 by (simp split: if_splits)
      ultimately have "\<not> inside m n" using sub [of j n] by (auto simp: inside_def)
      then show ?thesis using up [OF jk(1)] 1 by blast
    next
      case 2
      then have "?sub k = Some m" "n = (b, b + 1 + sum_list (map width ts), pv)" "k \<in> set (forest_nodes ts)"
        using n m jk by simp_all
      then show ?thesis using sub below 2 by (simp add: inside_def)
    next
      case 3
      then show ?thesis using n m jk by (intro nestsD [OF IH]) simp_all
    qed
  qed
qed

end

subsection \<open>Left bounds identify the spans, and the parent number is the left bound of the parent\<close>

lemma forest_distinct: "distinct (forest_nodes ts) \<Longrightarrow> t \<in> set ts \<Longrightarrow> distinct (rose_nodes t)"
  by (induction ts) auto

lemma forest_cases:
  assumes "forest_numbers pv b (t # ts) j = Some n" and "distinct (forest_nodes (t # ts))"
  obtains "j \<in> set (rose_nodes t)" "numbers pv b t j = Some n" "j \<notin> set (forest_nodes ts)"
  | "j \<in> set (forest_nodes ts)" "forest_numbers pv (b + width t) ts j = Some n" "j \<notin> set (rose_nodes t)"
proof (cases "j \<in> set (forest_nodes ts)")
  case True
  then have "forest_numbers pv (b + width t) ts j = Some n" "j \<notin> set (rose_nodes t)"
    using assms dom_numbers(2) [of pv "b + width t" ts] by (auto simp: map_add_dom_app_simps(1))
  then show thesis using that(2) True by blast
next
  case False
  then have "numbers pv b t j = Some n"
    using assms(1) dom_numbers(2) [of pv "b + width t" ts] by (simp add: map_add_dom_app_simps(3))
  then show thesis using that(1) False dom_numbers(1) [of pv b t] by blast
qed

lemma forest_lookup:
  assumes "distinct (forest_nodes (t # ts))"
  shows "j \<in> set (rose_nodes t) \<Longrightarrow> forest_numbers pv b (t # ts) j = numbers pv b t j"
    and "j \<in> set (forest_nodes ts) \<Longrightarrow> forest_numbers pv b (t # ts) j = forest_numbers pv (b + width t) ts j"
proof -
  show "j \<in> set (forest_nodes ts) \<Longrightarrow> forest_numbers pv b (t # ts) j = forest_numbers pv (b + width t) ts j"
    using dom_numbers(2) [of pv "b + width t" ts] by (simp add: map_add_dom_app_simps(1))
  assume "j \<in> set (rose_nodes t)"
  then have "j \<notin> set (forest_nodes ts)" using assms by auto
  then show "forest_numbers pv b (t # ts) j = numbers pv b t j"
    using dom_numbers(2) [of pv "b + width t" ts] by (simp add: map_add_dom_app_simps(3))
qed

lemma lefts_distinct:
  "distinct (rose_nodes t) \<Longrightarrow> numbers pv b t j = Some n \<Longrightarrow> numbers pv b t k = Some m \<Longrightarrow> fst n = fst m \<Longrightarrow> j = k"
  "distinct (forest_nodes ts) \<Longrightarrow> forest_numbers pv b ts j = Some n \<Longrightarrow> forest_numbers pv b ts k = Some m
    \<Longrightarrow> fst n = fst m \<Longrightarrow> j = k"
proof (induction pv b t and pv b ts arbitrary: n m j k and n m j k rule: numbers_forest_numbers.induct)
  case (1 pv b i ts)
  have "fst x > b" if "forest_numbers b (b + 1) ts l = Some x" for l x
    using numbers_bounds(2) [of b "b + 1" ts l "fst x" "fst (snd x)" "snd (snd x)"] that by simp
  note sub = this
  have d: "distinct (forest_nodes ts)" using "1.prems"(1) by simp
  have other: "fst n \<noteq> fst m" if "(j = i) \<noteq> (k = i)"
    using "1.prems"(2,3) that sub [of j n] sub [of k m] by (auto split: if_splits)
  show ?case
  proof (cases "j = i")
    case False
    then have "k \<noteq> i" using other "1.prems"(4) by blast
    then show ?thesis using "1.IH" [OF d _ _ "1.prems"(4)] "1.prems"(2,3) False by simp
  qed (use other "1.prems"(4) in blast)
next
  case (3 pv b t ts)
  have apart: "fst x < fst y" if "numbers pv b t l = Some x" "forest_numbers pv (b + width t) ts l' = Some y" for l l' x y
    using numbers_bounds(1) [of pv b t l "fst x" "fst (snd x)" "snd (snd x)"]
      numbers_bounds(2) [of pv "b + width t" ts l' "fst y" "fst (snd y)" "snd (snd y)"] that by simp
  have d: "distinct (rose_nodes t)" "distinct (forest_nodes ts)" using "3.prems"(1) by simp_all
  show ?case
    using "3.prems"(2,1)
  proof (cases rule: forest_cases)
    case j: 1
    show ?thesis using "3.prems"(3,1)
    proof (cases rule: forest_cases)
      case 1
      then show ?thesis using "3.IH"(1) [OF d(1) j(2) _ "3.prems"(4)] by blast
    next
      case 2
      then show ?thesis using apart [OF j(2)] "3.prems"(4) by fastforce
    qed
  next
    case j: 2
    show ?thesis using "3.prems"(3,1)
    proof (cases rule: forest_cases)
      case 1
      then show ?thesis using apart [OF _ j(2)] "3.prems"(4) by fastforce
    next
      case 2
      then show ?thesis using "3.IH"(2) [OF d(2) j(2) _ "3.prems"(4)] by blast
    qed
  qed
qed simp

definition names_parent :: "(nat \<Rightarrow> nat option) \<Rightarrow> (nat \<rightharpoonup> int \<times> int \<times> int) \<Rightarrow> nat \<Rightarrow> int \<times> int \<times> int \<Rightarrow> bool" where
  "names_parent par num k n \<longleftrightarrow> (\<exists>q m. par k = Some q \<and> num q = Some m \<and> fst m = snd (snd n))"

lemma forest_names_parent:
  assumes "distinct (forest_nodes ts)"
    and "\<And>t pv b k n. t \<in> set ts \<Longrightarrow> numbers pv b t k = Some n \<Longrightarrow>
      k = node_of t \<and> snd (snd n) = pv \<or> names_parent par (numbers pv b t) k n"
  shows "forest_numbers pv b ts k = Some n \<Longrightarrow>
      k \<in> node_of ` set ts \<and> snd (snd n) = pv \<or> names_parent par (forest_numbers pv b ts) k n"
  using assms
proof (induction ts arbitrary: b)
  case (Cons t ts)
  from Cons.prems(1,2) show ?case
  proof (cases rule: forest_cases)
    case 1
    have "q \<in> set (rose_nodes t)" if "numbers pv b t q = Some m" for q m
      using that dom_numbers(1) [of pv b t] by blast
    then show ?thesis
      using Cons.prems(3) [of t pv b k n] 1 forest_lookup(1) [OF Cons.prems(2), of _ pv b]
      unfolding names_parent_def by fastforce
  next
    case 2
    have q: "q \<in> set (forest_nodes ts)" if "forest_numbers pv (b + width t) ts q = Some m" for q m
      using that dom_numbers(2) [of pv "b + width t" ts] by blast
    have "k \<in> node_of ` set ts \<and> snd (snd n) = pv \<or> names_parent par (forest_numbers pv (b + width t) ts) k n"
      using 2(2) Cons.prems(2,3) by (intro Cons.IH) auto
    then show ?thesis
      using q forest_lookup(2) [OF Cons.prems(2), of _ pv b] unfolding names_parent_def by fastforce
  qed
qed simp

context linked_spans
begin

lemma tree_names_parent:
  "follows ch t \<Longrightarrow> distinct (rose_nodes t) \<Longrightarrow> numbers pv b t k = Some n \<Longrightarrow>
     k = node_of t \<and> snd (snd n) = pv \<or> names_parent par (numbers pv b t) k n"
proof (induction t arbitrary: pv b k n)
  case (Rose i ts)
  show ?case
  proof (cases "k = i")
    case True
    then show ?thesis using Rose.prems(3) by auto
  next
    case False
    then have k: "forest_numbers b (b + 1) ts k = Some n" using Rose.prems(3) by simp
    have "k \<in> node_of ` set ts \<and> snd (snd n) = b \<or> names_parent par (forest_numbers b (b + 1) ts) k n"
    proof (rule forest_names_parent [OF _ _ k])
      show d: "distinct (forest_nodes ts)" using Rose.prems(2) by simp
      show "k = node_of t \<and> snd (snd n) = pv \<or> names_parent par (numbers pv b t) k n"
        if "t \<in> set ts" "numbers pv b t k = Some n" for t pv b k n
        using that Rose.prems(1) forest_distinct [OF d that(1)] by (intro Rose.IH) (auto simp: list_all_iff)
    qed
    then show ?thesis
    proof
      assume h: "k \<in> node_of ` set ts \<and> snd (snd n) = b"
      then obtain t where "t \<in> set ts" "k = node_of t" by blast
      moreover have "map node_of ts = ch i" using Rose.prems(1) by simp
      ultimately have "k \<in> set (ch i)" by (metis image_eqI set_map)
      then have "par k = Some i" by (simp add: children_of)
      then show ?thesis using h by (simp add: names_parent_def)
    next
      assume h: "names_parent par (forest_numbers b (b + 1) ts) k n"
      then obtain q m where q: "par k = Some q" "forest_numbers b (b + 1) ts q = Some m" "fst m = snd (snd n)"
        unfolding names_parent_def by blast
      then have "q \<noteq> i" using Rose.prems(2) dom_numbers(2) [of b "b + 1" ts] by auto
      then have "numbers pv b (Rose i ts) q = Some m" using q by simp
      then show ?thesis using q unfolding names_parent_def by blast
    qed
  qed
qed

end

subsection \<open>The walk computes these numbers\<close>

definition stored :: "(nat \<rightharpoonup> int \<times> int \<times> int) \<Rightarrow> walk \<Rightarrow> walk \<Rightarrow> bool" where
  "stored num w w' \<longleftrightarrow> (\<forall>j. (lft w' j, rgt w' j, pid w' j) =
     (case num j of None \<Rightarrow> (lft w j, rgt w j, pid w j) | Some n \<Rightarrow> n))"

lemma stored_empty: "stored Map.empty w w"
  by (simp add: stored_def)

lemma stored_trans: "stored f w w' \<Longrightarrow> stored g w' w'' \<Longrightarrow> stored (f ++ g) w w''"
  by (auto simp: stored_def map_add_def split: option.splits)

lemma stored_None: "stored f w w' \<Longrightarrow> f j = None \<Longrightarrow> lft w' j = lft w j \<and> rgt w' j = rgt w j \<and> pid w' j = pid w j"
  by (auto simp: stored_def dest: spec [of _ j])

definition runs :: "links \<Rightarrow> (walk \<times> walk) set" where
  "runs ls = {(w, walk_step ls w) | w. current w \<noteq> None}"

lemma while_option_run:
  assumes "(s, s') \<in> {(x, c x) | x. b x}\<^sup>*" and "\<not> b s'"
  shows "while_option b c s = Some s'"
  using assms
proof (induction rule: converse_rtrancl_induct)
  case base
  then show ?case by (subst while_option_unfold) simp
next
  case (step y z)
  then show ?case by (subst while_option_unfold) auto
qed

text \<open>What a walk through the tree \<open>t\<close> does, from the moment its root is entered with bound \<open>b\<close>.\<close>

definition entered :: "rose \<Rightarrow> int \<Rightarrow> int \<Rightarrow> walk \<Rightarrow> bool" where
  "entered t pv b w \<longleftrightarrow> current w = Some (node_of t) \<and> lft w (node_of t) = b \<and> pid w (node_of t) = pv
     \<and> nestedSetBound w = b + 1 \<and> (\<forall>j\<in>set (rose_nodes t). nextChild w j = 0)"

definition walked :: "links \<Rightarrow> rose \<Rightarrow> int \<Rightarrow> int \<Rightarrow> walk \<Rightarrow> walk \<Rightarrow> bool" where
  "walked ls t pv b w w' \<longleftrightarrow> (w, w') \<in> (runs ls)\<^sup>* \<and> current w' = parent ls (node_of t)
     \<and> nestedSetBound w' = b + width t \<and> stored (numbers pv b t) w w'
     \<and> (\<forall>j. j \<notin> set (rose_nodes t) \<longrightarrow> nextChild w' j = nextChild w j)"

lemma walk_forest:
  assumes "current w = Some i" and "drop (nextChild w i) (children ls i) = map node_of ts" and "nestedSetBound w = b"
    and "i \<notin> set (forest_nodes ts)" and "distinct (forest_nodes ts)" and "\<forall>j\<in>set (forest_nodes ts). nextChild w j = 0"
    and "\<And>t. t \<in> set ts \<Longrightarrow> parent ls (node_of t) = Some i"
    and "\<And>t w pv b. t \<in> set ts \<Longrightarrow> entered t pv b w \<Longrightarrow> \<exists>w'. walked ls t pv b w w'"
  shows "\<exists>w'. (w, w') \<in> (runs ls)\<^sup>* \<and> current w' = Some i \<and> nestedSetBound w' = b + sum_list (map width ts)
     \<and> stored (forest_numbers (lft w i) b ts) w w' \<and> nextChild w' i = nextChild w i + length ts
     \<and> (\<forall>j. j \<notin> set (forest_nodes ts) \<and> j \<noteq> i \<longrightarrow> nextChild w' j = nextChild w j)"
  using assms
proof (induction ts arbitrary: w b)
  case Nil
  then show ?case by (intro exI [of _ w]) (simp add: stored_empty)
next
  case (Cons t ts)
  let ?m = "nextChild w i" and ?c = "node_of t"
  have m: "?m < length (children ls i)" and c: "children ls i ! ?m = ?c"
    and rest: "drop (Suc ?m) (children ls i) = map node_of ts"
  proof -
    have d: "drop ?m (children ls i) = ?c # map node_of ts" using Cons.prems(2) by simp
    show "?m < length (children ls i)" using d by (metis drop_eq_Nil leI list.distinct(1))
    then show "children ls i ! ?m = ?c" "drop (Suc ?m) (children ls i) = map node_of ts"
      using d by (metis Cons_nth_drop_Suc list.inject)+
  qed
  define w1 where "w1 = walk_step ls w"
  have w1: "w1 = w\<lparr>nextChild := (nextChild w)(i := ?m + 1), lft := (lft w)(?c := b),
      pid := (pid w)(?c := lft w i), nestedSetBound := b + 1, current := Some ?c\<rparr>"
    using Cons.prems(1,3) m c by (simp add: w1_def walk_step_def Let_def)
  have run1: "(w, w1) \<in> runs ls" using Cons.prems(1) by (auto simp: runs_def w1_def)
  have ne: "i \<notin> set (rose_nodes t)" and disj: "set (rose_nodes t) \<inter> set (forest_nodes ts) = {}"
    using Cons.prems(4,5) by auto
  have "entered t (lft w i) b w1"
    using Cons.prems(6) ne by (auto simp: entered_def w1)
  then have "\<exists>w2. walked ls t (lft w i) b w1 w2" by (intro Cons.prems(8)) simp_all
  then obtain w2 where w2: "walked ls t (lft w i) b w1 w2" by blast
  have cur2: "current w2 = Some i" using w2 Cons.prems(7) [of t] by (simp add: walked_def)
  have lft2: "lft w2 i = lft w i"
    using w2 stored_None [of "numbers (lft w i) b t" w1 w2 i] ne not_in_tree [OF ne]
    by (simp add: walked_def w1 numbers_None)
  have next2: "nextChild w2 i = Suc ?m" and next2': "j \<notin> set (rose_nodes t) \<Longrightarrow> j \<noteq> i \<Longrightarrow> nextChild w2 j = nextChild w j" for j
    using w2 ne by (auto simp: walked_def w1)
  have "\<exists>w'. (w2, w') \<in> (runs ls)\<^sup>* \<and> current w' = Some i \<and> nestedSetBound w' = b + width t + sum_list (map width ts)
     \<and> stored (forest_numbers (lft w2 i) (b + width t) ts) w2 w' \<and> nextChild w' i = nextChild w2 i + length ts
     \<and> (\<forall>j. j \<notin> set (forest_nodes ts) \<and> j \<noteq> i \<longrightarrow> nextChild w' j = nextChild w2 j)"
  proof (rule Cons.IH [OF cur2])
    show "drop (nextChild w2 i) (children ls i) = map node_of ts" by (simp add: next2 rest)
    show "nestedSetBound w2 = b + width t" using w2 by (simp add: walked_def)
    show "\<forall>j\<in>set (forest_nodes ts). nextChild w2 j = 0"
    proof
      fix j assume j: "j \<in> set (forest_nodes ts)"
      then have "j \<notin> set (rose_nodes t)" "j \<noteq> i" using disj Cons.prems(4) by auto
      then show "nextChild w2 j = 0" using next2' Cons.prems(6) j by auto
    qed
  qed (use Cons.prems(4,5,7,8) in auto)
  then obtain w3 where w3: "(w2, w3) \<in> (runs ls)\<^sup>*" "current w3 = Some i"
    "nestedSetBound w3 = b + width t + sum_list (map width ts)"
    "stored (forest_numbers (lft w i) (b + width t) ts) w2 w3" "nextChild w3 i = Suc ?m + length ts"
    "\<forall>j. j \<notin> set (forest_nodes ts) \<and> j \<noteq> i \<longrightarrow> nextChild w3 j = nextChild w2 j"
    unfolding lft2 next2 by blast
  have st: "stored (numbers (lft w i) b t) w w2"
  proof -
    have "lft w1 j = lft w j \<and> rgt w1 j = rgt w j \<and> pid w1 j = pid w j" if "numbers (lft w i) b t j = None" for j
      using that not_in_tree by (auto simp: w1 numbers_None)
    then show ?thesis using w2 by (auto simp: walked_def stored_def split: option.splits)
  qed
  have "(w, w3) \<in> (runs ls)\<^sup>*" using run1 w2 w3(1) unfolding walked_def by (meson converse_rtrancl_into_rtrancl rtrancl_trans)
  then show ?case using w3 stored_trans [OF st w3(4)] next2' by (intro exI [of _ w3]) auto
qed

lemma walk_tree:
  assumes "linked_spans (parent ls) (children ls)"
  shows "follows (children ls) t \<Longrightarrow> distinct (rose_nodes t) \<Longrightarrow> entered t pv b w \<Longrightarrow> \<exists>w'. walked ls t pv b w w'"
proof (induction t arbitrary: pv b w)
  case (Rose i ts)
  have w: "current w = Some i" "lft w i = b" "pid w i = pv" "nestedSetBound w = b + 1"
    "\<forall>j\<in>set (forest_nodes ts). nextChild w j = 0" "nextChild w i = 0"
    using Rose.prems(3) by (auto simp: entered_def)
  have lab: "map node_of ts = children ls i" and d: "distinct (forest_nodes ts)" and ni: "i \<notin> set (forest_nodes ts)"
    using Rose.prems(1,2) by simp_all
  have par: "parent ls (node_of t) = Some i" if "t \<in> set ts" for t
    using that lab linked_spans.children_of [OF assms] by (metis image_eqI set_map)
  have "\<exists>w'. (w, w') \<in> (runs ls)\<^sup>* \<and> current w' = Some i \<and> nestedSetBound w' = b + 1 + sum_list (map width ts)
     \<and> stored (forest_numbers (lft w i) (b + 1) ts) w w' \<and> nextChild w' i = nextChild w i + length ts
     \<and> (\<forall>j. j \<notin> set (forest_nodes ts) \<and> j \<noteq> i \<longrightarrow> nextChild w' j = nextChild w j)"
  proof (rule walk_forest [OF w(1) _ w(4) ni d w(5) par])
    show "drop (nextChild w i) (children ls i) = map node_of ts" using w(6) lab by simp
    show "\<exists>w'. walked ls t pv b w w'" if "t \<in> set ts" "entered t pv b w" for t w pv b
      using that Rose.prems(1) forest_distinct [OF d] by (intro Rose.IH) (auto simp: list_all_iff)
  qed
  then obtain w1 where w1: "(w, w1) \<in> (runs ls)\<^sup>*" "current w1 = Some i"
    "nestedSetBound w1 = b + 1 + sum_list (map width ts)" "stored (forest_numbers b (b + 1) ts) w w1"
    "nextChild w1 i = length (children ls i)"
    "\<forall>j. j \<notin> set (forest_nodes ts) \<and> j \<noteq> i \<longrightarrow> nextChild w1 j = nextChild w j"
    unfolding w(2,6) lab [symmetric] by auto
  define w2 where "w2 = walk_step ls w1"
  have w2: "w2 = w1\<lparr>rgt := (rgt w1)(i := nestedSetBound w1), nestedSetBound := nestedSetBound w1 + 1, current := parent ls i\<rparr>"
    using w1(2,5) by (simp add: w2_def walk_step_def)
  have "(w1, w2) \<in> runs ls" using w1(2) by (auto simp: runs_def w2_def)
  then have run: "(w, w2) \<in> (runs ls)\<^sup>*" using w1(1) by simp
  have ii: "forest_numbers b (b + 1) ts i = None" using ni dom_numbers(2) [of b "b + 1" ts] by blast
  then have "lft w1 i = b" "pid w1 i = pv" using stored_None [OF w1(4) ii] w by simp_all
  then have "stored (numbers pv b (Rose i ts)) w w2"
    using w1(3,4) by (auto simp: stored_def w2)
  then show ?case using run w1(3,6) by (intro exI [of _ w2]) (auto simp: walked_def w2 width_Rose)
qed

text \<open>All roots, one after the other; the bound of the next root follows the last of the one before.\<close>

lemma walk_all_roots:
  assumes ls: "linked_spans (parent ls) (children ls)"
  shows "(\<And>t. t \<in> set ts \<Longrightarrow> follows (children ls) t \<and> parent ls (node_of t) = None) \<Longrightarrow> distinct (forest_nodes ts)
    \<Longrightarrow> \<forall>j\<in>set (forest_nodes ts). nextChild w j = 0
    \<Longrightarrow> \<exists>w'. walk_roots ls (map node_of ts) w = Some w' \<and> stored (forest_numbers nestedSetRootParent (nestedSetBound w) ts) w w'"
proof (induction ts arbitrary: w)
  case Nil
  then show ?case by (simp add: stored_empty)
next
  case (Cons t ts)
  let ?b = "nestedSetBound w" and ?w1 = "enter_root (node_of t) w"
  have t: "follows (children ls) t" "parent ls (node_of t) = None" "distinct (rose_nodes t)"
    and disj: "set (rose_nodes t) \<inter> set (forest_nodes ts) = {}"
    using Cons.prems by auto
  have "entered t nestedSetRootParent ?b ?w1"
    using Cons.prems(3) by (auto simp: entered_def enter_root_def)
  then obtain w2 where w2: "walked ls t nestedSetRootParent ?b ?w1 w2"
    using walk_tree [OF ls t(1,3)] by blast
  then have cur: "current w2 = None" and run: "(?w1, w2) \<in> (runs ls)\<^sup>*" using t(2) by (simp_all add: walked_def)
  have loop: "walk_loop ls ?w1 = Some w2"
    unfolding walk_loop_def using run cur by (intro while_option_run) (simp_all add: runs_def)
  have st: "stored (numbers nestedSetRootParent ?b t) w w2"
  proof -
    have "lft ?w1 j = lft w j \<and> rgt ?w1 j = rgt w j \<and> pid ?w1 j = pid w j"
      if "numbers nestedSetRootParent ?b t j = None" for j
      using that not_in_tree by (auto simp: enter_root_def numbers_None)
    then show ?thesis using w2 by (auto simp: walked_def stored_def split: option.splits)
  qed
  have b2: "nestedSetBound w2 = ?b + width t" using w2 by (simp add: walked_def)
  have "\<forall>j\<in>set (forest_nodes ts). nextChild w2 j = 0"
  proof
    fix j assume j: "j \<in> set (forest_nodes ts)"
    then have "j \<notin> set (rose_nodes t)" using disj by blast
    then have "nextChild w2 j = nextChild w j" using w2 by (simp add: walked_def enter_root_def)
    then show "nextChild w2 j = 0" using Cons.prems(3) j by simp
  qed
  then obtain w3 where w3: "walk_roots ls (map node_of ts) w2 = Some w3"
    "stored (forest_numbers nestedSetRootParent (nestedSetBound w2) ts) w2 w3"
    using Cons.IH [of w2] Cons.prems(1,2) by auto
  then show ?case using loop stored_trans [OF st w3(2) [unfolded b2]] by simp
qed

subsection \<open>What indexing and linking leave\<close>

definition index_upto :: "pq_span list \<Rightarrow> nat \<Rightarrow> node_index" where
  "index_upto nodes m = fold (index_node nodes) [0..<m]
     \<lparr>nodesByID = Map.empty, rootNodes = [], undoAssignment = False\<rparr>"

lemma index_upto_Suc: "index_upto nodes (Suc m) = index_node nodes m (index_upto nodes m)"
  by (simp add: index_upto_def)

lemma index_upto_roots: "rootNodes (index_upto nodes m) = filter (\<lambda>i. IsRoot (nodes ! i)) [0..<m]"
proof (induction m)
  case 0
  show ?case by (simp add: index_upto_def)
next
  case (Suc m)
  then show ?case by (simp add: index_upto_Suc index_node_def Let_def split: option.splits)
qed

lemma index_upto_below: "nodesByID (index_upto nodes m) k = Some ns \<Longrightarrow> i \<in> set ns \<Longrightarrow> i < m"
proof (induction m arbitrary: k ns i)
  case 0
  then show ?case by (simp add: index_upto_def)
next
  case (Suc m)
  then show ?case
    by (fastforce simp: index_upto_Suc index_node_def Let_def less_Suc_eq split: option.splits if_splits)
qed

definition link_upto :: "pq_span list \<Rightarrow> (u64 \<rightharpoonup> nat list) \<Rightarrow> nat \<Rightarrow> links" where
  "link_upto nodes byID m = fold (link_node nodes byID) [0..<m]
     \<lparr>parent = (\<lambda>_. None), children = (\<lambda>_. []), connected = True\<rparr>"

lemma link_upto_Suc: "link_upto nodes byID (Suc m) = link_node nodes byID m (link_upto nodes byID m)"
  by (simp add: link_upto_def)

lemma link_upto_exact:
  "parent (link_upto nodes byID m) i = (if i < m then findParentNodeInMap nodes byID i else None)
   \<and> children (link_upto nodes byID m) p = filter (\<lambda>i. findParentNodeInMap nodes byID i = Some p) [0..<m]
   \<and> (connected (link_upto nodes byID m) \<longleftrightarrow> (\<forall>i<m. IsRoot (nodes ! i) \<or> findParentNodeInMap nodes byID i \<noteq> None))"
proof (induction m arbitrary: i p)
  case 0
  show ?case by (simp add: link_upto_def)
next
  case (Suc m)
  show ?case
    by (cases "findParentNodeInMap nodes byID m")
      (auto simp: link_upto_Suc link_node_def Suc less_Suc_eq)
qed

definition links_of :: "pq_span list \<Rightarrow> links" where
  "links_of nodes = link_nodes nodes (nodesByID (index_nodes nodes))"

definition trace_parent :: "pq_span list \<Rightarrow> nat \<Rightarrow> nat option" where
  "trace_parent nodes i =
     (if i < length nodes then findParentNodeInMap nodes (nodesByID (index_nodes nodes)) i else None)"

lemma links_exact:
  "parent (links_of nodes) = trace_parent nodes"
  "children (links_of nodes) p = filter (\<lambda>i. trace_parent nodes i = Some p) [0..<length nodes]"
proof -
  have l: "links_of nodes = link_upto nodes (nodesByID (index_nodes nodes)) (length nodes)"
    by (simp add: links_of_def link_nodes_def link_upto_def)
  show "parent (links_of nodes) = trace_parent nodes"
    by (rule ext) (simp add: l link_upto_exact trace_parent_def)
  show "children (links_of nodes) p = filter (\<lambda>i. trace_parent nodes i = Some p) [0..<length nodes]"
    unfolding l by (auto simp: link_upto_exact trace_parent_def intro!: filter_cong)
qed

interpretation trace_links: linked_spans "trace_parent nodes" "children (links_of nodes)" for nodes
proof
  show "c \<in> set (children (links_of nodes) p) \<longleftrightarrow> trace_parent nodes c = Some p" for c p
    by (auto simp: links_exact trace_parent_def split: if_splits)
  show "distinct (children (links_of nodes) p)" for p by (simp add: links_exact)
  have "parent_rel (trace_parent nodes) \<subseteq> (\<lambda>c. (the (trace_parent nodes c), c)) ` {..<length nodes}"
    by (auto simp: trace_parent_def image_iff split: if_splits)
  then show "finite (parent_rel (trace_parent nodes))" by (rule finite_subset) simp
qed

definition below_root :: "pq_span list \<Rightarrow> nat \<Rightarrow> bool" where
  "below_root nodes i \<longleftrightarrow>
     (\<exists>r<length nodes. IsRoot (nodes ! r) \<and> (r, i) \<in> (parent_rel (trace_parent nodes))\<^sup>*)"

lemma root_has_no_parent: "IsRoot (nodes ! r) \<Longrightarrow> trace_parent nodes r = None"
  by (simp add: trace_parent_def findParentNodeInMap_def)

lemma ancestor_below_root:
  assumes "below_root nodes i" and "(j, i) \<in> (parent_rel (trace_parent nodes))\<^sup>*"
  shows "below_root nodes j"
proof -
  obtain r where r: "r < length nodes" "IsRoot (nodes ! r)" "(r, i) \<in> (parent_rel (trace_parent nodes))\<^sup>*"
    using assms(1) by (auto simp: below_root_def)
  from trace_links.ancestors_comparable [OF r(3) assms(2)]
  have "(r, j) \<in> (parent_rel (trace_parent nodes))\<^sup>*"
    using root_has_no_parent [OF r(2)] by (auto elim: rtranclE)
  then show ?thesis using r by (auto simp: below_root_def)
qed

lemma trees_of_trace:
  "\<exists>ts. map node_of ts = rootNodes (index_nodes nodes)
     \<and> (\<forall>t\<in>set ts. follows (children (links_of nodes)) t \<and> trace_parent nodes (node_of t) = None)
     \<and> distinct (forest_nodes ts) \<and> set (forest_nodes ts) = {i. below_root nodes i}"
proof -
  let ?P = "parent_rel (trace_parent nodes)" and ?ch = "children (links_of nodes)"
  have roots: "rootNodes (index_nodes nodes) = filter (\<lambda>i. IsRoot (nodes ! i)) [0..<length nodes]"
    using index_upto_roots by (simp add: index_nodes_def index_upto_def)
  have "\<exists>t. node_of t = r \<and> follows ?ch t" if "IsRoot (nodes ! r)" for r
    using trace_links.tree_of_node [OF root_has_no_parent [OF that]] by blast
  then obtain f where f: "\<And>r. IsRoot (nodes ! r) \<Longrightarrow> node_of (f r) = r \<and> follows ?ch (f r)" by metis
  let ?ts = "map f (rootNodes (index_nodes nodes))"
  have ts: "IsRoot (nodes ! node_of t)" "follows ?ch t" "t = f (node_of t)" "node_of t < length nodes" if "t \<in> set ?ts" for t
    using that f roots by auto
  have lab: "map node_of ?ts = rootNodes (index_nodes nodes)"
    using f by (auto simp: roots comp_def intro!: map_idI)
  have nodes_t: "set (rose_nodes t) = {y. (node_of t, y) \<in> ?P\<^sup>*}" if "t \<in> set ?ts" for t
    using trace_links.nodes_of_tree ts(2) [OF that] by blast
  have "distinct (forest_nodes ?ts)"
  proof (rule distinct_forest)
    show "distinct (map node_of ?ts)" unfolding lab by (simp add: roots)
    show "distinct (rose_nodes t)" if "t \<in> set ?ts" for t
      using trace_links.tree_distinct [OF ts(2) [OF that] root_has_no_parent [OF ts(1) [OF that]]] by blast
    show "set (rose_nodes t) \<inter> set (rose_nodes u) = {}"
      if t: "t \<in> set ?ts" and u: "u \<in> set ?ts" and ne: "node_of t \<noteq> node_of u" for t u
    proof -
      have "(node_of t, node_of u) \<notin> ?P\<^sup>*" "(node_of u, node_of t) \<notin> ?P\<^sup>*"
        using ne root_has_no_parent [OF ts(1) [OF t]] root_has_no_parent [OF ts(1) [OF u]] by (auto elim: rtranclE)
      then show ?thesis using trace_links.ancestors_comparable nodes_t [OF t] nodes_t [OF u] by blast
    qed
  qed
  moreover have "set (forest_nodes ?ts) = {i. below_root nodes i}"
    using nodes_t f roots by (fastforce simp: below_root_def)
  ultimately show ?thesis using lab ts root_has_no_parent by (intro exI [of _ ?ts]) blast
qed

subsection \<open>The numbers say which span is whose descendant, parent and sibling\<close>

definition span_numbers :: "pq_span list \<Rightarrow> span_tree" where
  "span_numbers spans = \<lparr>
     nestedSetLeft = (\<lambda>i. if i < length spans then NestedSetLeft (spans ! i) else 0),
     nestedSetRight = (\<lambda>i. if i < length spans then NestedSetRight (spans ! i) else 0),
     nestedSetParent = (\<lambda>i. if i < length spans then ParentID (spans ! i) else 0)\<rparr>"

text \<open>\<open>traceToParquet\<close> sets the numbers of every span to zero before.\<close>

definition unnumbered :: "pq_span list \<Rightarrow> bool" where
  "unnumbered nodes \<longleftrightarrow> (\<forall>s\<in>set nodes. NestedSetLeft s = 0 \<and> NestedSetRight s = 0 \<and> ParentID s = 0)"

definition numbered_by :: "pq_span list \<Rightarrow> pq_span list \<Rightarrow> (nat \<rightharpoonup> int \<times> int \<times> int) \<Rightarrow> bool" where
  "numbered_by nodes spans num \<longleftrightarrow> length spans = length nodes
     \<and> (\<forall>i<length nodes. (NestedSetLeft (spans ! i), NestedSetRight (spans ! i), ParentID (spans ! i)) =
          (case num i of None \<Rightarrow> (0, 0, 0) | Some n \<Rightarrow> n))
     \<and> dom num = {i. below_root nodes i}
     \<and> nests (parent_rel (trace_parent nodes)) {i. below_root nodes i} num
     \<and> (\<forall>i n. num i = Some n \<longrightarrow> fst n > 0 \<and> fst (snd n) > 0
          \<and> (trace_parent nodes i = None \<and> snd (snd n) = nestedSetRootParent \<or> names_parent (trace_parent nodes) num i n))
     \<and> (\<forall>i j n m. num i = Some n \<longrightarrow> num j = Some m \<longrightarrow> fst n = fst m \<longrightarrow> i = j)"

lemma assigned_numbers:
  assumes "unnumbered (all_nodes rss)" and "\<not> undoAssignment (index_nodes (all_nodes rss))"
  shows "\<exists>spans stats conn num. assignNestedSetModelBoundsAndServiceStats rss = Some (spans, stats, conn)
    \<and> numbered_by (all_nodes rss) spans num"
proof -
  define nodes where "nodes = all_nodes rss"
  let ?P = "parent_rel (trace_parent nodes)" and ?ix = "index_nodes nodes"
  obtain ts where ts: "map node_of ts = rootNodes ?ix"
    "\<And>t. t \<in> set ts \<Longrightarrow> follows (children (links_of nodes)) t \<and> trace_parent nodes (node_of t) = None"
    "distinct (forest_nodes ts)" "set (forest_nodes ts) = {i. below_root nodes i}"
    using trees_of_trace [of nodes] by blast
  let ?num = "forest_numbers nestedSetRootParent 1 ts"
  have ls: "linked_spans (parent (links_of nodes)) (children (links_of nodes))"
    unfolding links_exact(1) by (rule trace_links.linked_spans_axioms)
  have "\<exists>w'. walk_roots (links_of nodes) (map node_of ts) (start_walk nodes) = Some w'
      \<and> stored (forest_numbers nestedSetRootParent (nestedSetBound (start_walk nodes)) ts) (start_walk nodes) w'"
    by (rule walk_all_roots [OF ls _ ts(3)]) (simp_all add: ts(2) links_exact(1) start_walk_def)
  then obtain w' where w': "walk_roots (links_of nodes) (rootNodes ?ix) (start_walk nodes) = Some w'"
    "stored ?num (start_walk nodes) w'"
    by (auto simp: ts(1) start_walk_def)
  have dom: "dom ?num = {i. below_root nodes i}" using dom_numbers(2) ts(4) by simp
  have nests: "nests ?P {i. below_root nodes i} ?num"
    unfolding ts(4) [symmetric]
  proof (rule forest_nests [OF ts(3)])
    show "nests ?P (set (rose_nodes t)) (numbers pv b t)" if "t \<in> set ts" for t pv b
      using ts(2) [OF that] by (intro trace_links.tree_nests [where r = "node_of t"]) auto
    show "closed_under ?P (set (rose_nodes t))" if "t \<in> set ts" for t
      using ts(2) [OF that] trace_links.tree_is_closed by blast
  qed
  have pos: "fst n > 0 \<and> fst (snd n) > 0" if "?num i = Some n" for i n
    using numbers_bounds(2) [of nestedSetRootParent 1 ts i "fst n" "fst (snd n)" "snd (snd n)"] that by simp
  have par: "trace_parent nodes i = None \<and> snd (snd n) = nestedSetRootParent \<or> names_parent (trace_parent nodes) ?num i n"
    if "?num i = Some n" for i n
  proof -
    have "i \<in> node_of ` set ts \<and> snd (snd n) = nestedSetRootParent \<or> names_parent (trace_parent nodes) ?num i n"
    proof (rule forest_names_parent [OF ts(3) _ that])
      show "k = node_of t \<and> snd (snd n) = pv \<or> names_parent (trace_parent nodes) (numbers pv b t) k n"
        if "t \<in> set ts" "numbers pv b t k = Some n" for t pv b k n
        by (rule trace_links.tree_names_parent [OF conjunct1 [OF ts(2) [OF that(1)]] forest_distinct [OF ts(3) that(1)] that(2)])
    qed
    then show ?thesis
    proof (elim disjE conjE)
      assume "i \<in> node_of ` set ts" and p: "snd (snd n) = nestedSetRootParent"
      then obtain t where "t \<in> set ts" "i = node_of t" by (elim imageE)
      then have "trace_parent nodes i = None" using ts(2) by simp
      then show ?thesis using p by simp
    qed simp
  qed
  have inj: "i = j" if "?num i = Some n" "?num j = Some m" "fst n = fst m" for i j n m
    using lefts_distinct(2) [OF ts(3) that] .
  have init: "lft (start_walk nodes) i = 0 \<and> rgt (start_walk nodes) i = 0 \<and> pid (start_walk nodes) i = 0"
    if "i < length nodes" for i
    using assms(1) that by (simp add: start_walk_def unnumbered_def nodes_def)
  let ?spans = "if rootNodes ?ix = [] then nodes else store_bounds (links_of nodes) w' nodes"
  have vals: "(NestedSetLeft (?spans ! i), NestedSetRight (?spans ! i), ParentID (?spans ! i)) =
      (case ?num i of None \<Rightarrow> (0, 0, 0) | Some n \<Rightarrow> n)" if "i < length nodes" for i
  proof (cases "rootNodes ?ix = []")
    case True
    then have "ts = []" using ts(1) by simp
    then show ?thesis using init [OF that] True by (simp add: start_walk_def)
  next
    case False
    have "(lft w' i, rgt w' i, pid w' i) = (case ?num i of None \<Rightarrow> (0, 0, 0) | Some n \<Rightarrow> n)"
      using w'(2) init [OF that] by (auto simp: stored_def split: option.splits)
    then show ?thesis using False that by (simp add: store_bounds_def)
  qed
  obtain conn where res: "assignNestedSetModelBoundsAndServiceStats rss = Some (?spans, serviceStats rss, conn)"
    using assms(2) w'(1)
    by (cases "rootNodes ?ix = []") (auto simp: assignNestedSetModelBoundsAndServiceStats_def Let_def links_of_def nodes_def)
  have "length ?spans = length nodes" by (simp add: store_bounds_def)
  moreover have "\<forall>i<length nodes. (NestedSetLeft (?spans ! i), NestedSetRight (?spans ! i), ParentID (?spans ! i)) =
      (case ?num i of None \<Rightarrow> (0, 0, 0) | Some n \<Rightarrow> n)" using vals by blast
  moreover have "\<forall>i n. ?num i = Some n \<longrightarrow> fst n > 0 \<and> fst (snd n) > 0
      \<and> (trace_parent nodes i = None \<and> snd (snd n) = nestedSetRootParent \<or> names_parent (trace_parent nodes) ?num i n)"
    using pos par by blast
  moreover have "\<forall>i j n m. ?num i = Some n \<longrightarrow> ?num j = Some m \<longrightarrow> fst n = fst m \<longrightarrow> i = j" using inj by blast
  ultimately have "numbered_by nodes ?spans ?num" unfolding numbered_by_def using dom nests by (intro conjI)
  then show ?thesis using res unfolding nodes_def by blast
qed

lemma names_parent_unique:
  assumes "names_parent par num i n" and "num j = Some m"
    and inj: "\<forall>i j n m. num i = Some n \<longrightarrow> num j = Some m \<longrightarrow> fst n = fst m \<longrightarrow> i = j"
  shows "fst m = snd (snd n) \<longleftrightarrow> par i = Some j"
proof -
  obtain q k where q: "par i = Some q" "num q = Some k" "fst k = snd (snd n)"
    using assms(1) by (auto simp: names_parent_def)
  show ?thesis
  proof
    assume "fst m = snd (snd n)"
    then have "j = q" using inj assms(2) q(2,3) by metis
    then show "par i = Some j" using q(1) by simp
  next
    assume "par i = Some j"
    then show "fst m = snd (snd n)" using q assms(2) by simp
  qed
qed

lemma numbers_are_the_tree:
  assumes "unnumbered (all_nodes rss)" and "\<not> undoAssignment (index_nodes (all_nodes rss))"
  shows "\<exists>spans stats conn. assignNestedSetModelBoundsAndServiceStats rss = Some (spans, stats, conn)
    \<and> length spans = length (all_nodes rss)
    \<and> (\<forall>i<length spans. \<forall>j<length spans. let t = span_numbers spans; nodes = all_nodes rss in
         (descendant_of t i j \<longleftrightarrow> below_root nodes i \<and> (j, i) \<in> (parent_rel (trace_parent nodes))\<^sup>+)
       \<and> (child_of t j i \<longleftrightarrow> below_root nodes i \<and> trace_parent nodes i = Some j)
       \<and> (sibling_of t i j \<longleftrightarrow> below_root nodes i \<and> below_root nodes j \<and> trace_parent nodes i = trace_parent nodes j))"
proof -
  let ?nodes = "all_nodes rss" and ?P = "parent_rel (trace_parent (all_nodes rss))"
  obtain spans stats conn num where res: "assignNestedSetModelBoundsAndServiceStats rss = Some (spans, stats, conn)"
    and by_num: "numbered_by ?nodes spans num"
    using assigned_numbers [OF assms] by blast
  have len: "length spans = length ?nodes" and dom: "dom num = {i. below_root ?nodes i}"
    and nests: "nests ?P {i. below_root ?nodes i} num"
    using by_num unfolding numbered_by_def by blast+
  have vals: "(NestedSetLeft (spans ! i), NestedSetRight (spans ! i), ParentID (spans ! i)) =
         (case num i of None \<Rightarrow> (0, 0, 0) | Some n \<Rightarrow> n)" if "i < length ?nodes" for i
    using by_num that unfolding numbered_by_def by blast
  have par: "fst n > 0 \<and> fst (snd n) > 0
         \<and> (trace_parent ?nodes i = None \<and> snd (snd n) = nestedSetRootParent \<or> names_parent (trace_parent ?nodes) num i n)"
    if "num i = Some n" for i n
    using by_num that unfolding numbered_by_def by blast
  have inj: "\<forall>i j n m. num i = Some n \<longrightarrow> num j = Some m \<longrightarrow> fst n = fst m \<longrightarrow> i = j"
    using by_num unfolding numbered_by_def by blast
  let ?t = "span_numbers spans"
  have num: "num i = None \<longleftrightarrow> \<not> below_root ?nodes i" for i using dom by blast
  have tn: "nestedSetLeft ?t i = 0" "nestedSetRight ?t i = 0" "nestedSetParent ?t i = 0"
    if "\<not> below_root ?nodes i" for i
    using vals [of i] that len by (auto simp: span_numbers_def num [symmetric])
  have ts: "nestedSetLeft ?t i = fst n" "nestedSetRight ?t i = fst (snd n)" "nestedSetParent ?t i = snd (snd n)"
    if "num i = Some n" "i < length spans" for i n
    using vals [of i] that len by (auto simp: span_numbers_def)
  have D: "descendant_of ?t i j \<longleftrightarrow> below_root ?nodes i \<and> (j, i) \<in> ?P\<^sup>+" if ij: "i < length spans" "j < length spans" for i j
  proof (cases "below_root ?nodes i \<and> below_root ?nodes j")
    case True
    then obtain n m where nm: "num i = Some n" "num j = Some m" using num by fastforce
    have "descendant_of ?t i j \<longleftrightarrow> inside n m"
      using par [OF nm(1)] par [OF nm(2)] ts [OF nm(1) ij(1)] ts [OF nm(2) ij(2)] by (auto simp: descendant_of_def inside_def)
    then show ?thesis using nestsD [OF nests _ _ nm(2,1)] True by simp
  next
    case False
    then have "\<not> descendant_of ?t i j" using tn by (auto simp: descendant_of_def)
    moreover have "\<not> (below_root ?nodes i \<and> (j, i) \<in> ?P\<^sup>+)"
      using False ancestor_below_root trancl_into_rtrancl by metis
    ultimately show ?thesis by blast
  qed
  have C: "child_of ?t j i \<longleftrightarrow> below_root ?nodes i \<and> trace_parent ?nodes i = Some j" if ij: "i < length spans" "j < length spans" for i j
  proof (cases "below_root ?nodes i \<and> below_root ?nodes j")
    case True
    then obtain n m where nm: "num i = Some n" "num j = Some m" using num by fastforce
    have "child_of ?t j i \<longleftrightarrow> fst m = snd (snd n)"
      using par [OF nm(2)] ts [OF nm(1) ij(1)] ts [OF nm(2) ij(2)] by (auto simp: child_of_def)
    also have "\<dots> \<longleftrightarrow> trace_parent ?nodes i = Some j"
      using par [OF nm(1)] par [OF nm(2)] names_parent_unique [of "trace_parent ?nodes" num i n j m, OF _ nm(2) inj]
      by (auto simp: nestedSetRootParent_def)
    finally show ?thesis using True by blast
  next
    case False
    then have "\<not> child_of ?t j i" using tn by (auto simp: child_of_def)
    moreover have "\<not> (below_root ?nodes i \<and> trace_parent ?nodes i = Some j)"
      using False ancestor_below_root [of ?nodes i j] r_into_rtrancl [of "(j, i)" ?P] by auto
    ultimately show ?thesis by blast
  qed
  have S: "sibling_of ?t i j \<longleftrightarrow> below_root ?nodes i \<and> below_root ?nodes j \<and> trace_parent ?nodes i = trace_parent ?nodes j"
    if ij: "i < length spans" "j < length spans" for i j
  proof (cases "below_root ?nodes i \<and> below_root ?nodes j")
    case True
    then obtain n m where nm: "num i = Some n" "num j = Some m" using num by fastforce
    have pos: "fst x > 0" if "num k = Some x" for k x using par that by blast
    have pp: "snd (snd x) > 0" if h: "names_parent (trace_parent ?nodes) num k x" for k x
    proof -
      obtain q y where "num q = Some y" "fst y = snd (snd x)" using h unfolding names_parent_def by blast
      then show ?thesis using pos by metis
    qed
    have nz: "snd (snd x) \<noteq> 0" if "num k = Some x" for k x
      using par [OF that] pp [of k x] by (auto simp: nestedSetRootParent_def)
    have "sibling_of ?t i j \<longleftrightarrow> snd (snd n) = snd (snd m)"
      using nz [OF nm(1)] ts [OF nm(1) ij(1)] ts [OF nm(2) ij(2)] by (auto simp: sibling_of_def)
    also have "\<dots> \<longleftrightarrow> trace_parent ?nodes i = trace_parent ?nodes j"
    proof (cases "trace_parent ?nodes i")
      case None
      then have n: "snd (snd n) = -1" using par [OF nm(1)] by (auto simp: names_parent_def nestedSetRootParent_def)
      have "names_parent (trace_parent ?nodes) num j m \<Longrightarrow> trace_parent ?nodes j \<noteq> None"
        by (auto simp: names_parent_def)
      then have "snd (snd m) = -1 \<longleftrightarrow> trace_parent ?nodes j = None"
        using par [OF nm(2)] pp [of j m] by (auto simp: nestedSetRootParent_def)
      then show ?thesis by (metis n None)
    next
      case (Some q)
      then obtain k where k: "num q = Some k" "fst k = snd (snd n)"
        using par [OF nm(1)] by (auto simp: names_parent_def)
      have "fst k = snd (snd m) \<longleftrightarrow> trace_parent ?nodes j = Some q"
      proof (cases "trace_parent ?nodes j")
        case None
        then have "snd (snd m) = -1" using par [OF nm(2)] by (auto simp: names_parent_def nestedSetRootParent_def)
        then show ?thesis using pos [OF k(1)] None by simp
      next
        case (Some q')
        then have "names_parent (trace_parent ?nodes) num j m" using par [OF nm(2)] by simp
        then show ?thesis using names_parent_unique [of "trace_parent ?nodes" num j m q k, OF _ k(1) inj] by blast
      qed
      then show ?thesis by (metis k(2) Some)
    qed
    finally show ?thesis using True by blast
  next
    case False
    then show ?thesis using tn by (auto simp: sibling_of_def)
  qed
  show ?thesis using res len D C S by (intro exI [of _ spans] exI [of _ stats] exI [of _ conn]) (simp add: Let_def)
qed

text \<open>C7. The numbering of a trace is its tree. For every trace whose span ids occur at most twice the walk ends,
  and in the numbers it stores a span is a descendant, a child or a sibling of another exactly when it is one
  by the parent links (the parent of a span being resolved among client and server spans of one id); a span
  that is not below a root span is related to none.\<close>

theorem nested_set_is_the_tree:
  assumes "unnumbered (all_nodes rss)" and "\<not> undoAssignment (index_nodes (all_nodes rss))"
  shows "\<exists>spans stats conn. assignNestedSetModelBoundsAndServiceStats rss = Some (spans, stats, conn)
    \<and> length spans = length (all_nodes rss)
    \<and> (\<forall>i<length spans. \<forall>j<length spans. let t = span_numbers spans; nodes = all_nodes rss in
         (descendant_of t i j \<longleftrightarrow> below_root nodes i \<and> (j, i) \<in> (parent_rel (trace_parent nodes))\<^sup>+)
       \<and> (child_of t j i \<longleftrightarrow> below_root nodes i \<and> trace_parent nodes i = Some j)
       \<and> (sibling_of t i j \<longleftrightarrow> below_root nodes i \<and> below_root nodes j \<and> trace_parent nodes i = trace_parent nodes j))"
  by (rule numbers_are_the_tree [OF assms])

definition new_span :: "bytes \<Rightarrow> bytes \<Rightarrow> int \<Rightarrow> pq_span" where
  "new_span ident par kind = \<lparr>SpanID = ident, ParentSpanID = par, SpanKind = kind, StatusCode = 0,
     NestedSetLeft = 0, NestedSetRight = 0, ParentID = 0, ChildCount = 0\<rparr>"

text \<open>A root, a client and a server span with one id, and a child of that id, which belongs to the server span.\<close>

definition demo_trace :: "resource_spans list" where
  "demo_trace = [\<lparr>ResourceServiceName = ''a'', ScopeSpans = [[new_span [1] [] 1, new_span [2] [1] 3]]\<rparr>,
     \<lparr>ResourceServiceName = ''b'', ScopeSpans = [[new_span [2] [2] 2, new_span [3] [2] 1], [new_span [4] [9] 1]]\<rparr>]"

theorem nested_set_is_the_tree_witness:
  "\<exists>spans stats. assignNestedSetModelBoundsAndServiceStats demo_trace = Some (spans, stats, False)
    \<and> map NestedSetLeft spans = [1, 2, 3, 4, 0] \<and> map NestedSetRight spans = [8, 7, 6, 5, 0]
    \<and> map ParentID spans = [-1, 1, 2, 3, 0]
    \<and> (descendant_of (span_numbers spans) 3 1
        \<longleftrightarrow> below_root (all_nodes demo_trace) 3 \<and> (1, 3) \<in> (parent_rel (trace_parent (all_nodes demo_trace)))\<^sup>+)"
proof -
  have u: "unnumbered (all_nodes demo_trace)" by code_simp
  have d: "\<not> undoAssignment (index_nodes (all_nodes demo_trace))" by code_simp
  have ev: "map_option (\<lambda>(spans, stats, conn). (map NestedSetLeft spans, map NestedSetRight spans, map ParentID spans, conn))
      (assignNestedSetModelBoundsAndServiceStats demo_trace)
      = Some ([1, 2, 3, 4, 0], [8, 7, 6, 5, 0], [-1, 1, 2, 3, 0], False)"
    by code_simp
  have l: "length (all_nodes demo_trace) = 5" by code_simp
  show ?thesis using nested_set_is_the_tree [OF u d] ev l by (fastforce simp: Let_def)
qed

text \<open>C8. The structural operators follow the trace: on the numbers of a trace \<open>DescendantOf\<close> returns the
  right-hand spans below a root with a left-hand span among their ancestors, \<open>ChildOf\<close> those whose parent is
  a left-hand span, and the inverted forms the ancestors and the parents.\<close>

theorem structural_operators_follow_trace:
  assumes "slice_sort srt" and "unnumbered (all_nodes rss)" and "\<not> undoAssignment (index_nodes (all_nodes rss))"
    and "assignNestedSetModelBoundsAndServiceStats rss = Some (spans, stats, conn)"
    and "set lhs \<subseteq> {..<length spans}" and "set rhs \<subseteq> {..<length spans}" and "lhs \<noteq> [] \<or> rhs \<noteq> []"
  shows "DescendantOf srt (span_numbers spans) lhs rhs False False False buffer = buffer @ filter (\<lambda>r.
      below_root (all_nodes rss) r \<and> (\<exists>l\<in>set lhs. (l, r) \<in> (parent_rel (trace_parent (all_nodes rss)))\<^sup>+)) rhs
    \<and> DescendantOf srt (span_numbers spans) lhs rhs False True False buffer = buffer @ filter (\<lambda>r.
      \<exists>l\<in>set lhs. below_root (all_nodes rss) l \<and> (r, l) \<in> (parent_rel (trace_parent (all_nodes rss)))\<^sup>+) rhs
    \<and> ChildOf srt (span_numbers spans) lhs rhs False False False buffer = buffer @ filter (\<lambda>r.
      below_root (all_nodes rss) r \<and> (\<exists>l\<in>set lhs. trace_parent (all_nodes rss) r = Some l)) rhs
    \<and> ChildOf srt (span_numbers spans) lhs rhs False True False buffer = buffer @ filter (\<lambda>r.
      \<exists>l\<in>set lhs. below_root (all_nodes rss) l \<and> trace_parent (all_nodes rss) l = Some r) rhs"
proof -
  have num: "(descendant_of (span_numbers spans) i j \<longleftrightarrow>
        below_root (all_nodes rss) i \<and> (j, i) \<in> (parent_rel (trace_parent (all_nodes rss)))\<^sup>+)
      \<and> (child_of (span_numbers spans) j i \<longleftrightarrow> below_root (all_nodes rss) i \<and> trace_parent (all_nodes rss) i = Some j)"
    if "i \<in> set lhs \<union> set rhs" "j \<in> set lhs \<union> set rhs" for i j
    using numbers_are_the_tree [OF assms(2,3)] assms(4-6) that by (auto simp: Let_def subset_iff)
  show ?thesis
    unfolding slice_sort.descendants_exact [OF assms(1,7)] slice_sort.children_exact [OF assms(1,7)]
    using num by (intro conjI arg_cong [of _ _ "\<lambda>x. buffer @ x"] filter_cong refl) auto
qed

theorem structural_operators_follow_trace_witness:
  "DescendantOf sort_key (span_numbers (fst (the (assignNestedSetModelBoundsAndServiceStats demo_trace)))) [1] [0, 3, 4] False False False []
     = filter (\<lambda>r. below_root (all_nodes demo_trace) r
         \<and> (\<exists>l\<in>set [1]. (l, r) \<in> (parent_rel (trace_parent (all_nodes demo_trace)))\<^sup>+)) [0, 3, 4]
   \<and> DescendantOf sort_key (span_numbers (fst (the (assignNestedSetModelBoundsAndServiceStats demo_trace)))) [1] [0, 3, 4] False False False []
     = [3]"
proof -
  have u: "unnumbered (all_nodes demo_trace)" by code_simp
  have d: "\<not> undoAssignment (index_nodes (all_nodes demo_trace))" by code_simp
  have l: "map_option (\<lambda>(spans, _). length spans) (assignNestedSetModelBoundsAndServiceStats demo_trace) = Some 5" by code_simp
  then obtain spans stats conn where a: "assignNestedSetModelBoundsAndServiceStats demo_trace = Some (spans, stats, conn)"
    and s: "length spans = 5" by auto
  have "DescendantOf sort_key (span_numbers (fst (the (assignNestedSetModelBoundsAndServiceStats demo_trace)))) [1] [0, 3, 4] False False False []
     = [3]" by code_simp
  moreover have "set [1] \<subseteq> {..<length spans}" "set [0, 3, 4] \<subseteq> {..<length spans}" "[1 :: nat] \<noteq> [] \<or> [0, 3, 4 :: nat] \<noteq> []"
    by (simp_all add: s)
  ultimately show ?thesis
    using structural_operators_follow_trace [OF sort_key.slice_sort_axioms u d a, of "[1]" "[0, 3, 4]" "[]"] a by simp
qed

subsection \<open>Two traces that are not what they are reported to be\<close>

text \<open>Two spans that name each other as parent are not connected to the root of the trace and get no numbers,
  but the trace is reported as connected; and in a trace without a root span the child counts that a reused
  span object still holds from another trace are kept.\<close>

theorem cycle_reported_connected:
  "map_option (\<lambda>(spans, stats, conn). (map NestedSetLeft spans, conn)) (assignNestedSetModelBoundsAndServiceStats
      [\<lparr>ResourceServiceName = ''a'', ScopeSpans = [[new_span [1] [] 1, new_span [2] [3] 1, new_span [3] [2] 1]]\<rparr>])
     = Some ([1, 0, 0], True)
   \<and> map_option (\<lambda>(spans, stats, conn). (map ChildCount spans, conn)) (assignNestedSetModelBoundsAndServiceStats
      [\<lparr>ResourceServiceName = ''a'', ScopeSpans = [[(new_span [2] [9] 1)\<lparr>ChildCount := 7\<rparr>]]\<rparr>])
     = Some ([7], False)"
  by code_simp

end
