(* ===== verification/TqlEngine.thy ===== *)
theory TqlEngine
  imports TqlAst Structural
begin

section \<open>The evaluation of pipelines (pkg/traceql/ast.go, ast_execute.go)\<close>

text \<open>
  Every element of a pipeline maps a list of spansets to a list of spansets. A spanset is modelled by the
  fields that the engine uses: the scalar of the last aggregate, the spans, the added attributes, and the
  trace id for all that only travels along. A clone shares nothing that is written afterwards, so spansets
  are values.

  Parameters are the attributes of each span and its structural position, the sort, the hash that
  \<open>MapKey\<close> uses for arrays, the order in which Go iterates over the map of groups, and the printed form of
  expressions. Expressions are evaluated by \<open>eval\<close> of \<open>TqlExpr\<close>.
\<close>

record spanset =
  Scalar :: static
  Spans :: "span list"
  SpansetAttributes :: "(string \<times> static) list"
  TraceID :: bytes

type_synonym map_key = "static_type \<times> 64 word \<times> string"

record engine_env =
  expr_env :: tql_env
  AttributeFor :: "span \<Rightarrow> span_attributes"
  tree :: span_tree
  sort_Slice :: sorter
  xxhash :: "static \<Rightarrow> 64 word"
  map_order :: "spanset list \<Rightarrow> spanset list"
  aggregate_String :: "aggregate \<Rightarrow> string"
  expression_String :: "field_expression \<Rightarrow> string"

datatype engine_error = ErrExecute expr_error | ErrSpansetOperationMultiple | ErrSpansetNotSupported operator
  | ErrScalarFilterNotSupported | ErrBinOp operator | ErrNilExpression

type_synonym spansets_result = "engine_error + spanset list"

definition AddAttribute :: "string \<Rightarrow> static \<Rightarrow> spanset \<Rightarrow> spanset" where
  "AddAttribute key val ss = ss\<lparr>SpansetAttributes := SpansetAttributes ss @ [(key, val)]\<rparr>"

definition execute :: "engine_env \<Rightarrow> field_expression \<Rightarrow> span \<Rightarrow> engine_error + static" where
  "execute g e s = (case eval (expr_env g) (AttributeFor g s) e of Inl err \<Rightarrow> Inl (ErrExecute err) | Inr v \<Rightarrow> Inr v)"

text \<open>A loop that stops at the first error.\<close>

fun each :: "('a \<Rightarrow> 'e + 'b) \<Rightarrow> 'a list \<Rightarrow> 'e + 'b list" where
  "each f [] = Inr []"
| "each f (x # xs) = (case f x of Inl e \<Rightarrow> Inl e
     | Inr y \<Rightarrow> (case each f xs of Inl e \<Rightarrow> Inl e | Inr ys \<Rightarrow> Inr (y # ys)))"

subsection \<open>Spanset filters\<close>

definition is_true :: "static \<Rightarrow> bool" where
  "is_true v \<longleftrightarrow> static_Bool v = Some True"

text \<open>The spans of one spanset that pass: the loop over \<open>ss.Spans\<close>.\<close>

fun matching_spans :: "engine_env \<Rightarrow> field_expression \<Rightarrow> span list \<Rightarrow> engine_error + span list" where
  "matching_spans g e [] = Inr []"
| "matching_spans g e (s # ss) = (case execute g e s of Inl err \<Rightarrow> Inl err
     | Inr v \<Rightarrow> (case matching_spans g e ss of Inl err \<Rightarrow> Inl err
         | Inr rest \<Rightarrow> Inr (if is_true v then s # rest else rest)))"

definition fork :: "spanset list \<Rightarrow> nat \<Rightarrow> bool \<Rightarrow> spanset list \<Rightarrow> spanset list" where
  "fork input i forked outputBuffer = (if \<not> forked \<and> i > 0 then outputBuffer @ take i input else outputBuffer)"

text \<open>The loop with the copy on write: \<open>input\<close> is the whole input, the list argument what is left of it from
  index \<open>i\<close> on.\<close>

fun filter_loop :: "engine_env \<Rightarrow> field_expression \<Rightarrow> spanset list \<Rightarrow> nat \<Rightarrow> bool \<Rightarrow> spanset list \<Rightarrow> spanset list
    \<Rightarrow> spansets_result" where
  "filter_loop g e input i forked outputBuffer [] = Inr (if forked then outputBuffer else input)"
| "filter_loop g e input i forked outputBuffer (ss # rest) =
     (if Spans ss = [] then filter_loop g e input (i + 1) True (fork input i forked outputBuffer) rest
      else case matching_spans g e (Spans ss) of
          Inl err \<Rightarrow> Inl err
        | Inr matching \<Rightarrow>
            (if matching = [] then filter_loop g e input (i + 1) True (fork input i forked outputBuffer) rest
             else if length matching = length (Spans ss) then
               filter_loop g e input (i + 1) forked (if forked then outputBuffer @ [ss] else outputBuffer) rest
             else filter_loop g e input (i + 1) True
                (fork input i forked outputBuffer @ [ss\<lparr>Spans := matching\<rparr>]) rest))"

definition evaluate_filter :: "engine_env \<Rightarrow> field_expression \<Rightarrow> spanset list \<Rightarrow> spansets_result" where
  "evaluate_filter g e input = filter_loop g e input 0 False [] input"

subsection \<open>Grouping and coalescing\<close>

definition MapKey :: "engine_env \<Rightarrow> static \<Rightarrow> map_key" where
  "MapKey g s = (case s of
       StaticNil \<Rightarrow> (TypeNil, 0, '''')
     | StaticString str \<Rightarrow> (TypeString, 0, str)
     | StaticIntArray xs \<Rightarrow> (TypeIntArray, if xs = [] then 0 else xxhash g s, '''')
     | StaticFloatArray xs \<Rightarrow> (TypeFloatArray, if xs = [] then 0 else xxhash g s, '''')
     | StaticBooleanArray xs \<Rightarrow> (TypeBooleanArray, if xs = [] then 0 else xxhash g s, '''')
     | StaticStringArray xs \<Rightarrow> (TypeStringArray, if xs = [] then 0 else xxhash g s, '''')
     | StaticInt n \<Rightarrow> (TypeInt, n, '''') | StaticFloat f \<Rightarrow> (TypeFloat, f, '''')
     | StaticBool b \<Rightarrow> (TypeBoolean, of_bool b, '''') | StaticDuration d \<Rightarrow> (TypeDuration, d, '''')
     | StaticStatus n \<Rightarrow> (TypeStatus, n, '''') | StaticKind n \<Rightarrow> (TypeKind, n, ''''))"

text \<open>The map of groups, as an association list.\<close>

fun add_to_group :: "map_key \<Rightarrow> spanset \<Rightarrow> span \<Rightarrow> (map_key \<times> spanset) list \<Rightarrow> (map_key \<times> spanset) list" where
  "add_to_group k new s [] = [(k, new\<lparr>Spans := Spans new @ [s]\<rparr>)]"
| "add_to_group k new s ((k', grp) # gs) =
     (if k' = k then (k', grp\<lparr>Spans := Spans grp @ [s]\<rparr>) # gs else (k', grp) # add_to_group k new s gs)"

definition new_group :: "engine_env \<Rightarrow> field_expression \<Rightarrow> spanset \<Rightarrow> static \<Rightarrow> spanset" where
  "new_group g e ss result = AddAttribute (''by('' @ expression_String g e @ '')'') result
     \<lparr>Scalar = StaticNil, Spans = [], SpansetAttributes = SpansetAttributes ss, TraceID = []\<rparr>"

fun group_spans :: "engine_env \<Rightarrow> field_expression \<Rightarrow> spanset \<Rightarrow> span list \<Rightarrow> (map_key \<times> spanset) list
    \<Rightarrow> engine_error + (map_key \<times> spanset) list" where
  "group_spans g e ss [] groups = Inr groups"
| "group_spans g e ss (s # rest) groups = (case execute g e s of Inl err \<Rightarrow> Inl err
     | Inr result \<Rightarrow> group_spans g e ss rest (add_to_group (MapKey g result) (new_group g e ss result) s groups))"

definition evaluate_group :: "engine_env \<Rightarrow> field_expression \<Rightarrow> spanset list \<Rightarrow> spansets_result" where
  "evaluate_group g e ss = (case each (\<lambda>spanset. group_spans g e spanset (Spans spanset) []) ss of
       Inl err \<Rightarrow> Inl err
     | Inr gss \<Rightarrow> Inr (concat (map (\<lambda>gs. map_order g (map snd gs)) gss)))"

definition evaluate_coalesce :: "spanset list \<Rightarrow> spanset list" where
  "evaluate_coalesce ss =
     [\<lparr>Scalar = StaticNil, Spans = concat (map Spans ss), SpansetAttributes = [], TraceID = []\<rparr>]"

subsection \<open>Operations on two spansets\<close>

definition clone_with :: "spanset \<Rightarrow> span list \<Rightarrow> spanset" where
  "clone_with ss spans = ss\<lparr>Spans := spans\<rparr>"

definition addSpanset :: "spanset \<Rightarrow> span list \<Rightarrow> spanset list \<Rightarrow> spanset list" where
  "addSpanset input matching output = (if matching = [] then output else output @ [clone_with input matching])"

definition uniqueSpans :: "spanset list \<Rightarrow> spanset list \<Rightarrow> span list" where
  "uniqueSpans ss1 ss2 = (let
       spans1 = concat (map Spans ss1); spans2 = concat (map Spans ss2);
       (smaller, larger) = (if length spans1 < length spans2 then (spans1, spans2) else (spans2, spans1))
     in smaller @ filter (\<lambda>s. s \<notin> set smaller) larger)"

text \<open>The relation that a structural operator stands for, as a function of the two sides and the buffer.\<close>

definition relation_fn :: "engine_env \<Rightarrow> operator \<Rightarrow> (span list \<Rightarrow> span list \<Rightarrow> span list \<Rightarrow> span list) option" where
  "relation_fn g op =
     (if op \<in> {OpSpansetNotDescendant, OpSpansetNotAncestor, OpSpansetAncestor, OpSpansetDescendant,
          OpSpansetUnionAncestor, OpSpansetUnionDescendant} then
        Some (\<lambda>l r buffer. DescendantOf (sort_Slice g) (tree g) l r
          (op = OpSpansetNotDescendant \<or> op = OpSpansetNotAncestor)
          (op = OpSpansetAncestor \<or> op = OpSpansetNotAncestor \<or> op = OpSpansetUnionAncestor)
          (op = OpSpansetUnionAncestor \<or> op = OpSpansetUnionDescendant) buffer)
      else if op \<in> {OpSpansetNotChild, OpSpansetChild, OpSpansetNotParent, OpSpansetParent,
          OpSpansetUnionParent, OpSpansetUnionChild} then
        Some (\<lambda>l r buffer. ChildOf (sort_Slice g) (tree g) l r
          (op = OpSpansetNotParent \<or> op = OpSpansetNotChild)
          (op = OpSpansetParent \<or> op = OpSpansetNotParent \<or> op = OpSpansetUnionParent)
          (op = OpSpansetUnionParent \<or> op = OpSpansetUnionChild) buffer)
      else if op \<in> {OpSpansetNotSibling, OpSpansetSibling, OpSpansetUnionSibling} then
        Some (\<lambda>l r buffer. SiblingOf (sort_Slice g) (tree g) l r
          (op = OpSpansetNotSibling) (op = OpSpansetUnionSibling) buffer)
      else None)"

definition joinSpansets :: "(span list \<Rightarrow> span list \<Rightarrow> span list \<Rightarrow> span list) \<Rightarrow> span list
    \<Rightarrow> spanset list \<Rightarrow> spanset list \<Rightarrow> engine_error + span list" where
  "joinSpansets rel buffer lhs rhs =
     (if rhs = [] then Inr []
      else if length lhs > 1 \<or> length rhs > 1 then Inl ErrSpansetOperationMultiple
      else if Spans (hd rhs) = [] then Inr []
      else Inr (rel (if lhs = [] then [] else Spans (hd lhs)) (Spans (hd rhs)) buffer))"

text \<open>The loop over the input. \<open>buffer\<close> is \<open>matchingSpansBuffer\<close>: it is handed to the relation with what it
  holds and keeps the result.\<close>

fun operation_loop :: "engine_env \<Rightarrow> operator \<Rightarrow> (spanset list \<Rightarrow> spansets_result) \<Rightarrow> (spanset list \<Rightarrow> spansets_result)
    \<Rightarrow> spanset list \<Rightarrow> span list \<Rightarrow> spanset list \<Rightarrow> spansets_result" where
  "operation_loop g op left right [] buffer output = Inr output"
| "operation_loop g op left right (ss # rest) buffer output =
     (case left [ss] of Inl err \<Rightarrow> Inl err
      | Inr lhs \<Rightarrow> (case right [ss] of Inl err \<Rightarrow> Inl err
         | Inr rhs \<Rightarrow>
             (if op = OpSpansetAnd then
                operation_loop g op left right rest buffer
                  (if lhs \<noteq> [] \<and> rhs \<noteq> [] then addSpanset ss (uniqueSpans lhs rhs) output else output)
              else if op = OpSpansetUnion then
                operation_loop g op left right rest buffer
                  (if lhs \<noteq> [] \<or> rhs \<noteq> [] then addSpanset ss (uniqueSpans lhs rhs) output else output)
              else case relation_fn g op of
                  None \<Rightarrow> Inl (ErrSpansetNotSupported op)
                | Some rel \<Rightarrow> (case joinSpansets rel buffer lhs rhs of
                    Inl err \<Rightarrow> Inl err
                  | Inr buffer' \<Rightarrow> operation_loop g op left right rest buffer' (addSpanset ss buffer' output)))))"

subsection \<open>Aggregates and scalar filters\<close>

text \<open>The values of a field on the spans of one spanset, nil left out.\<close>

definition field_values :: "engine_env \<Rightarrow> field_expression \<Rightarrow> span list \<Rightarrow> engine_error + static list" where
  "field_values g e spans = (case each (execute g e) spans of Inl err \<Rightarrow> Inl err
     | Inr vs \<Rightarrow> Inr (filter (\<lambda>v. v \<noteq> StaticNil) vs))"

text \<open>What the loops compute from the values, if there are any.\<close>

definition aggregate_values :: "engine_env \<Rightarrow> aggregate_op \<Rightarrow> static list \<Rightarrow> static option" where
  "aggregate_values g op vs = (let ops = float (expr_env g) in case vs of
       [] \<Rightarrow> None
     | v # rest \<Rightarrow> Some (case op of
           aggregateCount \<Rightarrow> StaticInt (of_nat (length vs))
         | aggregateAvg \<Rightarrow> divideBy ops (fold (\<lambda>u s. sumInto ops s u) rest v) (f_of_int ops (of_nat (length vs)))
         | aggregateSum \<Rightarrow> fold (\<lambda>u s. sumInto ops s u) rest v
         | aggregateMax \<Rightarrow> fold (\<lambda>u m. if static_compare ops u m > 0 then u else m) rest v
         | aggregateMin \<Rightarrow> fold (\<lambda>u m. if static_compare ops u m = -1 then u else m) rest v))"

definition with_scalar :: "engine_env \<Rightarrow> aggregate \<Rightarrow> static \<Rightarrow> spanset \<Rightarrow> spanset" where
  "with_scalar g a v ss = AddAttribute (aggregate_String g a) v (ss\<lparr>Scalar := v\<rparr>)"

text \<open>An aggregate other than a count needs an expression: without one the code dereferences nil, and the parser
  builds none.\<close>

definition aggregate_spanset :: "engine_env \<Rightarrow> aggregate \<Rightarrow> spanset \<Rightarrow> engine_error + spanset option" where
  "aggregate_spanset g a ss = (case a of Aggregate op oe \<Rightarrow>
     if op = aggregateCount then Inr (Some (with_scalar g a (StaticInt (of_nat (length (Spans ss)))) ss))
     else case oe of
         None \<Rightarrow> (if Spans ss = [] then Inr None else Inl ErrNilExpression)
       | Some e \<Rightarrow> (case field_values g e (Spans ss) of Inl err \<Rightarrow> Inl err
           | Inr vs \<Rightarrow> Inr (map_option (\<lambda>v. with_scalar g a v ss) (aggregate_values g op vs))))"

definition evaluate_aggregate :: "engine_env \<Rightarrow> aggregate \<Rightarrow> spanset list \<Rightarrow> spansets_result" where
  "evaluate_aggregate g a input = (case each (aggregate_spanset g a) input of Inl err \<Rightarrow> Inl err
     | Inr os \<Rightarrow> Inr (List.map_filter id os))"

definition binOp :: "engine_env \<Rightarrow> operator \<Rightarrow> static \<Rightarrow> static \<Rightarrow> engine_error + bool" where
  "binOp g op lhs rhs = (let ops = float (expr_env g); l = static_Float ops lhs; r = static_Float ops rhs in
     if \<not> isMatchingOperand (static_Type lhs) (static_Type rhs)
       \<or> \<not> binaryTypesValid op (static_Type lhs) (static_Type rhs) then Inr False
     else case (case (lhs, rhs) of
         (StaticBool p, StaticBool q) \<Rightarrow>
           (case op of OpAnd \<Rightarrow> Some (p \<and> q) | OpOr \<Rightarrow> Some (p \<or> q) | _ \<Rightarrow> None)
       | _ \<Rightarrow> None) of
         Some res \<Rightarrow> Inr res
       | None \<Rightarrow> (case op of
             OpGreater \<Rightarrow> Inr (f64_less r l)
           | OpGreaterEqual \<Rightarrow> Inr (f64_le r l)
           | OpLess \<Rightarrow> Inr (f64_less l r)
           | OpLessEqual \<Rightarrow> Inr (f64_le l r)
           | OpEqual \<Rightarrow> Inr (static_Equals ops lhs rhs)
           | OpNotEqual \<Rightarrow> Inr (static_NotEquals ops lhs rhs)
           | _ \<Rightarrow> Inl (ErrBinOp op)))"

definition keep_if :: "engine_env \<Rightarrow> operator \<Rightarrow> static \<Rightarrow> spanset \<Rightarrow> engine_error + spanset option" where
  "keep_if g op r ss = (case binOp g op (Scalar ss) r of Inl err \<Rightarrow> Inl err
     | Inr res \<Rightarrow> Inr (if res then Some ss else None))"

definition evaluate_scalar_filter :: "engine_env \<Rightarrow> operator \<Rightarrow> scalar_expression \<Rightarrow> scalar_expression
    \<Rightarrow> spanset list \<Rightarrow> spansets_result" where
  "evaluate_scalar_filter g op l r input = (case (l, r) of
       (ScalarAggregate a, ScalarStatic v) \<Rightarrow> (case evaluate_aggregate g a input of
           Inl err \<Rightarrow> Inl err
         | Inr ss \<Rightarrow> (case each (keep_if g op v) ss of
             Inl err \<Rightarrow> Inl err | Inr os \<Rightarrow> Inr (List.map_filter id os)))
     | _ \<Rightarrow> Inl ErrScalarFilterNotSupported)"

subsection \<open>Pipelines\<close>

fun evaluate_element :: "engine_env \<Rightarrow> pipeline_element \<Rightarrow> spanset list \<Rightarrow> spansets_result"
  and evaluate_pipeline :: "engine_env \<Rightarrow> pipeline_element list \<Rightarrow> spanset list \<Rightarrow> spansets_result" where
  "evaluate_element g (SpansetFilter e) input = evaluate_filter g e input"
| "evaluate_element g (SpansetOperation op l r) input =
     operation_loop g op (\<lambda>ss. evaluate_element g l ss) (\<lambda>ss. evaluate_element g r ss) input [] []"
| "evaluate_element g (Pipeline es) input = evaluate_pipeline g es input"
| "evaluate_element g (ScalarFilter op l r) input = evaluate_scalar_filter g op l r input"
| "evaluate_element g (AggregateElement a) input = evaluate_aggregate g a input"
| "evaluate_element g (GroupOperation e) input = evaluate_group g e input"
| "evaluate_element g CoalesceOperation input = Inr (evaluate_coalesce input)"
| "evaluate_element g (SelectOperation attrs) input = Inr input"
| "evaluate_pipeline g [] input = Inr input"
| "evaluate_pipeline g (e # es) input = (case evaluate_element g e input of Inl err \<Rightarrow> Inl err
     | Inr result \<Rightarrow> (if result = [] then Inr [] else evaluate_pipeline g es result))"

subsection \<open>A filter keeps the matching spans\<close>

definition passes :: "engine_env \<Rightarrow> field_expression \<Rightarrow> span \<Rightarrow> bool" where
  "passes g e s \<longleftrightarrow> matches (expr_env g) (AttributeFor g s) e"

definition filtered :: "engine_env \<Rightarrow> field_expression \<Rightarrow> spanset \<Rightarrow> spanset option" where
  "filtered g e ss = (let m = filter (passes g e) (Spans ss) in if m = [] then None else Some (ss\<lparr>Spans := m\<rparr>))"

definition evaluates :: "engine_env \<Rightarrow> field_expression \<Rightarrow> span \<Rightarrow> bool" where
  "evaluates g e s \<longleftrightarrow> (case execute g e s of Inl _ \<Rightarrow> False | Inr _ \<Rightarrow> True)"

lemma is_true_iff: "is_true v \<longleftrightarrow> v = StaticBool True"
  by (cases v) (simp_all add: is_true_def static_Bool_def)

lemma matching_spans_all:
  "(\<forall>s\<in>set spans. evaluates g e s) \<Longrightarrow> matching_spans g e spans = Inr (filter (passes g e) spans)"
  by (induction spans)
    (auto simp: evaluates_def execute_def passes_def matches_def is_true_iff split: sum.splits)

lemma matching_spans_error: "(\<exists>s\<in>set spans. \<not> evaluates g e s) \<longleftrightarrow> (\<exists>err. matching_spans g e spans = Inl err)"
  by (induction spans) (auto simp: evaluates_def split: sum.splits)

lemma filter_all_kept: "length (filter P xs) = length xs \<Longrightarrow> filter P xs = xs"
  by (metis filter_id_conv length_filter_less less_irrefl)

lemma filtered_same:
  assumes "length (filter (passes g e) (Spans ss)) = length (Spans ss)" and "filter (passes g e) (Spans ss) \<noteq> []"
  shows "filtered g e ss = Some ss"
  using assms filter_all_kept [OF assms(1)] by (simp add: filtered_def)

lemma filter_loop_all:
  assumes "\<forall>ss\<in>set rest. \<forall>s\<in>set (Spans ss). evaluates g e s" and "input = pre @ rest" and "i = length pre"
    and "if forked then outputBuffer = List.map_filter (filtered g e) pre
         else outputBuffer = [] \<and> List.map_filter (filtered g e) pre = pre"
  shows "filter_loop g e input i forked outputBuffer rest = Inr (List.map_filter (filtered g e) input)"
  using assms
proof (induction rest arbitrary: pre i forked outputBuffer)
  case Nil
  then show ?case by (auto split: if_splits)
next
  case (Cons ss rest)
  let ?F = "List.map_filter (filtered g e)"
  let ?m = "filter (passes g e) (Spans ss)"
  have m: "matching_spans g e (Spans ss) = Inr ?m" using Cons.prems(1) by (simp add: matching_spans_all)
  have snoc: "?F (pre @ [ss]) = ?F pre @ (case filtered g e ss of None \<Rightarrow> [] | Some x \<Rightarrow> [x])"
    by (simp add: map_filter_def split: option.splits)
  have f: "fork input i forked outputBuffer = ?F pre"
    using Cons.prems(2-4) by (auto simp: fork_def split: if_splits)
  have step: "filter_loop g e input (i + 1) fk out rest = Inr (?F input)"
    if "if fk then out = ?F (pre @ [ss]) else out = [] \<and> ?F (pre @ [ss]) = pre @ [ss]" for fk out
    using Cons.prems that by (intro Cons.IH [of "pre @ [ss]"]) auto
  consider "?m = []" | "?m \<noteq> []" "length ?m = length (Spans ss)" | "?m \<noteq> []" "length ?m \<noteq> length (Spans ss)" by blast
  then show ?case
  proof cases
    case 1
    then have "?F (pre @ [ss]) = ?F pre" by (simp add: snoc filtered_def)
    then show ?thesis using 1 m f step [of True] by simp
  next
    case 2
    then have "Spans ss \<noteq> []" "filtered g e ss = Some ss" using filtered_same [OF 2(2,1)] by auto
    then show ?thesis using 2 m snoc Cons.prems(4) step [of forked] by (cases forked) simp_all
  next
    case 3
    then have "filtered g e ss = Some (ss\<lparr>Spans := ?m\<rparr>)" "Spans ss \<noteq> []" by (auto simp: filtered_def)
    then show ?thesis using 3 m f snoc step [of True] by simp
  qed
qed

lemma filter_exact:
  "(\<forall>ss\<in>set input. \<forall>s\<in>set (Spans ss). evaluates g e s) \<Longrightarrow>
     evaluate_filter g e input = Inr (List.map_filter (filtered g e) input)"
  unfolding evaluate_filter_def by (rule filter_loop_all [where pre = "[]"]) (auto simp: map_filter_simps)

lemma filter_loop_error:
  "(\<exists>ss\<in>set rest. \<exists>s\<in>set (Spans ss). \<not> evaluates g e s) \<Longrightarrow>
     \<exists>err. filter_loop g e input i forked outputBuffer rest = Inl err"
proof (induction rest arbitrary: i forked outputBuffer)
  case (Cons ss rest)
  show ?case
  proof (cases "\<exists>s\<in>set (Spans ss). \<not> evaluates g e s")
    case True
    then have "Spans ss \<noteq> []" by auto
    then show ?thesis using True matching_spans_error [of "Spans ss" g e] by auto
  next
    case False
    then show ?thesis using Cons by (auto split: sum.splits)
  qed
qed simp


subsection \<open>No element invents spans\<close>

definition all_spans :: "spanset list \<Rightarrow> span set" where
  "all_spans ss = \<Union> (set ` Spans ` set ss)"

lemma all_spans_simps [simp]:
  "all_spans [] = {}" "all_spans (s # ss) = set (Spans s) \<union> all_spans ss"
  "all_spans (xs @ ys) = all_spans xs \<union> all_spans ys"
  by (auto simp: all_spans_def)

text \<open>The parameters: the sort sorts, and the order of a map is some order of its entries.\<close>

definition lawful :: "engine_env \<Rightarrow> bool" where
  "lawful g \<longleftrightarrow> slice_sort (sort_Slice g) \<and> (\<forall>gs. mset (map_order g gs) = mset gs)"

definition within :: "span set \<Rightarrow> spansets_result \<Rightarrow> bool" where
  "within A r \<longleftrightarrow> (case r of Inl _ \<Rightarrow> True | Inr out \<Rightarrow> all_spans out \<subseteq> A)"

lemma within_simps [simp]: "within A (Inl e)" "within A (Inr out) \<longleftrightarrow> all_spans out \<subseteq> A"
  by (simp_all add: within_def)

lemma each_Inr:
  "each f xs = Inr ys \<Longrightarrow> length ys = length xs \<and> (\<forall>i<length xs. f (xs ! i) = Inr (ys ! i))"
proof (induction xs arbitrary: ys)
  case (Cons x xs)
  then show ?case by (auto split: sum.splits simp: nth_Cons split: nat.splits)
qed simp

lemma each_member: "each f xs = Inr ys \<Longrightarrow> y \<in> set ys \<Longrightarrow> \<exists>x\<in>set xs. f x = Inr y"
  using each_Inr [of f xs ys] by (auto simp: in_set_conv_nth) (metis nth_mem)

lemma within_filter_loop:
  "all_spans rest \<subseteq> A \<Longrightarrow> all_spans input \<subseteq> A \<Longrightarrow> all_spans outputBuffer \<subseteq> A \<Longrightarrow>
     within A (filter_loop g e input i forked outputBuffer rest)"
proof (induction rest arbitrary: i forked outputBuffer)
  case (Cons ss rest)
  have t: "all_spans (take i input) \<subseteq> A" using Cons.prems(2) set_take_subset [of i input] by (fastforce simp: all_spans_def)
  have f: "all_spans (fork input i forked outputBuffer) \<subseteq> A" using t Cons.prems(3) by (simp add: fork_def)
  have m: "set m \<subseteq> set spans" if "matching_spans g e spans = Inr m" for m spans
    using that by (induction spans arbitrary: m) (auto split: sum.splits if_splits)
  show ?case
    using Cons f m [of "Spans ss"] by (auto split: sum.splits)
qed simp

lemma kept_set: "set (List.map_filter id os) = {y. Some y \<in> set os}"
  by (induction os) (auto simp: map_filter_simps split: option.splits)

lemma within_each:
  assumes "\<And>x y. x \<in> set xs \<Longrightarrow> f x = Inr (Some y) \<Longrightarrow> set (Spans y) \<subseteq> A" and "each f xs = Inr os"
  shows "all_spans (List.map_filter id os) \<subseteq> A"
proof -
  have "set (Spans y) \<subseteq> A" if "Some y \<in> set os" for y
    using each_member [OF assms(2) that] assms(1) by blast
  then show ?thesis by (auto simp: all_spans_def kept_set)
qed

lemma aggregate_keeps_spans: "aggregate_spanset g a ss = Inr (Some ss') \<Longrightarrow> Spans ss' = Spans ss"
  by (auto simp: aggregate_spanset_def with_scalar_def AddAttribute_def split: aggregate.splits if_splits option.splits sum.splits)

lemma within_aggregate: "all_spans input \<subseteq> A \<Longrightarrow> within A (evaluate_aggregate g a input)"
proof (cases "each (aggregate_spanset g a) input")
  case (Inr os)
  assume "all_spans input \<subseteq> A"
  then have "all_spans (List.map_filter id os) \<subseteq> A"
    using within_each [OF _ Inr, of A] aggregate_keeps_spans [of g a] by (force simp: all_spans_def)
  then show ?thesis using Inr by (simp add: evaluate_aggregate_def)
qed (simp add: evaluate_aggregate_def)

lemma within_scalar_filter: "all_spans input \<subseteq> A \<Longrightarrow> within A (evaluate_scalar_filter g op l r input)"
proof -
  assume i: "all_spans input \<subseteq> A"
  have "all_spans (List.map_filter id os) \<subseteq> A"
    if "evaluate_aggregate g a input = Inr ss" "each (keep_if g op v) ss = Inr os" for a v ss os
  proof -
    have "all_spans ss \<subseteq> A" using within_aggregate [OF i, of g a] that(1) by simp
    then show ?thesis
      using within_each [OF _ that(2), of A] by (force simp: all_spans_def keep_if_def split: sum.splits if_splits)
  qed
  then show ?thesis
    by (auto simp: evaluate_scalar_filter_def within_def split: scalar_expression.splits sum.splits)
qed

lemma add_to_group_spans:
  "all_spans (map snd (add_to_group k new s gs)) \<subseteq> insert s (set (Spans new) \<union> all_spans (map snd gs))"
  by (induction gs) (auto split: if_splits)

lemma group_spans_spans:
  "group_spans g e ss spans gs = Inr out \<Longrightarrow> all_spans (map snd out) \<subseteq> set spans \<union> all_spans (map snd gs)"
proof (induction spans arbitrary: gs)
  case (Cons s spans)
  then obtain v where v: "execute g e s = Inr v" by (auto split: sum.splits)
  let ?gs = "add_to_group (MapKey g v) (new_group g e ss v) s gs"
  have "all_spans (map snd out) \<subseteq> set spans \<union> all_spans (map snd ?gs)"
    using Cons.prems v by (intro Cons.IH) simp
  moreover have "all_spans (map snd ?gs) \<subseteq> insert s (all_spans (map snd gs))"
    using add_to_group_spans [of "MapKey g v" "new_group g e ss v" s gs] by (simp add: new_group_def AddAttribute_def)
  ultimately show ?case by auto
qed simp

lemma within_group:
  assumes "lawful g" and "all_spans input \<subseteq> A"
  shows "within A (evaluate_group g e input)"
proof (cases "each (\<lambda>spanset. group_spans g e spanset (Spans spanset) []) input")
  case (Inr gss)
  have o: "set (map_order g gs) = set gs" for gs using assms(1) by (metis lawful_def mset_eq_setD)
  have "all_spans (map snd gs) \<subseteq> A" if gs: "gs \<in> set gss" for gs
  proof -
    obtain ss where "ss \<in> set input" "group_spans g e ss (Spans ss) [] = Inr gs"
      using each_member [OF Inr gs] by blast
    then show ?thesis using group_spans_spans [of g e ss "Spans ss" "[]" gs] assms(2) by (fastforce simp: all_spans_def)
  qed
  then have "all_spans (concat (map (\<lambda>gs. map_order g (map snd gs)) gss)) \<subseteq> A"
    by (fastforce simp: all_spans_def o)
  then show ?thesis using Inr by (simp add: evaluate_group_def)
qed (simp add: evaluate_group_def)

lemma unique_spans_within: "set (uniqueSpans ss1 ss2) = all_spans ss1 \<union> all_spans ss2"
  by (auto simp: uniqueSpans_def all_spans_def Let_def)

lemma within_addSpanset:
  "set m \<subseteq> A \<Longrightarrow> all_spans output \<subseteq> A \<Longrightarrow> all_spans (addSpanset ss m output) \<subseteq> A"
  by (auto simp: addSpanset_def clone_with_def)

lemma relation_within:
  assumes "lawful g" and "relation_fn g op = Some rel"
  shows "set (rel l r buffer) \<subseteq> set buffer \<union> set l \<union> set r"
proof -
  have "\<exists>f iv u. rel = (\<lambda>l r buffer. DescendantOf (sort_Slice g) (tree g) l r f iv u buffer)
      \<or> rel = (\<lambda>l r buffer. ChildOf (sort_Slice g) (tree g) l r f iv u buffer)
      \<or> rel = (\<lambda>l r buffer. SiblingOf (sort_Slice g) (tree g) l r f u buffer)"
    using assms(2) unfolding relation_fn_def by (metis option.inject option.distinct(1))
  then show ?thesis
    using slice_sort.structural_within [of "sort_Slice g"] assms(1) unfolding lawful_def by (elim exE disjE) simp_all
qed

lemma join_within:
  assumes "lawful g" and "relation_fn g op = Some rel" and "joinSpansets rel buffer lhs rhs = Inr m"
    and "all_spans lhs \<subseteq> A" and "all_spans rhs \<subseteq> A" and "set buffer \<subseteq> A"
  shows "set m \<subseteq> A"
proof (cases "rhs = []")
  case False
  let ?l = "if lhs = [] then [] else Spans (hd lhs)" and ?r = "Spans (hd rhs)"
  have "set (Spans (hd ss)) \<subseteq> A" if "ss \<noteq> []" "all_spans ss \<subseteq> A" for ss
    using that by (cases ss) auto
  then have lr: "set ?l \<subseteq> A" "set ?r \<subseteq> A" using assms(4,5) False by auto
  have "m = [] \<or> m = rel ?l ?r buffer"
    using assms(3) False by (simp add: joinSpansets_def split: if_splits)
  moreover have "set (rel ?l ?r buffer) \<subseteq> A"
    by (rule order_trans [OF relation_within [OF assms(1,2)]]) (use lr assms(6) in simp)
  ultimately show ?thesis by auto
qed (use assms(3) in \<open>simp add: joinSpansets_def\<close>)

lemma within_operation_loop:
  assumes g: "lawful g"
    and l: "\<And>ss. all_spans [ss] \<subseteq> A \<Longrightarrow> within A (left [ss])" and r: "\<And>ss. all_spans [ss] \<subseteq> A \<Longrightarrow> within A (right [ss])"
  shows "all_spans input \<subseteq> A \<Longrightarrow> set buffer \<subseteq> A \<Longrightarrow> all_spans out \<subseteq> A \<Longrightarrow>
    within A (operation_loop g op left right input buffer out)"
proof (induction input arbitrary: buffer out)
  case (Cons ss rest)
  show ?case
  proof (cases "left [ss]")
    case (Inr lhs)
    note lhs = this
    show ?thesis
    proof (cases "right [ss]")
      case (Inr rhs)
      have A: "all_spans lhs \<subseteq> A" "all_spans rhs \<subseteq> A" "all_spans rest \<subseteq> A"
        using l [of ss] r [of ss] lhs Inr Cons.prems(1) by simp_all
      have u: "all_spans (addSpanset ss (uniqueSpans lhs rhs) out) \<subseteq> A"
        using A Cons.prems(3) by (intro within_addSpanset) (simp_all add: unique_spans_within)
      have "within A (operation_loop g op left right rest m (addSpanset ss m out))"
        if "relation_fn g op = Some rel" "joinSpansets rel buffer lhs rhs = Inr m" for rel m
        using join_within [OF g that A(1,2) Cons.prems(2)] A(3) Cons.prems(3) by (intro Cons.IH within_addSpanset)
      then show ?thesis
        using lhs Inr u A(3) Cons.IH Cons.prems(2,3) by (auto split: option.splits sum.splits)
    qed (simp add: lhs)
  qed simp
qed simp

lemma within_element:
  "lawful g \<Longrightarrow> all_spans input \<subseteq> A \<Longrightarrow> within A (evaluate_element g e input)"
  "lawful g \<Longrightarrow> all_spans input \<subseteq> A \<Longrightarrow> within A (evaluate_pipeline g es input)"
proof (induction g e input and g es input rule: evaluate_element_evaluate_pipeline.induct)
  case (1 g e input)
  then show ?case by (simp add: evaluate_filter_def within_filter_loop)
next
  case (2 g op l r input)
  have "within A (operation_loop g op (evaluate_element g l) (evaluate_element g r) input [] [])"
    using 2 by (intro within_operation_loop) simp_all
  then show ?case by simp
next
  case (7 g input)
  then show ?case by (auto simp: evaluate_coalesce_def all_spans_def)
next
  case (10 g e es input)
  then show ?case by (auto split: sum.splits)
qed (simp_all add: within_scalar_filter within_aggregate within_group)

subsection \<open>Grouping only splits\<close>

lemma Spans_new_group [simp]: "Spans (new_group g e ss v) = []"
  by (simp add: new_group_def AddAttribute_def)

lemma add_to_group_mset:
  "Spans new = [] \<Longrightarrow> mset (concat (map (\<lambda>x. Spans (snd x)) (add_to_group k new s gs)))
     = add_mset s (mset (concat (map (\<lambda>x. Spans (snd x)) gs)))"
  by (induction gs) auto

lemma group_spans_mset:
  "group_spans g e ss spans gs = Inr out \<Longrightarrow>
     mset (concat (map (\<lambda>x. Spans (snd x)) out)) = mset spans + mset (concat (map (\<lambda>x. Spans (snd x)) gs))"
proof (induction spans arbitrary: gs)
  case (Cons s spans)
  then obtain v where "execute g e s = Inr v" by (auto split: sum.splits)
  then show ?case
    using Cons by (simp add: add_to_group_mset)
qed simp

lemma mset_concat_Spans: "mset (concat (map Spans gs)) = (\<Sum>x\<in>#mset gs. mset (Spans x))"
  by (induction gs) auto

lemma evaluate_group_mset:
  assumes "lawful g" and "evaluate_group g e input = Inr out"
  shows "mset (concat (map Spans out)) = mset (concat (map Spans input))"
proof -
  obtain gss where gss: "each (\<lambda>spanset. group_spans g e spanset (Spans spanset) []) input = Inr gss"
      "out = concat (map (\<lambda>gs. map_order g (map snd gs)) gss)"
    using assms(2) by (auto simp: evaluate_group_def split: sum.splits)
  have o: "mset (concat (map Spans (map_order g hs))) = mset (concat (map Spans hs))" for hs
    using assms(1) by (simp add: mset_concat_Spans lawful_def del: mset_concat)
  have "mset (concat (map Spans (concat (map (\<lambda>gs. map_order g (map snd gs)) gss)))) = mset (concat (map Spans input))"
    using gss(1)
  proof (induction input arbitrary: gss)
    case (Cons ss input)
    then obtain gs gss' where c: "group_spans g e ss (Spans ss) [] = Inr gs"
        "each (\<lambda>spanset. group_spans g e spanset (Spans spanset) []) input = Inr gss'" "gss = gs # gss'"
      by (auto split: sum.splits)
    show ?case
      using Cons.IH [OF c(2)] group_spans_mset [OF c(1)] o [of "map snd gs"] by (simp add: c(3) comp_def)
  qed simp
  then show ?thesis using gss(2) by simp
qed

subsection \<open>Properties of pipelines\<close>

text \<open>C17. A pipeline invents no span: every span of its result is a span of its input, for every pipeline, every
  sort and every order of the map of groups.\<close>

theorem pipeline_invents_no_span:
  assumes "lawful g" and "evaluate_pipeline g es input = Inr out"
  shows "all_spans out \<subseteq> all_spans input"
  using within_element(2) [OF assms(1), of input "all_spans input" es] assms(2) by simp

text \<open>Grouping loses and duplicates nothing: \<open>by(...)\<close> followed by \<open>coalesce()\<close> returns the spans of the input,
  each as often as before.\<close>

theorem group_then_coalesce:
  assumes "lawful g" and "evaluate_pipeline g [GroupOperation e, CoalesceOperation] input = Inr out"
  shows "mset (concat (map Spans out)) = mset (concat (map Spans input))"
proof -
  obtain groups where "evaluate_group g e input = Inr groups"
      "out = (if groups = [] then [] else evaluate_coalesce groups)"
    using assms(2) by (auto simp: evaluate_coalesce_def split: sum.splits if_splits)
  then show ?thesis
    using evaluate_group_mset [OF assms(1), of e input groups] by (auto simp: evaluate_coalesce_def)
qed

text \<open>Spans 1 to 4 are of the service a, spans 5 and 6 of the service b.\<close>

definition demo_engine :: engine_env where
  "demo_engine = \<lparr>expr_env = \<lparr>float = \<lparr>f_add = (\<lambda>x y. x), f_sub = (\<lambda>x y. x), f_mul = (\<lambda>x y. x), f_div = (\<lambda>x y. x),
       f_mod = (\<lambda>x y. x), f_pow = (\<lambda>x y. x), f_of_int = (\<lambda>i. i), f_of_uint = (\<lambda>i. i), f_to_int = (\<lambda>f. f)\<rparr>,
     regexp = (\<lambda>p. None)\<rparr>,
     AttributeFor = (\<lambda>s a. Some (StaticString (if s < 5 then ''a'' else ''b''))), tree = demo_tree,
     sort_Slice = sort_key, xxhash = (\<lambda>s. 0), map_order = (\<lambda>gs. gs), aggregate_String = (\<lambda>a. ''''),
     expression_String = (\<lambda>e. ''.service'')\<rparr>"

definition demo_service :: field_expression where
  "demo_service = Attribute (NewAttribute ''service'')"

definition demo_spanset :: "span list \<Rightarrow> spanset" where
  "demo_spanset ss = \<lparr>Scalar = StaticNil, Spans = ss, SpansetAttributes = [], TraceID = [7]\<rparr>"

lemma demo_engine_lawful: "lawful demo_engine"
  by (simp add: lawful_def demo_engine_def sort_key.slice_sort_axioms)

text \<open>The spans of the spansets of a result.\<close>

definition result_spans :: "spansets_result \<Rightarrow> span list list option" where
  "result_spans r = (case r of Inl _ \<Rightarrow> None | Inr ss \<Rightarrow> Some (map Spans ss))"

lemma result_spans_Some: "result_spans r = Some xs \<Longrightarrow> \<exists>out. r = Inr out \<and> map Spans out = xs"
  by (auto simp: result_spans_def split: sum.splits)

definition demo_filter :: pipeline_element where
  "demo_filter = SpansetFilter (BinaryOperation OpEqual demo_service (Static (StaticString ''b'')))"

theorem pipeline_invents_no_span_witness:
  "\<exists>out. evaluate_pipeline demo_engine [demo_filter] [demo_spanset [1, 6, 5]] = Inr out
    \<and> map Spans out = [[6, 5]] \<and> all_spans out \<subseteq> all_spans [demo_spanset [1, 6, 5]]"
proof -
  have "result_spans (evaluate_pipeline demo_engine [demo_filter] [demo_spanset [1, 6, 5]]) = Some [[6, 5]]" by code_simp
  then show ?thesis
    using pipeline_invents_no_span [OF demo_engine_lawful] result_spans_Some by metis
qed

theorem group_then_coalesce_witness:
  "\<exists>out. evaluate_pipeline demo_engine [GroupOperation demo_service, CoalesceOperation] [demo_spanset [1, 6, 2, 5]] = Inr out
    \<and> map Spans out = [[1, 2, 6, 5]]
    \<and> mset (concat (map Spans out)) = mset (concat (map Spans [demo_spanset [1, 6, 2, 5]]))"
proof -
  have "result_spans (evaluate_pipeline demo_engine [GroupOperation demo_service, CoalesceOperation]
    [demo_spanset [1, 6, 2, 5]]) = Some [[1, 2, 6, 5]]" by code_simp
  then show ?thesis
    using group_then_coalesce [OF demo_engine_lawful] result_spans_Some by metis
qed

text \<open>Structural operators mix up spansets: in \<open>{} | by(.service) | ({} > {})\<close> the operator hands the matches of
  the first group on as the buffer for the second, so span 2 of the service a ends up in the spanset of the
  service b, next to span 6 which alone belongs there.\<close>

theorem structural_buffer_leaks:
  "result_spans (evaluate_pipeline demo_engine
      [GroupOperation demo_service, SpansetOperation OpSpansetChild (SpansetFilter (Static (StaticBool True)))
         (SpansetFilter (Static (StaticBool True)))] [demo_spanset [1, 2, 5, 6]])
    = Some [[2], [2, 6]]
  \<and> result_spans (evaluate_pipeline demo_engine [GroupOperation demo_service] [demo_spanset [1, 2, 5, 6]])
    = Some [[1, 2], [5, 6]]"
  by code_simp

end
