(* ===== verification/TqlCompile.thy ===== *)
theory TqlCompile
  imports TqlConditions TqlRewrite TqlEngine
begin

section \<open>Compiling a query (pkg/traceql/ast_rewriter.go, parse.go, engine.go)\<close>

text \<open>
  The walk of the rewriter over pipelines, and \<open>Compile\<close>: parse, rewrite, validate, extract the request. The
  parser is a parameter: None for a text that it rejects, \<open>Some None\<close> for a query that is not a single
  pipeline. Metrics queries are not modelled, so a compiled query has no span processor.
\<close>

subsection \<open>Rewriting pipelines\<close>

definition rewrite_aggregate :: "tql_env \<Rightarrow> (string \<Rightarrow> bool) \<Rightarrow> aggregate \<Rightarrow> aggregate \<times> nat" where
  "rewrite_aggregate env compiles a = (case a of Aggregate op oe \<Rightarrow> (case oe of
       None \<Rightarrow> (a, 0)
     | Some e \<Rightarrow> (let (e', n) = rewriteFieldExpression env compiles e in (Aggregate op (Some e'), n))))"

text \<open>Elements that are aggregates, coalesce or select operations are left as they are; an aggregate inside a
  scalar filter is rewritten.\<close>

fun rewrite_element :: "tql_env \<Rightarrow> (string \<Rightarrow> bool) \<Rightarrow> pipeline_element \<Rightarrow> pipeline_element \<times> nat"
  and rewrite_scalar :: "tql_env \<Rightarrow> (string \<Rightarrow> bool) \<Rightarrow> scalar_expression \<Rightarrow> scalar_expression \<times> nat"
  and rewritePipeline :: "tql_env \<Rightarrow> (string \<Rightarrow> bool) \<Rightarrow> pipeline_element list \<Rightarrow> pipeline_element list \<times> nat" where
  "rewrite_element env compiles (SpansetFilter e) =
     (let (e', n) = rewriteFieldExpression env compiles e in (SpansetFilter e', n))"
| "rewrite_element env compiles (ScalarFilter op l r) =
     (let (l', n) = rewrite_scalar env compiles l; (r', m) = rewrite_scalar env compiles r
      in (ScalarFilter op l' r', n + m))"
| "rewrite_element env compiles (GroupOperation e) =
     (let (e', n) = rewriteFieldExpression env compiles e in (GroupOperation e', n))"
| "rewrite_element env compiles (SpansetOperation op l r) =
     (let (l', n) = rewrite_element env compiles l; (r', m) = rewrite_element env compiles r
      in (SpansetOperation op l' r', n + m))"
| "rewrite_element env compiles (Pipeline es) =
     (let (es', n) = rewritePipeline env compiles es in (Pipeline es', n))"
| "rewrite_element env compiles (AggregateElement a) = (AggregateElement a, 0)"
| "rewrite_element env compiles CoalesceOperation = (CoalesceOperation, 0)"
| "rewrite_element env compiles (SelectOperation attrs) = (SelectOperation attrs, 0)"
| "rewrite_scalar env compiles (ScalarPipeline es) =
     (let (es', n) = rewritePipeline env compiles es in (ScalarPipeline es', n))"
| "rewrite_scalar env compiles (ScalarOperation op l r) =
     (let (l', n) = rewrite_scalar env compiles l; (r', m) = rewrite_scalar env compiles r
      in (ScalarOperation op l' r', n + m))"
| "rewrite_scalar env compiles (ScalarAggregate a) =
     (let (a', n) = rewrite_aggregate env compiles a in (ScalarAggregate a', n))"
| "rewrite_scalar env compiles (ScalarStatic s) =
     (case rewriteFieldExpression env compiles (Static s) of
        (Static s', n) \<Rightarrow> (ScalarStatic s', n) | _ \<Rightarrow> (ScalarStatic s, 0))"
| "rewritePipeline env compiles [] = ([], 0)"
| "rewritePipeline env compiles (e # es) =
     (let (e', n) = rewrite_element env compiles e; (es', m) = rewritePipeline env compiles es
      in (e' # es', n + m))"

text \<open>There is one transformation, \<open>or_to_in\<close>; \<open>skip\<close> are the names of those to leave out.\<close>

definition ApplyASTRewrites :: "tql_env \<Rightarrow> (string \<Rightarrow> bool) \<Rightarrow> string list \<Rightarrow> pipeline_element list
    \<Rightarrow> pipeline_element list" where
  "ApplyASTRewrites env compiles skip es =
     (if ''all'' \<in> set skip then es
      else if ''or_to_in'' \<notin> set skip then fst (rewritePipeline env compiles es) else es)"

subsection \<open>Compile\<close>

datatype compile_error = ErrParse | ErrMathNotSupported | ErrValidate pipeline_error

text \<open>\<open>Compile\<close> with the options of its callers here, none. It returns the pipeline, whose evaluation is the
  compiled filter, and the request.\<close>

definition Compile :: "tql_env \<Rightarrow> (string \<Rightarrow> bool) \<Rightarrow> (string \<Rightarrow> pipeline_element list option option) \<Rightarrow> string
    \<Rightarrow> compile_error + pipeline_element list \<times> fetch_request" where
  "Compile env compiles parse query = (case parse query of
       None \<Rightarrow> Inl ErrParse
     | Some None \<Rightarrow> Inl ErrMathNotSupported
     | Some (Some es0) \<Rightarrow> (let es = ApplyASTRewrites env compiles [] es0 in
         case validate_pipeline compiles es of
             Some err \<Rightarrow> Inl (ErrValidate err)
           | None \<Rightarrow> Inr (es, compile_request es)))"

subsection \<open>The rewriting keeps what can be pushed down\<close>

lemma pushable_array_node:
  "isArrayOp op \<Longrightarrow> Elements s \<noteq> [] \<Longrightarrow> pushable (BinaryOperation op (Attribute a) (Static s))"
  by (auto simp: isArrayOp_def comparison_def isBoolean_def)

lemma append_not_empty: "static_append v w = Some s \<Longrightarrow> Elements v \<noteq> [] \<Longrightarrow> Elements s \<noteq> [] \<and> isArray (static_Type s)"
  using static_append_elements [of v w s] by (cases v; cases w) (auto simp: static_append_def isArray_def)

lemma operands_of_pushable:
  assumes "pushable n" and "getOperandsFromBinaryOperation n ops = Some (a, v)" and "OpAnd \<notin> ops" and "OpOr \<notin> ops"
  shows "Elements v \<noteq> []"
  using assms by (auto simp: getOperandsFromBinaryOperation_def split: field_expression.splits if_splits)

lemma pushable_step:
  assumes "pushable e" and "rewriting opOuter opScalar opArray types"
  shows "pushable (fst (rewriteBinaryOperationsToArrayEquivalent env compiles e opOuter opScalar opArray types))"
proof (cases "fst (rewriteBinaryOperationsToArrayEquivalent env compiles e opOuter opScalar opArray types) = e")
  case False
  then obtain l r a v w arr where e: "e = BinaryOperation opOuter l r"
    and l: "getOperandsFromBinaryOperation l {opScalar, opArray} = Some (a, v)" and ap: "static_append v w = Some arr"
    and e': "fst (rewriteBinaryOperationsToArrayEquivalent env compiles e opOuter opScalar opArray types)
      = newBinaryOperation env compiles opArray (Attribute a) (Static arr)"
    by (rule rewrite_step_cases) blast
  have "pushable l" "OpAnd \<notin> {opScalar, opArray}" "OpOr \<notin> {opScalar, opArray}" "isArrayOp opArray"
    using assms e by (auto simp: rewriting_def isArrayOp_def)
  then have "Elements arr \<noteq> [] \<and> isArray (static_Type arr)"
    using append_not_empty [OF ap operands_of_pushable [OF _ l]] by blast
  then show ?thesis using e' \<open>isArrayOp opArray\<close> by (simp add: new_array_node pushable_array_node del: pushable.simps)
qed (use assms in simp)

lemma pushable_node: "pushable e \<Longrightarrow> pushable (fst (rewrite_node env compiles e))"
  unfolding rewrite_node_chain rewrite_fns by (intro pushable_step rewritings)

lemma rewrite_leaf:
  "fst (rewriteFieldExpression env compiles (Attribute a)) = Attribute a"
  "fst (rewriteFieldExpression env compiles (Static s)) = Static s"
  by (simp_all add: rewrite_node_chain rewrite_fns rewriteBinaryOperationsToArrayEquivalent_def)

lemma pushable_rewrite:
  "parsed env compiles e \<Longrightarrow> pushable e \<Longrightarrow> pushable (fst (rewriteFieldExpression env compiles e))"
proof (induction e)
  case (BinaryOperation op l r)
  let ?l = "fst (rewriteFieldExpression env compiles l)" and ?r = "fst (rewriteFieldExpression env compiles r)"
  have kids: "same_shape l ?l" "same_shape r ?r" using BinaryOperation.prems same_shape_rewrite by simp_all
  have n: "newBinaryOperation env compiles op ?l ?r = BinaryOperation op ?l ?r"
    using new_kept [OF _ kids] BinaryOperation.prems by simp
  have "pushable (BinaryOperation op ?l ?r)"
  proof (cases "op = OpAnd \<or> op = OpOr")
    case True
    then show ?thesis using BinaryOperation by auto
  next
    case False
    then have "?l = l \<and> ?r = r"
      using BinaryOperation.prems(2) by (cases l; cases r) (simp_all add: rewrite_leaf del: rewriteFieldExpression.simps)
    then show ?thesis using BinaryOperation.prems(2) by simp
  qed
  then show ?case by (simp add: case_prod_unfold Let_def n pushable_node del: pushable.simps)
next
  case (UnaryOperation op e)
  then show ?case using pushable_node [of "UnaryOperation op e" env compiles] by simp
qed simp_all

end
