(* ===== verification/TqlSampling.thy ===== *)
theory TqlSampling
  imports TqlRewrite
begin

section \<open>Expression nodes that learn (pkg/traceql/ast_execute.go, util.go)\<close>

text \<open>
  A binary node of the code is mutable. It keeps the compiled regular expressions, and a conjunction or
  disjunction measures its first thousand executions, then starts with the cheaper operand and
  stops there when that decides the result. \<open>execute\<close> here is the code's: it returns the value and the
  changed node. The main result is that on the spans of a query this computes the values of \<open>eval\<close>.

  The clock is a parameter: the cost of the n-th measured execution. The matcher of \<open>NewRegexp\<close> is
  \<open>regexp\<close> of the environment; its memo is not modelled here.
\<close>

subsection \<open>The branch optimizer (util.go)\<close>

record branch_optimizer =
  last_left :: int
  last_right :: int
  total_left :: int
  total_right :: int
  Recording :: bool
  samplesRemaining :: int

datatype branch = leftBranch | rightBranch

definition newBranchPredictor :: "int \<Rightarrow> branch_optimizer" where
  "newBranchPredictor numSamples = \<lparr>last_left = 0, last_right = 0, total_left = 0, total_right = 0,
     Recording = True, samplesRemaining = numSamples\<rparr>"

text \<open>The zero value, of the nodes that have no predictor.\<close>

definition no_predictor :: branch_optimizer where
  "no_predictor = \<lparr>last_left = 0, last_right = 0, total_left = 0, total_right = 0,
     Recording = False, samplesRemaining = 0\<rparr>"

definition Finish :: "branch \<Rightarrow> int \<Rightarrow> branch_optimizer \<Rightarrow> branch_optimizer" where
  "Finish br cost b = (case br of leftBranch \<Rightarrow> b\<lparr>last_left := cost\<rparr> | rightBranch \<Rightarrow> b\<lparr>last_right := cost\<rparr>)"

definition Penalize :: "branch \<Rightarrow> branch_optimizer \<Rightarrow> branch_optimizer" where
  "Penalize br b = (case br of
       leftBranch \<Rightarrow> b\<lparr>total_left := total_left b + last_left b\<rparr>
     | rightBranch \<Rightarrow> b\<lparr>total_right := total_right b + last_right b\<rparr>)"

definition Sampled :: "branch_optimizer \<Rightarrow> bool \<times> branch_optimizer" where
  "Sampled b = (let n = samplesRemaining b - 1 in (\<not> n > 0, b\<lparr>samplesRemaining := n, Recording := n > 0\<rparr>))"

definition OptimalBranch :: "branch_optimizer \<Rightarrow> branch" where
  "OptimalBranch b = (if total_right b < total_left b then rightBranch else leftBranch)"

subsection \<open>Nodes\<close>

type_synonym matcher = "string \<Rightarrow> bool"

datatype expr_node =
    BinaryNode operator expr_node expr_node "matcher list" branch_optimizer
  | UnaryNode operator expr_node
  | AttributeNode attribute
  | StaticNode static

text \<open>What the parser builds.\<close>

fun new_node :: "field_expression \<Rightarrow> expr_node" where
  "new_node (BinaryOperation op l r) = BinaryNode op (new_node l) (new_node r) []
     (if (op = OpAnd \<or> op = OpOr) \<and> referencesSpan (BinaryOperation op l r)
      then newBranchPredictor 1000 else no_predictor)"
| "new_node (UnaryOperation op e) = UnaryNode op (new_node e)"
| "new_node (Attribute a) = AttributeNode a"
| "new_node (Static s) = StaticNode s"

subsection \<open>Execution\<close>

text \<open>The regular expression operators with their list of compiled expressions.\<close>

definition match_compiled :: "tql_env \<Rightarrow> bool \<Rightarrow> matcher list \<Rightarrow> string \<Rightarrow> string
    \<Rightarrow> (expr_error + static) \<times> matcher list" where
  "match_compiled env shouldMatch exps lhs rhs =
     (let exps' = (if exps = [] then (case regexp env rhs of
           None \<Rightarrow> None | Some m \<Rightarrow> Some [\<lambda>s. m s = shouldMatch]) else Some exps)
      in case exps' of
          None \<Rightarrow> (Inl ErrRegex, exps)
        | Some es \<Rightarrow> (if length es \<noteq> 1 then (Inl ErrRegexCache, es) else (Inr (StaticBool (hd es lhs)), es)))"

definition scalar_compiled :: "tql_env \<Rightarrow> operator \<Rightarrow> static \<Rightarrow> static \<Rightarrow> matcher list
    \<Rightarrow> (expr_error + static) \<times> matcher list" where
  "scalar_compiled env op lhs rhs exps =
     (if \<not> isMatchingOperand (static_Type lhs) (static_Type rhs)
         \<or> \<not> binaryTypesValid op (static_Type lhs) (static_Type rhs) then (Inr StaticFalse, exps)
      else case (lhs, rhs) of
          (StaticString l, StaticString r) \<Rightarrow>
            (if op = OpRegex \<or> op = OpNotRegex then match_compiled env (op = OpRegex) exps l r
             else (binOpExecuteScalar env op lhs rhs, exps))
        | _ \<Rightarrow> (binOpExecuteScalar env op lhs rhs, exps))"

text \<open>The loop over the elements; \<open>i\<close> is the index, \<open>cache\<close> the list of the node.\<close>

fun loop_compiled :: "tql_env \<Rightarrow> operator \<Rightarrow> bool \<Rightarrow> bool \<Rightarrow> static \<Rightarrow> static list \<Rightarrow> nat \<Rightarrow> nat \<Rightarrow> matcher list
    \<Rightarrow> (expr_error + static) \<times> matcher list" where
  "loop_compiled env elemOp matchAll flip scalar [] i matchCount cache =
     (Inr (StaticBool (if matchAll then matchCount = i else matchCount > 0)), cache)"
| "loop_compiled env elemOp matchAll flip scalar (e # es) i matchCount cache =
     (let exps = (if length cache > i then [cache ! i] else []);
          (res, exps') = (if flip then scalar_compiled env elemOp e scalar exps
                          else scalar_compiled env elemOp scalar e exps)
      in case res of
          Inl err \<Rightarrow> (Inl err, cache)
        | Inr v \<Rightarrow>
           (let cache' = (if length cache = i then cache @ exps' else cache) in
            if static_Bool v = Some True then
              (if matchAll then loop_compiled env elemOp matchAll flip scalar es (i + 1) (matchCount + 1) cache'
               else (Inr (StaticBool True), cache'))
            else loop_compiled env elemOp matchAll flip scalar es (i + 1) matchCount cache'))"

definition array_compiled :: "tql_env \<Rightarrow> operator \<Rightarrow> static \<Rightarrow> static \<Rightarrow> matcher list
    \<Rightarrow> (expr_error + static) \<times> matcher list" where
  "array_compiled env op lhs rhs cache =
     (if \<not> isBoolean op then (Inl ErrUnsupported, cache)
      else if isArray (static_Type lhs) \<and> isArray (static_Type rhs) then (Inl ErrTwoArrays, cache)
      else if isArrayOp op then
        (if \<not> isArray (static_Type rhs) then (Inl ErrArrayOnLeft, cache)
         else loop_compiled env (toElementOp op) (toElementOp op \<in> {OpNotEqual, OpNotRegex}) False lhs
                (Elements rhs) 0 0 cache)
      else if isArray (static_Type lhs) then
        (let elemOp = getFlippedOp op in
         loop_compiled env elemOp (elemOp \<in> {OpNotEqual, OpNotRegex}) (elemOp \<in> {OpRegex, OpNotRegex}) rhs
           (Elements lhs) 0 0 cache)
      else loop_compiled env op (op \<in> {OpNotEqual, OpNotRegex}) False lhs (Elements rhs) 0 0 cache)"

definition binary_compiled :: "tql_env \<Rightarrow> operator \<Rightarrow> static \<Rightarrow> static \<Rightarrow> matcher list
    \<Rightarrow> (expr_error + static) \<times> matcher list" where
  "binary_compiled env op lhs rhs cache =
     (if \<not> isMatchingOperand (static_Type lhs) (static_Type rhs)
         \<or> \<not> binaryTypesValid op (static_Type lhs) (static_Type rhs) then (Inr StaticFalse, cache)
      else case (lhs, rhs) of
          (StaticString l, StaticString r) \<Rightarrow>
            (if op = OpRegex \<or> op = OpNotRegex then match_compiled env (op = OpRegex) cache l r
             else (binary_op env op lhs rhs, cache))
        | _ \<Rightarrow> (if isMatchingArrayElement (static_Type lhs) (static_Type rhs)
               then array_compiled env op lhs rhs cache else (binary_op env op lhs rhs, cache)))"

text \<open>What a measured execution learns from two booleans; the second component says whether to exchange the operands.\<close>

definition learn :: "operator \<Rightarrow> bool \<Rightarrow> bool \<Rightarrow> branch_optimizer \<Rightarrow> branch_optimizer \<times> bool" where
  "learn op lhs rhs b = (let
       b1 = (if op = OpAnd then
               (let b' = (if \<not> lhs then Penalize rightBranch b else b)
                in if \<not> rhs then Penalize leftBranch b' else b')
             else if op = OpOr then
               (let b' = (if rhs then Penalize rightBranch b else b)
                in if lhs then Penalize leftBranch b' else b')
             else b);
       (finished, b2) = Sampled b1
     in (b2, finished \<and> OptimalBranch b2 = rightBranch))"

fun execute_node :: "tql_env \<Rightarrow> (nat \<Rightarrow> int) \<Rightarrow> span_attributes \<Rightarrow> expr_node \<Rightarrow> nat
    \<Rightarrow> (expr_error + static) \<times> expr_node \<times> nat" where
  "execute_node env clock span (BinaryNode op l r cache b) k =
     (let recording = Recording b; (lv, l', k1) = execute_node env clock span l k in
      case lv of
        Inl err \<Rightarrow> (Inl err, BinaryNode op l' r cache b, k1)
      | Inr lhs \<Rightarrow>
         (let (b1, k2) = (if recording then (Finish leftBranch (clock k1) b, k1 + 1) else (b, k1)) in
          if \<not> recording \<and> op = OpAnd \<and> static_Bool lhs = Some False
          then (Inr StaticFalse, BinaryNode op l' r cache b1, k2)
          else if \<not> recording \<and> op = OpOr \<and> static_Bool lhs = Some True
          then (Inr StaticTrue, BinaryNode op l' r cache b1, k2)
          else let (rv, r', k3) = execute_node env clock span r k2 in
            case rv of
              Inl err \<Rightarrow> (Inl err, BinaryNode op l' r' cache b1, k3)
            | Inr rhs \<Rightarrow>
               (let (b2, k4) = (if recording then (Finish rightBranch (clock k3) b1, k3 + 1) else (b1, k3));
                    (res, cache') = binary_compiled env op lhs rhs cache;
                    (b3, swap) = (case (lhs, rhs) of
                        (StaticBool p, StaticBool q) \<Rightarrow>
                          (if recording \<and> binaryTypesValid op TypeBoolean TypeBoolean then learn op p q b2 else (b2, False))
                      | _ \<Rightarrow> (b2, False))
                in (res, (if swap then BinaryNode op r' l' cache' b3 else BinaryNode op l' r' cache' b3), k4))))"
| "execute_node env clock span (UnaryNode op e) k =
     (let (v, e', k') = execute_node env clock span e k in
      (case v of Inl err \<Rightarrow> Inl err | Inr s \<Rightarrow> unary_op env op s, UnaryNode op e', k'))"
| "execute_node env clock span (AttributeNode a) k = (Inr (attribute_value span a), AttributeNode a, k)"
| "execute_node env clock span (StaticNode s) k = (Inr s, StaticNode s, k)"

text \<open>A query executes its expression on one span after the other; it stops at the first error.\<close>

fun run_node :: "tql_env \<Rightarrow> (nat \<Rightarrow> int) \<Rightarrow> span_attributes list \<Rightarrow> expr_node \<Rightarrow> nat \<Rightarrow> (expr_error + static) list" where
  "run_node env clock [] n k = []"
| "run_node env clock (span # spans) n k = (let (v, n', k') = execute_node env clock span n k in
     case v of Inl err \<Rightarrow> [Inl err] | Inr s \<Rightarrow> Inr s # run_node env clock spans n' k')"

subsection \<open>The expressions that a query runs\<close>

text \<open>As parsed and rewritten, and with conditions below every conjunction and disjunction.\<close>

fun runnable :: "tql_env \<Rightarrow> field_expression \<Rightarrow> bool" where
  "runnable env (BinaryOperation op l r) \<longleftrightarrow>
     (if isArrayOp op then (case (l, r) of (Attribute a, Static s) \<Rightarrow> array_literal env op s | _ \<Rightarrow> False)
      else runnable env l \<and> runnable env r
        \<and> (op \<in> {OpRegex, OpNotRegex} \<longrightarrow> compiled_literal env r)
        \<and> (op = OpAnd \<or> op = OpOr \<longrightarrow> boolean_node l \<and> boolean_node r))"
| "runnable env (UnaryOperation op e) \<longleftrightarrow> runnable env e"
| "runnable env (Attribute a) \<longleftrightarrow> True"
| "runnable env (Static s) \<longleftrightarrow> \<not> isArray (static_Type s)"

lemma binary_op_not_array: "binary_op env op x y = Inr v \<Longrightarrow> \<not> isArray (static_Type v)"
proof -
  have t: "typed_op env op x y = Some (Inr v) \<Longrightarrow> \<not> isArray (static_Type v)"
    by (auto simp: typed_op_def string_op_def int_op_def bool_op_def isArray_def
        split: static.splits operator.splits option.splits if_splits)
  have f: "float_op env op x y = Inr v \<Longrightarrow> \<not> isArray (static_Type v)"
    by (auto simp: float_op_def Let_def isArray_def split: operator.splits)
  have l: "array_loop env o' a f s es n m = Inr v \<Longrightarrow> \<not> isArray (static_Type v)" for o' a f s es n m
    using array_loop_bool [of env o' a f s es n m v] by (auto simp: isArray_def)
  show "binary_op env op x y = Inr v \<Longrightarrow> \<not> isArray (static_Type v)"
    using t f l by (auto simp: binary_op_def array_op_def Let_def StaticFalse_def isArray_def split: if_splits option.splits)
qed

lemma eval_not_array:
  "runnable env e \<Longrightarrow> scalar_span span \<Longrightarrow> eval env span e = Inr v \<Longrightarrow> \<not> isArray (static_Type v)"
proof (induction e arbitrary: v)
  case (BinaryOperation op l r)
  then show ?case using binary_op_not_array by (auto split: sum.splits)
next
  case (UnaryOperation op e)
  then show ?case
    by (auto simp: unary_op_def isArray_def split: sum.splits if_splits option.splits static.splits)
qed (auto simp: scalar_span_def)

subsection \<open>The compiled expressions\<close>

text \<open>The matchers that a node collects: those of its literal patterns, in order.\<close>

definition expected :: "tql_env \<Rightarrow> operator \<Rightarrow> field_expression \<Rightarrow> matcher list" where
  "expected env op r = (case r of
       Static (StaticString p) \<Rightarrow> (if op \<in> {OpRegex, OpNotRegex}
         then [\<lambda>s. the (regexp env p) s = (op = OpRegex)] else [])
     | Static (StaticStringArray ps) \<Rightarrow> (if op \<in> {OpRegexMatchAny, OpRegexMatchNone}
         then map (\<lambda>p s. the (regexp env p) s = (op = OpRegexMatchAny)) ps else [])
     | _ \<Rightarrow> [])"

definition cache_ok :: "tql_env \<Rightarrow> operator \<Rightarrow> field_expression \<Rightarrow> matcher list \<Rightarrow> bool" where
  "cache_ok env op r cache \<longleftrightarrow> (\<exists>k. cache = take k (expected env op r))"

lemma cache_ok_Nil: "cache_ok env op r []"
  by (auto simp: cache_ok_def intro: exI [of _ 0])

lemma scalar_compiled_plain:
  "op \<notin> {OpRegex, OpNotRegex} \<Longrightarrow> scalar_compiled env op x y exps = (binOpExecuteScalar env op x y, exps)"
  by (auto simp: scalar_compiled_def binOpExecuteScalar_def split: static.splits)

lemma loop_compiled_plain:
  assumes "op \<notin> {OpRegex, OpNotRegex}"
  shows "loop_compiled env op all flip x es i m [] = (array_loop env op all flip x es i m, [])"
  by (induction es arbitrary: i m) (auto simp: scalar_compiled_plain [OF assms] Let_def split: sum.splits)

lemma scalar_compiled_regex:
  assumes "op \<in> {OpRegex, OpNotRegex}" and "regexp env p = Some f" and "\<not> isArray (static_Type x)"
    and "exps = [] \<or> exps = [\<lambda>s. f s = (op = OpRegex)]"
  shows "scalar_compiled env op x (StaticString p) exps = (binOpExecuteScalar env op x (StaticString p),
    if static_Type x = TypeString then [\<lambda>s. f s = (op = OpRegex)] else exps)"
proof (cases "static_Type x = TypeString")
  case True
  then obtain v where "x = StaticString v" by (auto simp: static_Type_String)
  moreover have "binOpExecuteScalar env op (StaticString v) (StaticString p) = Inr (StaticBool (f v = (op = OpRegex)))"
    using regex_comparison [OF assms(1), of "StaticString v" "StaticString p" env] assms(2) by (simp add: isArray_def)
  ultimately show ?thesis
    using assms(1,2,4) by (auto simp: scalar_compiled_def match_compiled_def string_types Let_def)
next
  case False
  then show ?thesis
    by (auto simp: scalar_compiled_def binOpExecuteScalar_def split: static.splits)
qed

lemma loop_compiled_Cons:
  assumes "scalar_compiled env op x e (if i < length c then [c ! i] else []) = (r, ex)"
    and "c' = (if length c = i then c @ ex else c)"
  shows "loop_compiled env op all False x (e # es) i m c = (case r of
      Inl err \<Rightarrow> (Inl err, c)
    | Inr v \<Rightarrow> (if static_Bool v = Some True then
         (if all then loop_compiled env op all False x es (Suc i) (m + 1) c' else (Inr (StaticBool True), c'))
       else loop_compiled env op all False x es (Suc i) m c'))"
  by (simp only: loop_compiled.simps Let_def if_False assms prod.case Suc_eq_plus1)

lemma take_extend: "length (take k ms) = i \<Longrightarrow> i < length ms \<Longrightarrow> take k ms @ [ms ! i] = take (Suc i) ms"
  by (cases "length ms < k") (auto simp: take_Suc_conv_app_nth)

text \<open>The loop of a regular expression operator over the patterns from index \<open>i\<close> on.\<close>

lemma loop_compiled_regex:
  assumes op: "op \<in> {OpRegex, OpNotRegex}" and x: "\<not> isArray (static_Type x)"
    and ps: "\<forall>p\<in>set ps. regexp env p \<noteq> None"
  defines "ms \<equiv> map (\<lambda>p s. the (regexp env p) s = (op = OpRegex)) ps"
  shows "i \<le> length ps \<Longrightarrow> \<exists>k'. loop_compiled env op all False x (map StaticString (drop i ps)) i m (take k ms)
    = (array_loop env op all False x (map StaticString (drop i ps)) i m, take k' ms)"
proof (induction "length ps - i" arbitrary: i m k rule: less_induct)
  case less
  show ?case
  proof (cases "i < length ps")
    case True
    let ?p = "ps ! i" and ?f = "the (regexp env (ps ! i))"
    have d: "drop i ps = ?p # drop (Suc i) ps" using True by (simp add: Cons_nth_drop_Suc)
    have f: "regexp env ?p = Some ?f" using ps True by auto
    have msi: "ms ! i = (\<lambda>s. ?f s = (op = OpRegex))" using True by (simp add: ms_def)
    let ?exps = "if i < length (take k ms) then [take k ms ! i] else []"
    have "?exps = [] \<or> ?exps = [\<lambda>s. ?f s = (op = OpRegex)]" using msi by auto
    then have sc: "scalar_compiled env op x (StaticString ?p) ?exps = (binOpExecuteScalar env op x (StaticString ?p),
        if static_Type x = TypeString then [\<lambda>s. ?f s = (op = OpRegex)] else ?exps)"
      by (rule scalar_compiled_regex [OF op f x])
    let ?c = "if length (take k ms) = i then take k ms @ (if static_Type x = TypeString then [\<lambda>s. ?f s = (op = OpRegex)] else ?exps)
      else take k ms"
    have "\<exists>k'. ?c = take k' ms"
    proof (cases "length (take k ms) = i \<and> static_Type x = TypeString")
      case c: True
      have "take k ms @ [ms ! i] = take (Suc i) ms"
        using c True by (intro take_extend) (auto simp: ms_def)
      then show ?thesis using c msi by (intro exI [of _ "Suc i"]) simp
    next
      case False
      then show ?thesis by (cases "length (take k ms) = i") (auto intro!: exI [of _ k])
    qed
    then obtain k' where k': "?c = take k' ms" by blast
    have IH: "\<exists>k''. loop_compiled env op all False x (map StaticString (drop (Suc i) ps)) (Suc i) m' (take k' ms)
      = (array_loop env op all False x (map StaticString (drop (Suc i) ps)) (Suc i) m', take k'' ms)" for m'
      using True by (intro less.hyps) auto
    let ?es = "map StaticString (drop (Suc i) ps)" and ?r = "binOpExecuteScalar env op x (StaticString ?p)"
    note step = loop_compiled_Cons [OF sc k' [symmetric], of all ?es m]
    show ?thesis
    proof (cases ?r)
      case (Inl err)
      then show ?thesis using step by (intro exI [of _ k]) (simp add: d)
    next
      case (Inr v)
      consider "static_Bool v = Some True" "all" | "static_Bool v = Some True" "\<not> all" | "static_Bool v \<noteq> Some True" by blast
      then show ?thesis
      proof cases
        case 1
        then show ?thesis using step Inr IH [of "m + 1"] by (simp add: d)
      next
        case 2
        then show ?thesis using step Inr by (intro exI [of _ k']) (simp add: d)
      next
        case 3
        then show ?thesis using step Inr IH [of m] by (simp add: d)
      qed
    qed
  qed auto
qed

lemma no_array_element:
  "\<not> isArray t \<Longrightarrow> \<not> isArray u \<Longrightarrow> \<not> isMatchingArrayElement t u"
  by (cases t; cases u) (simp_all add: isMatchingArrayElement.simps element_type_def isArray_def)

lemma binary_op_of_scalars:
  "\<not> isArray (static_Type x) \<Longrightarrow> \<not> isArray (static_Type y) \<Longrightarrow> binary_op env op x y = binOpExecuteScalar env op x y"
  by (simp add: binary_op_def binOpExecuteScalar_def no_array_element)

lemma binary_compiled_array:
  assumes op: "isArrayOp op" and s: "array_literal env op s" and x: "\<not> isArray (static_Type x)"
    and cache: "cache_ok env op (Static s) cache"
  shows "\<exists>cache'. binary_compiled env op x s cache = (binary_op env op x s, cache') \<and> cache_ok env op (Static s) cache'"
proof -
  have s': "isArray (static_Type s)" using s by (simp add: array_literal_def)
  let ?op = "toElementOp op"
  have l: "\<exists>cache'. loop_compiled env ?op all False x (Elements s) 0 0 cache
      = (array_loop env ?op all False x (Elements s) 0 0, cache') \<and> cache_ok env op (Static s) cache'" for all
  proof (cases "op \<in> {OpRegexMatchAny, OpRegexMatchNone}")
    case True
    then have el: "\<forall>e\<in>set (Elements s). \<exists>p. e = StaticString p \<and> regexp env p \<noteq> None" and "Elements s \<noteq> []"
      using s by (auto simp: array_literal_def)
    then obtain ps where ps: "s = StaticStringArray ps" and ok: "\<forall>p\<in>set ps. regexp env p \<noteq> None"
      using s' by (cases s) (auto simp: Elements_def isArray_def)
    have ms: "expected env op (Static s) = map (\<lambda>p s. the (regexp env p) s = (?op = OpRegex)) ps"
      using True ps by (auto simp: expected_def toElementOp_def)
    obtain k where k: "cache = take k (expected env op (Static s))" using cache by (auto simp: cache_ok_def)
    have "?op \<in> {OpRegex, OpNotRegex}" using True by (auto simp: toElementOp_def)
    then show ?thesis
      using loop_compiled_regex [OF _ x ok, of ?op 0 all 0 k] unfolding cache_ok_def k ms by (auto simp: ps Elements_def)
  next
    case False
    then have "cache = []" using cache op s'
      by (cases s) (auto simp: cache_ok_def expected_def isArrayOp_def)
    moreover have "?op \<notin> {OpRegex, OpNotRegex}" using array_ops(3) [OF op] False by blast
    ultimately show ?thesis using loop_compiled_plain cache by blast
  qed
  have c: "binary_compiled env op x s c = (if \<not> isMatchingOperand (static_Type x) (static_Type s)
         \<or> \<not> binaryTypesValid op (static_Type x) (static_Type s) then (Inr StaticFalse, c)
      else if isMatchingArrayElement (static_Type x) (static_Type s)
               then array_compiled env op x s c else (binary_op env op x s, c))" for c
    using s' by (cases s) (auto simp: binary_compiled_def isArray_def split: static.split)
  show ?thesis
    using l [of "?op \<in> {OpNotEqual, OpNotRegex}"] cache op array_ops(2) [OF op] s' x
    unfolding c by (simp add: binary_op_def array_compiled_def array_op_def)
qed

lemma binary_compiled_scalar:
  assumes op: "\<not> isArrayOp op" and x: "\<not> isArray (static_Type x)" and y: "\<not> isArray (static_Type y)"
    and r: "op \<in> {OpRegex, OpNotRegex} \<longrightarrow> compiled_literal env r \<and> r = Static y"
    and cache: "cache_ok env op r cache"
  shows "\<exists>cache'. binary_compiled env op x y cache = (binary_op env op x y, cache') \<and> cache_ok env op r cache'"
proof (cases "op \<in> {OpRegex, OpNotRegex} \<and> (\<exists>v p. x = StaticString v \<and> y = StaticString p)")
  case True
  then obtain v p where xy: "x = StaticString v" "y = StaticString p" and o: "op \<in> {OpRegex, OpNotRegex}" by blast
  then obtain f where f: "regexp env p = Some f" using r by auto
  have e: "expected env op r = [\<lambda>s. f s = (op = OpRegex)]" using o r xy f by (auto simp: expected_def)
  have "binary_op env op x y = Inr (StaticBool (f v = (op = OpRegex)))"
    using regex_comparison [OF o x y, of env] binary_op_of_scalars [OF x y, of env op] f by (simp add: xy)
  moreover have "cache = [] \<or> cache = expected env op r"
    using cache by (cases "cache = []") (auto simp: cache_ok_def e take_Cons' split: if_splits)
  ultimately have "binary_compiled env op x y cache = (binary_op env op x y, expected env op r)"
    using o by (auto simp: xy binary_compiled_def match_compiled_def string_types f e)
  then show ?thesis by (auto simp: cache_ok_def intro: exI [of _ 1] simp: e)
next
  case False
  have "binary_compiled env op x y cache = (binary_op env op x y, cache)"
    using False x y no_array_element [OF x y]
    by (auto simp: binary_compiled_def binary_op_def split: static.splits)
  then show ?thesis using cache by blast
qed

text \<open>With its cache a node computes what \<open>binary_op\<close> says.\<close>

lemma binary_compiled_exact:
  assumes "runnable env (BinaryOperation op l r)" and "scalar_span span"
    and "eval env span l = Inr x" and "eval env span r = Inr y" and "cache_ok env op r cache"
  shows "\<exists>cache'. binary_compiled env op x y cache = (binary_op env op x y, cache') \<and> cache_ok env op r cache'"
proof (cases "isArrayOp op")
  case True
  then show ?thesis
    using assms binary_compiled_array [OF True, of env y x cache]
    by (auto split: field_expression.splits simp: scalar_span_def)
next
  case False
  have "\<not> isArray (static_Type x)" "\<not> isArray (static_Type y)"
    using assms False eval_not_array by auto
  then show ?thesis
    using assms False by (intro binary_compiled_scalar) auto
qed

subsection \<open>Every state of a node stands for its expression\<close>

text \<open>The operands of a conjunction or disjunction may be exchanged, the cache holds matchers of the
  literal, and only a conjunction or disjunction still records.\<close>

fun represents :: "tql_env \<Rightarrow> expr_node \<Rightarrow> field_expression \<Rightarrow> bool" where
  "represents env (BinaryNode op ln rn cache b) e \<longleftrightarrow>
     (\<exists>p q. represents env ln p \<and> represents env rn q \<and> cache_ok env op q cache
        \<and> (e = BinaryOperation op p q \<or> op \<in> {OpAnd, OpOr} \<and> e = BinaryOperation op q p)
        \<and> (Recording b \<longrightarrow> op \<in> {OpAnd, OpOr}))"
| "represents env (UnaryNode op n) e \<longleftrightarrow> (\<exists>p. represents env n p \<and> e = UnaryOperation op p)"
| "represents env (AttributeNode a) e \<longleftrightarrow> e = Attribute a"
| "represents env (StaticNode s) e \<longleftrightarrow> e = Static s"

lemma new_node_represents: "represents env (new_node e) e"
  by (induction e) (auto simp: cache_ok_Nil no_predictor_def)

lemma cache_ok_connective: "op \<in> {OpAnd, OpOr} \<Longrightarrow> cache_ok env op r cache \<longleftrightarrow> cache = []"
  by (auto simp: cache_ok_def expected_def split: field_expression.split static.split)

lemma binary_op_connective:
  "binary_op env OpAnd (StaticBool x) (StaticBool y) = Inr (StaticBool (x \<and> y))"
  "binary_op env OpOr (StaticBool x) (StaticBool y) = Inr (StaticBool (x \<or> y))"
  by (simp_all add: binary_op_def typed_op_def bool_op_def isMatchingOperand.simps isMatchingArrayElement.simps
      binaryTypesValid_def binaryTypeValid_def isBoolean_def element_type_def)

text \<open>The operands in the order in which the node runs them.\<close>

lemma operands_in_node_order:
  assumes "runnable env e" and "eval env span e = Inr v"
    and "e = BinaryOperation op p q \<or> op \<in> {OpAnd, OpOr} \<and> e = BinaryOperation op q p"
  shows "runnable env (BinaryOperation op p q)" and "eval env span (BinaryOperation op p q) = Inr v"
proof -
  show "runnable env (BinaryOperation op p q)" using assms(1,3) by (auto simp: isArrayOp_def)
  show "eval env span (BinaryOperation op p q) = Inr v"
  proof (cases "e = BinaryOperation op p q")
    case False
    then have o: "op \<in> {OpAnd, OpOr}" and e: "e = BinaryOperation op q p" using assms(3) by auto
    then have "boolean_node p" "boolean_node q" using assms(1) by (auto simp: isArrayOp_def)
    then obtain x y where "eval env span p = Inr (StaticBool x)" "eval env span q = Inr (StaticBool y)"
      using assms(2) eval_boolean_node by (fastforce simp: e split: sum.splits)
    then show ?thesis using assms(2) o by (auto simp: e binary_op_connective conj_commute disj_commute)
  qed (use assms(2) in simp)
qed

lemma runnable_operands:
  assumes "runnable env (BinaryOperation op p q)"
  shows "runnable env p \<or> (\<exists>s. p = Static s)" and "runnable env q \<or> (\<exists>s. q = Static s)"
  using assms by (auto split: if_splits field_expression.splits)

lemma execute_node_exact:
  assumes span: "scalar_span span"
  shows "represents env n e \<Longrightarrow> runnable env e \<or> (\<exists>s. e = Static s) \<Longrightarrow> eval env span e = Inr v
    \<Longrightarrow> \<exists>n' k'. execute_node env clock span n k = (Inr v, n', k') \<and> represents env n' e"
proof (induction n arbitrary: e v k)
  case (BinaryNode op ln rn cache b)
  from BinaryNode.prems(1) obtain p q where ln: "represents env ln p" and rn: "represents env rn q"
    and cache: "cache_ok env op q cache" and rec: "Recording b \<longrightarrow> op \<in> {OpAnd, OpOr}"
    and e: "e = BinaryOperation op p q \<or> op \<in> {OpAnd, OpOr} \<and> e = BinaryOperation op q p"
    by auto
  have "runnable env e" using BinaryNode.prems(2) e by auto
  note o = operands_in_node_order [OF this BinaryNode.prems(3) e]
  from o(2) obtain x y where x: "eval env span p = Inr x" and y: "eval env span q = Inr y"
    and v: "binary_op env op x y = Inr v" by (auto split: sum.splits)
  obtain ln' k1 where l: "execute_node env clock span ln k = (Inr x, ln', k1)" and ln': "represents env ln' p"
    using BinaryNode.IH(1) [OF ln runnable_operands(1) [OF o(1)] x] by blast
  show ?case
  proof (cases "\<not> Recording b \<and> (op = OpAnd \<and> static_Bool x = Some False \<or> op = OpOr \<and> static_Bool x = Some True)")
    case True
    then have "op \<in> {OpAnd, OpOr}" by auto
    then have "boolean_node q" using o(1) by (auto simp: isArrayOp_def)
    then obtain z where "y = StaticBool z" using eval_boolean_node y by blast
    then have "v = (if op = OpAnd then StaticFalse else StaticTrue)"
      using True v by (cases x) (auto simp: binary_op_connective static_Bool_def StaticFalse_def StaticTrue_def)
    then have "execute_node env clock span (BinaryNode op ln rn cache b) k = (Inr v, BinaryNode op ln' rn cache b, k1)"
      using True l by (auto simp: Let_def)
    moreover have "represents env (BinaryNode op ln' rn cache b) e" using ln' rn cache rec e by auto
    ultimately show ?thesis by blast
  next
    case False
    let ?k2 = "if Recording b then k1 + 1 else k1"
    let ?b1 = "if Recording b then Finish leftBranch (clock k1) b else b"
    obtain rn' k3 where r: "execute_node env clock span rn ?k2 = (Inr y, rn', k3)" and rn': "represents env rn' q"
      using BinaryNode.IH(2) [OF rn runnable_operands(2) [OF o(1)] y] by blast
    obtain cache' where c: "binary_compiled env op x y cache = (Inr v, cache')" and cache': "cache_ok env op q cache'"
      using binary_compiled_exact [OF o(1) span x y cache] v by auto
    obtain b3 swap k4 where ex: "execute_node env clock span (BinaryNode op ln rn cache b) k
        = (Inr v, (if swap then BinaryNode op rn' ln' cache' b3 else BinaryNode op ln' rn' cache' b3), k4)"
      and b3: "swap \<or> Recording b3 \<longrightarrow> op \<in> {OpAnd, OpOr}"
    proof (cases "Recording b")
      case True
      then have "op \<in> {OpAnd, OpOr}" using rec by blast
      moreover have "\<exists>b3 swap k4. execute_node env clock span (BinaryNode op ln rn cache b) k
        = (Inr v, (if swap then BinaryNode op rn' ln' cache' b3 else BinaryNode op ln' rn' cache' b3), k4)"
        using True False l r c by (auto simp: Let_def split: prod.split)
      ultimately show thesis using that by blast
    next
      case nr: False
      have "execute_node env clock span (BinaryNode op ln rn cache b) k = (Inr v, BinaryNode op ln' rn' cache' b, k3)"
        using nr False l r c by (auto simp: Let_def split: static.split)
      then show thesis using that [of False b k3] nr by simp
    qed
    have "op \<in> {OpAnd, OpOr} \<Longrightarrow> cache_ok env op p cache'" using cache' by (simp add: cache_ok_connective)
    then show ?thesis unfolding ex using ln' rn' cache' e b3 by auto
  qed
next
  case (UnaryNode op n)
  then obtain p where n: "represents env n p" and e: "e = UnaryOperation op p" by auto
  then obtain x where x: "eval env span p = Inr x" "unary_op env op x = Inr v"
    using UnaryNode.prems(3) by (auto split: sum.splits)
  have "runnable env p \<or> (\<exists>s. p = Static s)" using UnaryNode.prems(2) e by simp
  then obtain n' k' where "execute_node env clock span n k = (Inr x, n', k')" "represents env n' p"
    using UnaryNode.IH [OF n _ x(1)] by blast
  then show ?case using e x by simp
qed auto


definition sampling_spans :: "span_attributes list" where
  "sampling_spans = [demo_span (StaticString ''x''), demo_span (StaticInt 3), demo_span (StaticString ''xy'')]"

definition sampling_expr :: field_expression where
  "sampling_expr = BinaryOperation OpOr
     (BinaryOperation OpRegex demo_attr (Static (StaticString ''x'')))
     (BinaryOperation OpEqual demo_attr (Static (StaticInt 3)))"


subsection \<open>Where execution and plain evaluation differ\<close>

text \<open>A pattern that was compared with the elements of an array attribute is compiled once per
  element, and the next comparison of that node with a string fails on the number of compiled
  expressions: the query fails though no comparison of it has an error.\<close>

theorem regex_cache_error_after_array:
  "map (\<lambda>span. eval demo_env span (BinaryOperation OpRegex demo_attr (Static (StaticString ''x''))))
       [demo_span (StaticStringArray [''u'', ''v'']), demo_span (StaticString ''x'')]
     = [Inr (StaticBool False), Inr (StaticBool True)]
   \<and> run_node demo_env (\<lambda>_. 1)
       [demo_span (StaticStringArray [''u'', ''v'']), demo_span (StaticString ''x'')]
       (new_node (BinaryOperation OpRegex demo_attr (Static (StaticString ''x'')))) 0
     = [Inr (StaticBool False), Inl ErrRegexCache]"
  by code_simp


definition two_attributes :: "static \<Rightarrow> static \<Rightarrow> span_attributes" where
  "two_attributes x y = [NewAttribute ''a'' \<mapsto> x, NewAttribute ''b'' \<mapsto> y]"

definition mixed_or :: field_expression where
  "mixed_or = BinaryOperation OpOr demo_attr (Attribute (NewAttribute ''b''))"

lemma mixed_or_learns:
  assumes "Recording b = (n > 0)" and "samplesRemaining b = int n" and "total_left b = 0" and "total_right b \<ge> 0"
  shows "run_node demo_env (\<lambda>_. 1)
      (replicate n (two_attributes StaticFalse StaticTrue) @ [two_attributes StaticTrue (StaticString ''x'')])
      (BinaryNode OpOr (AttributeNode (NewAttribute ''a'')) (AttributeNode (NewAttribute ''b'')) [] b) k
    = replicate (Suc n) (Inr StaticTrue)"
  using assms
proof (induction n arbitrary: b k)
  case 0
  then show ?case
    by (simp add: two_attributes_def attribute_value_def NewAttribute_def StaticTrue_def static_Bool_def)
next
  case (Suc n)
  have c: "binary_compiled demo_env OpOr (StaticBool False) (StaticBool True) [] = (Inr StaticTrue, [])"
    by (simp add: binary_compiled_def binary_op_connective isMatchingOperand.simps isMatchingArrayElement.simps
      binaryTypesValid_def binaryTypeValid_def isBoolean_def element_type_def StaticTrue_def)
  have v: "binaryTypesValid OpOr TypeBoolean TypeBoolean" by code_simp
  have av: "attribute_value (two_attributes StaticFalse StaticTrue) (NewAttribute ''a'') = StaticBool False"
    "attribute_value (two_attributes StaticFalse StaticTrue) (NewAttribute ''b'') = StaticBool True"
    by code_simp+
  let ?b2 = "Finish rightBranch 1 (Finish leftBranch 1 b)"
  obtain b' where l: "learn OpOr False True ?b2 = (b', False)"
    and b': "Recording b' = (n > 0)" "samplesRemaining b' = int n" "total_left b' = 0" "total_right b' \<ge> 0"
    using Suc.prems by (simp add: Finish_def learn_def Sampled_def Penalize_def OptimalBranch_def)
  have ex: "execute_node demo_env (\<lambda>_. 1) (two_attributes StaticFalse StaticTrue)
      (BinaryNode OpOr (AttributeNode (NewAttribute ''a'')) (AttributeNode (NewAttribute ''b'')) [] b) k
      = (Inr StaticTrue, BinaryNode OpOr (AttributeNode (NewAttribute ''a'')) (AttributeNode (NewAttribute ''b'')) [] b',
         Suc (Suc k))"
    using Suc.prems(1) by (simp add: av c v l)
  show ?case using Suc.IH [OF b'] by (simp add: ex del: execute_node.simps)
qed

text \<open>The value of a disjunction can change while a query runs: with a boolean on the left and a string
  on the right it is false for the first thousand measured spans and true afterwards, because the
  short circuit skips the type check of the operands.\<close>

theorem sampling_changes_mixed_results:
  "eval demo_env (two_attributes StaticTrue (StaticString ''x'')) mixed_or = Inr StaticFalse
   \<and> run_node demo_env (\<lambda>_. 1) [two_attributes StaticTrue (StaticString ''x'')] (new_node mixed_or) 0 = [Inr StaticFalse]
   \<and> last (run_node demo_env (\<lambda>_. 1)
       (replicate 1000 (two_attributes StaticFalse StaticTrue) @ [two_attributes StaticTrue (StaticString ''x'')])
       (new_node mixed_or) 0) = Inr StaticTrue"
proof (intro conjI)
  show "eval demo_env (two_attributes StaticTrue (StaticString ''x'')) mixed_or = Inr StaticFalse" by code_simp
  show "run_node demo_env (\<lambda>_. 1) [two_attributes StaticTrue (StaticString ''x'')] (new_node mixed_or) 0 = [Inr StaticFalse]"
    by code_simp
  have n: "new_node mixed_or = BinaryNode OpOr (AttributeNode (NewAttribute ''a'')) (AttributeNode (NewAttribute ''b''))
      [] (newBranchPredictor 1000)"
    by (simp add: mixed_or_def demo_attr_def NewAttribute_def)
  show "last (run_node demo_env (\<lambda>_. 1)
       (replicate 1000 (two_attributes StaticFalse StaticTrue) @ [two_attributes StaticTrue (StaticString ''x'')])
       (new_node mixed_or) 0) = Inr StaticTrue"
    using mixed_or_learns [of "newBranchPredictor 1000" 1000 0]
    by (simp only: n newBranchPredictor_def) (simp only: branch_optimizer.simps last_replicate, simp)
qed

end
