(* ===== verification/RedactWindow.thy ===== *)
theory RedactWindow
  imports Blocklist TqlAst
begin

section \<open>Redaction windows and selectors\<close>

text \<open>
  The time window of a redaction: tempodb/redaction.go (\<open>RedactionWindow\<close>),
  modules/backendscheduler/redaction_window.go (which blocks a window selects, and which
  requests are refused) and modules/backendscheduler/redaction_query.go (which TraceQL
  expressions may select traces to delete). Window bounds are Go \<open>int64\<close>: 64-bit words read
  with \<open>sint\<close>; block times are instants in nanoseconds (\<open>time\<close>), the zero \<open>time.Time\<close> being
  1 January of year 1. The TraceQL parser's result is an argument, an expression tree of the node
  types that the validation tells apart.
\<close>


record redaction_window =
  StartNano :: i64
  EndNano :: i64

definition MaxInt64 :: i64 where
  "MaxInt64 = 9223372036854775807"

definition window_IsZero :: "redaction_window \<Rightarrow> bool" where
  "window_IsZero w \<longleftrightarrow> StartNano w = 0 \<and> EndNano w = 0"

definition materialise :: "redaction_window \<Rightarrow> i64 \<times> i64 \<times> bool" where
  "materialise w =
     (if StartNano w \<le>s 0 \<and> EndNano w \<le>s 0 then (0, 0, False)
      else (if StartNano w \<le>s 0 then 1 else StartNano w,
            if EndNano w \<le>s 0 then MaxInt64 else EndNano w, True))"

definition window_Validate :: "redaction_window \<Rightarrow> bool" where
  "window_Validate w =
     (if StartNano w <s 0 \<or> EndNano w <s 0 then False
      else case materialise w of (lo, hi, bounded) \<Rightarrow> \<not> (bounded \<and> hi \<le>s lo))"

definition fetchBounds :: "redaction_window \<Rightarrow> u64 \<times> u64 \<times> bool" where
  "fetchBounds w = (case materialise w of (lo, hi, bounded) \<Rightarrow>
     if bounded then (lo, hi, True) else (0, 0, False))"

lemma sint_nonneg: "0 \<le>s x \<Longrightarrow> sint x = uint x" for x :: i64
proof -
  assume "0 \<le>s x"
  then have "0 \<le> sint x" by (simp add: word_sle_eq)
  moreover have b: "uint x < 2 ^ 64" using uint_bounded [of x] by simp
  moreover have "sint x = uint x - 2 ^ 64 * of_bool (bit (uint x) 63)"
    using b by (simp add: sint_uint signed_take_bit_eq_take_bit_minus take_bit_int_eq_self)
  ultimately show ?thesis by (cases "bit (uint x) 63") auto
qed

lemma bounded_of_valid:
  assumes "window_Validate w" and "\<not> window_IsZero w"
  shows "\<exists>lo hi. fetchBounds w = (lo, hi, True) \<and> 0 < lo \<and> lo < hi
    \<and> (StartNano w \<noteq> 0 \<longrightarrow> lo = StartNano w) \<and> (EndNano w \<noteq> 0 \<longrightarrow> hi = EndNano w)"
proof -
  have nn: "0 \<le>s StartNano w" "0 \<le>s EndNano w"
    using assms(1) by (auto simp: window_Validate_def word_sless_alt word_sle_eq split: if_splits)
  have u: "x <s y \<longleftrightarrow> x < y" if "0 \<le>s x" "0 \<le>s y" for x y :: i64
    using that by (simp add: word_sless_alt word_less_def sint_nonneg)
  have z: "x \<le>s 0 \<longleftrightarrow> x = 0" if "0 \<le>s x" for x :: i64
    using that signed.order.antisym by auto
  have m: "0 \<le>s MaxInt64" "(0::i64) \<le>s 1" by (simp_all add: MaxInt64_def word_sle_eq)
  let ?lo = "if StartNano w = 0 then 1 else StartNano w"
  let ?hi = "if EndNano w = 0 then MaxInt64 else EndNano w"
  have mat: "materialise w = (?lo, ?hi, True)"
    using assms(2) nn by (auto simp: materialise_def z window_IsZero_def)
  have "\<not> ?hi \<le>s ?lo" using assms(1) by (auto simp: window_Validate_def mat split: if_splits)
  then have "?lo <s ?hi" by (simp add: word_sless_alt word_sle_eq)
  then have "?lo < ?hi" using u [of ?lo ?hi] nn m by (auto split: if_splits)
  moreover have "0 < ?lo" by (simp add: word_gt_0)
  ultimately show ?thesis by (auto simp: fetchBounds_def mat)
qed

text \<open>A window that \<open>Validate\<close> accepts is never scanned unbounded: unless it is the zero window,
  \<open>fetchBounds\<close> gives bounds that are positive (so the scan installs its time predicate), strictly
  ordered as unsigned numbers, and as tight as the window on each side that it sets.\<close>

theorem validated_window_is_bounded:
  assumes "window_Validate w" and "\<not> window_IsZero w"
  shows "\<exists>lo hi. fetchBounds w = (lo, hi, True) \<and> 0 < lo \<and> lo < hi
    \<and> (StartNano w \<noteq> 0 \<longrightarrow> lo = StartNano w) \<and> (EndNano w \<noteq> 0 \<longrightarrow> hi = EndNano w)"
  by (rule bounded_of_valid [OF assms])

theorem validated_window_is_bounded_witness:
  "\<exists>lo hi. fetchBounds \<lparr>StartNano = 0, EndNano = 50\<rparr> = (lo, hi, True) \<and> 0 < lo \<and> lo < hi
    \<and> (StartNano \<lparr>StartNano = 0, EndNano = 50\<rparr> \<noteq> 0 \<longrightarrow> lo = StartNano \<lparr>StartNano = 0, EndNano = 50\<rparr>)
    \<and> (EndNano \<lparr>StartNano = 0, EndNano = 50\<rparr> \<noteq> 0 \<longrightarrow> hi = EndNano \<lparr>StartNano = 0, EndNano = 50\<rparr>)"
proof (rule validated_window_is_bounded)
  show "window_Validate \<lparr>StartNano = 0, EndNano = 50\<rparr>" by code_simp
  show "\<not> window_IsZero \<lparr>StartNano = 0, EndNano = 50\<rparr>" by code_simp
qed

subsection \<open>Blocks in the window (redaction_window.go)\<close>

definition zero_time :: time where
  "zero_time = - 62135596800 * 10 ^ 9"

definition blockTimeGranularity :: int where
  "blockTimeGranularity = 10 ^ 9"

definition blockOverlapsWindow :: "block_meta \<Rightarrow> i64 \<Rightarrow> i64 \<Rightarrow> bool \<times> bool" where
  "blockOverlapsWindow meta startNano endNano =
     (if startNano = 0 \<and> endNano = 0 then (True, False)
      else if StartTime meta = zero_time \<or> EndTime meta = zero_time \<or> StartTime meta > EndTime meta
      then (True, True)
      else let blockStart = StartTime meta - blockTimeGranularity;
               blockEnd = EndTime meta + blockTimeGranularity in
        if endNano \<noteq> 0 \<and> blockStart > sint endNano then (False, False)
        else if startNano \<noteq> 0 \<and> blockEnd < sint startNano then (False, False)
        else (True, False))"

definition cover :: "block_meta \<Rightarrow> time option \<times> time option \<Rightarrow> time option \<times> time option" where
  "cover meta acc = (case acc of (start, fin) \<Rightarrow>
     (if StartTime meta \<noteq> zero_time \<and> EndTime meta \<noteq> zero_time \<and> StartTime meta > EndTime meta then (start, fin)
      else (if StartTime meta \<noteq> zero_time \<and> (case start of None \<Rightarrow> True | Some s \<Rightarrow> StartTime meta < s)
            then Some (StartTime meta) else start,
            if EndTime meta \<noteq> zero_time \<and> (case fin of None \<Rightarrow> True | Some e \<Rightarrow> EndTime meta > e)
            then Some (EndTime meta) else fin)))"

definition coveredRange :: "block_meta list \<Rightarrow> time option \<times> time option" where
  "coveredRange ms = fold cover ms (None, None)"



definition usable_starts :: "block_meta list \<Rightarrow> time set" where
  "usable_starts ms = {StartTime m | m. m \<in> set ms \<and> StartTime m \<noteq> zero_time
     \<and> (EndTime m = zero_time \<or> StartTime m \<le> EndTime m)}"

definition usable_ends :: "block_meta list \<Rightarrow> time set" where
  "usable_ends ms = {EndTime m | m. m \<in> set ms \<and> EndTime m \<noteq> zero_time
     \<and> (StartTime m = zero_time \<or> StartTime m \<le> EndTime m)}"

definition least_of :: "time set \<Rightarrow> time option \<Rightarrow> bool" where
  "least_of S x = (case x of None \<Rightarrow> S = {} | Some s \<Rightarrow> s \<in> S \<and> (\<forall>y\<in>S. s \<le> y))"

definition greatest_of :: "time set \<Rightarrow> time option \<Rightarrow> bool" where
  "greatest_of S x = (case x of None \<Rightarrow> S = {} | Some s \<Rightarrow> s \<in> S \<and> (\<forall>y\<in>S. y \<le> s))"

lemma covered_step:
  "usable_starts (ms @ [m]) = usable_starts ms \<union> (if StartTime m \<noteq> zero_time
     \<and> (EndTime m = zero_time \<or> StartTime m \<le> EndTime m) then {StartTime m} else {})"
  "usable_ends (ms @ [m]) = usable_ends ms \<union> (if EndTime m \<noteq> zero_time
     \<and> (StartTime m = zero_time \<or> StartTime m \<le> EndTime m) then {EndTime m} else {})"
  by (auto simp: usable_starts_def usable_ends_def)

text \<open>The range reported for a redaction is the span of the data that the selected blocks record:
  its start is the least and its end the greatest of the bounds of those blocks, each bound taken wherever
  it is set in a range that is not inverted, and unknown when no block sets it.\<close>

theorem covered_range_is_exact:
  "least_of (usable_starts ms) (fst (coveredRange ms)) \<and> greatest_of (usable_ends ms) (snd (coveredRange ms))"
proof (induction ms rule: rev_induct)
  case Nil
  show ?case by (simp add: coveredRange_def least_of_def greatest_of_def usable_starts_def usable_ends_def)
next
  case (snoc m ms)
  obtain s e where se: "coveredRange ms = (s, e)" by (cases "coveredRange ms")
  then have c: "coveredRange (ms @ [m]) = cover m (s, e)" by (simp add: coveredRange_def)
  have s: "least_of (usable_starts ms) s" and e: "greatest_of (usable_ends ms) e"
    using snoc se by auto
  show ?case
    using s e by (cases s; cases e) (auto simp: c cover_def covered_step least_of_def greatest_of_def)
qed

subsection \<open>Which expressions may select traces (redaction_query.go)\<close>

text \<open>The expressions are those of \<open>TqlExpr\<close>, the pipelines those of \<open>TqlAst\<close>. The parser is a parameter:
  None for a query it rejects, \<open>Some None\<close> for one that is not a single pipeline.\<close>

datatype query_error = ErrEmptyQuery | ErrInvalidTraceQL | ErrNotSinglePipeline | ErrPipelineStages
  | ErrNotFilter | ErrNotComparison | ErrOperator operator | ErrComparisonShape | ErrScope | ErrParent

definition validateRedactionComparison ::
  "field_expression \<Rightarrow> field_expression \<Rightarrow> query_error option" where
  "validateRedactionComparison lhs rhs = (case
     (case (lhs, rhs) of
        (Attribute a, Static v) \<Rightarrow> Some a
      | (Static v, Attribute a) \<Rightarrow> Some a
      | _ \<Rightarrow> None) of
     None \<Rightarrow> Some ErrComparisonShape
   | Some a \<Rightarrow>
       if Scope a \<noteq> AttributeScopeResource \<and> Scope a \<noteq> AttributeScopeSpan then Some ErrScope
       else if Parent a then Some ErrParent else None)"

fun validateRedactionExpr :: "field_expression \<Rightarrow> query_error option" where
  "validateRedactionExpr (BinaryOperation op l r) =
     (if op = OpAnd \<or> op = OpOr then
        (case validateRedactionExpr l of Some e \<Rightarrow> Some e | None \<Rightarrow> validateRedactionExpr r)
      else if op = OpEqual then validateRedactionComparison l r
      else Some (ErrOperator op))"
| "validateRedactionExpr _ = Some ErrNotComparison"

definition validateRedactionQuery ::
  "(string \<Rightarrow> pipeline_element list option option) \<Rightarrow> string \<Rightarrow> query_error option" where
  "validateRedactionQuery parse query =
     (if query = '''' then Some ErrEmptyQuery
      else case parse query of
        None \<Rightarrow> Some ErrInvalidTraceQL
      | Some None \<Rightarrow> Some ErrNotSinglePipeline
      | Some (Some elements) \<Rightarrow> (case elements of
            [SpansetFilter e] \<Rightarrow> validateRedactionExpr e
          | [_] \<Rightarrow> Some ErrNotFilter
          | _ \<Rightarrow> Some ErrPipelineStages))"

text \<open>The comparisons of an expression.\<close>

fun comparisons :: "field_expression \<Rightarrow> field_expression set" where
  "comparisons (BinaryOperation op l r) =
     (if op = OpAnd \<or> op = OpOr then comparisons l \<union> comparisons r else {BinaryOperation op l r})"
| "comparisons _ = {}"

definition names_attribute :: "field_expression \<Rightarrow> attribute \<Rightarrow> bool" where
  "names_attribute c a \<longleftrightarrow> (\<exists>v. c = BinaryOperation OpEqual (Attribute a) (Static v)
     \<or> c = BinaryOperation OpEqual (Static v) (Attribute a))"

lemma comparison_accepted:
  "validateRedactionComparison l r = None \<longleftrightarrow>
     (\<exists>a. names_attribute (BinaryOperation OpEqual l r) a
        \<and> (Scope a = AttributeScopeResource \<or> Scope a = AttributeScopeSpan) \<and> \<not> Parent a)"
  by (cases l; cases r) (auto simp: validateRedactionComparison_def names_attribute_def)

lemma accepted_node: "validateRedactionExpr e = None \<Longrightarrow> boolean_node e"
  by (cases e) (auto simp: isBoolean_def split: if_splits)

lemma accepted_comparisons:
  "validateRedactionExpr e = None \<Longrightarrow> c \<in> comparisons e \<Longrightarrow> \<exists>a. names_attribute c a
     \<and> (Scope a = AttributeScopeResource \<or> Scope a = AttributeScopeSpan) \<and> \<not> Parent a"
proof (induction e)
  case (BinaryOperation op l r)
  then show ?case by (auto simp: comparison_accepted split: if_splits option.splits)
qed auto

lemma accepted_match:
  "validateRedactionExpr e = None \<Longrightarrow> matches env span e \<Longrightarrow> \<exists>c\<in>comparisons e. matches env span c"
proof (induction e)
  case (BinaryOperation op l r)
  consider "op = OpAnd" | "op = OpOr" | "op \<noteq> OpAnd" "op \<noteq> OpOr" by blast
  then show ?case
  proof cases
    case 1
    then have "matches env span l"
      using BinaryOperation.prems accepted_node matches_And by (auto split: option.splits)
    then show ?thesis using 1 BinaryOperation by (auto split: option.splits)
  next
    case 2
    then have "matches env span l \<or> matches env span r"
      using BinaryOperation.prems accepted_node matches_Or by (auto split: option.splits)
    then show ?thesis using 2 BinaryOperation by (auto split: option.splits)
  qed (use BinaryOperation in auto)
qed auto

lemma missing_attribute_never_equal:
  assumes "names_attribute c a" and "span a = None" and "\<forall>s. c \<in> {BinaryOperation OpEqual (Attribute a) (Static s),
      BinaryOperation OpEqual (Static s) (Attribute a)} \<longrightarrow> Elements s \<noteq> []"
  shows "\<not> matches env span c"
proof -
  have "comparison OpEqual" by (simp add: comparison_def isBoolean_def)
  then show ?thesis
    using assms comparison_nil [of OpEqual _ env]
    by (auto simp: names_attribute_def matches_def attribute_value_def)
qed

text \<open>A TraceQL query that \<open>validateRedactionQuery\<close> accepts can only select by what it names: it is
  one spanset filter made of comparisons of span or resource attributes of the span itself with literals, and
  a span on which none of these comparisons holds is not selected, however the query combines them. So no
  accepted query selects a complement.\<close>

theorem accepted_query_selects_only_what_it_names:
  assumes "validateRedactionQuery parse query = None"
  shows "\<exists>e. parse query = Some (Some [SpansetFilter e])
    \<and> (\<forall>c\<in>comparisons e. \<exists>a. names_attribute c a
        \<and> (Scope a = AttributeScopeResource \<or> Scope a = AttributeScopeSpan) \<and> \<not> Parent a)
    \<and> (\<forall>env span. (\<forall>c\<in>comparisons e. \<not> matches env span c) \<longrightarrow> \<not> matches env span e)"
proof -
  obtain e where e: "parse query = Some (Some [SpansetFilter e])" "validateRedactionExpr e = None"
    using assms by (auto simp: validateRedactionQuery_def split: if_splits option.splits list.splits pipeline_element.splits)
  then show ?thesis
    using accepted_comparisons [OF e(2)] accepted_match [OF e(2)] by (intro exI [of _ e]) fast
qed

definition demo_parse :: "string \<Rightarrow> pipeline_element list option option" where
  "demo_parse q = Some (Some [SpansetFilter (BinaryOperation OpAnd
     (BinaryOperation OpEqual (Attribute (NewScopedAttribute AttributeScopeSpan False ''user'')) (Static (StaticString ''bob'')))
     (BinaryOperation OpEqual (Static (StaticString ''eu''))
        (Attribute (NewScopedAttribute AttributeScopeResource False ''region''))))])"

theorem accepted_query_selects_only_what_it_names_witness:
  "\<exists>e. demo_parse ''q'' = Some (Some [SpansetFilter e])
    \<and> (\<forall>c\<in>comparisons e. \<exists>a. names_attribute c a
        \<and> (Scope a = AttributeScopeResource \<or> Scope a = AttributeScopeSpan) \<and> \<not> Parent a)
    \<and> (\<forall>env span. (\<forall>c\<in>comparisons e. \<not> matches env span c) \<longrightarrow> \<not> matches env span e)"
proof (rule accepted_query_selects_only_what_it_names)
  show "validateRedactionQuery demo_parse ''q'' = None" by code_simp
qed

subsection \<open>Validation of a request\<close>

record redaction_request =
  ReqTraceIds :: "bytes list"
  ReqQuery :: "string option"
  ReqMode :: int
  ReqStart :: i64
  ReqEnd :: i64

datatype request_error = ErrBothSelectors | ErrNoSelector | ErrQuery query_error | ErrUnknownMode
  | ErrHalfWindow | ErrNegativeWindow | ErrInvertedWindow | ErrWindowWithTraceIds

definition query_text :: "string option \<Rightarrow> string" where
  "query_text q = (case q of None \<Rightarrow> '''' | Some s \<Rightarrow> s)"

definition validateRedactionRequest ::
  "(string \<Rightarrow> pipeline_element list option option) \<Rightarrow> redaction_request \<Rightarrow> request_error option" where
  "validateRedactionRequest parse req = (let
       hasIDs = ReqTraceIds req \<noteq> [];
       hasQuery = query_text (ReqQuery req) \<noteq> '''';
       selErr = (if hasIDs \<and> hasQuery then Some ErrBothSelectors
         else if \<not> hasIDs \<and> \<not> hasQuery then Some ErrNoSelector
         else if hasQuery then map_option ErrQuery (validateRedactionQuery parse (query_text (ReqQuery req)))
         else None)
     in if selErr \<noteq> None then selErr
        else if ReqMode req \<noteq> 0 \<and> ReqMode req \<noteq> 1 then Some ErrUnknownMode
        else if (ReqStart req = 0) \<noteq> (ReqEnd req = 0) then Some ErrHalfWindow
        else if ReqStart req <s 0 \<or> ReqEnd req <s 0 then Some ErrNegativeWindow
        else if ReqStart req \<noteq> 0 \<and> ReqEnd req \<le>s ReqStart req then Some ErrInvertedWindow
        else if hasIDs \<and> ReqStart req \<noteq> 0 then Some ErrWindowWithTraceIds
        else None)"

text \<open>A redaction request that the scheduler accepts has exactly one selector, a mode it knows, and
  a window that the block scan honours: none at all, or two-sided with a query as the selector, and
  then exactly the bounds that \<open>fetchBounds\<close> hands to the scan.\<close>

theorem accepted_request_is_honourable:
  assumes "validateRedactionRequest parse req = None"
    and w: "w = \<lparr>StartNano = ReqStart req, EndNano = ReqEnd req\<rparr>"
  shows "(ReqTraceIds req \<noteq> []) \<noteq> (query_text (ReqQuery req) \<noteq> '''')
    \<and> (ReqMode req = 0 \<or> ReqMode req = 1) \<and> window_Validate w
    \<and> (fetchBounds w = (0, 0, False) \<and> window_IsZero w
       \<or> fetchBounds w = (ReqStart req, ReqEnd req, True) \<and> ReqStart req < ReqEnd req \<and> ReqTraceIds req = [])"
proof (intro conjI)
  note d = assms(1) [unfolded validateRedactionRequest_def Let_def]
  show 1: "(ReqTraceIds req \<noteq> []) \<noteq> (query_text (ReqQuery req) \<noteq> '''')"
    using d by (auto split: if_splits)
  show "ReqMode req = 0 \<or> ReqMode req = 1" using d by (auto split: if_splits)
  have nn: "\<not> ReqStart req <s 0" "\<not> ReqEnd req <s 0"
    and both: "(ReqStart req = 0) = (ReqEnd req = 0)"
    and ord: "ReqStart req \<noteq> 0 \<Longrightarrow> \<not> ReqEnd req \<le>s ReqStart req"
    and ids: "ReqStart req \<noteq> 0 \<Longrightarrow> ReqTraceIds req = []"
    using d by (auto split: if_splits)
  have z: "x \<le>s 0 \<longleftrightarrow> x = 0" if "\<not> x <s 0" for x :: i64
    using that signed.not_less signed.order.antisym by auto
  show v: "window_Validate w"
    using nn both ord by (auto simp: window_Validate_def w materialise_def z)
  show "fetchBounds w = (0, 0, False) \<and> window_IsZero w
       \<or> fetchBounds w = (ReqStart req, ReqEnd req, True) \<and> ReqStart req < ReqEnd req \<and> ReqTraceIds req = []"
  proof (cases "ReqStart req = 0")
    case True
    then show ?thesis using both by (auto simp: w fetchBounds_def materialise_def window_IsZero_def)
  next
    case False
    have nz: "\<not> window_IsZero w" using False by (simp add: window_IsZero_def w)
    obtain lo hi where b: "fetchBounds w = (lo, hi, True)" "lo < hi"
        "StartNano w \<noteq> 0 \<longrightarrow> lo = StartNano w" "EndNano w \<noteq> 0 \<longrightarrow> hi = EndNano w"
      using bounded_of_valid [OF v nz] by auto
    have "lo = ReqStart req" "hi = ReqEnd req" using b(3,4) False both by (simp_all add: w)
    then show ?thesis using b(1,2) ids False by simp
  qed
qed

definition demo_request :: redaction_request where
  "demo_request = \<lparr>ReqTraceIds = [], ReqQuery = Some ''q'', ReqMode = 1, ReqStart = 10, ReqEnd = 20\<rparr>"

theorem accepted_request_is_honourable_witness:
  "(ReqTraceIds demo_request \<noteq> []) \<noteq> (query_text (ReqQuery demo_request) \<noteq> '''')
    \<and> (ReqMode demo_request = 0 \<or> ReqMode demo_request = 1)
    \<and> window_Validate \<lparr>StartNano = ReqStart demo_request, EndNano = ReqEnd demo_request\<rparr>
    \<and> (fetchBounds \<lparr>StartNano = ReqStart demo_request, EndNano = ReqEnd demo_request\<rparr> = (0, 0, False)
         \<and> window_IsZero \<lparr>StartNano = ReqStart demo_request, EndNano = ReqEnd demo_request\<rparr>
       \<or> fetchBounds \<lparr>StartNano = ReqStart demo_request, EndNano = ReqEnd demo_request\<rparr>
           = (ReqStart demo_request, ReqEnd demo_request, True)
         \<and> ReqStart demo_request < ReqEnd demo_request \<and> ReqTraceIds demo_request = [])"
proof (rule accepted_request_is_honourable [where parse = demo_parse, OF _ refl])
  show "validateRedactionRequest demo_parse demo_request = None" by code_simp
qed

end
