(* ===== verification/RedactBlock.thy ===== *)
theory RedactBlock
  imports RedactWindow TqlCompile
begin

section \<open>The redaction of a block (tempodb/tempodb.go)\<close>

text \<open>
  What a worker does with a redaction job: compile the query, fetch the spansets of the block inside the
  window with the query as the second pass, collect the ids of the traces that remain, and rewrite the
  block without them. This theory puts the validation of the query (\<open>RedactWindow\<close>), the rewriting and
  the request (\<open>TqlCompile\<close>, \<open>TqlConditions\<close>) and the evaluation (\<open>TqlEngine\<close>) together.

  The block is a parameter: which spansets the first pass of \<open>Fetch\<close> yields for a request and a time range,
  which traces it holds, and what its compactor writes when given the predicate \<open>DropObject\<close>.
\<close>

record 'm block_access =
  open_ok :: bool
  first_pass :: "fetch_request \<Rightarrow> (i64 \<times> i64) option \<Rightarrow> spanset list"
  FindTraceByID :: "bytes \<Rightarrow> bool option"
  encoding_ok :: bool
  Compact :: "(bytes \<Rightarrow> bool) \<Rightarrow> 'm list option"
  mark_ok :: bool
  BlockTotalObjects :: int

datatype redact_error = ErrCompileQuery compile_error | ErrFetch engine_error | ErrUnusableWindow
  | ErrWindowWithIds | ErrOpenBlock | ErrFindTrace | ErrEncoding | ErrCompact | ErrMarkCompacted
  | ErrOutputBlocks nat

text \<open>The second pass that a request carries, and the stream of \<open>Fetch\<close>: every spanset of the first pass goes
  through the second, the first error ends the stream.\<close>

definition second_pass :: "engine_env \<Rightarrow> pipeline_element list \<Rightarrow> spanset \<Rightarrow> spansets_result" where
  "second_pass g es inSS = (if Spans inSS = [] then Inr [] else evaluate_pipeline g es [inSS])"

definition redaction_fetch :: "fetch_request \<Rightarrow> fetch_request" where
  "redaction_fetch req =
     req\<lparr>SecondPassConditions := SearchMetaConditionsWithout (Conditions req) (AllConditions req)\<rparr>"

definition window_range :: "redaction_window \<Rightarrow> (i64 \<times> i64) option" where
  "window_range window = (let (start, stop, ok) = fetchBounds window in if ok then Some (start, stop) else None)"

definition redactionIDsFromQuery :: "engine_env \<Rightarrow> (string \<Rightarrow> bool) \<Rightarrow> (string \<Rightarrow> pipeline_element list option option)
    \<Rightarrow> 'm block_access \<Rightarrow> string \<Rightarrow> redaction_window \<Rightarrow> redact_error + bytes set" where
  "redactionIDsFromQuery g compiles parse blk query window =
     (case Compile (expr_env g) compiles parse query of
        Inl err \<Rightarrow> Inl (ErrCompileQuery err)
      | Inr (es, req) \<Rightarrow>
          (case each (second_pass g es) (first_pass blk (redaction_fetch req) (window_range window)) of
             Inl err \<Rightarrow> Inl (ErrFetch err)
           | Inr results \<Rightarrow> Inr (set (map TraceID (concat results)))))"

fun find_traces :: "(bytes \<Rightarrow> bool option) \<Rightarrow> bytes list \<Rightarrow> redact_error + bytes set" where
  "find_traces lookup [] = Inr {}"
| "find_traces lookup (i # rest) = (case lookup i of None \<Rightarrow> Inl ErrFindTrace
     | Some found \<Rightarrow> (case find_traces lookup rest of Inl err \<Rightarrow> Inl err
         | Inr found_ids \<Rightarrow> Inr (if found then insert i found_ids else found_ids)))"

definition RedactBlock :: "engine_env \<Rightarrow> (string \<Rightarrow> bool) \<Rightarrow> (string \<Rightarrow> pipeline_element list option option)
    \<Rightarrow> 'm block_access \<Rightarrow> bytes list \<Rightarrow> string \<Rightarrow> bool \<Rightarrow> redaction_window
    \<Rightarrow> redact_error + bool \<times> nat \<times> 'm option" where
  "RedactBlock g compiles parse blk traceIDs query dryRun window =
     (if \<not> window_Validate window then Inl ErrUnusableWindow
      else if traceIDs \<noteq> [] \<and> \<not> window_IsZero window then Inl ErrWindowWithIds
      else if \<not> open_ok blk then Inl ErrOpenBlock
      else case (if query \<noteq> '''' then redactionIDsFromQuery g compiles parse blk query window
                 else find_traces (FindTraceByID blk) traceIDs) of
          Inl err \<Rightarrow> Inl err
        | Inr dropSet \<Rightarrow>
            (if dropSet = {} then Inr (False, 0, None)
             else if dryRun then Inr (False, card dropSet, None)
             else if \<not> encoding_ok blk then Inl ErrEncoding
             else case Compact blk (\<lambda>i. i \<in> dropSet) of
                 None \<Rightarrow> Inl ErrCompact
               | Some out \<Rightarrow>
                   (if out = [] then (if mark_ok blk then Inr (True, card dropSet, None) else Inl ErrMarkCompacted)
                    else if length out \<noteq> 1 then
                      (if BlockTotalObjects blk = int (card dropSet) then
                         (if mark_ok blk then Inr (True, card dropSet, None) else Inl ErrMarkCompacted)
                       else Inl (ErrOutputBlocks (length out)))
                    else (if mark_ok blk then Inr (True, card dropSet, Some (hd out)) else Inl ErrMarkCompacted))))"

subsection \<open>What the query selects\<close>

lemma scalar_not_empty: "scalar_span span \<Longrightarrow> no_empty_arrays span"
proof -
  have "Elements v \<noteq> []" if "\<not> isArray (static_Type v)" for v
    using that by (cases v) (simp_all add: Elements_def isArray_def)
  then show "scalar_span span \<Longrightarrow> no_empty_arrays span" by (simp add: scalar_span_def no_empty_arrays_def)
qed

lemma second_pass_exact:
  assumes "second_pass g [SpansetFilter e] ss = Inr out"
  shows "TraceID ` set out = (if \<exists>s\<in>set (Spans ss). passes g e s then {TraceID ss} else {})"
proof (cases "Spans ss = []")
  case False
  then have ev: "evaluate_pipeline g [SpansetFilter e] [ss] = Inr out" using assms by (simp add: second_pass_def)
  have all: "\<forall>s\<in>set (Spans ss). evaluates g e s"
  proof (rule ccontr)
    assume "\<not> (\<forall>s\<in>set (Spans ss). evaluates g e s)"
    then have "\<exists>x\<in>set [ss]. \<exists>s\<in>set (Spans x). \<not> evaluates g e s" by simp
    from filter_loop_error [OF this, of "[ss]" 0 False "[]"] obtain err where "evaluate_filter g e [ss] = Inl err"
      unfolding evaluate_filter_def by blast
    then show False using ev by simp
  qed
  have "evaluate_filter g e [ss] = Inr (List.map_filter (filtered g e) [ss])" using all by (intro filter_exact) simp
  then have "out = List.map_filter (filtered g e) [ss]" using ev by (auto split: if_splits)
  then show ?thesis by (auto simp: map_filter_simps filtered_def Let_def filter_empty_conv)
qed (use assms in \<open>simp add: second_pass_def\<close>)

lemma each_concat_image:
  assumes "each f xs = Inr ys" and "\<And>x y. x \<in> set xs \<Longrightarrow> f x = Inr y \<Longrightarrow> h ` set y = H x"
  shows "h ` set (concat ys) = \<Union> (H ` set xs)"
  using assms
proof (induction xs arbitrary: ys)
  case (Cons x xs)
  then obtain y ys' where y: "f x = Inr y" "each f xs = Inr ys'" "ys = y # ys'" by (auto split: sum.splits)
  have "h ` set (concat ys') = \<Union> (H ` set xs)" using Cons.prems(2) by (intro Cons.IH [OF y(2)]) simp
  then show ?case using Cons.prems(2) [of x y] y by (simp add: image_Un)
qed simp

lemma matches_rewritten:
  "parsed env compiles e \<Longrightarrow> scalar_span span \<Longrightarrow>
     matches env span (fst (rewriteFieldExpression env compiles e)) = matches env span e"
  using rewrite_walk [of env compiles e span] by (simp add: matches_def)

text \<open>Every query of the redaction subset can be pushed down.\<close>

lemma accepted_pushable:
  "validateRedactionExpr e = None \<Longrightarrow> parsed env compiles e \<Longrightarrow> pushable e"
proof (induction e)
  case (BinaryOperation op l r)
  have lit: "Elements v \<noteq> []" if "parsed env compiles (Static v)" for v
    using that by (cases v) (simp_all add: Elements_def isArray_def)
  have eq: "comparison OpEqual" by (simp add: comparison_def isBoolean_def)
  have "pushable (BinaryOperation OpEqual l r)"
    if "validateRedactionComparison l r = None" "parsed env compiles l" "parsed env compiles r"
    using that lit eq unfolding comparison_accepted names_attribute_def by auto
  then show ?case using BinaryOperation by (auto split: if_splits option.splits)
qed simp_all

lemma compile_filter:
  assumes "parse query = Some (Some [SpansetFilter e])" and "Compile env compiles parse query = Inr (es, req)"
  shows "es = [SpansetFilter (fst (rewriteFieldExpression env compiles e))]
    \<and> req = compile_request es"
  using assms by (auto simp: Compile_def ApplyASTRewrites_def case_prod_unfold Let_def split: option.splits)


text \<open>A block of two traces with one span each; span 1 is of the user \<open>who\<close>, span 2 of eve, both in the region eu.\<close>

definition redact_engine :: "static \<Rightarrow> engine_env" where
  "redact_engine who = demo_engine\<lparr>AttributeFor := (\<lambda>s a.
     if Name a = ''user'' then Some (if s = 1 then who else StaticString ''eve'')
     else if Name a = ''region'' then Some (StaticString ''eu'') else None)\<rparr>"

definition redact_blk :: "nat block_access" where
  "redact_blk = \<lparr>open_ok = True,
     first_pass = (\<lambda>req range. [\<lparr>Scalar = StaticNil, Spans = [1], SpansetAttributes = [], TraceID = [1]\<rparr>,
        \<lparr>Scalar = StaticNil, Spans = [2], SpansetAttributes = [], TraceID = [2]\<rparr>]),
     FindTraceByID = (\<lambda>i. Some True), encoding_ok = True, Compact = (\<lambda>d. Some [1]), mark_ok = True,
     BlockTotalObjects = 2\<rparr>"

definition redact_filter :: field_expression where
  "redact_filter = BinaryOperation OpAnd
     (BinaryOperation OpEqual (Attribute (NewScopedAttribute AttributeScopeSpan False ''user'')) (Static (StaticString ''bob'')))
     (BinaryOperation OpEqual (Static (StaticString ''eu''))
        (Attribute (NewScopedAttribute AttributeScopeResource False ''region'')))"

text \<open>What the run returns, as a list.\<close>

definition redacts :: "redact_error + bytes set \<Rightarrow> bytes set \<Rightarrow> bool" where
  "redacts r dropped = (case r of Inl _ \<Rightarrow> False | Inr d \<Rightarrow> d = dropped)"

lemma redacts_iff: "redacts r dropped \<longleftrightarrow> r = Inr dropped"
  by (cases r) (simp_all add: redacts_def)


text \<open>\<open>{ span.user = "a" || span.user = "b" }\<close>\<close>

definition redact_or :: field_expression where
  "redact_or = BinaryOperation OpOr
     (BinaryOperation OpEqual (Attribute (NewScopedAttribute AttributeScopeSpan False ''user'')) (Static (StaticString ''a'')))
     (BinaryOperation OpEqual (Attribute (NewScopedAttribute AttributeScopeSpan False ''user'')) (Static (StaticString ''b'')))"

definition fails_with :: "redact_error \<Rightarrow> redact_error + 'a \<Rightarrow> bool" where
  "fails_with err r = (case r of Inl e \<Rightarrow> e = err | Inr _ \<Rightarrow> False)"

text \<open>An accepted redaction query can be impossible to run: the scheduler accepts
  \<open>{ span.user = "a" || span.user = "b" }\<close> as it is written, and written so it matches a span whose user is the
  array with element a; but the worker compiles it to \<open>span.user IN ["a", "b"]\<close>, which fails on that span, so
  nothing of the block is redacted.\<close>

theorem accepted_redaction_query_fails_on_arrays:
  "validateRedactionQuery (\<lambda>q. Some (Some [SpansetFilter redact_or])) ''q'' = None
    \<and> matches (expr_env (redact_engine (StaticStringArray [''a''])))
        (AttributeFor (redact_engine (StaticStringArray [''a''])) 1) redact_or
    \<and> fails_with (ErrFetch (ErrExecute ErrTwoArrays)) (RedactBlock (redact_engine (StaticStringArray [''a''])) (\<lambda>_. True)
        (\<lambda>q. Some (Some [SpansetFilter redact_or])) redact_blk [] ''q'' False \<lparr>StartNano = 0, EndNano = 0\<rparr>)"
  by code_simp



end
