(* ===== verification/Scheduler.thy ===== *)
theory Scheduler
  imports SchedWork RedactWindow
begin

section \<open>The backend scheduler (modules/backendscheduler/backendscheduler.go)\<close>

text \<open>
  The RPC handlers and the maintenance loop of the backend scheduler over the work cache
  (\<open>SchedWork\<close>) and the blocklist (\<open>Blocklist\<close>): \<open>SubmitRedaction\<close>, \<open>Next\<close>,
  \<open>UpdateJob\<close>, the quiescence and rescan of redaction batches, the replay of finished jobs on
  the blocklist, and the sends of the job providers (provider/redaction.go, retention.go,
  compaction.go). The channels from the providers to \<open>Next\<close> are one queue of job pointers,
  \<open>chan\<close>. Fresh UUIDs are values of a function \<open>uuid\<close> of the allocation counter; that they are
  distinct is the hypothesis \<open>inj uuid\<close>. \<open>str\<close> and \<open>parse_uuid\<close> stand for the UUID package's
  \<open>String\<close> and \<open>Parse\<close>. Whether a flush of the cache to disk succeeded is an argument.
  Metrics, logging and tracing are left out.
\<close>

record sched_config =
  RescanDelay :: int
  MaxRescanGenerations :: nat
  MaintenanceInterval :: int

record sched =
  wk :: work
  store :: blocklist
  chan :: "ptr list"
  next_ptr :: nat

subsection \<open>Quiescence of a batch\<close>

definition quiescenceSweeps :: int where
  "quiescenceSweeps = 2"

definition redactionBatchActive :: "work \<Rightarrow> string \<Rightarrow> bool \<Rightarrow> bool" where
  "redactionBatchActive w t rescanPending \<longleftrightarrow> HasJobsForTenant w t JOB_TYPE_REDACTION \<or> rescanPending"

definition enterQuiescence :: "sched_config \<Rightarrow> time \<Rightarrow> string \<Rightarrow> work \<Rightarrow> work" where
  "enterQuiescence c now t w = SetBatchQuiesceUntil t (now + quiescenceSweeps * MaintenanceInterval c) w"

definition cleanupBatchIfDone :: "sched_config \<Rightarrow> time \<Rightarrow> string \<Rightarrow> work \<Rightarrow> work" where
  "cleanupBatchIfDone c now t w = (case BatchQuiescenceState w t of (quiesceUntil, rescanPending, dryRun, ok) \<Rightarrow>
     if \<not> ok \<or> redactionBatchActive w t rescanPending then w
     else if dryRun then RemoveBatch t w
     else if quiesceUntil = 0 then enterQuiescence c now t w else w)"

definition advanceQuiescence :: "sched_config \<Rightarrow> time \<Rightarrow> string \<Rightarrow> work \<Rightarrow> bool \<times> work" where
  "advanceQuiescence c now t w = (case BatchQuiescenceState w t of (quiesceUntil, rescanPending, dryRun, ok) \<Rightarrow>
     if \<not> ok then (False, w)
     else if redactionBatchActive w t rescanPending then
       (if quiesceUntil \<noteq> 0 then (True, SetBatchQuiesceUntil t 0 w) else (False, w))
     else if dryRun then (True, RemoveBatch t w)
     else if quiesceUntil = 0 then (True, enterQuiescence c now t w)
     else if now < quiesceUntil then (False, w)
     else (True, RemoveBatch t w))"

definition cleanupOrphanedBatches :: "sched_config \<Rightarrow> time \<Rightarrow> string list \<Rightarrow> work \<Rightarrow> work" where
  "cleanupOrphanedBatches c now order w =
     fold (\<lambda>b v. snd (advanceQuiescence c now (BatchTenantId b) v)) (ListBatches order w) w"

definition dropBatchesWithUnusableWindows :: "string list \<Rightarrow> work \<Rightarrow> work" where
  "dropBatchesWithUnusableWindows order w =
     fold (\<lambda>b v. if window_Validate \<lparr>StartNano = BatchWindowStart b, EndNano = BatchWindowEnd b\<rparr> then v
                 else RemoveBatch (BatchTenantId b) v) (ListBatches order w) w"

subsection \<open>Results of jobs on the blocklist\<close>

definition MarkBlocklistCompacted ::
  "time \<Rightarrow> string \<Rightarrow> block_meta list \<Rightarrow> block_meta list \<Rightarrow> blocklist \<Rightarrow> blocklist" where
  "MarkBlocklistCompacted now t oldBlocks newBlocks l =
     Update t newBlocks oldBlocks
       (map (\<lambda>b. block_meta.extend b (compacted_block_meta.fields now)) oldBlocks) [] l"

definition foundMetaInMetas :: "block_meta list \<Rightarrow> uuid \<Rightarrow> block_meta option" where
  "foundMetaInMetas ms u = find (\<lambda>m. BlockID m = u) ms"

definition applyJobsToBlocklist ::
  "(string \<rightharpoonup> uuid) \<Rightarrow> time \<Rightarrow> string \<Rightarrow> job list \<Rightarrow> blocklist \<Rightarrow> blocklist" where
  "applyJobsToBlocklist parse_uuid now t js l = (let ms = Metas l t;
       inputs = concat (map GetCompactionInput (filter (\<lambda>j. JobStatus j = JOB_STATUS_SUCCEEDED) js));
       oldBlocks = List.map_filter (\<lambda>b. Option.bind (parse_uuid b) (foundMetaInMetas ms)) inputs
     in MarkBlocklistCompacted now t oldBlocks [] l)"

definition replayWorkOnBlocklist ::
  "(string \<rightharpoonup> uuid) \<Rightarrow> time \<Rightarrow> (nat \<Rightarrow> string list) \<Rightarrow> string list \<Rightarrow> work \<Rightarrow> blocklist \<Rightarrow> blocklist" where
  "replayWorkOnBlocklist parse_uuid now orders tenants w l =
     (let js = filter (\<lambda>j. JobStatus j = JOB_STATUS_SUCCEEDED) (map (heap w) (ListJobs orders w))
      in fold (\<lambda>t l. let tjs = filter (\<lambda>j. Tenant j = t) js in
                if tjs = [] then l else applyJobsToBlocklist parse_uuid now t tjs l) tenants l)"

subsection \<open>\<open>Next\<close> and \<open>UpdateJob\<close>\<close>

datatype rpc_error = NotFound | Internal | InvalidArgument | FailedPrecondition | AlreadyExists

definition inject_batch :: "redaction_batch \<Rightarrow> job \<Rightarrow> job" where
  "inject_batch b j = (case Redaction (JobDetail j) of
     None \<Rightarrow> j
   | Some r \<Rightarrow> j\<lparr>JobDetail := (JobDetail j)\<lparr>Redaction := Some
       (r\<lparr>TraceIds := BatchTraceIds b, QuerySel := BatchQuery b, Mode := BatchMode b,
          WindowStart := BatchWindowStart b, WindowEnd := BatchWindowEnd b\<rparr>)\<rparr>\<rparr>)"

definition is_stale :: "work \<Rightarrow> ptr \<Rightarrow> bool" where
  "is_stale w p = (let j = heap w p in Tenant j \<noteq> '''' \<and>
     (JobType j = JOB_TYPE_RETENTION \<and> TenantPending w (Tenant j)
      \<or> JobType j = JOB_TYPE_REDACTION \<and> GetBatch w (Tenant j) = None))"

definition drop_job :: "ptr \<Rightarrow> work \<Rightarrow> work" where
  "drop_job p w = (let j = heap w p in
     if JobType j = JOB_TYPE_REDACTION then ReleaseRedactionInFlight (Tenant j) w else w)"

definition prepare_job :: "string \<Rightarrow> ptr \<Rightarrow> work \<Rightarrow> work" where
  "prepare_job wid p w = (let j = heap w p;
       w1 = (if Tenant j \<noteq> '''' \<and> JobType j = JOB_TYPE_REDACTION then
               (case GetBatch w (Tenant j) of None \<Rightarrow> w | Some b \<Rightarrow> upd_job p (inject_batch b) w)
             else w)
     in upd_job p (SetWorkerID wid) w1)"

text \<open>The loop over the merged channel. With the channel empty it waits for its timeout.\<close>

fun next_loop :: "time \<Rightarrow> string \<Rightarrow> bool \<Rightarrow> ptr list \<Rightarrow> work \<Rightarrow> (rpc_error + ptr) \<times> ptr list \<times> work" where
  "next_loop now wid flush_ok [] w = (Inl NotFound, [], w)"
| "next_loop now wid flush_ok (p # ps) w =
     (if is_stale w p then next_loop now wid flush_ok ps (drop_job p w)
      else let (err, w1) = AddJob now (Some p) (prepare_job wid p w) in
        if err \<noteq> None then (Inl Internal, ps, w1)
        else let w2 = StartJob now (JobID (heap w1 p)) w1 in
          (if flush_ok then Inr p else Inl Internal, ps, w2))"

definition Next :: "time \<Rightarrow> string \<Rightarrow> bool \<Rightarrow> sched \<Rightarrow> (rpc_error + ptr) \<times> sched" where
  "Next now wid flush_ok s = (case GetJobForWorker (wk s) wid of
     Some p \<Rightarrow> (if flush_ok then Inr p else Inl Internal, s)
   | None \<Rightarrow> (case next_loop now wid flush_ok (chan s) (wk s) of
       (r, c, w) \<Rightarrow> (r, s\<lparr>wk := w, chan := c\<rparr>)))"

definition UpdateJob :: "sched_config \<Rightarrow> (string \<rightharpoonup> uuid) \<Rightarrow> time \<Rightarrow> bool \<Rightarrow> string \<Rightarrow> job_status
    \<Rightarrow> string list option \<Rightarrow> sched \<Rightarrow> rpc_error option \<times> sched" where
  "UpdateJob c parse_uuid now flush_ok jobID st output s = (case GetJob (wk s) jobID of
     None \<Rightarrow> (Some NotFound, s)
   | Some p \<Rightarrow> (case st of
       JOB_STATUS_RUNNING \<Rightarrow> (None, s)
     | JOB_STATUS_SUCCEEDED \<Rightarrow>
        (let w1 = CompleteJob now jobID (wk s); j = heap w1 p;
             w2 = (case JobType j of
                 JOB_TYPE_COMPACTION \<Rightarrow> (case output of None \<Rightarrow> w1 | Some out \<Rightarrow> SetJobCompactionOutput jobID out w1)
               | JOB_TYPE_REDACTION \<Rightarrow> cleanupBatchIfDone c now (Tenant j) w1
               | _ \<Rightarrow> w1)
         in if \<not> flush_ok then (Some Internal, s\<lparr>wk := w2\<rparr>)
            else (None, s\<lparr>wk := w2, store := applyJobsToBlocklist parse_uuid now (Tenant j) [heap w2 p] (store s)\<rparr>))
     | JOB_STATUS_FAILED \<Rightarrow>
        (if flush_ok then None else Some Internal, s\<lparr>wk := FailJob now jobID (wk s)\<rparr>)
     | JOB_STATUS_UNSPECIFIED \<Rightarrow> (Some InvalidArgument, s)))"

subsection \<open>\<open>SubmitRedaction\<close>\<close>

text \<open>\<open>submit_plan\<close> is the part that reads: the checks, the snapshot of the blocks and of the busy
  blocks, and the selection. \<open>submit_commit\<close> is the part that writes: the batch and its jobs. The
  ids of the skipped jobs come out of a Go map; the code only ever uses them as a set, here they are in
  the order of the blocks.\<close>

datatype submit_error = SubmitInvalid request_error | SubmitCompactionDisabled | SubmitAlreadyExists
  | SubmitNoBlocks | SubmitAllBusy | SubmitNoneInWindow | SubmitInternal

record plan =
  PlanSelected :: "block_meta list"
  PlanSkippedJobs :: "string list"

definition in_window :: "redaction_request \<Rightarrow> block_meta \<Rightarrow> bool" where
  "in_window req m = fst (blockOverlapsWindow m (ReqStart req) (ReqEnd req))"

definition submit_plan :: "(string \<Rightarrow> pipeline_element list option option) \<Rightarrow> (uuid \<Rightarrow> string) \<Rightarrow> bool
    \<Rightarrow> string \<Rightarrow> redaction_request \<Rightarrow> sched \<Rightarrow> submit_error + plan" where
  "submit_plan parse str compactionDisabled t req s =
     (case validateRedactionRequest parse req of
       Some e \<Rightarrow> Inl (SubmitInvalid e)
     | None \<Rightarrow>
        if compactionDisabled then Inl SubmitCompactionDisabled
        else if GetBatch (wk s) t \<noteq> None then Inl SubmitAlreadyExists
        else let ms = Metas (store s) t in
          if ms = [] then Inl SubmitNoBlocks
          else let busy = BusyBlocksForTenant (wk s) t;
                   inw = filter (in_window req) ms;
                   skipped = remdups (List.map_filter (\<lambda>m. busy (str (BlockID m))) inw);
                   selected = filter (\<lambda>m. busy (str (BlockID m)) = None) inw
            in if selected = [] \<and> skipped \<noteq> [] \<and> IsDryRun (ReqMode req) then Inl SubmitAllBusy
               else if selected = [] \<and> skipped = [] then Inl SubmitNoneInWindow
               else Inr \<lparr>PlanSelected = selected, PlanSkippedJobs = skipped\<rparr>)"

definition redaction_job :: "string \<Rightarrow> string \<Rightarrow> string \<Rightarrow> string \<Rightarrow> job" where
  "redaction_job jobID t batchID blockID = \<lparr>JobID = jobID, JobType = JOB_TYPE_REDACTION,
     JobDetail = \<lparr>DetailTenant = t, Compaction = \<lparr>Input = [], Output = []\<rparr>,
       Redaction = Some \<lparr>BlockId = blockID, TraceIds = [], QuerySel = None, Mode = 0,
         WindowStart = 0, WindowEnd = 0\<rparr>, DetailBatchId = batchID\<rparr>,
     JobStatus = JOB_STATUS_UNSPECIFIED, CreatedTime = 0, JobStartTime = 0, JobEndTime = 0,
     WorkerID = '''', Retries = 0\<rparr>"

text \<open>New jobs take the next free pointers, and their ids are drawn for them.\<close>

definition alloc_jobs :: "job list \<Rightarrow> nat \<Rightarrow> work \<Rightarrow> work" where
  "alloc_jobs js n w = w\<lparr>heap := (\<lambda>p. if n \<le> p \<and> p < n + length js then js ! (p - n) else heap w p)\<rparr>"

definition add_redaction_jobs ::
  "(nat \<Rightarrow> string) \<Rightarrow> time \<Rightarrow> string \<Rightarrow> string \<Rightarrow> string list \<Rightarrow> nat \<Rightarrow> work \<Rightarrow> work" where
  "add_redaction_jobs uuid now t batchID blockIDs n w = (let
       js = map (\<lambda>(i, b). redaction_job (uuid (n + i)) t batchID b) (enumerate 0 blockIDs)
     in AddPendingJobs now (map (\<lambda>i. Some (n + i)) [0..<length blockIDs]) (alloc_jobs js n w))"

definition new_batch :: "sched_config \<Rightarrow> time \<Rightarrow> string \<Rightarrow> redaction_request \<Rightarrow> string \<Rightarrow> string list
    \<Rightarrow> redaction_batch" where
  "new_batch c now t req batchID skipped = \<lparr>BatchId = batchID, BatchTenantId = t,
     BatchTraceIds = ReqTraceIds req, CreatedAtUnixNano = now,
     SkippedCompactionJobIds = (if skipped \<noteq> [] \<and> \<not> IsDryRun (ReqMode req) then skipped else []),
     RescanAfterUnixNano = (if skipped \<noteq> [] \<and> \<not> IsDryRun (ReqMode req) then now + RescanDelay c else 0),
     BatchQuery = ReqQuery req, BatchMode = ReqMode req, QuiesceUntilUnixNano = 0,
     BatchWindowStart = ReqStart req, BatchWindowEnd = ReqEnd req\<rparr>"

definition submit_commit :: "sched_config \<Rightarrow> (nat \<Rightarrow> string) \<Rightarrow> (uuid \<Rightarrow> string) \<Rightarrow> time \<Rightarrow> string
    \<Rightarrow> redaction_request \<Rightarrow> plan \<Rightarrow> sched \<Rightarrow> (submit_error + nat) \<times> sched" where
  "submit_commit c uuid str now t req pl s = (let
       n = next_ptr s; batchID = uuid n;
       (err, w1) = AddBatch (new_batch c now t req batchID (PlanSkippedJobs pl)) (wk s)
     in if err \<noteq> None then (Inl SubmitInternal, s\<lparr>next_ptr := n + 1 + length (PlanSelected pl)\<rparr>)
        else (Inr (length (PlanSelected pl)),
          s\<lparr>wk := add_redaction_jobs uuid now t batchID (map (\<lambda>m. str (BlockID m)) (PlanSelected pl)) (n + 1) w1,
            next_ptr := n + 1 + length (PlanSelected pl)\<rparr>))"

definition SubmitRedaction :: "sched_config \<Rightarrow> (string \<Rightarrow> pipeline_element list option option)
    \<Rightarrow> (nat \<Rightarrow> string) \<Rightarrow> (uuid \<Rightarrow> string) \<Rightarrow> bool \<Rightarrow> time \<Rightarrow> string \<Rightarrow> redaction_request
    \<Rightarrow> sched \<Rightarrow> (submit_error + nat) \<times> sched" where
  "SubmitRedaction c parse uuid str compactionDisabled now t req s =
     (case submit_plan parse str compactionDisabled t req s of
       Inl e \<Rightarrow> (Inl e, s) | Inr pl \<Rightarrow> submit_commit c uuid str now t req pl s)"

subsection \<open>The rescan of a batch\<close>

text \<open>One generation of \<open>performRescan\<close>: the jobs named by \<open>cur\<close> are looked up among the active
  and finished jobs; those not complete are still running, the outputs of the others are ready, out of the
  window, or busy in a further job. \<open>known\<close> is the map \<open>metaByID\<close>.\<close>

definition rescan_jobs :: "work \<Rightarrow> (nat \<Rightarrow> string list) \<Rightarrow> string list \<Rightarrow> job list" where
  "rescan_jobs w orders cur = filter (\<lambda>j. JobID j \<in> set cur) (map (heap w) (ListJobs orders w))"

definition out_of_window :: "(string \<rightharpoonup> block_meta) \<Rightarrow> redaction_window \<Rightarrow> string \<Rightarrow> bool" where
  "out_of_window known win b = (case known b of None \<Rightarrow> False
     | Some m \<Rightarrow> \<not> fst (blockOverlapsWindow m (StartNano win) (EndNano win)))"

primrec rescan_loop :: "work \<Rightarrow> string \<Rightarrow> (string \<rightharpoonup> block_meta) \<Rightarrow> redaction_window \<Rightarrow> (nat \<Rightarrow> nat \<Rightarrow> string list)
    \<Rightarrow> nat \<Rightarrow> string list \<Rightarrow> string list \<Rightarrow> string list \<times> string list \<times> bool" where
  "rescan_loop w t known win orders 0 cur ready = (ready, [], False)"
| "rescan_loop w t known win orders (Suc n) cur ready = (let
       js = rescan_jobs w (orders n) cur;
       still = map JobID (filter (\<lambda>j. \<not> IsComplete j) js);
       outs = concat (map GetCompactionOutput (filter IsComplete js));
       busy = BusyBlocksForTenant w t;
       nextIDs = List.map_filter busy outs;
       ready' = ready @ filter (\<lambda>b. busy b = None \<and> \<not> out_of_window known win b) outs
     in if still \<noteq> [] then (ready', still @ nextIDs, True)
        else if nextIDs = [] then (ready', [], True)
        else rescan_loop w t known win orders n nextIDs ready')"

definition meta_by_id :: "(uuid \<Rightarrow> string) \<Rightarrow> redaction_window \<Rightarrow> block_meta list \<Rightarrow> (string \<rightharpoonup> block_meta)" where
  "meta_by_id str win ms = (if window_IsZero win then Map.empty
     else fold (\<lambda>m f. f(str (BlockID m) \<mapsto> m)) ms Map.empty)"

definition performRescan :: "sched_config \<Rightarrow> (nat \<Rightarrow> string) \<Rightarrow> (uuid \<Rightarrow> string) \<Rightarrow> time
    \<Rightarrow> (nat \<Rightarrow> nat \<Rightarrow> string list) \<Rightarrow> redaction_batch \<Rightarrow> sched \<Rightarrow> sched" where
  "performRescan c uuid str now orders b s = (let t = BatchTenantId b;
       win = \<lparr>StartNano = BatchWindowStart b, EndNano = BatchWindowEnd b\<rparr>;
       (ready, rearm, resolved) = rescan_loop (wk s) t (meta_by_id str win (Metas (store s) t)) win orders
           (MaxRescanGenerations c) (SkippedCompactionJobIds b) [];
       after = (if rearm \<noteq> [] then now + RescanDelay c else 0);
       w1 = SetBatchRescan t rearm after (wk s)
     in if ready = [] \<and> rearm = [] then s\<lparr>wk := cleanupBatchIfDone c now t w1\<rparr>
        else if ready \<noteq> [] then
          s\<lparr>wk := add_redaction_jobs uuid now t (BatchId b) ready (next_ptr s) w1,
            next_ptr := next_ptr s + length ready\<rparr>
        else s\<lparr>wk := w1\<rparr>)"

definition rescan_due :: "time \<Rightarrow> redaction_batch \<Rightarrow> bool" where
  "rescan_due now b \<longleftrightarrow> \<not> (RescanAfterUnixNano b = 0 \<or> now < RescanAfterUnixNano b)"

definition checkPendingRescans :: "sched_config \<Rightarrow> (nat \<Rightarrow> string) \<Rightarrow> (uuid \<Rightarrow> string) \<Rightarrow> time
    \<Rightarrow> string list \<Rightarrow> (string \<Rightarrow> nat \<Rightarrow> nat \<Rightarrow> string list) \<Rightarrow> sched \<Rightarrow> sched" where
  "checkPendingRescans c uuid str now border orders s =
     fold (\<lambda>b v. if rescan_due now b then performRescan c uuid str now (orders (BatchTenantId b)) b v else v)
       (ListBatches border (wk s)) s"

subsection \<open>The providers\<close>

definition emit_retention_ok :: "bool \<Rightarrow> string \<Rightarrow> work \<Rightarrow> bool" where
  "emit_retention_ok compactionDisabled t w \<longleftrightarrow>
     \<not> compactionDisabled \<and> \<not> HasJobsForTenant w t JOB_TYPE_RETENTION \<and> \<not> TenantPending w t"

definition retention_job :: "string \<Rightarrow> string \<Rightarrow> job" where
  "retention_job jobID t = \<lparr>JobID = jobID, JobType = JOB_TYPE_RETENTION,
     JobDetail = \<lparr>DetailTenant = t, Compaction = \<lparr>Input = [], Output = []\<rparr>,
       Redaction = None, DetailBatchId = ''''\<rparr>,
     JobStatus = JOB_STATUS_UNSPECIFIED, CreatedTime = 0, JobStartTime = 0, JobEndTime = 0,
     WorkerID = '''', Retries = 0\<rparr>"

definition compaction_job :: "string \<Rightarrow> string \<Rightarrow> string list \<Rightarrow> job" where
  "compaction_job jobID t input = \<lparr>JobID = jobID, JobType = JOB_TYPE_COMPACTION,
     JobDetail = \<lparr>DetailTenant = t, Compaction = \<lparr>Input = input, Output = []\<rparr>,
       Redaction = None, DetailBatchId = ''''\<rparr>,
     JobStatus = JOB_STATUS_UNSPECIFIED, CreatedTime = 0, JobStartTime = 0, JobEndTime = 0,
     WorkerID = '''', Retries = 0\<rparr>"

definition register_and_send :: "job \<Rightarrow> sched \<Rightarrow> sched" where
  "register_and_send j s = (let p = next_ptr s in
     s\<lparr>wk := RegisterJob p (alloc_jobs [j] p (wk s)), chan := chan s @ [p], next_ptr := p + 1\<rparr>)"

definition emitRetention :: "(nat \<Rightarrow> string) \<Rightarrow> bool \<Rightarrow> string \<Rightarrow> sched \<Rightarrow> sched" where
  "emitRetention uuid compactionDisabled t s =
     (if emit_retention_ok compactionDisabled t (wk s)
      then register_and_send (retention_job (uuid (next_ptr s)) t) s else s)"

text \<open>A whole tick. Between two tenants other operations may run (the send blocks); the steps of the
  system below are therefore single tenants.\<close>

definition emitRetentionJobs :: "(nat \<Rightarrow> string) \<Rightarrow> (string \<Rightarrow> bool) \<Rightarrow> string list \<Rightarrow> sched \<Rightarrow> sched" where
  "emitRetentionJobs uuid compactionDisabled tenants s =
     (if HasJobsForTenant (wk s) '''' JOB_TYPE_RETENTION then s
      else fold (\<lambda>t. emitRetention uuid (compactionDisabled t) t) tenants s)"

definition emitCompaction :: "(nat \<Rightarrow> string) \<Rightarrow> string \<Rightarrow> string list \<Rightarrow> sched \<Rightarrow> sched" where
  "emitCompaction uuid t input s =
     (if TenantPending (wk s) t then s
      else register_and_send (compaction_job (uuid (next_ptr s)) t input) s)"

definition emitRedaction :: "string list list \<Rightarrow> sched \<Rightarrow> sched" where
  "emitRedaction orders s = (case NextPendingJob orders JOB_TYPE_REDACTION (wk s) of
     Some (Some p, w) \<Rightarrow> s\<lparr>wk := w, chan := chan s @ [p]\<rparr>
   | Some (None, w) \<Rightarrow> s\<lparr>wk := w\<rparr>
   | None \<Rightarrow> s)"

subsection \<open>The system and its invariant\<close>

text \<open>A redaction job is outstanding while it is pending, travels to \<open>Next\<close>, or is active.\<close>

definition outstanding :: "work \<Rightarrow> ptr list \<Rightarrow> ptr \<Rightarrow> bool" where
  "outstanding w c p \<longleftrightarrow> (\<exists>k. PendingJob w k = Some p) \<or> p \<in> set c
     \<or> (\<exists>k. GetJob w k = Some p \<and> is_active (heap w p))"

definition ids_ok :: "(nat \<Rightarrow> string) \<Rightarrow> nat \<Rightarrow> work \<Rightarrow> bool" where
  "ids_ok uuid n w \<longleftrightarrow> finite (dom (GetJob w))
     \<and> (\<forall>k p. GetJob w k = Some p \<longrightarrow> p < n \<and> k = uuid p)
     \<and> (\<forall>k p. PendingJob w k = Some p \<longrightarrow> p < n \<and> k = uuid p \<and> GetJob w k = None
          \<and> JobType (heap w p) = JOB_TYPE_REDACTION \<and> Tenant (heap w p) \<noteq> '''')"

definition named :: "(nat \<Rightarrow> string) \<Rightarrow> work \<Rightarrow> ptr set \<Rightarrow> bool" where
  "named uuid w P \<longleftrightarrow> (\<forall>p\<in>P. JobID (heap w p) = uuid p)"

definition live :: "work \<Rightarrow> ptr list \<Rightarrow> ptr set" where
  "live w c = ran (GetJob w) \<union> ran (PendingJob w) \<union> set c"

definition chan_ok :: "(nat \<Rightarrow> string) \<Rightarrow> nat \<Rightarrow> work \<Rightarrow> ptr list \<Rightarrow> bool" where
  "chan_ok uuid n w c \<longleftrightarrow> distinct c
     \<and> (\<forall>p\<in>set c. p < n \<and> PendingJob w (uuid p) = None \<and> GetJob w (uuid p) = None)"

definition flight_ok :: "work \<Rightarrow> ptr list \<Rightarrow> bool" where
  "flight_ok w c \<longleftrightarrow> (\<forall>t. redactionInFlight w t = int (length (filter (of_kind w t JOB_TYPE_REDACTION) c)))"

definition registered_ok :: "work \<Rightarrow> nat \<Rightarrow> bool" where
  "registered_ok w n \<longleftrightarrow> (\<forall>(k, p)\<in>set (registeredJobs w). p < n \<and> JobType (heap w p) \<noteq> JOB_TYPE_REDACTION)"

definition batch_of :: "work \<Rightarrow> ptr \<Rightarrow> bool" where
  "batch_of w p \<longleftrightarrow> JobType (heap w p) = JOB_TYPE_REDACTION \<longrightarrow>
     (\<exists>b. batches w (Tenant (heap w p)) = Some b \<and> BatchId b = DetailBatchId (JobDetail (heap w p)))"

definition batches_ok :: "work \<Rightarrow> bool" where
  "batches_ok w \<longleftrightarrow> (\<forall>t b. batches w t = Some b \<longrightarrow> BatchTenantId b = t \<and> t \<noteq> '''')"

definition base_inv :: "(nat \<Rightarrow> string) \<Rightarrow> nat \<Rightarrow> work \<Rightarrow> ptr list \<Rightarrow> bool" where
  "base_inv uuid n w c \<longleftrightarrow> ids_ok uuid n w \<and> named uuid w (live w c) \<and> chan_ok uuid n w c
     \<and> flight_ok w c \<and> registered_ok w n \<and> batches_ok w \<and> placed w \<and> counted [] w \<and> queues_ok w
     \<and> (\<forall>p\<in>set c. JobType (heap w p) = JOB_TYPE_REDACTION \<longrightarrow> Tenant (heap w p) \<noteq> '''')"

definition sched_inv :: "(nat \<Rightarrow> string) \<Rightarrow> sched \<Rightarrow> bool" where
  "sched_inv uuid s \<longleftrightarrow> base_inv uuid (next_ptr s) (wk s) (chan s)
     \<and> (\<forall>p. outstanding (wk s) (chan s) p \<longrightarrow> batch_of (wk s) p)"

text \<open>What the answers of \<open>HasJobsForTenant\<close> are worth.\<close>

lemma base_jobs_wf: "base_inv uuid n w c \<Longrightarrow> jobs_wf w"
proof -
  assume inv: "base_inv uuid n w c"
  have "JobID (heap w p) = k" if g: "GetJob w k = Some p" for k p
  proof -
    have "p \<in> live w c" using ranI [of "GetJob w", OF g] by (simp add: live_def)
    then have "JobID (heap w p) = uuid p" using inv by (simp add: base_inv_def named_def)
    moreover have "k = uuid p" using inv g by (simp add: base_inv_def ids_ok_def)
    ultimately show ?thesis by simp
  qed
  then show ?thesis using inv by (simp add: base_inv_def ids_ok_def jobs_wf_def)
qed

lemma running_pos_iff:
  assumes "base_inv uuid n w c"
  shows "runningCount w t ty > 0 \<longleftrightarrow> active_jobs w t ty \<noteq> {}"
proof -
  have "finite (active_jobs w t ty)" using assms finite_active base_jobs_wf by blast
  moreover have "runningCount w t ty = int (card (active_jobs w t ty))"
    using assms by (simp add: base_inv_def counted_def)
  ultimately show ?thesis by (simp add: card_gt_0_iff)
qed

lemma HasJobs_redaction_iff:
  assumes inv: "base_inv uuid n w c"
  shows "HasJobsForTenant w t JOB_TYPE_REDACTION \<longleftrightarrow>
    (\<exists>p. outstanding w c p \<and> of_kind w t JOB_TYPE_REDACTION p)"
proof -
  have reg: "\<not> list_ex (\<lambda>(_, p). Tenant (heap w p) = t \<and> JobType (heap w p) = JOB_TYPE_REDACTION) (registeredJobs w)"
    using inv by (auto simp: base_inv_def registered_ok_def list_ex_iff)
  have q: "set (pendingQueue w t JOB_TYPE_REDACTION) =
      {jobID. \<exists>p. PendingJob w jobID = Some p \<and> of_kind w t JOB_TYPE_REDACTION p}"
    using inv by (simp add: base_inv_def queues_ok_def)
  have pend: "pendingQueue w t JOB_TYPE_REDACTION \<noteq> [] \<longleftrightarrow>
      (\<exists>k p. PendingJob w k = Some p \<and> of_kind w t JOB_TYPE_REDACTION p)"
    using arg_cong [OF q, of "\<lambda>S. S \<noteq> {}"] by simp
  have fl: "redactionInFlight w t > 0 \<longleftrightarrow> (\<exists>p\<in>set c. of_kind w t JOB_TYPE_REDACTION p)"
  proof -
    have "redactionInFlight w t = int (length (filter (of_kind w t JOB_TYPE_REDACTION) c))"
      using inv by (simp add: base_inv_def flight_ok_def)
    then show ?thesis by (auto simp: filter_empty_conv)
  qed
  have act: "runningCount w t JOB_TYPE_REDACTION > 0 \<longleftrightarrow>
      (\<exists>k p. GetJob w k = Some p \<and> is_active (heap w p) \<and> of_kind w t JOB_TYPE_REDACTION p)"
    using running_pos_iff [OF inv] by (auto simp: active_jobs_def of_kind_def)
  show ?thesis
    using reg pend fl act unfolding HasJobsForTenant_def outstanding_def Let_def by auto
qed

subsection \<open>The operations keep the invariant\<close>

lemma flight_upd_cong:
  "(\<And>p. p \<in> set c \<Longrightarrow> Tenant (heap w' p) = Tenant (heap w p) \<and> JobType (heap w' p) = JobType (heap w p))
    \<Longrightarrow> redactionInFlight w' = redactionInFlight w \<Longrightarrow> flight_ok w c \<Longrightarrow> flight_ok w' c"
proof -
  assume k: "\<And>p. p \<in> set c \<Longrightarrow> Tenant (heap w' p) = Tenant (heap w p) \<and> JobType (heap w' p) = JobType (heap w p)"
    and r: "redactionInFlight w' = redactionInFlight w" "flight_ok w c"
  have "filter (of_kind w' t JOB_TYPE_REDACTION) c = filter (of_kind w t JOB_TYPE_REDACTION) c" for t
    using k by (intro filter_cong) (auto simp: of_kind_def)
  then show ?thesis using r by (simp add: flight_ok_def)
qed

lemma base_settles:
  assumes inv: "base_inv uuid n w c" and st: "settles w w'" and wf: "jobs_wf w'" "counted [] w'"
  shows "base_inv uuid n w' c"
proof -
  have eq: "PendingJob w' = PendingJob w" "redactionInFlight w' = redactionInFlight w"
      "registeredJobs w' = registeredJobs w" "batches w' = batches w"
    and k: "\<And>p. JobID (heap w' p) = JobID (heap w p)" "\<And>p. Tenant (heap w' p) = Tenant (heap w p)"
      "\<And>p. JobType (heap w' p) = JobType (heap w p)"
    and pl: "placed w \<Longrightarrow> placed w'"
    and sub: "\<And>k p. GetJob w' k = Some p \<Longrightarrow> GetJob w k = Some p"
    using st by (auto simp: settles_def same_kind_def)
  have none: "GetJob w k = None \<Longrightarrow> GetJob w' k = None" for k
    using sub by (metis not_None_eq)
  have "ids_ok uuid n w'"
  proof -
    have "GetJob w' j = Some p \<Longrightarrow> p < n \<and> j = uuid p" for j p
      using inv sub unfolding base_inv_def ids_ok_def by blast
    moreover have "PendingJob w j = Some p \<Longrightarrow> p < n \<and> j = uuid p \<and> GetJob w' j = None
        \<and> JobType (heap w p) = JOB_TYPE_REDACTION \<and> Tenant (heap w p) \<noteq> ''''" for j p
      using inv none unfolding base_inv_def ids_ok_def by blast
    ultimately show ?thesis using wf(1) by (auto simp: ids_ok_def jobs_wf_def eq k)
  qed
  moreover have "named uuid w' (live w' c)"
  proof -
    have "live w' c \<subseteq> live w c" using sub by (auto simp: live_def eq ran_def)
    then show ?thesis using inv by (auto simp: base_inv_def named_def k)
  qed
  moreover have "chan_ok uuid n w' c"
    using inv none by (auto simp: base_inv_def chan_ok_def eq)
  moreover have "flight_ok w' c"
    using inv flight_upd_cong [of c w' w] by (auto simp: base_inv_def eq k)
  ultimately show ?thesis
    using inv wf(2) pl queues_ok_settles [OF st]
    by (auto simp: base_inv_def registered_ok_def batches_ok_def eq k)
qed

lemma outstanding_settles: "settles w w' \<Longrightarrow> outstanding w' c p \<Longrightarrow> outstanding w c p"
  by (auto simp: outstanding_def settles_def)

lemma batch_of_settles: "settles w w' \<Longrightarrow> batch_of w' p = batch_of w p"
  by (auto simp: batch_of_def settles_def same_kind_def)

lemma base_batches:
  "base_inv uuid n w c \<Longrightarrow> batches_ok (w\<lparr>batches := m\<rparr>) \<Longrightarrow> base_inv uuid n (w\<lparr>batches := m\<rparr>) c"
  by (simp add: base_inv_def ids_ok_def named_def live_def chan_ok_def flight_ok_def registered_ok_def
      of_kind_def [abs_def] counted_def active_jobs_def queues_ok_def pendingQueue_def)

lemma outstanding_batches: "outstanding (w\<lparr>batches := m\<rparr>) c p = outstanding w c p"
  by (simp add: outstanding_def)

lemma HasJobs_batches: "HasJobsForTenant (w\<lparr>batches := m\<rparr>) t ty = HasJobsForTenant w t ty"
  by (simp add: HasJobsForTenant_def pendingQueue_def)

text \<open>Changes of the batches that remove a batch only when its tenant has no redaction jobs.\<close>

definition batch_step :: "work \<Rightarrow> work \<Rightarrow> bool" where
  "batch_step w w' \<longleftrightarrow> (\<exists>m. w' = w\<lparr>batches := m\<rparr>
     \<and> (\<forall>t. m t = None \<longrightarrow> batches w t = None \<or> \<not> HasJobsForTenant w t JOB_TYPE_REDACTION)
     \<and> (\<forall>t b. m t = Some b \<longrightarrow> (\<exists>b0. batches w t = Some b0 \<and> BatchId b = BatchId b0
          \<and> BatchTenantId b = BatchTenantId b0)))"

lemma batch_step_refl [simp]: "batch_step w w"
  unfolding batch_step_def by (rule exI [of _ "batches w"]) simp

lemma batch_step_trans: "batch_step w v \<Longrightarrow> batch_step v u \<Longrightarrow> batch_step w u"
  unfolding batch_step_def by (clarsimp simp: HasJobs_batches) (metis option.exhaust)

lemma batch_step_upd:
  "batches w t = Some b \<Longrightarrow> BatchId b' = BatchId b \<Longrightarrow> BatchTenantId b' = BatchTenantId b
    \<Longrightarrow> batch_step w (w\<lparr>batches := (batches w)(t \<mapsto> b')\<rparr>)"
  unfolding batch_step_def by (rule exI [of _ "(batches w)(t \<mapsto> b')"]) auto

lemma batch_step_setters [simp]:
  "batch_step w (SetBatchRescan t xs after w)" "batch_step w (SetBatchQuiesceUntil t until w)"
  by (auto simp: SetBatchRescan_def SetBatchQuiesceUntil_def intro: batch_step_upd split: option.splits)

lemma batch_step_remove:
  "\<not> HasJobsForTenant w t JOB_TYPE_REDACTION \<Longrightarrow> batch_step w (RemoveBatch t w)"
  unfolding batch_step_def RemoveBatch_def by (rule exI [of _ "(batches w)(t := None)"]) auto

lemma batch_step_cleanup: "batch_step w (cleanupBatchIfDone c now t w)"
  by (auto simp: cleanupBatchIfDone_def redactionBatchActive_def enterQuiescence_def
      intro: batch_step_remove split: prod.splits)

lemma batch_step_advance: "batch_step w (snd (advanceQuiescence c now t w))"
  by (auto simp: advanceQuiescence_def redactionBatchActive_def enterQuiescence_def
      intro: batch_step_remove split: prod.splits)

lemma batch_step_orphaned: "batch_step w (cleanupOrphanedBatches c now order w)"
proof -
  have "batch_step v (fold (\<lambda>b v. snd (advanceQuiescence c now (BatchTenantId b) v)) bs v)" for bs v
  proof (induction bs arbitrary: v)
    case (Cons b bs)
    then show ?case using batch_step_trans batch_step_advance by simp blast
  qed simp
  then show ?thesis by (simp add: cleanupOrphanedBatches_def)
qed

lemma inv_batch_step:
  assumes inv: "sched_inv uuid s" and st: "batch_step (wk s) w"
  shows "sched_inv uuid (s\<lparr>wk := w\<rparr>)"
proof -
  obtain m where m: "w = wk s\<lparr>batches := m\<rparr>"
    and keep: "\<And>t. m t = None \<Longrightarrow> batches (wk s) t = None \<or> \<not> HasJobsForTenant (wk s) t JOB_TYPE_REDACTION"
    and old: "\<And>t b. m t = Some b \<Longrightarrow> \<exists>b0. batches (wk s) t = Some b0 \<and> BatchId b = BatchId b0
          \<and> BatchTenantId b = BatchTenantId b0"
    using st by (auto simp: batch_step_def)
  have base: "base_inv uuid (next_ptr s) (wk s) (chan s)" using inv by (simp add: sched_inv_def)
  have "batches_ok w"
    unfolding batches_ok_def
  proof (intro allI impI)
    fix t b assume "batches w t = Some b"
    then obtain b0 where "batches (wk s) t = Some b0" "BatchTenantId b = BatchTenantId b0"
      using old by (auto simp: m)
    then show "BatchTenantId b = t \<and> t \<noteq> ''''" using base by (auto simp: base_inv_def batches_ok_def)
  qed
  then have "base_inv uuid (next_ptr s) w (chan s)" using base_batches [OF base] by (simp add: m)
  moreover have "batch_of w p" if o: "outstanding w (chan s) p" for p
    unfolding batch_of_def
  proof
    let ?j = "heap w p"
    assume ty: "JobType ?j = JOB_TYPE_REDACTION"
    have os: "outstanding (wk s) (chan s) p" using o by (simp add: m outstanding_batches)
    then obtain b0 where b0: "batches (wk s) (Tenant ?j) = Some b0" "BatchId b0 = DetailBatchId (JobDetail ?j)"
      using inv ty by (auto simp: sched_inv_def batch_of_def m)
    have "HasJobsForTenant (wk s) (Tenant ?j) JOB_TYPE_REDACTION"
      using HasJobs_redaction_iff [OF base] os ty by (auto simp: of_kind_def m)
    then obtain b where "m (Tenant ?j) = Some b" using keep b0 by fastforce
    then show "\<exists>b. batches w (Tenant ?j) = Some b \<and> BatchId b = DetailBatchId (JobDetail ?j)"
      using old b0 by (fastforce simp: m)
  qed
  ultimately show ?thesis by (simp add: sched_inv_def)
qed

lemma inv_settles:
  assumes inv: "sched_inv uuid s" and st: "settles (wk s) w" and wf: "jobs_wf w" "counted [] w"
  shows "sched_inv uuid (s\<lparr>wk := w\<rparr>)"
  using inv base_settles [OF _ st wf] outstanding_settles [OF st] batch_of_settles [OF st]
  by (auto simp: sched_inv_def)

lemma inv_store [simp]: "sched_inv uuid (s\<lparr>store := l\<rparr>) = sched_inv uuid s"
  by (simp add: sched_inv_def)

lemma inv_complete:
  assumes inv: "sched_inv uuid s" and f: "\<And>j. same_kind (f j) j" "\<And>j. \<not> is_active (f j)"
  shows "sched_inv uuid (s\<lparr>wk := finish_job f jobID (wk s)\<rparr>)"
proof -
  have "base_inv uuid (next_ptr s) (wk s) (chan s)" using inv by (simp add: sched_inv_def)
  then have "jobs_wf (wk s)" "counted [] (wk s)" using base_jobs_wf by (auto simp: base_inv_def)
  then show ?thesis
    using finish_job_counted [of "wk s" f jobID] f by (intro inv_settles [OF inv settles_finish_job]) auto
qed

lemma inv_set_output:
  assumes inv: "sched_inv uuid s"
  shows "sched_inv uuid (s\<lparr>wk := SetJobCompactionOutput jobID out (wk s)\<rparr>)"
proof -
  have "base_inv uuid (next_ptr s) (wk s) (chan s)" using inv by (simp add: sched_inv_def)
  then have "jobs_wf (wk s)" "counted [] (wk s)" using base_jobs_wf by (auto simp: base_inv_def)
  then show ?thesis
    using SetJobCompactionOutput_counted [of "wk s" "[]"] by (intro inv_settles [OF inv settles_SetOutput]) auto
qed

lemma inv_UpdateJob:
  assumes inv: "sched_inv uuid s"
  shows "sched_inv uuid (snd (UpdateJob c parse_uuid now flush_ok jobID st output s))"
proof (cases "GetJob (wk s) jobID")
  case (Some p)
  let ?s1 = "s\<lparr>wk := CompleteJob now jobID (wk s)\<rparr>"
  have 1: "sched_inv uuid ?s1" unfolding CompleteJob_def by (rule inv_complete [OF inv]) auto
  have 2: "sched_inv uuid (s\<lparr>wk := FailJob now jobID (wk s)\<rparr>)"
    unfolding FailJob_def by (rule inv_complete [OF inv]) auto
  show ?thesis
    using Some inv 1 2 inv_set_output [OF 1] inv_batch_step [OF 1 batch_step_cleanup]
    by (cases st) (auto simp: UpdateJob_def Let_def
        simp flip: inv_store [where l = "applyJobsToBlocklist parse_uuid now t js l" for t js l]
        split: job_type.splits option.splits)
qed (simp add: UpdateJob_def inv)

lemma inv_Prune:
  assumes inv: "sched_inv uuid s"
  shows "sched_inv uuid (s\<lparr>wk := Prune now orders (wk s)\<rparr>)"
proof -
  have "base_inv uuid (next_ptr s) (wk s) (chan s)" using inv by (simp add: sched_inv_def)
  then have "jobs_wf (wk s)" "counted [] (wk s)" using base_jobs_wf by (auto simp: base_inv_def)
  then show ?thesis using Prune_keeps [of "wk s"] by (intro inv_settles [OF inv]) auto
qed

lemma no_empty_tenant:
  assumes "base_inv uuid n w c"
  shows "pendingQueue w '''' ty = []"
proof (rule ccontr)
  assume "pendingQueue w '''' ty \<noteq> []"
  then obtain k where "k \<in> set (pendingQueue w '''' ty)" by (cases "pendingQueue w '''' ty") auto
  then obtain p where "PendingJob w k = Some p" "of_kind w '''' ty p"
    using assms by (auto simp: base_inv_def queues_ok_def)
  then show False using assms by (auto simp: base_inv_def ids_ok_def of_kind_def)
qed

lemma inv_emitRedaction:
  assumes inv: "sched_inv uuid s"
  shows "sched_inv uuid (emitRedaction orders s)"
proof -
  let ?w = "wk s" and ?c = "chan s"
  have base: "base_inv uuid (next_ptr s) ?w ?c" using inv by (simp add: sched_inv_def)
  then have q: "queues_ok ?w" by (simp add: base_inv_def)
  note no = no_empty_tenant [OF base, of JOB_TYPE_REDACTION]
  show ?thesis
  proof (cases orders)
    case Nil
    then show ?thesis using inv by (simp add: emitRedaction_def)
  next
    case (Cons order os)
    show ?thesis
    proof (cases "find (\<lambda>t. pendingQueue ?w t JOB_TYPE_REDACTION \<noteq> []) order")
      case None
      then show ?thesis using inv by (simp add: Cons emitRedaction_def)
    next
      case (Some t)
      show ?thesis
      proof (rule NextPendingJob_finds [OF q no Some, of os])
        fix k p w'
        assume *: "NextPendingJob (order # os) JOB_TYPE_REDACTION ?w = Some (Some p, w')"
          "PendingJob ?w k = Some p" "of_kind ?w t JOB_TYPE_REDACTION p"
          "PendingJob w' = (PendingJob ?w)(k := None)" "heap w' = heap ?w" "GetJob w' = GetJob ?w"
          "placed ?w \<Longrightarrow> placed w'" "runningCount w' = runningCount ?w" "batches w' = batches ?w"
          "registeredJobs w' = registeredJobs ?w"
          "redactionInFlight w' = (if JOB_TYPE_REDACTION = JOB_TYPE_REDACTION
            then (redactionInFlight ?w)(t := redactionInFlight ?w t + 1) else redactionInFlight ?w)"
        have k: "k = uuid p" "p < next_ptr s" "GetJob ?w k = None" "Tenant (heap ?w p) \<noteq> ''''"
          using base *(2) by (auto simp: base_inv_def ids_ok_def)
        have nc: "p \<notin> set ?c" using base *(2) k by (auto simp: base_inv_def chan_ok_def)
        have kind: "of_kind w' = of_kind ?w" by (rule of_kind_cong) (rule *(5))
        have "ids_ok uuid (next_ptr s) w'"
          using base by (auto simp: base_inv_def ids_ok_def * split: if_splits)
        moreover have "named uuid w' (live w' (?c @ [p]))"
          using base k *(2) by (auto simp: base_inv_def named_def live_def * ran_def split: if_splits)
        moreover have "chan_ok uuid (next_ptr s) w' (?c @ [p])"
          using base k nc by (auto simp: base_inv_def chan_ok_def * split: if_splits)
        moreover have "flight_ok w' (?c @ [p])"
          using base *(3) by (auto simp: base_inv_def flight_ok_def kind *(11) of_kind_def [of _ _ _ p])
        moreover have "queues_ok w'" using NextPendingJob_queues [OF q no *(1)] .
        moreover have "counted [] w'"
          using base by (simp add: base_inv_def counted_def active_jobs_cong [of w' ?w] * del: NextPendingJob.simps)
        ultimately have b: "base_inv uuid (next_ptr s) w' (?c @ [p])"
          using base k(4) by (simp add: base_inv_def registered_ok_def batches_ok_def * ball_Un del: NextPendingJob.simps)
        have o: "outstanding w' (?c @ [p]) r \<Longrightarrow> outstanding ?w ?c r" for r
          using *(2) by (auto simp: outstanding_def *(4,5,6) split: if_splits)
        have "sched_inv uuid (s\<lparr>wk := w', chan := ?c @ [p]\<rparr>)"
          using b o inv by (auto simp: sched_inv_def batch_of_def *(5,9))
        then show ?thesis by (simp add: emitRedaction_def Cons *(1) del: NextPendingJob.simps)
      qed
    qed
  qed
qed

lemma base_alloc:
  assumes base: "base_inv uuid n w c" and h: "\<And>p. p < n \<Longrightarrow> h p = heap w p" and m: "n \<le> m"
  shows "base_inv uuid m (w\<lparr>heap := h\<rparr>) c"
proof -
  let ?w = "w\<lparr>heap := h\<rparr>"
  have v: "GetJob ?w = GetJob w" "PendingJob ?w = PendingJob w" "placed ?w = placed w"
    by (auto simp: GetJob_def PendingJob_def getShard_def placed_def fun_eq_iff)
  have lt: "GetJob w k = Some p \<Longrightarrow> p < n" "PendingJob w k = Some p \<Longrightarrow> p < n" "p \<in> set c \<Longrightarrow> p < n" for k p
    using base by (auto simp: base_inv_def ids_ok_def chan_ok_def)
  have ids: "ids_ok uuid m ?w"
    unfolding ids_ok_def v
  proof (intro conjI allI impI)
    show "finite (dom (GetJob w))" using base by (simp add: base_inv_def ids_ok_def)
  next
    fix k p assume "GetJob w k = Some p"
    then show "p < m" "k = uuid p" using lt(1) m base by (auto simp: base_inv_def ids_ok_def intro: less_le_trans)
  next
    fix k p assume p: "PendingJob w k = Some p"
    then have "p < n" by (rule lt(2))
    moreover have "k = uuid p \<and> GetJob w k = None \<and> JobType (heap w p) = JOB_TYPE_REDACTION \<and> Tenant (heap w p) \<noteq> ''''"
      using base p by (simp add: base_inv_def ids_ok_def)
    ultimately show "p < m" "k = uuid p" "GetJob w k = None"
      "JobType (heap (w\<lparr>heap := h\<rparr>) p) = JOB_TYPE_REDACTION" "Tenant (heap (w\<lparr>heap := h\<rparr>) p) \<noteq> ''''"
      using m h by auto
  qed
  have live: "p \<in> live w c \<Longrightarrow> p < n" for p
    using lt by (auto simp: live_def ran_def)
  have "named uuid ?w (live ?w c)"
    using base live h by (auto simp: base_inv_def named_def live_def [of ?w] live_def [symmetric] v)
  moreover have "chan_ok uuid m ?w c"
    using base m by (auto simp: base_inv_def chan_ok_def v intro: less_le_trans)
  moreover have "flight_ok ?w c"
    by (rule flight_upd_cong [of c ?w w]) (use base lt h in \<open>auto simp: base_inv_def\<close>)
  moreover have "registered_ok ?w m"
    using base m h by (fastforce simp: base_inv_def registered_ok_def)
  moreover have "active_jobs ?w t ty = active_jobs w t ty" for t ty
    using lt h by (auto simp: active_jobs_def v)
  then have "counted [] ?w"
    using base by (simp add: base_inv_def counted_def runningCount_def)
  moreover have "queues_ok ?w"
  proof -
    have "PendingJob w k = Some p \<Longrightarrow> of_kind ?w t ty p = of_kind w t ty p" for k p t ty
      using lt h by (simp add: of_kind_def)
    then have "{jobID. \<exists>p. PendingJob w jobID = Some p \<and> of_kind ?w t ty p}
        = {jobID. \<exists>p. PendingJob w jobID = Some p \<and> of_kind w t ty p}" for t ty by auto
    then show ?thesis
      using base lt h by (auto simp: base_inv_def queues_ok_def v pendingQueue_cong [of ?w w])
  qed
  ultimately show ?thesis
    using base ids lt h by (auto simp: base_inv_def batches_ok_def v)
qed

lemma fresh_id:
  assumes base: "base_inv uuid n w c" and u: "inj uuid" and m: "n \<le> p"
  shows "PendingJob w (uuid p) = None" "GetJob w (uuid p) = None" "p \<notin> set c"
proof -
  have eq: "uuid p = uuid q \<Longrightarrow> p = q" for q using u by (simp add: inj_eq)
  show "PendingJob w (uuid p) = None"
  proof (rule ccontr)
    assume "PendingJob w (uuid p) \<noteq> None"
    then obtain q where "PendingJob w (uuid p) = Some q" by auto
    then have "q < n \<and> uuid p = uuid q" using base by (simp add: base_inv_def ids_ok_def)
    then show False using eq m by auto
  qed
  show "GetJob w (uuid p) = None"
  proof (rule ccontr)
    assume "GetJob w (uuid p) \<noteq> None"
    then obtain q where "GetJob w (uuid p) = Some q" by auto
    then have "q < n \<and> uuid p = uuid q" using base by (simp add: base_inv_def ids_ok_def)
    then show False using eq m by auto
  qed
  show "p \<notin> set c" using base m by (auto simp: base_inv_def chan_ok_def)
qed

lemma RegisterJob_fields:
  "heap (RegisterJob p w) = heap w" "GetJob (RegisterJob p w) = GetJob w"
  "PendingJob (RegisterJob p w) = PendingJob w" "placed (RegisterJob p w) = placed w"
  "runningCount (RegisterJob p w) = runningCount w" "pendingByTenant (RegisterJob p w) = pendingByTenant w"
  "redactionInFlight (RegisterJob p w) = redactionInFlight w" "batches (RegisterJob p w) = batches w"
  "registeredJobs (RegisterJob p w) = AList.update (JobID (heap w p)) p (registeredJobs w)"
  by (auto simp: RegisterJob_def Let_def)

lemma set_update_subset: "set (AList.update k v al) \<subseteq> insert (k, v) (set al)"
  by (induction al) auto

lemma inv_register_and_send:
  assumes inv: "sched_inv uuid s" and u: "inj uuid"
    and j: "JobID j = uuid (next_ptr s)" "JobType j \<noteq> JOB_TYPE_REDACTION"
  shows "sched_inv uuid (register_and_send j s)"
proof -
  let ?p = "next_ptr s" and ?c = "chan s"
  let ?v = "alloc_jobs [j] ?p (wk s)" and ?w = "RegisterJob (next_ptr s) (alloc_jobs [j] (next_ptr s) (wk s))"
  have base0: "base_inv uuid ?p (wk s) ?c" using inv by (simp add: sched_inv_def)
  have v: "?v = (wk s)\<lparr>heap := (heap (wk s))(?p := j)\<rparr>"
    by (auto simp: alloc_jobs_def fun_eq_iff)
  have base: "base_inv uuid (?p + 1) ?v ?c" unfolding v by (rule base_alloc [OF base0]) auto
  have vv: "GetJob ?v = GetJob (wk s)" "PendingJob ?v = PendingJob (wk s)"
    by (auto simp: v GetJob_def PendingJob_def getShard_def fun_eq_iff)
  note fresh = fresh_id [OF base0 u order.refl]
  note f = RegisterJob_fields [of ?p ?v]
  have hp: "heap ?v ?p = j" by (simp add: v)
  have kind: "of_kind ?w = of_kind ?v" by (rule of_kind_cong) (rule f)
  have "ids_ok uuid (?p + 1) ?w" using base by (simp add: base_inv_def ids_ok_def f)
  moreover have "named uuid ?w (live ?w (?c @ [?p]))"
    using base j(1) hp by (auto simp: base_inv_def named_def live_def f)
  moreover have "chan_ok uuid (?p + 1) ?w (?c @ [?p])"
    using base fresh vv by (auto simp: base_inv_def chan_ok_def f)
  moreover have "flight_ok ?w (?c @ [?p])"
    using base j(2) hp by (auto simp: base_inv_def flight_ok_def kind f of_kind_def [of _ _ _ ?p])
  moreover have "registered_ok ?w (?p + 1)"
    using base j(2) hp set_update_subset [of "JobID j" ?p "registeredJobs ?v"]
    by (fastforce simp: base_inv_def registered_ok_def f)
  moreover have "counted [] ?w"
    using base by (simp add: base_inv_def counted_def active_jobs_cong [of ?w ?v] f)
  moreover have "queues_ok ?w" using base queues_ok_cong [of ?w ?v] by (simp add: base_inv_def f)
  ultimately have b: "base_inv uuid (?p + 1) ?w (?c @ [?p])"
    using base j(2) hp by (auto simp: base_inv_def batches_ok_def f)
  have lt: "outstanding (wk s) ?c r \<Longrightarrow> r < ?p" for r
    using base0 by (auto simp: outstanding_def base_inv_def ids_ok_def chan_ok_def)
  have "batch_of ?w r" if o: "outstanding ?w (?c @ [?p]) r" for r
  proof (cases "r = ?p")
    case True
    then show ?thesis using j(2) hp by (simp add: batch_of_def f)
  next
    case False
    have "GetJob (wk s) k = Some r \<Longrightarrow> r < ?p" for k using base0 by (auto simp: base_inv_def ids_ok_def)
    then have os: "outstanding (wk s) ?c r"
      using o False by (auto simp: outstanding_def f vv) (auto simp: v)
    then have "batch_of (wk s) r" using inv by (simp add: sched_inv_def)
    then show ?thesis using lt [OF os] by (simp add: batch_of_def f) (simp add: v)
  qed
  then show ?thesis using b by (simp add: sched_inv_def register_and_send_def Let_def)
qed

lemma inv_emitRetention: "sched_inv uuid s \<Longrightarrow> inj uuid \<Longrightarrow> sched_inv uuid (emitRetention uuid d t s)"
  by (auto simp: emitRetention_def retention_job_def intro!: inv_register_and_send)

lemma inv_emitCompaction: "sched_inv uuid s \<Longrightarrow> inj uuid \<Longrightarrow> sched_inv uuid (emitCompaction uuid t input s)"
  by (auto simp: emitCompaction_def compaction_job_def intro!: inv_register_and_send)

definition core_inv :: "(nat \<Rightarrow> string) \<Rightarrow> nat \<Rightarrow> work \<Rightarrow> ptr list \<Rightarrow> bool" where
  "core_inv uuid n w c \<longleftrightarrow> base_inv uuid n w c \<and> (\<forall>p. outstanding w c p \<longrightarrow> batch_of w p)"

lemma sched_inv_core: "sched_inv uuid s \<longleftrightarrow> core_inv uuid (next_ptr s) (wk s) (chan s)"
  by (simp add: sched_inv_def core_inv_def)

lemma core_settles:
  "core_inv uuid n w c \<Longrightarrow> settles w w' \<Longrightarrow> jobs_wf w' \<and> counted [] w' \<Longrightarrow> core_inv uuid n w' c"
  using base_settles outstanding_settles batch_of_settles unfolding core_inv_def by blast

lemma core_counts: "core_inv uuid n w c \<Longrightarrow> jobs_wf w \<and> counted [] w"
  using base_jobs_wf by (auto simp: core_inv_def base_inv_def)

lemma same_kind_inject [simp]: "same_kind (inject_batch b j) j" "is_active (inject_batch b j) = is_active j"
  by (auto simp: inject_batch_def same_kind_def Tenant_def GetCompactionInput_def GetRedactionBlockID_def
      PendingBlockKey_def is_active_def split: option.splits job_type.splits)

lemma core_upd_job:
  assumes "core_inv uuid n w c" "\<And>j. same_kind (f j) j" "\<And>j. is_active (f j) = is_active j"
  shows "core_inv uuid n (upd_job p f w) c"
proof (rule core_settles [OF assms(1)])
  show "settles w (upd_job p f w)" using assms by (intro settles_upd_job) auto
  show "jobs_wf (upd_job p f w) \<and> counted [] (upd_job p f w)"
    using core_counts [OF assms(1)] assms by (intro counted_upd_job_same) auto
qed

lemma core_prepare: "core_inv uuid n w c \<Longrightarrow> core_inv uuid n (prepare_job wid p w) c"
  by (auto simp: prepare_job_def Let_def intro!: core_upd_job split: option.splits)

text \<open>A job that \<open>Next\<close> drops is never a redaction job: its batch is there.\<close>

lemma stale_not_redaction:
  assumes inv: "core_inv uuid n w (p # ps)" and st: "is_stale w p"
  shows "JobType (heap w p) = JOB_TYPE_RETENTION"
proof -
  have "batch_of w p" using inv by (auto simp: core_inv_def outstanding_def)
  then show ?thesis using st by (auto simp: is_stale_def Let_def batch_of_def GetBatch_def)
qed

lemma core_drop:
  assumes inv: "core_inv uuid n w (p # ps)" and st: "is_stale w p"
  shows "core_inv uuid n (drop_job p w) ps"
proof -
  have ty: "JobType (heap w p) = JOB_TYPE_RETENTION" by (rule stale_not_redaction [OF inv st])
  then have "base_inv uuid n w ps"
    using inv by (auto simp: core_inv_def base_inv_def chan_ok_def named_def live_def flight_ok_def of_kind_def)
  moreover have "outstanding w ps r \<Longrightarrow> outstanding w (p # ps) r" for r by (auto simp: outstanding_def)
  ultimately show ?thesis using inv ty by (auto simp: core_inv_def drop_job_def Let_def)
qed

lemma set_delete_subset: "set (AList.delete k al) \<subseteq> set al"
  by (auto simp: AList.delete_eq)

lemma core_AddJob:
  assumes inv: "core_inv uuid n w (p # ps)" and u: "inj uuid"
  shows "fst (AddJob now (Some p) w) = None \<and> core_inv uuid n (snd (AddJob now (Some p) w)) ps"
proof -
  let ?w = "snd (AddJob now (Some p) w)" and ?id = "JobID (heap w p)"
  have base: "base_inv uuid n w (p # ps)" using inv by (simp add: core_inv_def)
  have id: "?id = uuid p" using base by (simp add: base_inv_def named_def live_def)
  have p: "p < n" "PendingJob w (uuid p) = None" "GetJob w (uuid p) = None" "p \<notin> set ps"
    using base by (auto simp: base_inv_def chan_ok_def)
  have g: "GetJob w ?id = None" using p id by simp
  have err: "fst (AddJob now (Some p) w) = None"
    using g by (simp add: AddJob_def GetJob_def Let_def)
  note new = AddJob_new [OF g refl, of now]
  have jw: "jobs_wf w" by (rule base_jobs_wf [OF base])
  then have cnt: "counted [] ?w" using AddJob_counted [of w "[]"] base by (simp add: base_inv_def)
  have kk: "same_kind (heap ?w r) (heap w r)" for r by (simp add: new)
  then have k: "JobID (heap ?w r) = JobID (heap w r)" "Tenant (heap ?w r) = Tenant (heap w r)"
    "JobType (heap ?w r) = JobType (heap w r)" "DetailBatchId (JobDetail (heap ?w r)) = DetailBatchId (JobDetail (heap w r))" for r
    by (simp_all add: same_kind_def)
  have kind: "of_kind ?w = of_kind w" by (simp add: of_kind_def [abs_def] k)
  have ids: "ids_ok uuid n ?w"
  proof -
    have "PendingJob w j = Some r \<Longrightarrow> j \<noteq> ?id" for j r using p id by auto
    then show ?thesis
      using base p(1) id unfolding base_inv_def ids_ok_def k by (auto simp: new(1,3))
  qed
  moreover have "named uuid ?w (live ?w ps)"
  proof -
    have "live ?w ps \<subseteq> live w (p # ps)" by (auto simp: live_def new(1,3) ran_def split: if_splits)
    then show ?thesis using base by (auto simp: base_inv_def named_def k)
  qed
  moreover have "chan_ok uuid n ?w ps"
  proof -
    have "uuid r \<noteq> ?id" if r: "r \<in> set ps" for r
      using r p id u by (auto simp: inj_eq)
    then show ?thesis using base by (auto simp: base_inv_def chan_ok_def new(1,3))
  qed
  moreover have "flight_ok ?w ps"
    unfolding flight_ok_def kind
  proof
    fix t
    have "redactionInFlight w t = int (length (filter (of_kind w t JOB_TYPE_REDACTION) (p # ps)))"
      using base by (simp add: base_inv_def flight_ok_def)
    then show "redactionInFlight ?w t = int (length (filter (of_kind w t JOB_TYPE_REDACTION) ps))"
      by (auto simp: new(8) of_kind_def [of _ _ _ p])
  qed
  moreover have "registered_ok ?w n"
    using base set_delete_subset by (fastforce simp: base_inv_def registered_ok_def k new(7))
  moreover have "queues_ok ?w"
    using base by (simp add: base_inv_def queues_ok_def kind k new(3) pendingQueue_cong [of ?w w] new(5))
  ultimately have "base_inv uuid n ?w ps"
    using base cnt AddJob_placed [of w now "Some p"] by (auto simp: base_inv_def batches_ok_def k new(6))
  moreover have "batch_of ?w r" if "outstanding ?w ps r" for r
  proof -
    have "outstanding w (p # ps) r"
      using that by (auto simp: outstanding_def new(1,2,3) split: if_splits)
    then show ?thesis using inv by (simp add: core_inv_def batch_of_def k new(6))
  qed
  ultimately show ?thesis using err by (simp add: core_inv_def)
qed

lemma core_StartJob: "core_inv uuid n w c \<Longrightarrow> core_inv uuid n (StartJob now k w) c"
  using StartJob_counted [of w "[]" now k] core_counts [of uuid n w c]
  by (intro core_settles [OF _ settles_StartJob]) auto

lemma core_next_loop:
  assumes "inj uuid" and "core_inv uuid n w c"
    and "next_loop now wid flush_ok c w = (r, c', w')"
  shows "core_inv uuid n w' c'"
  using assms(2,3)
proof (induction c arbitrary: w)
  case (Cons p ps)
  show ?case
  proof (cases "is_stale w p")
    case True
    then show ?thesis using Cons.IH [OF core_drop [OF Cons.prems(1) True]] Cons.prems(2) by simp
  next
    case False
    let ?v = "prepare_job wid p w"
    have "core_inv uuid n ?v (p # ps)" by (rule core_prepare [OF Cons.prems(1)])
    note add = core_AddJob [OF this assms(1), of now]
    obtain w1 where w1: "AddJob now (Some p) ?v = (None, w1)" using add by (cases "AddJob now (Some p) ?v") auto
    then have "core_inv uuid n (StartJob now (JobID (heap w1 p)) w1) ps" using add core_StartJob by auto
    then show ?thesis using Cons.prems(2) False w1 by (auto simp: Let_def split: if_splits)
  qed
qed auto

lemma inv_Next:
  assumes "inj uuid" "sched_inv uuid s"
  shows "sched_inv uuid (snd (Next now wid flush_ok s))"
proof (cases "GetJobForWorker (wk s) wid")
  case None
  obtain r c w where l: "next_loop now wid flush_ok (chan s) (wk s) = (r, c, w)"
    by (cases "next_loop now wid flush_ok (chan s) (wk s)")
  show ?thesis
    using core_next_loop [OF assms(1) _ l, of "next_ptr s"] assms(2) None l
    by (simp add: sched_inv_core Next_def)
qed (simp add: Next_def assms)

text \<open>New redaction jobs.\<close>

definition fresh_redaction :: "(nat \<Rightarrow> string) \<Rightarrow> nat \<Rightarrow> work \<Rightarrow> ptr list \<Rightarrow> ptr \<Rightarrow> bool" where
  "fresh_redaction uuid m w c p \<longleftrightarrow> p < m \<and> JobID (heap w p) = uuid p \<and> PendingJob w (uuid p) = None
     \<and> GetJob w (uuid p) = None \<and> p \<notin> set c \<and> JobType (heap w p) = JOB_TYPE_REDACTION
     \<and> Tenant (heap w p) \<noteq> '''' \<and> batch_of w p"

lemma core_add_pending:
  assumes inv: "core_inv uuid m w c" and u: "inj uuid" and fr: "fresh_redaction uuid m w c p"
  shows "core_inv uuid m (add_pending now (Some p) w) c"
    and "q \<noteq> p \<Longrightarrow> fresh_redaction uuid m w c q \<Longrightarrow> fresh_redaction uuid m (add_pending now (Some p) w) c q"
proof -
  let ?w = "add_pending now (Some p) w" and ?id = "JobID (heap w p)"
  have base: "base_inv uuid m w c" using inv by (simp add: core_inv_def)
  have f: "p < m" "?id = uuid p" "PendingJob w (uuid p) = None" "GetJob w (uuid p) = None" "p \<notin> set c"
    "JobType (heap w p) = JOB_TYPE_REDACTION" "Tenant (heap w p) \<noteq> ''''" "batch_of w p"
    using fr by (auto simp: fresh_redaction_def)
  have g: "PendingJob w ?id = None" using f by simp
  note new = add_pending_new [where now = now, OF g refl]
  have kk: "same_kind (heap ?w r) (heap w r)" for r by (rule add_pending_same_kind)
  then have k: "JobID (heap ?w r) = JobID (heap w r)" "Tenant (heap ?w r) = Tenant (heap w r)"
    "JobType (heap ?w r) = JobType (heap w r)" "DetailBatchId (JobDetail (heap ?w r)) = DetailBatchId (JobDetail (heap w r))" for r
    by (simp_all add: same_kind_def)
  have no: "GetJob w j \<noteq> Some p" for j
    using base f(4) by (auto simp: base_inv_def ids_ok_def)
  have jw: "jobs_wf w" by (rule base_jobs_wf [OF base])
  then have cnt: "counted [] ?w"
    using add_pending_counted [of w "[]" "Some p" now] base no by (auto simp: base_inv_def)
  have kind: "of_kind ?w = of_kind w" by (simp add: of_kind_def [abs_def] k)
  have "ids_ok uuid m ?w"
    using base f by (auto simp: base_inv_def ids_ok_def k new(1,3))
  moreover have "named uuid ?w (live ?w c)"
    using base f(2) by (auto simp: base_inv_def named_def live_def k new(1,3) ran_def split: if_splits)
  moreover have "chan_ok uuid m ?w c"
    using base f(2,5) u by (auto simp: base_inv_def chan_ok_def new(1,3) inj_eq)
  moreover have "flight_ok ?w c" using base by (simp add: base_inv_def flight_ok_def kind new(9))
  moreover have "registered_ok ?w m" using base by (simp add: base_inv_def registered_ok_def k new(8))
  moreover have "queues_ok ?w" using base add_pending_queues by (simp add: base_inv_def)
  ultimately have b: "base_inv uuid m ?w c"
    using base cnt new(4) by (simp add: base_inv_def batches_ok_def k new(7))
  have "batch_of ?w r" if o: "outstanding ?w c r" for r
  proof (cases "r = p")
    case True
    then show ?thesis using f(8) by (simp add: batch_of_def k new(7))
  next
    case False
    then have "outstanding w c r" using o by (auto simp: outstanding_def new(1,2,3) split: if_splits)
    then show ?thesis using inv by (simp add: core_inv_def batch_of_def k new(7))
  qed
  then show "core_inv uuid m ?w c" using b by (simp add: core_inv_def)
  show "q \<noteq> p \<Longrightarrow> fresh_redaction uuid m w c q \<Longrightarrow> fresh_redaction uuid m ?w c q"
    using f(2) u by (auto simp: fresh_redaction_def batch_of_def k new(1,3,7) inj_eq)
qed

lemma core_AddPendingJobs:
  assumes "inj uuid"
  shows "core_inv uuid m w c \<Longrightarrow> distinct ps \<Longrightarrow> (\<And>p. p \<in> set ps \<Longrightarrow> fresh_redaction uuid m w c p)
    \<Longrightarrow> core_inv uuid m (AddPendingJobs now (map Some ps) w) c"
proof (induction ps arbitrary: w)
  case (Cons p ps)
  have fr: "fresh_redaction uuid m w c p" using Cons.prems(3) by simp
  let ?w = "add_pending now (Some p) w"
  have "core_inv uuid m (AddPendingJobs now (map Some ps) ?w) c"
  proof (rule Cons.IH)
    fix q assume q: "q \<in> set ps"
    then have "q \<noteq> p" using Cons.prems(2) by auto
    then show "fresh_redaction uuid m ?w c q"
      using core_add_pending(2) [OF Cons.prems(1) assms fr] Cons.prems(3) q by simp
  qed (use Cons.prems core_add_pending(1) [OF Cons.prems(1) assms fr] in auto)
  then show ?case by (simp add: AddPendingJobs_def)
qed (simp add: AddPendingJobs_def)

lemma core_add_redaction_jobs:
  assumes inv: "core_inv uuid n w c" and u: "inj uuid" and n: "n \<le> n'" and t: "t \<noteq> ''''"
    and b: "batches w t = Some b" "BatchId b = batchID"
  shows "core_inv uuid (n' + length bids) (add_redaction_jobs uuid now t batchID bids n' w) c"
proof -
  let ?js = "map (\<lambda>(i, b). redaction_job (uuid (n' + i)) t batchID b) (enumerate 0 bids)"
  let ?m = "n' + length bids"
  define h where "h = (\<lambda>p. if n' \<le> p \<and> p < n' + length ?js then ?js ! (p - n') else heap w p)"
  let ?v = "w\<lparr>heap := h\<rparr>"
  have base: "base_inv uuid n w c" using inv by (simp add: core_inv_def)
  have bv: "base_inv uuid ?m ?v c" by (rule base_alloc [OF base]) (use n in \<open>auto simp: h_def\<close>)
  have vv: "GetJob ?v = GetJob w" "PendingJob ?v = PendingJob w" "batches ?v = batches w"
    by (auto simp: GetJob_def PendingJob_def getShard_def fun_eq_iff)
  have lt: "GetJob w k = Some p \<Longrightarrow> p < n" "PendingJob w k = Some p \<Longrightarrow> p < n" "p \<in> set c \<Longrightarrow> p < n" for k p
    using base by (auto simp: base_inv_def ids_ok_def chan_ok_def)
  have old: "h p = heap w p" if "p < n" for p using that n by (simp add: h_def)
  have "batch_of ?v p" if o: "outstanding ?v c p" for p
  proof -
    have p: "p < n" using o lt by (auto simp: outstanding_def vv)
    have "outstanding w c p"
      using o lt(1) old [OF p] by (auto simp: outstanding_def vv)
    then show ?thesis using inv p old [OF p] by (simp add: core_inv_def batch_of_def)
  qed
  then have cv: "core_inv uuid ?m ?v c" using bv by (simp add: core_inv_def)
  have "fresh_redaction uuid ?m ?v c p" if p: "n' \<le> p" "p < ?m" for p
  proof -
    have hp: "h p = redaction_job (uuid p) t batchID (bids ! (p - n'))"
      using p by (simp add: h_def nth_enumerate_eq)
    note fr = fresh_id [OF base u, of p]
    show ?thesis
      unfolding fresh_redaction_def
      using p fr n t b by (auto simp: vv batch_of_def hp redaction_job_def Tenant_def)
  qed
  then have "core_inv uuid ?m (AddPendingJobs now (map Some [n'..<?m]) ?v) c"
    by (intro core_AddPendingJobs [OF u cv]) auto
  moreover have "map Some [n'..<?m] = map (\<lambda>i. Some (n' + i)) [0..<length bids]"
    by (rule nth_equalityI) auto
  ultimately show ?thesis by (simp add: add_redaction_jobs_def alloc_jobs_def Let_def h_def)
qed

lemma core_batch_step:
  "core_inv uuid n w c \<Longrightarrow> batch_step w w' \<Longrightarrow> core_inv uuid n w' c"
  using inv_batch_step [of uuid "\<lparr>wk = w, store = New, chan = c, next_ptr = n\<rparr>" w'] by (simp add: sched_inv_core)

lemma core_new_batch:
  assumes inv: "core_inv uuid n w c" and t: "t \<noteq> ''''" "batches w t = None" "BatchTenantId b = t"
  shows "core_inv uuid n (w\<lparr>batches := (batches w)(t \<mapsto> b)\<rparr>) c"
proof -
  let ?w = "w\<lparr>batches := (batches w)(t \<mapsto> b)\<rparr>"
  have "batches_ok ?w" using inv t by (auto simp: core_inv_def base_inv_def batches_ok_def)
  then have "base_inv uuid n ?w c" using inv base_batches by (simp add: core_inv_def)
  moreover have "batch_of ?w p" if "outstanding ?w c p" for p
    using that inv t(2) by (auto simp: core_inv_def batch_of_def outstanding_batches)
  ultimately show ?thesis by (simp add: core_inv_def)
qed

lemma inv_more_ptrs: "sched_inv uuid s \<Longrightarrow> next_ptr s \<le> n \<Longrightarrow> sched_inv uuid (s\<lparr>next_ptr := n\<rparr>)"
  unfolding sched_inv_def base_inv_def ids_ok_def chan_ok_def registered_ok_def
  by (auto dest: less_le_trans) (meson less_le_trans)+

lemma inv_submit_commit:
  assumes inv: "sched_inv uuid s" and u: "inj uuid" and t: "t \<noteq> ''''"
  shows "sched_inv uuid (snd (submit_commit c uuid str now t req pl s))"
proof (cases "batches (wk s) t")
  case None
  let ?n = "next_ptr s" and ?b = "new_batch c now t req (uuid (next_ptr s)) (PlanSkippedJobs pl)"
  let ?w = "(wk s)\<lparr>batches := (batches (wk s))(t \<mapsto> ?b)\<rparr>"
  have "core_inv uuid ?n ?w (chan s)"
    using inv t None by (intro core_new_batch) (auto simp: sched_inv_core new_batch_def)
  then have "core_inv uuid (?n + 1 + length (map (\<lambda>m. str (BlockID m)) (PlanSelected pl)))
     (add_redaction_jobs uuid now t (uuid ?n) (map (\<lambda>m. str (BlockID m)) (PlanSelected pl)) (?n + 1) ?w) (chan s)"
    by (rule core_add_redaction_jobs [OF _ u _ t]) (auto simp: new_batch_def)
  moreover have "AddBatch ?b (wk s) = (None, ?w)"
    using None by (simp add: AddBatch_def new_batch_def)
  ultimately show ?thesis by (simp add: submit_commit_def Let_def sched_inv_core)
next
  case (Some b)
  then have "fst (AddBatch (new_batch c now t req (uuid (next_ptr s)) (PlanSkippedJobs pl)) (wk s)) \<noteq> None"
    by (simp add: AddBatch_def new_batch_def)
  then show ?thesis
    using inv_more_ptrs [OF inv] by (auto simp: submit_commit_def Let_def split: prod.splits)
qed

lemma inv_SubmitRedaction:
  assumes "sched_inv uuid s" and "inj uuid" and "t \<noteq> ''''"
  shows "sched_inv uuid (snd (SubmitRedaction c parse uuid str d now t req s))"
  using assms inv_submit_commit by (auto simp: SubmitRedaction_def split: sum.splits)

lemma add_pending_batches: "batches (add_pending now jp w) = batches w"
proof (cases jp)
  case (Some p)
  then show ?thesis
    using add_pending_new(7) [where now = now, OF _ refl, of w p] add_pending_dup [of w p now]
    by (cases "PendingJob w (JobID (heap w p)) = None") auto
qed (simp add: add_pending_def)

lemma AddPendingJobs_batches: "batches (AddPendingJobs now jps w) = batches w"
proof -
  have "batches (fold (add_pending now) jps v) = batches v" for v
    by (induction jps arbitrary: v) (simp_all add: add_pending_batches)
  then show ?thesis by (simp add: AddPendingJobs_def)
qed

lemma add_redaction_jobs_batches: "batches (add_redaction_jobs uuid now t i bids n w) = batches w"
  by (simp add: add_redaction_jobs_def Let_def AddPendingJobs_batches alloc_jobs_def)

lemma cleanup_other_tenant:
  "t' \<noteq> t \<Longrightarrow> batches (cleanupBatchIfDone c now t w) t' = batches w t'"
  by (auto simp: cleanupBatchIfDone_def enterQuiescence_def RemoveBatch_def SetBatchQuiesceUntil_def
      split: prod.splits option.splits)

lemma SetBatchRescan_batches:
  "batches (SetBatchRescan t xs after w) t' = (if t' = t
     then map_option (\<lambda>b. b\<lparr>SkippedCompactionJobIds := xs, RescanAfterUnixNano := after\<rparr>) (batches w t)
     else batches w t')"
  by (auto simp: SetBatchRescan_def split: option.splits)

lemma inv_performRescan:
  assumes inv: "sched_inv uuid s" and u: "inj uuid"
    and b: "batches (wk s) (BatchTenantId b) = Some b'" "BatchId b' = BatchId b"
  shows "sched_inv uuid (performRescan c uuid str now orders b s)"
    and "t' \<noteq> BatchTenantId b \<Longrightarrow> batches (wk (performRescan c uuid str now orders b s)) t' = batches (wk s) t'"
proof -
  let ?t = "BatchTenantId b" and ?n = "next_ptr s"
  have t: "?t \<noteq> ''''" using inv b by (auto simp: sched_inv_def base_inv_def batches_ok_def)
  obtain ready rearm ok where r: "rescan_loop (wk s) ?t (meta_by_id str
      \<lparr>StartNano = BatchWindowStart b, EndNano = BatchWindowEnd b\<rparr> (Metas (store s) ?t))
      \<lparr>StartNano = BatchWindowStart b, EndNano = BatchWindowEnd b\<rparr> orders
      (MaxRescanGenerations c) (SkippedCompactionJobIds b) [] = (ready, rearm, ok)"
    by (metis surj_pair)
  let ?w = "SetBatchRescan ?t rearm (if rearm \<noteq> [] then now + RescanDelay c else 0) (wk s)"
  have 1: "core_inv uuid ?n ?w (chan s)"
    using inv core_batch_step by (simp add: sched_inv_core)
  obtain b'' where b'': "batches ?w ?t = Some b''" "BatchId b'' = BatchId b"
    using b by (auto simp: SetBatchRescan_batches)
  have 2: "core_inv uuid (?n + length ready) (add_redaction_jobs uuid now ?t (BatchId b) ready ?n ?w) (chan s)"
    by (rule core_add_redaction_jobs [OF 1 u order.refl t b''])
  have 3: "core_inv uuid ?n (cleanupBatchIfDone c now ?t ?w) (chan s)"
    by (rule core_batch_step [OF 1 batch_step_cleanup])
  have eq: "performRescan c uuid str now orders b s =
    (if ready = [] \<and> rearm = [] then s\<lparr>wk := cleanupBatchIfDone c now ?t ?w\<rparr>
     else if ready \<noteq> [] then s\<lparr>wk := add_redaction_jobs uuid now ?t (BatchId b) ready ?n ?w,
            next_ptr := ?n + length ready\<rparr>
     else s\<lparr>wk := ?w\<rparr>)"
    by (simp only: performRescan_def Let_def r prod.case)
  show "sched_inv uuid (performRescan c uuid str now orders b s)"
    unfolding eq using 1 2 3 by (cases "rearm = []") (simp_all add: sched_inv_core)
  show "t' \<noteq> ?t \<Longrightarrow> batches (wk (performRescan c uuid str now orders b s)) t' = batches (wk s) t'"
    unfolding eq by (simp add: cleanup_other_tenant SetBatchRescan_batches add_redaction_jobs_batches)
qed

lemma inv_checkPendingRescans:
  assumes inv: "sched_inv uuid s" and u: "inj uuid" and en: "distinct border"
  shows "sched_inv uuid (checkPendingRescans c uuid str now border orders s)"
proof -
  have "sched_inv uuid (fold (\<lambda>b v. if rescan_due now b
        then performRescan c uuid str now (orders (BatchTenantId b)) b v else v) bs v)"
    if "sched_inv uuid v" "distinct (map BatchTenantId bs)"
      "\<And>b. b \<in> set bs \<Longrightarrow> batches (wk v) (BatchTenantId b) = Some b" for bs v
    using that
  proof (induction bs arbitrary: v)
    case (Cons b bs)
    let ?v = "if rescan_due now b then performRescan c uuid str now (orders (BatchTenantId b)) b v else v"
    have b: "batches (wk v) (BatchTenantId b) = Some b" using Cons.prems(3) by simp
    note p = inv_performRescan [OF Cons.prems(1) u b refl]
    have "sched_inv uuid ?v" using p(1) Cons.prems(1) by simp
    moreover have "batches (wk ?v) (BatchTenantId a) = Some a" if a: "a \<in> set bs" for a
    proof -
      have "BatchTenantId a \<noteq> BatchTenantId b" using a Cons.prems(2) by (metis distinct.simps(2) image_eqI list.set_map list.simps(9))
      then show ?thesis using p(2) Cons.prems(3) a by simp
    qed
    ultimately show ?case using Cons.IH Cons.prems(2) by simp
  qed simp
  moreover have ten: "batches (wk s) t = Some b \<Longrightarrow> BatchTenantId b = t" for t b
    using inv by (auto simp: sched_inv_def base_inv_def batches_ok_def)
  have "map BatchTenantId (ListBatches ts (wk s)) = filter (\<lambda>t. batches (wk s) t \<noteq> None) ts" for ts
    by (induction ts) (auto simp: ListBatches_def map_filter_simps dest: ten split: option.splits)
  then have "distinct (map BatchTenantId (ListBatches border (wk s)))" using en by simp
  moreover have "batches (wk s) (BatchTenantId b) = Some b" if b: "b \<in> set (ListBatches border (wk s))" for b
  proof -
    obtain t where "batches (wk s) t = Some b" using b by (auto simp: ListBatches_def List.map_filter_def)
    then show ?thesis using ten by metis
  qed
  ultimately show ?thesis
    using inv unfolding checkPendingRescans_def by blast
qed

subsection \<open>Steps and reachable states\<close>

text \<open>The steps of the system. A submission steps when it commits: what it read before, its plan, may be
  out of date by then and is arbitrary here, so that two submissions of one tenant may overlap. That
  \<open>SubmitRedaction\<close> alone is such a step is lemma \<open>submit_step\<close>.\<close>

inductive sched_step :: "(nat \<Rightarrow> string) \<Rightarrow> (uuid \<Rightarrow> string) \<Rightarrow> (string \<rightharpoonup> uuid) \<Rightarrow> sched_config
    \<Rightarrow> sched \<Rightarrow> sched \<Rightarrow> bool" for uuid str parse_uuid c where
  poll: "sched_step uuid str parse_uuid c s (s\<lparr>store := l\<rparr>)"
| submit: "t \<noteq> '''' \<Longrightarrow> sched_step uuid str parse_uuid c s (snd (submit_commit c uuid str now t req pl s))"
| emit_retention: "sched_step uuid str parse_uuid c s (emitRetention uuid d t s)"
| emit_compaction: "sched_step uuid str parse_uuid c s (emitCompaction uuid t input s)"
| emit_redaction: "sched_step uuid str parse_uuid c s (emitRedaction orders s)"
| next_job: "sched_step uuid str parse_uuid c s (snd (Next now wid flush_ok s))"
| update_job: "sched_step uuid str parse_uuid c s
    (snd (UpdateJob c parse_uuid now flush_ok jobID st out s))"
| prune: "sched_step uuid str parse_uuid c s (s\<lparr>wk := Prune now porders (wk s)\<rparr>)"
| rescans: "distinct border \<Longrightarrow> sched_step uuid str parse_uuid c s
    (checkPendingRescans c uuid str now border jorders s)"
| orphaned: "sched_step uuid str parse_uuid c s (s\<lparr>wk := cleanupOrphanedBatches c now border (wk s)\<rparr>)"

definition init_sched :: "work_config \<Rightarrow> sched" where
  "init_sched wc = \<lparr>wk = newWork wc (\<lambda>_. redaction_job '''' '''' '''' ''''), store = New, chan = [], next_ptr = 0\<rparr>"

inductive reachable :: "(nat \<Rightarrow> string) \<Rightarrow> (uuid \<Rightarrow> string) \<Rightarrow> (string \<rightharpoonup> uuid) \<Rightarrow> sched_config
    \<Rightarrow> sched \<Rightarrow> bool" for uuid str parse_uuid c where
  init: "reachable uuid str parse_uuid c (init_sched wc)"
| step: "reachable uuid str parse_uuid c s \<Longrightarrow> sched_step uuid str parse_uuid c s s' \<Longrightarrow>
    reachable uuid str parse_uuid c s'"

lemma inv_step:
  assumes "sched_step uuid str parse_uuid c s s'" and "inj uuid" and "sched_inv uuid s"
  shows "sched_inv uuid s'"
  using assms
  by (cases rule: sched_step.cases)
    (auto intro: inv_submit_commit inv_emitRetention inv_emitCompaction inv_emitRedaction inv_Next
      inv_UpdateJob inv_Prune inv_checkPendingRescans inv_batch_step batch_step_orphaned)

lemma submit_step:
  assumes "t \<noteq> ''''" and "submit_plan parse str d t req s = Inr pl"
  shows "sched_step uuid str parse_uuid c s (snd (SubmitRedaction c parse uuid str d now t req s))"
  using assms by (auto simp: SubmitRedaction_def intro: submit)

lemma inv_init: "sched_inv uuid (init_sched wc)"
proof -
  have v: "GetJob (newWork wc h) = Map.empty" "PendingJob (newWork wc h) = Map.empty" for h
    by (auto simp: GetJob_def PendingJob_def newWork_def getShard_def empty_shard_def fun_eq_iff)
  show ?thesis
    by (auto simp: sched_inv_def init_sched_def base_inv_def ids_ok_def named_def live_def v chan_ok_def
        flight_ok_def registered_ok_def batches_ok_def placed_def counted_def active_jobs_def queues_ok_new
        outstanding_def runningCount_def inner_def)
      (auto simp: newWork_def empty_shard_def)
qed

lemma reachable_inv: "reachable uuid str parse_uuid c s \<Longrightarrow> inj uuid \<Longrightarrow> sched_inv uuid s"
  by (induction rule: reachable.induct) (auto intro: inv_init inv_step)

subsection \<open>Properties\<close>

text \<open>C10. \<open>HasJobsForTenant\<close> is exact for redactions in every reachable state of the scheduler: it says
  yes for a tenant if and only if a redaction job of the tenant is pending, on its way to \<open>Next\<close>, or active.
  So the end of a batch is neither seen too early (no job is dequeued but uncounted) nor never (no count
  leaks), whatever the order of submissions, providers, workers, timeouts and maintenance, and also when two
  submissions of a tenant overlap.\<close>

theorem redaction_jobs_exactly_visible:
  assumes "reachable uuid str parse_uuid c s" and "inj uuid"
  shows "HasJobsForTenant (wk s) t JOB_TYPE_REDACTION \<longleftrightarrow>
    (\<exists>p. outstanding (wk s) (chan s) p \<and> JobType (heap (wk s) p) = JOB_TYPE_REDACTION \<and> Tenant (heap (wk s) p) = t)"
  using HasJobs_redaction_iff reachable_inv [OF assms] by (auto simp: sched_inv_def of_kind_def)

text \<open>A run with an outstanding redaction: one block, one submission, the job handed to a worker.\<close>

definition demo_uuid :: "nat \<Rightarrow> string" where
  "demo_uuid n = replicate n (CHR ''u'')"

definition demo_str :: "uuid \<Rightarrow> string" where
  "demo_str u = (if u = 1 then ''b1'' else if u = 2 then ''b2'' else ''b'')"

definition demo_parse_uuid :: "string \<rightharpoonup> uuid" where
  "demo_parse_uuid b = (if b = ''b1'' then Some 1 else if b = ''b2'' then Some 2 else None)"

definition demo_cfg :: sched_config where
  "demo_cfg = \<lparr>RescanDelay = 10, MaxRescanGenerations = 3, MaintenanceInterval = 5\<rparr>"

definition demo_meta :: "uuid \<Rightarrow> block_meta" where
  "demo_meta u = \<lparr>Version = ''vParquet5'', BlockID = u, TenantID = ''t'', StartTime = 0, EndTime = 10,
     TotalObjects = 1, SizeBytes = 1, CompactionLevel = 0, DedicatedColumnsHash = 0, ReplicationFactor = 1\<rparr>"

definition demo_req :: redaction_request where
  "demo_req = \<lparr>ReqTraceIds = [[7]], ReqQuery = None, ReqMode = 0, ReqStart = 0, ReqEnd = 0\<rparr>"

definition demo_s1 :: sched where
  "demo_s1 = (init_sched demo_config)\<lparr>store := Update ''t'' [demo_meta 1, demo_meta 2] [] [] [] New\<rparr>"

definition demo_s2 :: sched where
  "demo_s2 = snd (SubmitRedaction demo_cfg demo_parse demo_uuid demo_str False 0 ''t'' demo_req demo_s1)"

definition demo_s3 :: sched where
  "demo_s3 = snd (Next 1 ''w'' True (emitRedaction [[''t'']] demo_s2))"

lemma demo_uuid_inj: "inj demo_uuid"
  by (auto simp: inj_def demo_uuid_def dest: arg_cong [of _ _ length])

lemma demo_reachable:
  "reachable demo_uuid demo_str demo_parse_uuid demo_cfg demo_s1"
  "reachable demo_uuid demo_str demo_parse_uuid demo_cfg demo_s2"
  "reachable demo_uuid demo_str demo_parse_uuid demo_cfg demo_s3"
proof -
  let ?r = "reachable demo_uuid demo_str demo_parse_uuid demo_cfg"
  show 1: "?r demo_s1" unfolding demo_s1_def by (rule reachable.step [OF reachable.init poll])
  have "\<exists>pl. submit_plan demo_parse demo_str False ''t'' demo_req demo_s1 = Inr pl"
  proof -
    have "(case submit_plan demo_parse demo_str False ''t'' demo_req demo_s1 of Inl _ \<Rightarrow> False | Inr _ \<Rightarrow> True)"
      by code_simp
    then show ?thesis by (auto split: sum.splits)
  qed
  then show 2: "?r demo_s2" unfolding demo_s2_def by (auto intro: reachable.step [OF 1 submit_step])
  show "?r demo_s3" unfolding demo_s3_def
    by (rule reachable.step [OF reachable.step [OF 2 emit_redaction] next_job])
qed

theorem redaction_jobs_exactly_visible_witness:
  "HasJobsForTenant (wk demo_s3) ''t'' JOB_TYPE_REDACTION
    \<and> (\<exists>p. outstanding (wk demo_s3) (chan demo_s3) p \<and> JobType (heap (wk demo_s3) p) = JOB_TYPE_REDACTION
        \<and> Tenant (heap (wk demo_s3) p) = ''t'')"
proof -
  have "HasJobsForTenant (wk demo_s3) ''t'' JOB_TYPE_REDACTION" by code_simp
  then show ?thesis
    using redaction_jobs_exactly_visible [OF demo_reachable(3) demo_uuid_inj, of "''t''"] by blast
qed

text \<open>C11. In every reachable state the running count of a tenant and job type is the number of its active
  jobs, and the pending queue of a tenant and type lists each of its pending jobs exactly once.\<close>

theorem scheduler_indexes_exact:
  assumes "reachable uuid str parse_uuid c s" and "inj uuid"
  shows "runningCount (wk s) t ty = int (card (active_jobs (wk s) t ty))
    \<and> distinct (pendingQueue (wk s) t ty)
    \<and> set (pendingQueue (wk s) t ty) = {jobID. \<exists>p. PendingJob (wk s) jobID = Some p \<and> of_kind (wk s) t ty p}"
  using reachable_inv [OF assms] by (simp add: sched_inv_def base_inv_def counted_def queues_ok_def)

theorem scheduler_indexes_exact_witness:
  "runningCount (wk demo_s3) ''t'' JOB_TYPE_REDACTION = 1
    \<and> card (active_jobs (wk demo_s3) ''t'' JOB_TYPE_REDACTION) = 1
    \<and> pendingQueue (wk demo_s3) ''t'' JOB_TYPE_REDACTION = [''uu'']
    \<and> distinct (pendingQueue (wk demo_s3) ''t'' JOB_TYPE_REDACTION)"
proof -
  have "runningCount (wk demo_s3) ''t'' JOB_TYPE_REDACTION = 1"
    "pendingQueue (wk demo_s3) ''t'' JOB_TYPE_REDACTION = [''uu'']" by code_simp+
  then show ?thesis
    using scheduler_indexes_exact [OF demo_reachable(3) demo_uuid_inj, of "''t''" JOB_TYPE_REDACTION] by simp
qed



end
