(* ===== verification/SearchPlan.thy ===== *)
theory SearchPlan
  imports Blocklist GoFmt TraceId "HOL-Library.Signed_Division"
begin

section \<open>Planning a search (modules/frontend/search\_sharder.go)\<close>

text \<open>
  Models the search sharder of the query frontend: which blocks a query needs
  (\<open>blockMetasForSearch\<close> of \<open>frontend.go\<close>), how many pages one backend job scans
  (\<open>pagesPerRequest\<close>), the iterator that cuts the blocks into jobs and shards
  (\<open>backendJobsFunc\<close>), the sub-requests that cover the recent part of the time range
  (\<open>ingesterRequests\<close>), and the handler that puts them together (\<open>RoundTrip\<close>).

  A Go \<open>int\<close> is an \<open>int\<close>; division truncates (\<open>sdiv\<close>, \<open>smod\<close>). A \<open>uint32\<close> or \<open>uint64\<close> is
  a word. The loop over the pages of a block is \<open>partial_function (option)\<close>: its step is a
  computed number, and a step that is not positive would never reach the end. The clock, the
  parsed request, the tenant of the request and its overrides are arguments. Requests are built
  without an error and the query is not cancelled while they are sent.
\<close>

subsection \<open>Blocks\<close>

record search_block = block_meta +
  IndexPageSize :: u32
  TotalRecords :: u32
  FooterSize :: u32

text \<open>A block id is printed as a UUID: 16 bytes in hexadecimal, with four dashes.\<close>

definition uuid_bytes :: "uuid \<Rightarrow> bytes" where
  "uuid_bytes u = map (\<lambda>i. ucast (drop_bit (8 * (15 - i)) u)) [0..<16]"

definition uuid_string :: "uuid \<Rightarrow> string" where
  "uuid_string u = (let h = hex_encode (uuid_bytes u) in
     take 8 h @ ''-'' @ take 4 (drop 8 h) @ ''-'' @ take 4 (drop 12 h) @ ''-''
       @ take 4 (drop 16 h) @ ''-'' @ drop 20 h)"

definition acceptAllBlocks :: "search_block \<Rightarrow> bool" where
  "acceptAllBlocks m = True"

definition blockMetasForSearch ::
  "search_block list \<Rightarrow> time \<Rightarrow> time \<Rightarrow> (search_block \<Rightarrow> bool) \<Rightarrow> search_block list" where
  "blockMetasForSearch allBlocks startT endT filterFn =
     sort_key (\<lambda>m. (- EndTime m, uuid_string (BlockID m)))
       (filter (\<lambda>m. \<not> endT < StartTime m \<and> \<not> EndTime m < startT \<and> filterFn m) allBlocks)"

text \<open>\<open>time.Time.Unix\<close>: whole seconds.\<close>

definition unix :: "time \<Rightarrow> int" where
  "unix t = t div 1000000000"

subsection \<open>Jobs and shards\<close>

definition pagesPerRequest :: "search_block \<Rightarrow> int \<Rightarrow> int" where
  "pagesPerRequest m bytesPerRequest =
     (if SizeBytes m = 0 \<or> TotalRecords m = 0 then 0
      else if SizeBytes m < word_of_int bytesPerRequest then uint (TotalRecords m)
      else let bytesPerPage = SizeBytes m div ucast (TotalRecords m) in
        if bytesPerPage = 0 then 0
        else let pagesPerQuery = bytesPerRequest sdiv sint bytesPerPage in
          if pagesPerQuery = 0 then 1 else pagesPerQuery)"

record page_job =
  jobBlock :: search_block
  jobShard :: int
  startPage :: int
  pages :: int

partial_function (option) page_loop ::
  "search_block \<Rightarrow> int \<Rightarrow> int \<Rightarrow> int \<Rightarrow> page_job list option" where
  "page_loop b shard s n =
     (if s < uint (TotalRecords b)
      then Option.bind (page_loop b shard (s + n) n)
        (\<lambda>js. Some (\<lparr>jobBlock = b, jobShard = shard, startPage = s, pages = n\<rparr> # js))
      else Some [])"

declare page_loop.simps [code]

text \<open>The iterator is used twice: with a callback for shards only, to count, and with a callback
  for jobs only, to send them.\<close>

datatype iter_mode = CountShards | EmitJobs

definition jobs_in_block ::
  "iter_mode \<Rightarrow> search_block \<Rightarrow> int \<Rightarrow> int \<Rightarrow> (int \<times> page_job list) option" where
  "jobs_in_block mode b shard n =
     (if mode = CountShards
      then Some (uint (TotalRecords b) sdiv n
        + (if uint (TotalRecords b) smod n \<noteq> 0 then 1 else 0), [])
      else Option.bind (page_loop b shard 0 n) (\<lambda>js. Some (int (length js), js)))"

record search_shard =
  shardJobs :: int
  shardBytes :: u64
  completedThrough :: u32

record shard_acc =
  currentShard :: int
  jobsInShard :: int
  bytesInShard :: u64
  blocksInShard :: int
  shardCalls :: "search_shard list"
  jobCalls :: "page_job list"

definition close_shard :: "iter_mode \<Rightarrow> u32 \<Rightarrow> shard_acc \<Rightarrow> shard_acc" where
  "close_shard mode through a =
     (if mode = CountShards
      then a\<lparr>shardCalls := shardCalls a @ [\<lparr>shardJobs = jobsInShard a,
        shardBytes = bytesInShard a, completedThrough = through\<rparr>]\<rparr> else a)"

definition iterate_block ::
  "iter_mode \<Rightarrow> int \<Rightarrow> int \<Rightarrow> int \<Rightarrow> u32 \<Rightarrow> search_block \<Rightarrow> shard_acc \<Rightarrow> shard_acc option" where
  "iterate_block mode target maxShards blocksPerShard endS b a =
     (let n = pagesPerRequest b target in
      if n = 0 then Some a
      else Option.bind (jobs_in_block mode b (currentShard a) n) (\<lambda>(jobsInBlock, js).
        let a1 = a\<lparr>jobsInShard := jobsInShard a + jobsInBlock,
                   bytesInShard := bytesInShard a + SizeBytes b,
                   blocksInShard := blocksInShard a + 1,
                   jobCalls := jobCalls a @ js\<rparr>
        in Some (if blocksPerShard \<le> blocksInShard a1 \<and> currentShard a1 < maxShards - 1
             \<and> unix (EndTime b) < uint endS
           then (close_shard mode (word_of_int (unix (EndTime b))) a1)
             \<lparr>currentShard := currentShard a1 + 1, jobsInShard := 0, bytesInShard := 0,
              blocksInShard := 0\<rparr>
           else a1)))"

fun iterate_blocks ::
  "iter_mode \<Rightarrow> int \<Rightarrow> int \<Rightarrow> int \<Rightarrow> u32 \<Rightarrow> search_block list \<Rightarrow> shard_acc \<Rightarrow> shard_acc option" where
  "iterate_blocks mode target maxShards blocksPerShard endS [] a = Some a"
| "iterate_blocks mode target maxShards blocksPerShard endS (b # bs) a =
     Option.bind (iterate_block mode target maxShards blocksPerShard endS b a)
       (iterate_blocks mode target maxShards blocksPerShard endS bs)"

definition no_shards :: shard_acc where
  "no_shards = \<lparr>currentShard = 0, jobsInShard = 0, bytesInShard = 0, blocksInShard = 0,
     shardCalls = [], jobCalls = []\<rparr>"

definition blocks_per_shard :: "search_block list \<Rightarrow> int \<Rightarrow> int" where
  "blocks_per_shard blocks maxShards =
     (let n = int (length blocks) sdiv maxShards in if n = 0 then 1 else n)"

definition backendJobsFunc ::
  "search_block list \<Rightarrow> int \<Rightarrow> int \<Rightarrow> u32 \<Rightarrow> iter_mode
   \<Rightarrow> (search_shard list \<times> page_job list) option" where
  "backendJobsFunc blocks target maxShards endS mode =
     Option.bind (iterate_blocks mode target maxShards (blocks_per_shard blocks maxShards) endS
         blocks no_shards)
       (\<lambda>a. let a1 = (if 0 < jobsInShard a then close_shard mode 1 a else a)
            in Some (shardCalls a1, jobCalls a1))"

subsection \<open>What the iterator produces\<close>

lemma sint_small: "uint (x :: u64) < 2 ^ 63 \<Longrightarrow> sint x = uint x"
  using order_trans [OF _ uint_ge_0, of "- (2 ^ 63)" x]
  by (simp add: sint_uint signed_take_bit_int_eq_self_iff)

lemma uint_div_le: "uint (a div b) \<le> uint (a :: u64)"
proof -
  have "unat (a div b) \<le> unat a" unfolding unat_div by (rule div_le_dividend)
  then show ?thesis unfolding uint_nat by (rule of_nat_mono)
qed

lemma pagesPerRequest_nonneg:
  assumes "0 < target" and "target < 2 ^ 63" and "uint (SizeBytes b) < 2 ^ 63"
  shows "0 \<le> pagesPerRequest b target"
proof -
  define q where "q = SizeBytes b div ucast (TotalRecords b)"
  have "uint q \<le> uint (SizeBytes b)"
    by (simp add: q_def uint_div_le)
  then have "sint q = uint q" using assms(3) by (intro sint_small) simp
  moreover have "0 \<le> target sdiv uint q" if "q \<noteq> 0"
  proof -
    have "0 < uint q" using that uint_ge_0 [of q] by (metis order_le_less uint_0_iff)
    then show ?thesis
      using assms(1) by (simp add: signed_divide_int_def pos_imp_zdiv_nonneg_iff)
  qed
  ultimately show ?thesis
    unfolding pagesPerRequest_def q_def [symmetric] Let_def by auto
qed

text \<open>The only blocks without a job: empty ones, and those with more records than bytes.\<close>

lemma pagesPerRequest_zero:
  assumes "0 < target" and "target < 2 ^ 63"
  shows "pagesPerRequest b target = 0 \<longleftrightarrow> SizeBytes b = 0 \<or> TotalRecords b = 0
    \<or> target \<le> uint (SizeBytes b) \<and> uint (SizeBytes b) < uint (TotalRecords b)"
proof -
  have t: "uint (word_of_int target :: u64) = target"
    using assms by (simp add: uint_word_of_int take_bit_int_eq_self)
  have r: "uint (ucast (TotalRecords b) :: u64) = uint (TotalRecords b)"
    by (simp add: unsigned_ucast_eq take_bit_int_eq_self order_less_trans [OF uint_lt2p])
  have z: "SizeBytes b div ucast (TotalRecords b) = 0 \<longleftrightarrow>
      uint (SizeBytes b) < uint (TotalRecords b)" if "TotalRecords b \<noteq> 0"
  proof -
    have "0 < uint (TotalRecords b)" using that uint_ge_0 [of "TotalRecords b"]
      by (metis order_le_less uint_0_iff)
    then show ?thesis
      by (auto simp: word_uint_eq_iff uint_div r zdiv_eq_0_iff)
  qed
  show ?thesis
    by (auto simp: pagesPerRequest_def Let_def z word_less_def t uint_0_iff)
qed

definition covers :: "page_job \<Rightarrow> int \<Rightarrow> bool" where
  "covers j p \<longleftrightarrow> startPage j \<le> p \<and> p < startPage j + pages j"

definition rounded_up :: "int \<Rightarrow> int \<Rightarrow> int" where
  "rounded_up x n = x div n + (if x mod n \<noteq> 0 then 1 else 0)"

lemma rounded_up_step:
  assumes "0 < n" and "0 < x"
  shows "rounded_up x n = 1 + (if n < x then rounded_up (x - n) n else 0)"
proof -
  have "x div n = (x - n) div n + 1" "x mod n = (x - n) mod n"
    using assms(1) div_add_self2 [of n "x - n"] mod_add_self2 [of "x - n" n] by simp_all
  moreover have "rounded_up x n = 1" if "x \<le> n"
    using that assms by (cases "x = n") (auto simp: rounded_up_def div_pos_pos_trivial mod_pos_pos_trivial)
  ultimately show ?thesis by (auto simp: rounded_up_def)
qed

lemma page_loop_exact:
  assumes "0 < n" and "0 \<le> s" and "s \<le> uint (TotalRecords b)"
  shows "\<exists>js. page_loop b shard s n = Some js
    \<and> (\<forall>j\<in>set js. jobBlock j = b \<and> jobShard j = shard \<and> s \<le> startPage j
          \<and> startPage j < uint (TotalRecords b) \<and> pages j = n)
    \<and> int (length js) = (if s < uint (TotalRecords b) then rounded_up (uint (TotalRecords b) - s) n else 0)
    \<and> (\<forall>p. s \<le> p \<and> p < uint (TotalRecords b) \<longrightarrow> length (filter (\<lambda>j. covers j p) js) = 1)"
  using assms(2,3)
proof (induction "nat (uint (TotalRecords b) - s)" arbitrary: s rule: less_induct)
  case less
  let ?T = "uint (TotalRecords b)"
  show ?case
  proof (cases "s < ?T")
    case False
    then show ?thesis by (simp add: page_loop.simps [of b shard s n])
  next
    case True
    let ?j = "\<lparr>jobBlock = b, jobShard = shard, startPage = s, pages = n\<rparr>"
    show ?thesis
    proof (cases "s + n \<le> ?T")
      case le: True
      then obtain js where js: "page_loop b shard (s + n) n = Some js"
        and m: "\<forall>j\<in>set js. jobBlock j = b \<and> jobShard j = shard \<and> s + n \<le> startPage j
          \<and> startPage j < ?T \<and> pages j = n"
        and l: "int (length js) = (if s + n < ?T then rounded_up (?T - (s + n)) n else 0)"
        and c: "\<forall>p. s + n \<le> p \<and> p < ?T \<longrightarrow> length (filter (\<lambda>j. covers j p) js) = 1"
        using less.hyps [of "s + n"] True less.prems assms(1) by auto
      have e: "page_loop b shard s n = Some (?j # js)"
        using True js by (simp add: page_loop.simps [of b shard s n])
      have r: "rounded_up (?T - s) n = 1 + int (length js)"
        using rounded_up_step [of n "?T - s"] assms(1) True l by (simp add: algebra_simps)
      have f: "filter (\<lambda>j. covers j p) js = []" if "p < s + n" for p
        using m that by (auto simp: filter_empty_conv covers_def)
      have "length (filter (\<lambda>j. covers j p) (?j # js)) = 1" if "s \<le> p" "p < ?T" for p
      proof (cases "p < s + n")
        case True
        then show ?thesis using f [of p] that by (simp add: covers_def)
      next
        case False
        then show ?thesis using c that by (simp add: covers_def)
      qed
      moreover have "\<forall>j\<in>set (?j # js). jobBlock j = b \<and> jobShard j = shard \<and> s \<le> startPage j
          \<and> startPage j < ?T \<and> pages j = n"
        using m assms(1) True by auto
      ultimately show ?thesis unfolding e using r True by (intro exI [of _ "?j # js"]) auto
    next
      case gt: False
      then have "page_loop b shard (s + n) n = Some []"
        by (simp add: page_loop.simps [of b shard "s + n" n])
      then have e: "page_loop b shard s n = Some [?j]"
        using True by (simp add: page_loop.simps [of b shard s n])
      have "rounded_up (?T - s) n = 1"
        using rounded_up_step [of n "?T - s"] assms(1) True gt by simp
      then show ?thesis unfolding e using True gt by (simp add: covers_def)
    qed
  qed
qed

lemma sdiv_nonneg: "0 \<le> a \<Longrightarrow> 0 < n \<Longrightarrow> a sdiv n = a div (n :: int)"
  by (cases "a = 0") (auto simp: signed_divide_int_def)

lemma smod_nonneg: "0 \<le> a \<Longrightarrow> 0 < n \<Longrightarrow> a smod n = a mod (n :: int)"
  by (cases "a = 0") (auto simp: signed_modulo_int_def)

text \<open>Counting and sending agree on a block.\<close>

lemma jobs_in_block_exact:
  assumes "0 < n"
  shows "\<exists>js. jobs_in_block EmitJobs b shard n = Some (int (length js), js)
    \<and> jobs_in_block CountShards b shard n = Some (int (length js), [])
    \<and> (\<forall>j\<in>set js. jobBlock j = b \<and> jobShard j = shard \<and> 0 \<le> startPage j
          \<and> startPage j < uint (TotalRecords b) \<and> pages j = n)
    \<and> (\<forall>p. 0 \<le> p \<and> p < uint (TotalRecords b) \<longrightarrow> length (filter (\<lambda>j. covers j p) js) = 1)"
proof -
  let ?T = "uint (TotalRecords b)"
  have c: "jobs_in_block CountShards b shard n = Some (rounded_up ?T n, [])"
    by (simp add: jobs_in_block_def rounded_up_def sdiv_nonneg [OF uint_ge_0 assms]
        smod_nonneg [OF uint_ge_0 assms])
  obtain js where js: "page_loop b shard 0 n = Some js"
    and m: "\<forall>j\<in>set js. jobBlock j = b \<and> jobShard j = shard \<and> 0 \<le> startPage j
          \<and> startPage j < ?T \<and> pages j = n"
    and l: "int (length js) = (if 0 < ?T then rounded_up ?T n else 0)"
    and p: "\<forall>p. 0 \<le> p \<and> p < ?T \<longrightarrow> length (filter (\<lambda>j. covers j p) js) = 1"
    using page_loop_exact [of n 0 b shard] assms by auto
  have "int (length js) = rounded_up ?T n"
    using l uint_ge_0 [of "TotalRecords b"] by (cases "?T = 0") (auto simp: rounded_up_def)
  then show ?thesis
    using c js m p by (intro exI [of _ js]) (simp add: jobs_in_block_def)
qed

text \<open>
  The two uses of the iterator, run over the same blocks: \<open>c\<close> counts, \<open>e\<close> sends. \<open>seen\<close> are
  the blocks gone through, \<open>rest\<close> those to come.
\<close>

definition jobs_of_shard :: "int \<Rightarrow> page_job list \<Rightarrow> int" where
  "jobs_of_shard i js = int (length (filter (\<lambda>j. jobShard j = i) js))"

definition exactly_once :: "search_block \<Rightarrow> page_job list \<Rightarrow> bool" where
  "exactly_once b js \<longleftrightarrow> (\<forall>p. 0 \<le> p \<and> p < uint (TotalRecords b)
     \<longrightarrow> length (filter (\<lambda>j. jobBlock j = b \<and> covers j p) js) = 1)"

definition same_shard :: "shard_acc \<Rightarrow> shard_acc \<Rightarrow> bool" where
  "same_shard c e \<longleftrightarrow> currentShard c = currentShard e \<and> jobsInShard c = jobsInShard e
     \<and> bytesInShard c = bytesInShard e \<and> blocksInShard c = blocksInShard e
     \<and> jobCalls c = [] \<and> shardCalls e = []"

definition counts_agree :: "shard_acc \<Rightarrow> shard_acc \<Rightarrow> bool" where
  "counts_agree c e \<longleftrightarrow> int (length (shardCalls c)) = currentShard c
     \<and> (\<forall>i<length (shardCalls c). shardJobs (shardCalls c ! i) = jobs_of_shard (int i) (jobCalls e))
     \<and> jobsInShard c = jobs_of_shard (currentShard c) (jobCalls e)
     \<and> (\<forall>j\<in>set (jobCalls e). 0 \<le> jobShard j \<and> jobShard j \<le> currentShard c)"

definition job_of :: "int \<Rightarrow> page_job \<Rightarrow> bool" where
  "job_of target j \<longleftrightarrow> 0 \<le> startPage j \<and> startPage j < uint (TotalRecords (jobBlock j))
     \<and> pages j = pagesPerRequest (jobBlock j) target"

definition scanned :: "int \<Rightarrow> search_block set \<Rightarrow> page_job list \<Rightarrow> bool" where
  "scanned target seen js \<longleftrightarrow> (\<forall>j\<in>set js. jobBlock j \<in> seen \<and> job_of target j)
     \<and> (\<forall>b\<in>seen. pagesPerRequest b target \<noteq> 0 \<longrightarrow> exactly_once b js)"

definition later_blocks_older :: "search_block set \<Rightarrow> search_shard list \<Rightarrow> page_job list \<Rightarrow> bool" where
  "later_blocks_older rest shards js \<longleftrightarrow> (\<forall>i<length shards.
     (\<forall>b\<in>rest. unix (EndTime b) \<le> uint (completedThrough (shards ! i)))
     \<and> (\<forall>j\<in>set js. int i < jobShard j
          \<longrightarrow> unix (EndTime (jobBlock j)) \<le> uint (completedThrough (shards ! i))))"

lemmas iter_defs = same_shard_def counts_agree_def scanned_def later_blocks_older_def

lemma jobs_of_shard_append [simp]:
  "jobs_of_shard i (js @ ks) = jobs_of_shard i js + jobs_of_shard i ks"
  by (simp add: jobs_of_shard_def)

lemma jobs_of_shard_all:
  "\<forall>j\<in>set js. jobShard j = k \<Longrightarrow> jobs_of_shard i js = (if i = k then int (length js) else 0)"
  by (auto simp: jobs_of_shard_def filter_empty_conv intro!: arg_cong [of _ _ length] filter_all_True)

lemma jobs_of_shard_above:
  "\<forall>j\<in>set js. jobShard j \<le> k \<Longrightarrow> k < i \<Longrightarrow> jobs_of_shard i js = 0"
  by (auto simp: jobs_of_shard_def filter_empty_conv)

lemma scanned_step:
  assumes "scanned target seen js" and "b \<notin> seen" and "\<forall>j\<in>set ks. jobBlock j = b \<and> job_of target j"
    and "\<forall>p. 0 \<le> p \<and> p < uint (TotalRecords b) \<longrightarrow> length (filter (\<lambda>j. covers j p) ks) = 1"
  shows "scanned target (insert b seen) (js @ ks)"
proof -
  have none: "filter (\<lambda>j. jobBlock j = b \<and> covers j p) js = []" for p
    using assms(1,2) by (auto simp: scanned_def filter_empty_conv)
  have "filter (\<lambda>j. jobBlock j = x \<and> covers j p) ks = (if x = b then filter (\<lambda>j. covers j p) ks else [])"
    for x p
    using assms(3) by (auto simp: filter_empty_conv intro: filter_cong)
  with assms none show ?thesis by (auto simp: scanned_def exactly_once_def)
qed

lemma later_step:
  assumes "later_blocks_older (insert b rest) shards js" and "\<forall>j\<in>set ks. jobBlock j = b"
  shows "later_blocks_older rest shards (js @ ks)"
  using assms by (auto simp: later_blocks_older_def)

text \<open>Closing a shard at the end time of the block just gone through.\<close>

lemma later_close:
  assumes "later_blocks_older rest shards js" and "\<forall>j\<in>set js. jobShard j \<le> int (length shards)"
    and "\<forall>x\<in>rest. unix (EndTime x) \<le> t" and "uint (completedThrough s) = t"
  shows "later_blocks_older rest (shards @ [s]) js"
  unfolding later_blocks_older_def
proof (intro allI impI)
  fix i assume "i < length (shards @ [s])"
  then consider "i < length shards" | "i = length shards" by fastforce
  then show "(\<forall>b\<in>rest. unix (EndTime b) \<le> uint (completedThrough ((shards @ [s]) ! i)))
    \<and> (\<forall>j\<in>set js. int i < jobShard j
        \<longrightarrow> unix (EndTime (jobBlock j)) \<le> uint (completedThrough ((shards @ [s]) ! i)))"
    by cases (use assms in \<open>auto simp: later_blocks_older_def nth_append\<close>)
qed

lemma counts_close:
  assumes "counts_agree c e" and "shardJobs s = jobsInShard c"
  shows "counts_agree (c\<lparr>shardCalls := shardCalls c @ [s], currentShard := currentShard c + 1,
       jobsInShard := 0, bytesInShard := 0, blocksInShard := 0\<rparr>) e"
  using assms jobs_of_shard_above [of "jobCalls e" "currentShard c" "currentShard c + 1"]
  by (auto simp: counts_agree_def nth_append less_Suc_eq)

lemma iterate_block_step:
  assumes "same_shard c e" and "counts_agree c e" and "scanned target seen (jobCalls e)"
    and "later_blocks_older (insert b rest) (shardCalls c) (jobCalls e)"
    and "0 \<le> pagesPerRequest b target" and "b \<notin> seen" and "0 \<le> unix (EndTime b)"
    and "\<forall>x\<in>rest. unix (EndTime x) \<le> unix (EndTime b)"
  shows "\<exists>c' e'. iterate_block CountShards target m k E b c = Some c'
    \<and> iterate_block EmitJobs target m k E b e = Some e' \<and> same_shard c' e' \<and> counts_agree c' e'
    \<and> scanned target (insert b seen) (jobCalls e')
    \<and> later_blocks_older rest (shardCalls c') (jobCalls e')"
proof (cases "pagesPerRequest b target = 0")
  case True
  then show ?thesis
    using assms by (auto simp: iterate_block_def scanned_def later_blocks_older_def)
next
  case False
  obtain js where e: "jobs_in_block EmitJobs b (currentShard c) (pagesPerRequest b target) = Some (int (length js), js)"
    and c: "jobs_in_block CountShards b (currentShard c) (pagesPerRequest b target) = Some (int (length js), [])"
    and jobs: "\<forall>j\<in>set js. jobBlock j = b \<and> jobShard j = currentShard c \<and> 0 \<le> startPage j
          \<and> startPage j < uint (TotalRecords b) \<and> pages j = pagesPerRequest b target"
    and cov: "\<forall>p. 0 \<le> p \<and> p < uint (TotalRecords b) \<longrightarrow> length (filter (\<lambda>j. covers j p) js) = 1"
    using jobs_in_block_exact [of "pagesPerRequest b target" b "currentShard c"] False assms(5) by auto
  have js: "\<forall>j\<in>set js. jobBlock j = b \<and> jobShard j = currentShard c \<and> job_of target j"
    using jobs by (simp add: job_of_def)
  define c1 where "c1 = c\<lparr>jobsInShard := jobsInShard c + int (length js),
    bytesInShard := bytesInShard c + SizeBytes b, blocksInShard := blocksInShard c + 1\<rparr>"
  define e1 where "e1 = e\<lparr>jobsInShard := jobsInShard e + int (length js),
    bytesInShard := bytesInShard e + SizeBytes b, blocksInShard := blocksInShard e + 1,
    jobCalls := jobCalls e @ js\<rparr>"
  have same: "same_shard c1 e1" and e1: "jobCalls e1 = jobCalls e @ js" "shardCalls c1 = shardCalls c"
    using assms(1) by (simp_all add: c1_def e1_def same_shard_def)
  have counts: "counts_agree c1 e1"
    using assms(2) js jobs_of_shard_all [of js "currentShard c"]
    by (auto simp: c1_def e1_def counts_agree_def)
  have sc: "scanned target (insert b seen) (jobCalls e1)"
    unfolding e1 using js by (intro scanned_step assms(3,6) cov) auto
  have lat: "later_blocks_older rest (shardCalls c1) (jobCalls e1)"
    unfolding e1 using js by (intro later_step [OF assms(4)]) auto
  show ?thesis
  proof (cases "k \<le> blocksInShard c1 \<and> currentShard c1 < m - 1 \<and> unix (EndTime b) < uint E")
    case False
    then have "iterate_block CountShards target m k E b c = Some c1"
      "iterate_block EmitJobs target m k E b e = Some e1"
      using \<open>pagesPerRequest b target \<noteq> 0\<close> c e assms(1)
      by (auto simp: iterate_block_def Let_def c1_def e1_def same_shard_def)
    then show ?thesis using same counts sc lat by blast
  next
    case True
    let ?s = "\<lparr>shardJobs = jobsInShard c1, shardBytes = bytesInShard c1,
      completedThrough = word_of_int (unix (EndTime b))\<rparr>"
    let ?c = "c1\<lparr>shardCalls := shardCalls c1 @ [?s], currentShard := currentShard c1 + 1,
      jobsInShard := 0, bytesInShard := 0, blocksInShard := 0\<rparr>"
    let ?e = "e1\<lparr>currentShard := currentShard e1 + 1, jobsInShard := 0, bytesInShard := 0,
      blocksInShard := 0\<rparr>"
    have "iterate_block CountShards target m k E b c = Some ?c"
      "iterate_block EmitJobs target m k E b e = Some ?e"
      using \<open>pagesPerRequest b target \<noteq> 0\<close> c e assms(1) True
      by (auto simp: iterate_block_def Let_def c1_def e1_def same_shard_def close_shard_def)
    moreover have "same_shard ?c ?e" using same by (simp add: same_shard_def)
    moreover have "counts_agree ?c ?e"
      using counts_close [OF counts, of ?s] by (simp add: counts_agree_def)
    moreover have "uint (word_of_int (unix (EndTime b)) :: u32) = unix (EndTime b)"
      using assms(7) True order_less_trans [OF _ uint_lt2p [of E]]
      by (simp add: uint_word_of_int take_bit_int_eq_self)
    then have "later_blocks_older rest (shardCalls ?c) (jobCalls ?e)"
      using later_close [OF lat, of "unix (EndTime b)" ?s] counts assms(8)
      by (simp add: counts_agree_def)
    ultimately show ?thesis using sc by force
  qed
qed

text \<open>
  What the iterator may be given: blocks in the order of \<open>blockMetasForSearch\<close>, sizes below
  \<open>2\<^sup>63\<close>, end times after 1970, and a positive number of bytes per request.
\<close>

definition plannable :: "int \<Rightarrow> search_block list \<Rightarrow> bool" where
  "plannable target blocks \<longleftrightarrow> 0 < target \<and> target < 2 ^ 63 \<and> distinct blocks
     \<and> sorted_wrt (\<lambda>a b. EndTime b \<le> EndTime a) blocks
     \<and> (\<forall>b\<in>set blocks. uint (SizeBytes b) < 2 ^ 63 \<and> 0 \<le> EndTime b)"

lemma unix_mono: "s \<le> t \<Longrightarrow> unix s \<le> unix t"
  by (simp add: unix_def zdiv_mono1)

lemma iterate_blocks_exact:
  assumes "plannable target blocks" and "same_shard c e" and "counts_agree c e"
    and "scanned target seen (jobCalls e)" and "set blocks \<inter> seen = {}"
    and "later_blocks_older (set blocks) (shardCalls c) (jobCalls e)"
  shows "\<exists>c' e'. iterate_blocks CountShards target m k E blocks c = Some c'
    \<and> iterate_blocks EmitJobs target m k E blocks e = Some e' \<and> same_shard c' e'
    \<and> counts_agree c' e' \<and> scanned target (set blocks \<union> seen) (jobCalls e')
    \<and> later_blocks_older {} (shardCalls c') (jobCalls e')"
  using assms
proof (induction blocks arbitrary: c e seen)
  case Nil
  then show ?case by simp
next
  case (Cons b bs)
  have pl: "plannable target bs" "b \<notin> set bs" "0 \<le> unix (EndTime b)"
    "\<forall>x\<in>set bs. unix (EndTime x) \<le> unix (EndTime b)" "0 \<le> pagesPerRequest b target"
    using Cons.prems(1) pagesPerRequest_nonneg [of target b]
    by (auto simp: plannable_def unix_mono) (simp add: unix_def)
  obtain c' e' where s: "iterate_block CountShards target m k E b c = Some c'"
    "iterate_block EmitJobs target m k E b e = Some e'"
    and inv: "same_shard c' e'" "counts_agree c' e'" "scanned target (insert b seen) (jobCalls e')"
      "later_blocks_older (set bs) (shardCalls c') (jobCalls e')"
    using iterate_block_step [OF Cons.prems(2-4), of b "set bs" m k E] Cons.prems(5,6) pl by auto
  show ?case
    using Cons.IH [OF pl(1) inv(1-3) _ inv(4)] s pl(2) Cons.prems(5) by (simp add: insert_commute)
qed

lemma backendJobsFunc_exact:
  assumes "plannable target blocks"
  shows "\<exists>shards js. backendJobsFunc blocks target m E CountShards = Some (shards, [])
    \<and> backendJobsFunc blocks target m E EmitJobs = Some ([], js)
    \<and> scanned target (set blocks) js
    \<and> (\<forall>j\<in>set js. 0 \<le> jobShard j \<and> jobShard j < int (length shards))
    \<and> (\<forall>i<length shards. shardJobs (shards ! i) = jobs_of_shard (int i) js)
    \<and> later_blocks_older {} shards js"
proof -
  let ?k = "blocks_per_shard blocks m"
  have "same_shard no_shards no_shards" "counts_agree no_shards no_shards"
    "scanned target {} (jobCalls no_shards)"
    "later_blocks_older (set blocks) (shardCalls no_shards) (jobCalls no_shards)"
    by (simp_all add: iter_defs no_shards_def jobs_of_shard_def)
  then obtain c e where c: "iterate_blocks CountShards target m ?k E blocks no_shards = Some c"
    and e: "iterate_blocks EmitJobs target m ?k E blocks no_shards = Some e"
    and inv: "same_shard c e" "counts_agree c e" "scanned target (set blocks) (jobCalls e)"
      "later_blocks_older {} (shardCalls c) (jobCalls e)"
    using iterate_blocks_exact [OF assms, of no_shards no_shards "{}" m ?k E] by auto
  have em: "backendJobsFunc blocks target m E EmitJobs = Some ([], jobCalls e)"
    using e inv(1) by (simp add: backendJobsFunc_def close_shard_def same_shard_def)
  show ?thesis
  proof (cases "0 < jobsInShard c")
    case True
    let ?s = "\<lparr>shardJobs = jobsInShard c, shardBytes = bytesInShard c, completedThrough = 1\<rparr>"
    have "backendJobsFunc blocks target m E CountShards = Some (shardCalls c @ [?s], [])"
      using c inv(1) True by (simp add: backendJobsFunc_def close_shard_def same_shard_def)
    moreover have "counts_agree (c\<lparr>shardCalls := shardCalls c @ [?s], currentShard := currentShard c + 1,
       jobsInShard := 0, bytesInShard := 0, blocksInShard := 0\<rparr>) e"
      using counts_close [OF inv(2), of ?s] by simp
    moreover have "later_blocks_older {} (shardCalls c @ [?s]) (jobCalls e)"
      using inv(2) by (intro later_close [OF inv(4), of 1]) (auto simp: counts_agree_def)
    moreover have "\<forall>j\<in>set (jobCalls e). 0 \<le> jobShard j \<and> jobShard j < int (length (shardCalls c @ [?s]))"
      using inv(2) by (auto simp: counts_agree_def)
    ultimately show ?thesis using em inv(3)
      by (intro exI [of _ "shardCalls c @ [?s]"] exI [of _ "jobCalls e"])
        (auto simp: counts_agree_def)
  next
    case False
    then have "backendJobsFunc blocks target m E CountShards = Some (shardCalls c, [])"
      using c inv(1) by (simp add: backendJobsFunc_def same_shard_def)
    moreover have "filter (\<lambda>j. jobShard j = currentShard c) (jobCalls e) = []"
      using False inv(2) by (simp add: counts_agree_def jobs_of_shard_def)
    then have "\<forall>j\<in>set (jobCalls e). 0 \<le> jobShard j \<and> jobShard j < int (length (shardCalls c))"
      using inv(2) by (fastforce simp: counts_agree_def filter_empty_conv)
    ultimately show ?thesis using em inv(2-4)
      by (intro exI [of _ "shardCalls c"] exI [of _ "jobCalls e"]) (auto simp: counts_agree_def)
  qed
qed

subsection \<open>Requests\<close>

record search_config =
  TargetBytesPerRequest :: int
  DefaultLimit :: u32
  MaxLimit :: u32
  MaxDuration :: int
  QueryBackendAfter :: int
  IngesterShards :: int
  MostRecentShards :: int
  MaxSpansPerSpanSet :: u32

record search_request =
  Query :: string
  Start :: u32
  End :: u32
  Limit :: u32
  SpansPerSpanSet :: u32
  SkipASTTransformations :: "string list"

text \<open>A shard as the sharder announces it: how many jobs it has, and up to which second every
  result is in once they are done.\<close>

record shard_info =
  ShardTotalJobs :: u32
  CompletedThroughSeconds :: u32

definition TimestampNever :: u32 where
  "TimestampNever = 4294967295"

record backend_request =
  SearchReq :: search_request
  ReqBlockID :: string
  StartPage :: u32
  PagesToSearch :: u32
  ReqIndexPageSize :: u32
  ReqTotalRecords :: u32
  ReqVersion :: string
  ReqSize :: u64
  ReqFooterSize :: u32
  CacheKey :: string
  ResponseData :: int

record search_plan =
  ingesterReqs :: "search_request list"
  backendReqs :: "backend_request list"
  planShards :: "shard_info list"
  planBlocks :: int
  planJobs :: int
  planBytes :: u64

datatype search_reject =
  InvalidRange | LimitExceeded | NoTenant | DurationExceeded | SpansPerSpanSetExceeded | Panics

text \<open>The parsed range: both ends zero, or a start before an end (\<open>pkg/api/http.go\<close>).\<close>

definition checked_range :: "search_request \<Rightarrow> bool" where
  "checked_range req \<longleftrightarrow> End req = 0 \<and> Start req = 0 \<or> \<not> End req \<le> Start req"

definition adjustLimit :: "u32 \<Rightarrow> u32 \<Rightarrow> u32 \<Rightarrow> u32 option" where
  "adjustLimit limit defaultLimit maxLimit =
     (if limit = 0 then Some defaultLimit
      else if maxLimit \<noteq> 0 \<and> maxLimit < limit then None
      else Some limit)"

definition mergeSkipASTTransformations :: "string list \<Rightarrow> string list \<Rightarrow> string list" where
  "mergeSkipASTTransformations a b = remdups_adj (sort (a @ b))"

text \<open>\<open>override\<close> is the tenant's \<open>MaxSearchDuration\<close>.\<close>

definition maxDuration :: "search_config \<Rightarrow> int \<Rightarrow> int" where
  "maxDuration cfg override = (if override \<noteq> 0 then override else MaxDuration cfg)"

definition backendRange :: "time \<Rightarrow> u32 \<Rightarrow> u32 \<Rightarrow> int \<Rightarrow> u32 \<times> u32" where
  "backendRange now startS endS queryBackendAfter =
     (let backendAfter = word_of_int (unix (now - queryBackendAfter))
      in (if backendAfter < startS then backendAfter else startS,
          if backendAfter < endS then backendAfter else endS))"

text \<open>The ingester sub-ranges: \<open>left\<close> is what remains of \<open>IngesterShards\<close>.\<close>

fun ingester_ranges :: "u32 \<Rightarrow> u32 \<Rightarrow> u32 \<Rightarrow> nat \<Rightarrow> nat \<Rightarrow> (u32 \<times> u32) list" where
  "ingester_ranges startS endS interval i 0 = []"
| "ingester_ranges startS endS interval i (Suc left) =
     (let shardStart = startS + of_nat i * interval; shardEnd = shardStart + interval
      in if endS \<le> shardStart then []
         else (shardStart, if endS \<le> shardEnd \<or> left = 0 then endS else shardEnd)
           # ingester_ranges startS endS interval (Suc i) left)"

definition ingester_interval :: "u32 \<Rightarrow> int \<Rightarrow> u32" where
  "ingester_interval duration shards =
     (let interval = duration div word_of_int shards in if interval < 60 then 60 else interval)"

definition ingesterRequests ::
  "search_config \<Rightarrow> time \<Rightarrow> search_request
   \<Rightarrow> search_reject + shard_info list \<times> search_request list" where
  "ingesterRequests cfg now req =
     (if Start req = 0 \<or> End req = 0
      then Inr ([\<lparr>ShardTotalJobs = 1, CompletedThroughSeconds = 1\<rparr>], [req])
      else let ingesterUntil = word_of_int (unix (now - QueryBackendAfter cfg)) in
        if End req < ingesterUntil then Inr ([], [])
        else let ingesterEnd = End req;
            ingesterStart = (if Start req < ingesterUntil then ingesterUntil else Start req)
          in if ingesterStart = ingesterEnd then Inr ([], [])
          else if (word_of_int (IngesterShards cfg) :: u32) = 0 then Inl Panics
          else let reqs = map (\<lambda>(s, e). req\<lparr>Start := s, End := e\<rparr>)
              (ingester_ranges ingesterStart ingesterEnd
                (ingester_interval (ingesterEnd - ingesterStart) (IngesterShards cfg))
                0 (nat (IngesterShards cfg)))
            in Inr ([\<lparr>ShardTotalJobs = of_nat (length reqs),
                      CompletedThroughSeconds = TimestampNever\<rparr>], reqs))"

text \<open>
  The hash of a query for the cache. \<open>canonical\<close> parses and prints a query; it is \<open>None\<close> on a
  query that does not parse. The hash is FNV-1a over bytes.
\<close>

definition fnv1a_add :: "u64 \<Rightarrow> u64 \<Rightarrow> u64" where
  "fnv1a_add h c = xor h c * 1099511628211"

definition fnv1a_string :: "u64 \<Rightarrow> string \<Rightarrow> u64" where
  "fnv1a_string h s = foldl (\<lambda>h c. fnv1a_add h (of_char c)) h s"

definition fnv1a_uint64 :: "u64 \<Rightarrow> u64 \<Rightarrow> u64" where
  "fnv1a_uint64 h u =
     foldl (\<lambda>h i. fnv1a_add h (take_bit 8 (drop_bit i u))) h [56, 48, 40, 32, 24, 16, 8, 0]"

definition hashForSearchRequest :: "(string \<Rightarrow> string option) \<Rightarrow> search_request \<Rightarrow> u64" where
  "hashForSearchRequest canonical req =
     (if Query req = '''' then 0
      else case canonical (Query req) of
        None \<Rightarrow> 0
      | Some query \<Rightarrow> foldl fnv1a_string
          (fnv1a_uint64 (fnv1a_uint64 (fnv1a_string 14695981039346656037 query)
             (ucast (Limit req))) (ucast (SpansPerSpanSet req)))
          (SkipASTTransformations req))"

definition cacheKey ::
  "string \<Rightarrow> tenant \<Rightarrow> u64 \<Rightarrow> time \<Rightarrow> time \<Rightarrow> search_block \<Rightarrow> int \<Rightarrow> int \<Rightarrow> string" where
  "cacheKey pre tenant queryHash startT endT m startPg pagesToSearch =
     (if queryHash = 0 then ''''
      else if \<not> (startT < StartTime m \<and> EndTime m < endT) then ''''
      else pre @ tenant @ '':'' @ digits_in 10 (unat queryHash) @ '':''
        @ uuid_string (BlockID m) @ '':'' @ fmt_d startPg @ '':'' @ fmt_d pagesToSearch)"

definition searchJobCacheKey ::
  "tenant \<Rightarrow> u64 \<Rightarrow> time \<Rightarrow> time \<Rightarrow> search_block \<Rightarrow> int \<Rightarrow> int \<Rightarrow> string" where
  "searchJobCacheKey tenant queryHash startT endT m startPg pagesToSearch =
     cacheKey ''sj:'' tenant queryHash startT endT m startPg pagesToSearch"

definition buildBackendRequests ::
  "(string \<Rightarrow> string option) \<Rightarrow> tenant \<Rightarrow> search_request \<Rightarrow> int \<Rightarrow> page_job list
   \<Rightarrow> backend_request list" where
  "buildBackendRequests canonical tenant req firstShardIdx jobs =
     (let queryHash = hashForSearchRequest canonical req in
      map (\<lambda>j. let m = jobBlock j in
        \<lparr>SearchReq = req, ReqBlockID = uuid_string (BlockID m),
         StartPage = word_of_int (startPage j), PagesToSearch = word_of_int (pages j),
         ReqIndexPageSize = IndexPageSize m, ReqTotalRecords = TotalRecords m,
         ReqVersion = Version m, ReqSize = SizeBytes m, ReqFooterSize = FooterSize m,
         CacheKey = searchJobCacheKey tenant queryHash (uint (Start req) * 1000000000)
           (uint (End req) * 1000000000) m (startPage j) (pages j),
         ResponseData = firstShardIdx + jobShard j\<rparr>) jobs)"

text \<open>
  \<open>backendRequests\<close>: first the shards are counted, then a goroutine sends the requests. \<open>None\<close>:
  the iterator does not return.
\<close>

definition backendRequests ::
  "search_config \<Rightarrow> time \<Rightarrow> (string \<Rightarrow> string option) \<Rightarrow> tenant \<Rightarrow> search_block list \<Rightarrow> search_request
   \<Rightarrow> search_plan \<Rightarrow> search_plan option" where
  "backendRequests cfg now canonical tenant allBlocks req resp =
     (if Start req = 0 \<or> End req = 0 then Some resp
      else let (startS, endS) = backendRange now (Start req) (End req) (QueryBackendAfter cfg) in
        if startS = endS then Some resp
        else let blocks = blockMetasForSearch allBlocks (uint startS * 1000000000)
              (uint endS * 1000000000) acceptAllBlocks;
            iter = backendJobsFunc blocks (TargetBytesPerRequest cfg) (MostRecentShards cfg) (End req)
          in Option.bind (iter CountShards) (\<lambda>(shards, _). Option.bind (iter EmitJobs) (\<lambda>(_, jobs).
            Some (resp\<lparr>planBlocks := int (length blocks),
              planJobs := planJobs resp + sum_list (map shardJobs shards),
              planBytes := planBytes resp + sum_list (map shardBytes shards),
              planShards := planShards resp @ map (\<lambda>s. \<lparr>ShardTotalJobs = word_of_int (shardJobs s),
                CompletedThroughSeconds = completedThrough s\<rparr>) shards,
              backendReqs := buildBackendRequests canonical tenant req
                (int (length (planShards resp))) jobs\<rparr>))))"

text \<open>
  The handler. \<open>parsed\<close> are the fields of the request; \<open>tenant\<close> is \<open>None\<close> when the request has no
  valid tenant; \<open>now\<close> and \<open>now'\<close> are the two readings of the clock. The sub-requests to the
  ingesters are put into a channel of \<open>IngesterShards + 1\<close> places before anything reads it: with
  more of them the handler would block. \<open>New\<close> (\<open>frontend.go\<close>) has checked that \<open>MostRecentShards\<close> and
  \<open>TargetBytesPerRequest\<close> are positive; it does not check \<open>IngesterShards\<close>.
\<close>

definition search_RoundTrip ::
  "search_config \<Rightarrow> string list \<Rightarrow> (tenant \<Rightarrow> int) \<Rightarrow> (string \<Rightarrow> string option)
   \<Rightarrow> (tenant \<Rightarrow> search_block list) \<Rightarrow> time \<Rightarrow> time \<Rightarrow> search_request \<Rightarrow> tenant option
   \<Rightarrow> (search_reject + search_plan) option" where
  "search_RoundTrip cfg skip maxSearchDuration canonical blockMetas now now' parsed tenant =
     (if \<not> checked_range parsed then Some (Inl InvalidRange)
      else case adjustLimit (Limit parsed) (DefaultLimit cfg) (MaxLimit cfg) of
        None \<Rightarrow> Some (Inl LimitExceeded)
      | Some limit \<Rightarrow>
        let req = parsed\<lparr>SkipASTTransformations :=
              mergeSkipASTTransformations skip (SkipASTTransformations parsed), Limit := limit\<rparr>
        in case tenant of
          None \<Rightarrow> Some (Inl NoTenant)
        | Some tn \<Rightarrow>
          let maxD = maxDuration cfg (maxSearchDuration tn) in
          if maxD \<noteq> 0 \<and> maxD < uint (End req - Start req) * 1000000000
          then Some (Inl DurationExceeded)
          else if MaxSpansPerSpanSet cfg \<noteq> 0 \<and> MaxSpansPerSpanSet cfg < SpansPerSpanSet req
          then Some (Inl SpansPerSpanSetExceeded)
          else if IngesterShards cfg + 1 < 0 then Some (Inl Panics)
          else case ingesterRequests cfg now req of
            Inl r \<Rightarrow> Some (Inl r)
          | Inr (shards, reqs) \<Rightarrow>
            if IngesterShards cfg + 1 < int (length reqs) then None
            else Option.bind (backendRequests cfg now' canonical tn (blockMetas tn) req
              \<lparr>ingesterReqs = reqs, backendReqs = [], planShards = shards, planBlocks = 0,
               planJobs = int (length reqs), planBytes = 0\<rparr>) (\<lambda>p. Some (Inr p)))"

subsection \<open>The ingester sub-ranges\<close>

lemma ingester_ranges_exact:
  assumes "uint (startS + of_nat i * interval) = uint startS + int i * uint interval"
    and "\<forall>k<i + left. uint startS + int k * uint interval < uint endS
           \<longrightarrow> uint startS + int (Suc k) * uint interval < 2 ^ 32"
  shows "(\<forall>(s, e)\<in>set (ingester_ranges startS endS interval i left).
        uint startS + int i * uint interval \<le> uint s)
    \<and> (\<forall>t. uint startS + int i * uint interval \<le> t \<and> t < uint endS \<and> 0 < left \<longrightarrow>
        length (filter (\<lambda>(s, e). uint s \<le> t \<and> t < uint e)
          (ingester_ranges startS endS interval i left)) = 1)"
  using assms
proof (induction left arbitrary: i)
  case 0
  then show ?case by simp
next
  case (Suc left)
  let ?a = "\<lambda>k. uint startS + int k * uint interval"
  let ?s = "startS + of_nat i * interval"
  show ?case
  proof (cases "endS \<le> ?s")
    case True
    then show ?thesis using Suc.prems(1) by (auto simp: word_le_def)
  next
    case False
    then have lt: "?a i < uint endS" using Suc.prems(1) by (simp add: word_le_def)
    then have b: "?a (Suc i) < 2 ^ 32" using Suc.prems(2) by simp
    have e: "uint (?s + interval) = ?a (Suc i)"
      using b Suc.prems(1) by (simp add: uint_word_ariths algebra_simps mod_pos_pos_trivial)
    have s: "startS + of_nat (Suc i) * interval = ?s + interval" by (simp add: algebra_simps)
    note ih = Suc.IH [of "Suc i", unfolded s e, OF refl]
    have rest: "(\<forall>(s, e)\<in>set (ingester_ranges startS endS interval (Suc i) left). ?a (Suc i) \<le> uint s)
      \<and> (\<forall>t. ?a (Suc i) \<le> t \<and> t < uint endS \<and> 0 < left \<longrightarrow>
        length (filter (\<lambda>(s, e). uint s \<le> t \<and> t < uint e)
          (ingester_ranges startS endS interval (Suc i) left)) = 1)"
      using ih Suc.prems(2) by simp
    have none: "filter (\<lambda>(s, e). uint s \<le> t \<and> t < uint e)
        (ingester_ranges startS endS interval (Suc i) left) = []" if "t < ?a (Suc i)" for t
      using rest that by (fastforce simp: filter_empty_conv)
    have past: "ingester_ranges startS endS interval (Suc i) left = []" if "endS \<le> ?s + interval"
      using that by (cases left) (simp_all add: Let_def algebra_simps)
    have le: "endS \<le> ?s + interval \<longleftrightarrow> uint endS \<le> ?a (Suc i)" by (simp add: word_le_def e)
    have step: "ingester_ranges startS endS interval i (Suc left) =
      (?s, if endS \<le> ?s + interval \<or> left = 0 then endS else ?s + interval)
        # ingester_ranges startS endS interval (Suc i) left"
      using False by (simp add: Let_def)
    have "length (filter (\<lambda>(s, e). uint s \<le> t \<and> t < uint e)
        (ingester_ranges startS endS interval i (Suc left))) = 1"
      if t: "?a i \<le> t" "t < uint endS" for t
    proof (cases "endS \<le> ?s + interval \<or> left = 0")
      case True
      then have "ingester_ranges startS endS interval (Suc i) left = []" using past by auto
      then show ?thesis unfolding step using True t Suc.prems(1) by simp
    next
      case False
      show ?thesis
      proof (cases "t < ?a (Suc i)")
        case True
        then show ?thesis unfolding step using False t Suc.prems(1) none [OF True] e by simp
      next
        case ge: False
        then show ?thesis unfolding step using False t e rest by simp
      qed
    qed
    moreover have "?a i \<le> ?a (Suc i)" by (simp add: algebra_simps)
    then have "\<forall>(s, e)\<in>set (ingester_ranges startS endS interval i (Suc left)). ?a i \<le> uint s"
      unfolding step using rest Suc.prems(1) by fastforce
    ultimately show ?thesis by blast
  qed
qed

lemma length_ingester_ranges: "length (ingester_ranges startS endS interval i left) \<le> left"
  by (induction startS endS interval i left rule: ingester_ranges.induct) (auto simp: Let_def)

text \<open>Sub-ranges of at least a minute never leave the range of 32 bits, if the end does not come
  within a minute of it.\<close>

lemma ingester_ranges_cover:
  assumes "0 < shards" and "shards < 2 ^ 32" and "startS < endS" and "uint endS + 60 \<le> 2 ^ 32"
    and "uint startS \<le> t" and "t < uint endS"
  shows "length (filter (\<lambda>(s, e). uint s \<le> t \<and> t < uint e) (ingester_ranges startS endS
    (ingester_interval (endS - startS) shards) 0 (nat shards))) = 1"
proof -
  let ?iv = "ingester_interval (endS - startS) shards"
  have w: "uint (word_of_int shards :: u32) = shards"
    using assms(1,2) by (simp add: uint_word_of_int take_bit_int_eq_self)
  have d: "uint (endS - startS) = uint endS - uint startS"
    using assms(3) by (simp add: uint_sub_if' word_less_def)
  have q: "uint ((endS - startS) div word_of_int shards) = (uint endS - uint startS) div shards"
    by (simp add: uint_div_distrib w d)
  have iv: "uint ?iv = (if (uint endS - uint startS) div shards < 60 then 60
      else (uint endS - uint startS) div shards)"
    by (simp add: ingester_interval_def Let_def word_less_def q)
  have "uint startS + int (Suc k) * uint ?iv < 2 ^ 32"
    if k: "k < 0 + nat shards" and a: "uint startS + int k * uint ?iv < uint endS" for k
  proof (cases "(uint endS - uint startS) div shards < 60")
    case True
    then show ?thesis using a assms(4) iv by (simp add: algebra_simps)
  next
    case False
    have "int (Suc k) * ((uint endS - uint startS) div shards)
        \<le> shards * ((uint endS - uint startS) div shards)"
      using k assms(3) False by (intro mult_right_mono) auto
    also have "\<dots> \<le> uint endS - uint startS"
      using assms(1) by (simp add: minus_mod_eq_mult_div [symmetric])
    finally show ?thesis using iv False assms(4) by simp
  qed
  then show ?thesis
    using ingester_ranges_exact [of startS 0 ?iv "nat shards" endS] assms(1,5,6) by simp
qed

subsection \<open>Block ids as text\<close>

lemma uuid_bytes_inj: "uuid_bytes u = uuid_bytes v \<longleftrightarrow> u = v"
proof
  assume e: "uuid_bytes u = uuid_bytes v"
  have b: "ucast (drop_bit (8 * k) u) = (ucast (drop_bit (8 * k) v) :: byte)" if "k < 16" for k
  proof -
    have "uuid_bytes u ! (15 - k) = uuid_bytes v ! (15 - k)" by (simp only: e)
    moreover have "[0..<16] ! (15 - k) = 15 - k" "15 - (15 - k) = k"
      using nth_upt [of 0 "15 - k" 16] that by simp_all
    ultimately show ?thesis using that by (simp add: uuid_bytes_def)
  qed
  show "u = v"
  proof (rule bit_word_eqI)
    fix n assume "n < LENGTH(128)"
    then have "n div 8 < 16" by simp
    then have "bit (ucast (drop_bit (8 * (n div 8)) u) :: byte) (n mod 8)
        = bit (ucast (drop_bit (8 * (n div 8)) v) :: byte) (n mod 8)" by (simp only: b)
    then show "bit u n = bit v n" by (simp add: bit_ucast_iff bit_drop_bit_eq)
  qed
qed simp

lemma length_uuid_bytes [simp]: "length (uuid_bytes u) = 16"
  by (simp add: uuid_bytes_def)

lemma uuid_string_inj: "uuid_string u = uuid_string v \<longleftrightarrow> u = v"
proof
  assume e: "uuid_string u = uuid_string v"
  let ?h = "\<lambda>u. hex_encode (uuid_bytes u)"
  have split: "?h u = take 8 (?h u) @ take 4 (drop 8 (?h u)) @ take 4 (drop 12 (?h u))
      @ take 4 (drop 16 (?h u)) @ drop 20 (?h u)" for u
    by (simp add: append_take_drop_id flip: append_assoc take_add drop_drop)
  have "take 8 (?h u) = take 8 (?h v)" "take 4 (drop 8 (?h u)) = take 4 (drop 8 (?h v))"
    "take 4 (drop 12 (?h u)) = take 4 (drop 12 (?h v))"
    "take 4 (drop 16 (?h u)) = take 4 (drop 16 (?h v))" "drop 20 (?h u) = drop 20 (?h v)"
    using e by (simp_all add: uuid_string_def Let_def)
  then have "?h u = ?h v" by (metis split)
  then have "hex_decode (?h u) = hex_decode (?h v)" by simp
  then show "u = v" by (simp add: uuid_bytes_inj)
qed simp

lemma hex_digit_no_colon: "n < 16 \<Longrightarrow> hex_digit n \<noteq> CHR '':''"
  by (rule all_below_16 [where n = n]) (simp_all add: upt_conv_Cons hex_digit_def)

lemma hex_encode_no_colon: "CHR '':'' \<notin> set (hex_encode bs)"
proof (induction bs)
  case (Cons b bs)
  have "unat b < 256" using byte_less [of b] .
  then have "unat b div 16 < 16" by simp
  then show ?case using Cons hex_digit_no_colon by (metis hex_encode.simps(2) mod_less_divisor
        set_ConsD zero_less_numeral)
qed simp

lemma uuid_string_no_colon: "CHR '':'' \<notin> set (uuid_string u)"
  using hex_encode_no_colon [of "uuid_bytes u"]
  by (auto simp: uuid_string_def Let_def dest: in_set_takeD in_set_dropD)

subsection \<open>The plan as a whole\<close>

text \<open>What \<open>New\<close> checks of the configuration, and sizes that fit their fields.\<close>

definition checked_config :: "search_config \<Rightarrow> bool" where
  "checked_config cfg \<longleftrightarrow> 0 < TargetBytesPerRequest cfg \<and> TargetBytesPerRequest cfg < 2 ^ 32
     \<and> 0 < MostRecentShards cfg \<and> 0 < IngesterShards cfg \<and> IngesterShards cfg < 2 ^ 32"

definition good_blocks :: "search_block list \<Rightarrow> bool" where
  "good_blocks bs \<longleftrightarrow> distinct (map BlockID bs)
     \<and> (\<forall>b\<in>set bs. uint (SizeBytes b) < 2 ^ 63 \<and> 0 \<le> EndTime b)"

text \<open>The request reads this page of the block.\<close>

definition request_scans :: "search_block \<Rightarrow> int \<Rightarrow> backend_request \<Rightarrow> bool" where
  "request_scans b p r \<longleftrightarrow> ReqBlockID r = uuid_string (BlockID b)
     \<and> uint (StartPage r) \<le> p \<and> p < uint (StartPage r) + uint (PagesToSearch r)"

lemma set_blockMetasForSearch: "set (blockMetasForSearch bs s e f) =
    {b \<in> set bs. StartTime b \<le> e \<and> s \<le> EndTime b \<and> f b}"
  by (auto simp: blockMetasForSearch_def)

lemma plannable_blocks:
  assumes "good_blocks bs" and "0 < target" and "target < 2 ^ 63"
  shows "plannable target (blockMetasForSearch bs s e f)"
proof -
  let ?key = "\<lambda>m :: search_block. (- EndTime m, uuid_string (BlockID m))"
  have "sorted (map ?key (blockMetasForSearch bs s e f))"
    by (simp add: blockMetasForSearch_def)
  then have "sorted_wrt (\<lambda>a b. EndTime b \<le> EndTime a) (blockMetasForSearch bs s e f)"
    unfolding sorted_map by (rule sorted_wrt_mono_rel [rotated]) (auto simp: less_eq_prod_def)
  moreover have "distinct bs" using assms(1) by (auto simp: good_blocks_def distinct_map)
  then have "distinct (blockMetasForSearch bs s e f)" by (simp add: blockMetasForSearch_def)
  ultimately show ?thesis
    using assms by (auto simp: plannable_def good_blocks_def set_blockMetasForSearch)
qed

lemma pagesPerRequest_fits:
  assumes "0 < target" and "target < 2 ^ 32" and "uint (SizeBytes b) < 2 ^ 63"
  shows "0 \<le> pagesPerRequest b target \<and> pagesPerRequest b target < 2 ^ 32"
proof
  show "0 \<le> pagesPerRequest b target"
    using assms by (intro pagesPerRequest_nonneg) auto
  define q where "q = SizeBytes b div ucast (TotalRecords b)"
  have q: "sint q = uint q"
    using assms(3) uint_div_le [of "SizeBytes b" "ucast (TotalRecords b)"]
    by (intro sint_small) (simp add: q_def)
  have "target sdiv uint q < 2 ^ 32" if "q \<noteq> 0"
  proof -
    have p: "0 < uint q" using that uint_ge_0 [of q] by (metis order_le_less uint_0_iff)
    then have "target sdiv uint q = target div uint q"
      using sdiv_nonneg [of target "uint q"] assms(1) by simp
    also have "\<dots> \<le> target div 1" using p assms(1) by (intro zdiv_mono2) auto
    finally show ?thesis using assms(2) by simp
  qed
  then show "pagesPerRequest b target < 2 ^ 32"
    using uint_lt2p [of "TotalRecords b"] assms(2)
    unfolding pagesPerRequest_def q_def [symmetric] Let_def q by (auto simp: q)
qed

lemma built_requests:
  assumes "scanned target (set blocks) js" and "0 < target" and "target < 2 ^ 32"
    and "good_blocks bs" and "set blocks \<subseteq> set bs" and "b \<in> set bs"
  shows "length (filter (request_scans b p) (buildBackendRequests canonical tn req k js))
    = length (filter (\<lambda>j. jobBlock j = b \<and> covers j p) js)"
proof -
  have same: "uuid_string (BlockID (jobBlock j)) = uuid_string (BlockID b)
      \<and> uint (word_of_int (startPage j) :: u32) \<le> p
      \<and> p < uint (word_of_int (startPage j) :: u32) + uint (word_of_int (pages j) :: u32)
    \<longleftrightarrow> jobBlock j = b \<and> covers j p" if "j \<in> set js" for j
  proof -
    have j: "jobBlock j \<in> set bs" "job_of target j"
      using assms(1,5) that by (auto simp: scanned_def)
    have "uint (word_of_int (startPage j) :: u32) = startPage j"
      using j(2) order_less_trans [OF _ uint_lt2p [of "TotalRecords (jobBlock j)"]]
      by (simp add: job_of_def uint_word_of_int take_bit_int_eq_self)
    moreover have "uint (word_of_int (pages j) :: u32) = pages j"
      using j pagesPerRequest_fits [OF assms(2,3), of "jobBlock j"] assms(4)
      by (simp add: job_of_def good_blocks_def uint_word_of_int take_bit_int_eq_self)
    moreover have "BlockID (jobBlock j) = BlockID b \<longleftrightarrow> jobBlock j = b"
      using j(1) assms(4,6) by (auto simp: good_blocks_def distinct_map dest: inj_onD)
    ultimately show ?thesis by (auto simp: uuid_string_inj covers_def)
  qed
  show ?thesis
    unfolding buildBackendRequests_def Let_def filter_map length_map comp_def request_scans_def
    by (intro arg_cong [of _ _ length] filter_cong refl) (simp add: same)
qed

text \<open>The two passes of \<open>backendRequests\<close>, over the blocks that overlap the backend's range.\<close>

definition backend_blocks :: "search_config \<Rightarrow> time \<Rightarrow> search_block list \<Rightarrow> search_request \<Rightarrow> search_block list" where
  "backend_blocks cfg now bs req =
     (let (s, e) = backendRange now (Start req) (End req) (QueryBackendAfter cfg)
      in if Start req = 0 \<or> End req = 0 \<or> s = e then []
         else blockMetasForSearch bs (uint s * 1000000000) (uint e * 1000000000) acceptAllBlocks)"

lemma backendRequests_exact:
  assumes "checked_config cfg" and "good_blocks bs" and "backendReqs resp = []"
  shows "\<exists>plan shards js. backendRequests cfg now canonical tn bs req resp = Some plan
    \<and> ingesterReqs plan = ingesterReqs resp
    \<and> planShards plan = planShards resp @ map (\<lambda>s. \<lparr>ShardTotalJobs = word_of_int (shardJobs s),
        CompletedThroughSeconds = completedThrough s\<rparr>) shards
    \<and> backendReqs plan = buildBackendRequests canonical tn req (int (length (planShards resp))) js
    \<and> scanned (TargetBytesPerRequest cfg) (set (backend_blocks cfg now bs req)) js
    \<and> (\<forall>j\<in>set js. 0 \<le> jobShard j \<and> jobShard j < int (length shards))
    \<and> (\<forall>i<length shards. shardJobs (shards ! i) = jobs_of_shard (int i) js)
    \<and> later_blocks_older {} shards js"
proof -
  obtain s e where range: "backendRange now (Start req) (End req) (QueryBackendAfter cfg) = (s, e)"
    by fastforce
  let ?t = "TargetBytesPerRequest cfg"
  show ?thesis
  proof (cases "Start req = 0 \<or> End req = 0 \<or> s = e")
    case True
    then have "backendRequests cfg now canonical tn bs req resp = Some resp"
      by (auto simp: backendRequests_def range)
    moreover have "backend_blocks cfg now bs req = []" using True by (simp add: backend_blocks_def range)
    ultimately show ?thesis using assms(3)
      by (intro exI [of _ resp] exI [of _ "[]"])
        (simp add: buildBackendRequests_def Let_def scanned_def later_blocks_older_def)
  next
    case False
    let ?bs = "blockMetasForSearch bs (uint s * 1000000000) (uint e * 1000000000) acceptAllBlocks"
    have "plannable ?t ?bs"
      using assms(1,2) by (intro plannable_blocks) (auto simp: checked_config_def)
    then obtain shards js where
      iter: "backendJobsFunc ?bs ?t (MostRecentShards cfg) (End req) CountShards = Some (shards, [])"
        "backendJobsFunc ?bs ?t (MostRecentShards cfg) (End req) EmitJobs = Some ([], js)"
      and facts: "scanned ?t (set ?bs) js"
        "\<forall>j\<in>set js. 0 \<le> jobShard j \<and> jobShard j < int (length shards)"
        "\<forall>i<length shards. shardJobs (shards ! i) = jobs_of_shard (int i) js"
        "later_blocks_older {} shards js"
      using backendJobsFunc_exact by blast
    have "backend_blocks cfg now bs req = ?bs" using False by (simp add: backend_blocks_def range)
    then show ?thesis using False iter facts
      by (intro exI [of _ shards] exI [of _ js] exI)
        (auto simp: backendRequests_def range Let_def)
  qed
qed

text \<open>A request that is accepted, taken apart.\<close>

lemma search_RoundTrip_accepted:
  assumes "search_RoundTrip cfg skip maxD canonical blocks now now' parsed (Some tn) = Some (Inr plan)"
  obtains req shards reqs where "checked_range req" and "Start req = Start parsed" and "End req = End parsed"
    and "ingesterRequests cfg now req = Inr (shards, reqs)"
    and "backendRequests cfg now' canonical tn (blocks tn) req \<lparr>ingesterReqs = reqs, backendReqs = [],
      planShards = shards, planBlocks = 0, planJobs = int (length reqs), planBytes = 0\<rparr> = Some plan"
proof -
  obtain limit where lt: "adjustLimit (Limit parsed) (DefaultLimit cfg) (MaxLimit cfg) = Some limit"
    "checked_range parsed"
    using assms by (auto simp: search_RoundTrip_def Let_def split: if_splits option.splits)
  let ?req = "parsed\<lparr>SkipASTTransformations :=
    mergeSkipASTTransformations skip (SkipASTTransformations parsed), Limit := limit\<rparr>"
  obtain r where r: "ingesterRequests cfg now ?req = r" by blast
  have "\<exists>x. r = Inr x"
    using assms by (cases r) (auto simp: search_RoundTrip_def Let_def lt r split: if_splits)
  then obtain shards reqs where i: "r = Inr (shards, reqs)" by auto
  have "backendRequests cfg now' canonical tn (blocks tn) ?req \<lparr>ingesterReqs = reqs, backendReqs = [],
      planShards = shards, planBlocks = 0, planJobs = int (length reqs), planBytes = 0\<rparr> = Some plan"
    using assms by (auto simp: search_RoundTrip_def Let_def lt r i bind_eq_Some_conv split: if_splits)
  then show thesis using that [of ?req shards reqs] lt r i by (simp add: checked_range_def)
qed

lemma ingesterRequests_shards:
  assumes "ingesterRequests cfg now req = Inr (shards, reqs)"
  shows "shards = [] \<and> reqs = [] \<or> (\<exists>c. shards = [\<lparr>ShardTotalJobs = of_nat (length reqs),
    CompletedThroughSeconds = c\<rparr>] \<and> (c = TimestampNever \<or> c = 1 \<and> (Start req = 0 \<or> End req = 0)))"
  using assms by (auto simp: ingesterRequests_def Let_def split: if_splits)

lemma uint_seconds: "0 \<le> s \<Longrightarrow> s < 2 ^ 32 \<Longrightarrow> uint (word_of_int s :: u32) = s"
  by (simp add: uint_word_of_int take_bit_int_eq_self)

text \<open>Whatever is not left to the ingesters is in the backend's range.\<close>

lemma ingester_part:
  assumes "ingesterRequests cfg now req = Inr (shards, reqs)" and "0 < IngesterShards cfg"
    and "IngesterShards cfg < 2 ^ 32" and "checked_range req" and "uint (End req) + 60 \<le> 2 ^ 32"
    and "u = (word_of_int (unix (now - QueryBackendAfter cfg)) :: u32)"
    and "uint (Start req) \<le> t" and "t < uint (End req)" and "uint u \<le> t \<or> Start req = 0"
  shows "length (filter (\<lambda>r. uint (Start r) \<le> t \<and> t < uint (End r)) reqs) = 1"
proof (cases "Start req = 0 \<or> End req = 0")
  case True
  then show ?thesis using assms(1,7,8) by (auto simp: ingesterRequests_def)
next
  case False
  let ?s = "if Start req < u then u else Start req"
  have "\<not> End req < u" "?s < End req" "uint ?s \<le> t"
    using assms(4,7-9) False by (auto simp: word_less_def)
  moreover from this have "length (filter (\<lambda>(s, e). uint s \<le> t \<and> t < uint e) (ingester_ranges ?s (End req)
      (ingester_interval (End req - ?s) (IngesterShards cfg)) 0 (nat (IngesterShards cfg)))) = 1"
    by (intro ingester_ranges_cover assms)
  moreover have "(word_of_int (IngesterShards cfg) :: u32) \<noteq> 0"
    using uint_seconds [of "IngesterShards cfg"] assms(2,3) by (metis order_less_imp_le less_irrefl unsigned_0)
  ultimately show ?thesis
    using assms(1) False
    by (auto simp: ingesterRequests_def Let_def assms(6) [symmetric] filter_map comp_def
        case_prod_unfold split: if_splits)
qed

lemma backend_part:
  assumes "u = (word_of_int (unix (now - QueryBackendAfter cfg)) :: u32)" and "t < uint u"
    and "uint (Start req) \<le> t" and "t < uint (End req)" and "Start req \<noteq> 0"
    and "b \<in> set bs" and "StartTime b \<le> t * 1000000000" and "t * 1000000000 \<le> EndTime b"
  shows "b \<in> set (backend_blocks cfg now bs req)"
proof -
  have "backendRange now (Start req) (End req) (QueryBackendAfter cfg)
      = (Start req, if u < End req then u else End req)"
    using assms(1-3) by (simp add: backendRange_def Let_def word_less_def)
  moreover have "Start req \<noteq> (if u < End req then u else End req)" "End req \<noteq> 0"
    using assms(2-4) order_trans [OF uint_ge_0 assms(3)] by (auto simp: word_less_def)
  moreover have "t \<le> uint (if u < End req then u else End req)" using assms(2,4) by auto
  ultimately show ?thesis using assms(3,5-8)
    by (auto simp: backend_blocks_def set_blockMetasForSearch acceptAllBlocks_def)
qed


subsection \<open>Shards and requests\<close>

text \<open>The shard with which the response to each request comes back: 0 for the ingesters.\<close>

definition response_shards :: "search_plan \<Rightarrow> int list" where
  "response_shards plan = map (\<lambda>_. 0) (ingesterReqs plan) @ map ResponseData (backendReqs plan)"

lemma count_response_shards:
  "count_list (map ResponseData (buildBackendRequests canonical tn req k js)) i
    = nat (jobs_of_shard (i - k) js)"
  by (induction js) (auto simp: buildBackendRequests_def Let_def jobs_of_shard_def)

lemma count_list_replicate: "count_list (map (\<lambda>_. a) xs) b = (if a = b then length xs else 0)"
  by (induction xs) auto

lemma plan_facts:
  assumes "search_RoundTrip cfg skip maxD canonical blocks now now' parsed (Some tn) = Some (Inr plan)"
    and "checked_config cfg" and "good_blocks (blocks tn)"
  obtains req first reqs shards js where
    "planShards plan = first @ map (\<lambda>s. \<lparr>ShardTotalJobs = word_of_int (shardJobs s),
      CompletedThroughSeconds = completedThrough s\<rparr>) shards"
    and "first = [] \<and> reqs = [] \<or> (\<exists>c. first = [\<lparr>ShardTotalJobs = of_nat (length reqs),
      CompletedThroughSeconds = c\<rparr>] \<and> (c = TimestampNever \<or> js = []))"
    and "ingesterReqs plan = reqs"
    and "backendReqs plan = buildBackendRequests canonical tn req (int (length first)) js"
    and "scanned (TargetBytesPerRequest cfg) (set (backend_blocks cfg now' (blocks tn) req)) js"
    and "\<forall>j\<in>set js. 0 \<le> jobShard j \<and> jobShard j < int (length shards)"
    and "\<forall>i<length shards. shardJobs (shards ! i) = jobs_of_shard (int i) js"
    and "later_blocks_older {} shards js"
proof -
  obtain req first reqs where ing: "ingesterRequests cfg now req = Inr (first, reqs)"
    and bk: "backendRequests cfg now' canonical tn (blocks tn) req \<lparr>ingesterReqs = reqs, backendReqs = [],
      planShards = first, planBlocks = 0, planJobs = int (length reqs), planBytes = 0\<rparr> = Some plan"
    using search_RoundTrip_accepted [OF assms(1)] .
  let ?resp = "\<lparr>ingesterReqs = reqs, backendReqs = [], planShards = first, planBlocks = 0,
    planJobs = int (length reqs), planBytes = 0\<rparr>"
  obtain shards js where plan: "planShards plan = first @ map (\<lambda>s. \<lparr>ShardTotalJobs = word_of_int (shardJobs s),
      CompletedThroughSeconds = completedThrough s\<rparr>) shards"
    "ingesterReqs plan = reqs"
    "backendReqs plan = buildBackendRequests canonical tn req (int (length first)) js"
    and sc: "scanned (TargetBytesPerRequest cfg) (set (backend_blocks cfg now' (blocks tn) req)) js"
    and rest: "\<forall>j\<in>set js. 0 \<le> jobShard j \<and> jobShard j < int (length shards)"
      "\<forall>i<length shards. shardJobs (shards ! i) = jobs_of_shard (int i) js"
      "later_blocks_older {} shards js"
    using backendRequests_exact [OF assms(2,3), of ?resp now' canonical tn req] bk by auto
  have none: "js = []" if "Start req = 0 \<or> End req = 0"
    using sc that by (cases js) (auto simp: scanned_def backend_blocks_def split: prod.splits)
  show thesis
    by (rule that [OF plan(1) _ plan(2,3) sc rest])
      (use ingesterRequests_shards [OF ing] none in auto)
qed

lemma plan_announced:
  assumes "search_RoundTrip cfg skip maxD canonical blocks now now' parsed (Some tn) = Some (Inr plan)"
    and "checked_config cfg" and "good_blocks (blocks tn)" and "length (backendReqs plan) < 2 ^ 32"
  shows "(\<forall>k\<in>set (response_shards plan). 0 \<le> k \<and> k < int (length (planShards plan)))
    \<and> (\<forall>i<length (planShards plan). ShardTotalJobs (planShards plan ! i)
        = of_nat (count_list (response_shards plan) (int i)))"
proof (rule plan_facts [OF assms(1-3)])
  fix req first reqs shards js
  assume shards: "planShards plan = first @ map (\<lambda>s. \<lparr>ShardTotalJobs = word_of_int (shardJobs s),
      CompletedThroughSeconds = completedThrough s\<rparr>) shards"
    and first: "first = [] \<and> reqs = [] \<or> (\<exists>c. first = [\<lparr>ShardTotalJobs = of_nat (length reqs),
      CompletedThroughSeconds = c\<rparr>] \<and> (c = TimestampNever \<or> js = []))"
    and reqs: "ingesterReqs plan = reqs"
      "backendReqs plan = buildBackendRequests canonical tn req (int (length first)) js"
    and range: "\<forall>j\<in>set js. 0 \<le> jobShard j \<and> jobShard j < int (length shards)"
    and jobs: "\<forall>i<length shards. shardJobs (shards ! i) = jobs_of_shard (int i) js"
  have count: "count_list (response_shards plan) i
      = (if i = 0 then length reqs else 0) + nat (jobs_of_shard (i - int (length first)) js)" for i
    by (simp add: response_shards_def reqs count_response_shards count_list_replicate)
  have neg: "jobs_of_shard i js = 0" if "i < 0" for i
    using range that by (auto simp: jobs_of_shard_def filter_empty_conv)
  have "ShardTotalJobs (planShards plan ! i) = of_nat (count_list (response_shards plan) (int i))"
    if i: "i < length (planShards plan)" for i
  proof (cases "first = []")
    case True
    then have "reqs = []" using first by auto
    then show ?thesis using True i jobs shards count
      by (simp add: jobs_of_shard_def)
  next
    case False
    then obtain f where f: "first = [f]" "ShardTotalJobs f = of_nat (length reqs)" using first by auto
    show ?thesis
    proof (cases i)
      case 0
      then show ?thesis using f shards count neg by simp
    next
      case (Suc k)
      then show ?thesis using f i jobs shards count by (simp add: jobs_of_shard_def)
    qed
  qed
  moreover have "0 \<le> k \<and> k < int (length (planShards plan))" if "k \<in> set (response_shards plan)" for k
    using that range first
    by (auto simp: response_shards_def reqs shards buildBackendRequests_def Let_def)
  ultimately show ?thesis by blast
qed

lemma plan_older:
  assumes "search_RoundTrip cfg skip maxD canonical blocks now now' parsed (Some tn) = Some (Inr plan)"
    and "checked_config cfg" and "good_blocks (blocks tn)"
    and "i < length (planShards plan)" and "r \<in> set (backendReqs plan)" and "int i < ResponseData r"
    and "CompletedThroughSeconds (planShards plan ! i) \<noteq> TimestampNever"
  shows "\<exists>b\<in>set (blocks tn). ReqBlockID r = uuid_string (BlockID b)
    \<and> unix (EndTime b) \<le> uint (CompletedThroughSeconds (planShards plan ! i))"
proof (rule plan_facts [OF assms(1-3)])
  fix req first reqs shards js
  assume shards: "planShards plan = first @ map (\<lambda>s. \<lparr>ShardTotalJobs = word_of_int (shardJobs s),
      CompletedThroughSeconds = completedThrough s\<rparr>) shards"
    and first: "first = [] \<and> reqs = [] \<or> (\<exists>c. first = [\<lparr>ShardTotalJobs = of_nat (length reqs),
      CompletedThroughSeconds = c\<rparr>] \<and> (c = TimestampNever \<or> js = []))"
    and reqs: "backendReqs plan = buildBackendRequests canonical tn req (int (length first)) js"
    and sc: "scanned (TargetBytesPerRequest cfg) (set (backend_blocks cfg now' (blocks tn) req)) js"
    and older: "later_blocks_older {} shards js"
  obtain j where j: "j \<in> set js" "ReqBlockID r = uuid_string (BlockID (jobBlock j))"
    "ResponseData r = int (length first) + jobShard j"
    using assms(5) by (auto simp: reqs buildBackendRequests_def Let_def)
  have ge: "length first \<le> i"
  proof (rule ccontr)
    assume "\<not> length first \<le> i"
    then have "planShards plan ! i = first ! i" "i = 0 \<and> length first = 1"
      using first shards by (auto simp: nth_append)
    then show False using first assms(7) j(1) by auto
  qed
  define k where "k = i - length first"
  have k: "k < length shards" "planShards plan ! i = \<lparr>ShardTotalJobs = word_of_int (shardJobs (shards ! k)),
      CompletedThroughSeconds = completedThrough (shards ! k)\<rparr>" "int k < jobShard j"
    using assms(4,6) ge j(3) by (auto simp: shards nth_append k_def)
  have "unix (EndTime (jobBlock j)) \<le> uint (completedThrough (shards ! k))"
    using older k j(1) by (auto simp: later_blocks_older_def)
  moreover have "jobBlock j \<in> set (blocks tn)"
    using sc j(1) by (auto simp: scanned_def backend_blocks_def set_blockMetasForSearch
        split: prod.splits if_splits)
  ultimately show ?thesis using j(2) k(2) by auto
qed

text \<open>C25. A plan announces, shard by shard, exactly as many jobs as it sends requests, and every request
  belongs to a shard it announces: when the last response of a shard arrives the shard is complete,
  and not before.\<close>

theorem plan_announces_its_requests:
  assumes "search_RoundTrip cfg skip maxD canonical blocks now now' parsed (Some tn) = Some (Inr plan)"
    and "checked_config cfg" and "good_blocks (blocks tn)" and "length (backendReqs plan) < 2 ^ 32"
  shows "(\<forall>k\<in>set (response_shards plan). 0 \<le> k \<and> k < int (length (planShards plan)))
    \<and> (\<forall>i<length (planShards plan). ShardTotalJobs (planShards plan ! i)
        = of_nat (count_list (response_shards plan) (int i)))"
  by (rule plan_announced [OF assms])

text \<open>C28. The time a shard is announced to cover is right: a request of a later shard reads a block that
  ended no later than that second.\<close>

theorem later_shards_hold_older_blocks:
  assumes "search_RoundTrip cfg skip maxD canonical blocks now now' parsed (Some tn) = Some (Inr plan)"
    and "checked_config cfg" and "good_blocks (blocks tn)"
    and "i < length (planShards plan)" and "r \<in> set (backendReqs plan)" and "int i < ResponseData r"
    and "CompletedThroughSeconds (planShards plan ! i) \<noteq> TimestampNever"
  shows "\<exists>b\<in>set (blocks tn). ReqBlockID r = uuid_string (BlockID b)
    \<and> unix (EndTime b) \<le> uint (CompletedThroughSeconds (planShards plan ! i))"
  by (rule plan_older [OF assms])

text \<open>The sharder always comes to an end: a plan, or an error for the client.\<close>

theorem search_plan_is_always_made:
  assumes "checked_config cfg" and "\<forall>tn. good_blocks (blocks tn)"
  shows "search_RoundTrip cfg skip maxD canonical blocks now now' parsed tenant \<noteq> None"
proof -
  have bk: "\<exists>y. Option.bind (backendRequests cfg now' canonical tn (blocks tn) req
      \<lparr>ingesterReqs = reqs, backendReqs = [], planShards = shards, planBlocks = 0, planJobs = n,
        planBytes = 0\<rparr>) (\<lambda>p. Some (Inr p :: search_reject + search_plan)) = Some y" for tn req reqs shards n
    using backendRequests_exact [OF assms(1), of "blocks tn" "\<lparr>ingesterReqs = reqs, backendReqs = [],
      planShards = shards, planBlocks = 0, planJobs = n, planBytes = 0\<rparr>" now' canonical tn req] assms(2)
    by auto
  have "int (length reqs) \<le> IngesterShards cfg" if "ingesterRequests cfg now req = Inr (shards, reqs)"
    for req shards reqs
  proof -
    have "length reqs \<le> 1 \<or> length reqs \<le> nat (IngesterShards cfg)"
      using that length_ingester_ranges by (auto simp: ingesterRequests_def Let_def split: if_splits)
    then show ?thesis using assms(1) by (auto simp: checked_config_def)
  qed
  then have cap: "\<not> IngesterShards cfg + 1 < int (length reqs)"
    if "ingesterRequests cfg now req = Inr (shards, reqs)" for req shards reqs
    using that by fastforce
  show ?thesis
    by (simp add: search_RoundTrip_def Let_def bk cap split: option.splits sum.splits)
qed

lemma digits_no_colon: "CHR '':'' \<notin> set (digits_in 10 n)"
proof (rule digits_avoid)
  show "\<forall>n<16. digit_char n \<noteq> CHR '':''"
    by (intro allI impI all_below_16 [of "\<lambda>n. digit_char n \<noteq> CHR '':''"])
      (simp_all add: upt_conv_Cons digit_char_def)
qed auto

text \<open>C29. A cached result is only ever used for the job it was computed for.\<close>

theorem cache_key_determines_job:
  assumes "searchJobCacheKey tn h s e m start n = searchJobCacheKey tn' h' s' e' m' start' n'"
    and "searchJobCacheKey tn h s e m start n \<noteq> ''''"
    and "CHR '':'' \<notin> set tn" and "CHR '':'' \<notin> set tn'"
    and "0 \<le> start" and "0 \<le> start'" and "0 \<le> n" and "0 \<le> n'"
  shows "tn = tn' \<and> h = h' \<and> BlockID m = BlockID m' \<and> start = start' \<and> n = n'"
proof -
  let ?rest = "\<lambda>h m start n. digits_in 10 (unat h) @ CHR '':'' # uuid_string (BlockID m)
    @ CHR '':'' # fmt_d start @ CHR '':'' # fmt_d n"
  have no: "CHR '':'' \<notin> set (fmt_d i)" if "0 \<le> i" for i
    using that digits_no_colon by (simp add: fmt_d_def)
  have "tn @ CHR '':'' # ?rest h m start n = tn' @ CHR '':'' # ?rest h' m' start' n'"
    using assms(1,2) by (simp add: searchJobCacheKey_def cacheKey_def split: if_splits)
  then have tn: "tn = tn'" and r: "?rest h m start n = ?rest h' m' start' n'"
    unfolding cut_first [OF assms(3,4)] by simp_all
  have d: "digits_in 10 (unat h) = digits_in 10 (unat h')"
    and r: "uuid_string (BlockID m) @ CHR '':'' # fmt_d start @ CHR '':'' # fmt_d n
      = uuid_string (BlockID m') @ CHR '':'' # fmt_d start' @ CHR '':'' # fmt_d n'"
    using r unfolding cut_first [OF digits_no_colon digits_no_colon] by simp_all
  have u: "uuid_string (BlockID m) = uuid_string (BlockID m')"
    and r: "fmt_d start @ CHR '':'' # fmt_d n = fmt_d start' @ CHR '':'' # fmt_d n'"
    using r unfolding cut_first [OF uuid_string_no_colon uuid_string_no_colon] by simp_all
  have f: "fmt_d start = fmt_d start'" "fmt_d n = fmt_d n'"
    using r unfolding cut_first [OF no [OF assms(5)] no [OF assms(6)]] by simp_all
  have "value_in 10 (digits_in 10 (unat h)) = value_in 10 (digits_in 10 (unat h'))" by (simp only: d)
  then have "unat h = unat h'" by (simp add: value_in_digits)
  then have "h = h'" by (rule unsigned_word_eqI)
  then show ?thesis using tn u f assms(5-8) by (simp add: uuid_string_inj fmt_d_inj_nonneg)
qed

subsection \<open>A sample\<close>

definition sample_search_block :: "uuid \<Rightarrow> time \<Rightarrow> search_block" where
  "sample_search_block u t = \<lparr>Version = ''vParquet5'', BlockID = u, TenantID = ''t'', StartTime = t,
     EndTime = t, TotalObjects = 9, SizeBytes = 500, CompactionLevel = 0,
     DedicatedColumnsHash = 0, ReplicationFactor = 1, IndexPageSize = 0, TotalRecords = 5,
     FooterSize = 9\<rparr>"

definition sample_search_config :: search_config where
  "sample_search_config = \<lparr>TargetBytesPerRequest = 200, DefaultLimit = 20, MaxLimit = 0,
     MaxDuration = 0, QueryBackendAfter = 900 * 1000000000, IngesterShards = 3,
     MostRecentShards = 2, MaxSpansPerSpanSet = 0\<rparr>"

definition sample_blocks :: "search_block list" where
  "sample_blocks = [sample_search_block 1 (500 * 1000000000), sample_search_block 2 (700 * 1000000000)]"

definition sample_search_request :: search_request where
  "sample_search_request = \<lparr>Query = '''', Start = 400, End = 2000, Limit = 0, SpansPerSpanSet = 3,
     SkipASTTransformations = []\<rparr>"

definition sample_search :: "(search_reject + search_plan) option" where
  "sample_search = search_RoundTrip sample_search_config [] (\<lambda>_. 0) Some (\<lambda>_. sample_blocks)
     (2000 * 1000000000) (2001 * 1000000000) sample_search_request (Some ''t'')"

lemma sample_search_shape: "(case sample_search of Some (Inr plan) \<Rightarrow>
    map (\<lambda>r. (Start r, End r)) (ingesterReqs plan) = [(1100, 1400), (1400, 1700), (1700, 2000)]
    \<and> map (\<lambda>r. (StartPage r, ResponseData r)) (backendReqs plan)
        = [(0, 1), (2, 1), (4, 1), (0, 2), (2, 2), (4, 2)]
    \<and> map (\<lambda>s. (ShardTotalJobs s, CompletedThroughSeconds s)) (planShards plan)
        = [(3, TimestampNever), (3, 700), (3, 1)]
  | _ \<Rightarrow> False)"
  by code_simp
lemma sample_search_plan:
  obtains plan where "sample_search = Some (Inr plan)" and "length (backendReqs plan) = 6"
    and "map (\<lambda>r. (Start r, End r)) (ingesterReqs plan) = [(1100, 1400), (1400, 1700), (1700, 2000)]"
    and "map (\<lambda>r. (StartPage r, ResponseData r)) (backendReqs plan)
        = [(0, 1), (2, 1), (4, 1), (0, 2), (2, 2), (4, 2)]"
    and "map (\<lambda>s. (ShardTotalJobs s, CompletedThroughSeconds s)) (planShards plan)
        = [(3, TimestampNever), (3, 700), (3, 1)]"
proof -
  obtain plan where p: "sample_search = Some (Inr plan)"
    and m: "map (\<lambda>r. (Start r, End r)) (ingesterReqs plan) = [(1100, 1400), (1400, 1700), (1700, 2000)]"
      "map (\<lambda>r. (StartPage r, ResponseData r)) (backendReqs plan)
        = [(0, 1), (2, 1), (4, 1), (0, 2), (2, 2), (4, 2)]"
      "map (\<lambda>s. (ShardTotalJobs s, CompletedThroughSeconds s)) (planShards plan)
        = [(3, TimestampNever), (3, 700), (3, 1)]"
    using sample_search_shape by (auto split: option.splits sum.splits)
  show thesis by (rule that [OF p _ m]) (use arg_cong [OF m(2), of length] in simp)
qed

lemma sample_search_ok: "checked_config sample_search_config" "good_blocks sample_blocks"
  by (simp_all add: checked_config_def sample_search_config_def good_blocks_def sample_blocks_def
      sample_search_block_def)


theorem plan_announces_its_requests_witness:
  "\<exists>plan. sample_search = Some (Inr plan) \<and> (\<forall>i<3. ShardTotalJobs (planShards plan ! i)
     = of_nat (count_list (response_shards plan) (int i)))"
proof -
  obtain plan where p: "sample_search = Some (Inr plan)" "length (backendReqs plan) = 6"
    and s: "map (\<lambda>s. (ShardTotalJobs s, CompletedThroughSeconds s)) (planShards plan)
        = [(3, TimestampNever), (3, 700), (3, 1)]"
    using sample_search_plan .
  have "length (planShards plan) = 3" using arg_cong [OF s, of length] by simp
  then show ?thesis
    using plan_announces_its_requests [OF p(1) [unfolded sample_search_def] sample_search_ok] p
    by (intro exI [of _ plan]) simp
qed

theorem later_shards_hold_older_blocks_witness:
  "\<exists>plan. sample_search = Some (Inr plan) \<and> (\<exists>b\<in>set sample_blocks.
     ReqBlockID (backendReqs plan ! 3) = uuid_string (BlockID b) \<and> unix (EndTime b) \<le> 700)"
proof -
  obtain plan where p: "sample_search = Some (Inr plan)" "length (backendReqs plan) = 6"
    and b: "map (\<lambda>r. (StartPage r, ResponseData r)) (backendReqs plan)
        = [(0, 1), (2, 1), (4, 1), (0, 2), (2, 2), (4, 2)]"
    and s: "map (\<lambda>s. (ShardTotalJobs s, CompletedThroughSeconds s)) (planShards plan)
        = [(3, TimestampNever), (3, 700), (3, 1)]"
    using sample_search_plan .
  have l: "length (planShards plan) = 3" using arg_cong [OF s, of length] by simp
  have "ResponseData (backendReqs plan ! 3) = 2" using arg_cong [OF b, of "\<lambda>xs. snd (xs ! 3)"] p(2) by simp
  moreover have "CompletedThroughSeconds (planShards plan ! 1) = 700"
    using arg_cong [OF s, of "\<lambda>xs. snd (xs ! 1)"] l by simp
  ultimately show ?thesis
    using later_shards_hold_older_blocks [OF p(1) [unfolded sample_search_def] sample_search_ok,
        of 1 "backendReqs plan ! 3"] p l
    by (intro exI [of _ plan]) (simp add: TimestampNever_def)
qed

theorem search_plan_is_always_made_witness:
  "search_RoundTrip sample_search_config [] (\<lambda>_. 0) Some (\<lambda>_. sample_blocks) 5 6
     sample_search_request None \<noteq> None"
  using sample_search_ok by (intro search_plan_is_always_made) auto

theorem cache_key_determines_job_witness:
  "\<not> (searchJobCacheKey ''t'' 7 0 9 (sample_search_block 1 5) 2 10
      = searchJobCacheKey ''t'' 7 0 9 (sample_search_block 1 5) 21 0)"
proof
  assume "searchJobCacheKey ''t'' 7 0 9 (sample_search_block 1 5) 2 10
      = searchJobCacheKey ''t'' 7 0 9 (sample_search_block 1 5) 21 0"
  moreover have "searchJobCacheKey ''t'' 7 0 9 (sample_search_block 1 5) 2 10 \<noteq> ''''"
    by (simp add: searchJobCacheKey_def cacheKey_def sample_search_block_def)
  ultimately have "(2 :: int) = 21" using cache_key_determines_job by fastforce
  then show False by simp
qed

text \<open>\<open>New\<close> accepts any number of ingester shards. With none, each search whose range reaches the
  ingesters divides by zero.\<close>

theorem no_ingester_shards_panics:
  "search_RoundTrip (sample_search_config\<lparr>IngesterShards := 0\<rparr>) [] (\<lambda>_. 0) Some (\<lambda>_. sample_blocks)
     (2000 * 1000000000) (2001 * 1000000000) sample_search_request (Some ''t'') = Some (Inl Panics)"
  by code_simp

end
