(* ===== verification/SearchCombine.thy ===== *)
theory SearchCombine
  imports SearchPlan "HOL-Library.AList"
begin

section \<open>Combining search results (pkg/traceql/combine.go, modules/frontend/combiner)\<close>

text \<open>
  Models what the frontend does with the responses of the jobs of a search: the metadata combiner
  that keeps one result per trace (\<open>anyCombiner\<close> keeps any \<open>limit\<close> of them, \<open>mostRecentCombiner\<close>
  the newest), the tracker that knows up to which second the search is complete
  (\<open>modules/frontend/shardtracker\<close>), and the combiner of \<open>NewSearch\<close> inside the
  \<open>genericCombiner\<close> that every response goes through.

  Results are shared by reference: the map and the sorted list of a combiner hold pointers to the
  same objects, and merging a result, or preparing results for the client, changes them in
  place. \<open>objs\<close> is the store of these objects, a pointer is an index into it. Go maps with
  string keys are association lists, so that their length can be read off.
\<close>

subsection \<open>Search results\<close>

text \<open>An attribute is its key and the text of its value (\<open>Value.String()\<close>); spans are named by
  their ids.\<close>

record search_spanset =
  Matched :: u32
  Attributes :: "(string \<times> string) list"
  SpanIDs :: "string list"

record span_stats =
  StatSpanCount :: u32
  StatErrorCount :: u32

record trace_meta =
  TraceID :: string
  RootServiceName :: string
  RootTraceName :: string
  StartTimeUnixNano :: u64
  DurationMs :: u32
  SpanSet :: "search_spanset option"
  SpanSets :: "search_spanset list"
  ServiceStats :: "string \<rightharpoonup> span_stats"

definition spansetID :: "search_spanset \<Rightarrow> string" where
  "spansetID ss = concat (map (\<lambda>(k, v). if prefix ''by'' k then k @ v else '''') (Attributes ss))"

definition combineSpansets :: "search_spanset \<Rightarrow> search_spanset \<Rightarrow> search_spanset" where
  "combineSpansets existing incoming =
     (if Matched incoming \<le> Matched existing then existing
      else existing\<lparr>Matched := Matched incoming, Attributes := Attributes incoming,
        SpanIDs := SpanIDs incoming\<rparr>)"

text \<open>\<open>existingSS\<close>: the last span set with this id.\<close>

fun last_with_id :: "string \<Rightarrow> search_spanset list \<Rightarrow> nat option" where
  "last_with_id i [] = None"
| "last_with_id i (ss # sss) =
     (case last_with_id i sss of
        Some k \<Rightarrow> Some (Suc k)
      | None \<Rightarrow> if spansetID ss = i then Some 0 else None)"

definition combine_span_sets ::
  "search_spanset list \<Rightarrow> search_spanset list \<Rightarrow> search_spanset list" where
  "combine_span_sets existing incoming =
     foldl (\<lambda>sss ss. case last_with_id (spansetID ss) existing of
         None \<Rightarrow> sss @ [ss]
       | Some k \<Rightarrow> sss[k := combineSpansets (sss ! k) ss]) existing incoming"

definition combine_stats :: "span_stats option \<Rightarrow> span_stats \<Rightarrow> span_stats" where
  "combine_stats existing incoming =
     (let e = (case existing of None \<Rightarrow> \<lparr>StatSpanCount = 0, StatErrorCount = 0\<rparr> | Some e \<Rightarrow> e)
      in \<lparr>StatSpanCount = max (StatSpanCount e) (StatSpanCount incoming),
          StatErrorCount = max (StatErrorCount e) (StatErrorCount incoming)\<rparr>)"

definition combineSearchResults :: "trace_meta \<Rightarrow> trace_meta \<Rightarrow> trace_meta" where
  "combineSearchResults existing incoming =
     (let sets = combine_span_sets (SpanSets existing) (SpanSets incoming) in
      \<lparr>TraceID = (if TraceID existing = '''' then TraceID incoming else TraceID existing),
       RootServiceName = (if RootServiceName existing = '''' then RootServiceName incoming
         else RootServiceName existing),
       RootTraceName = (if RootTraceName existing = '''' then RootTraceName incoming
         else RootTraceName existing),
       StartTimeUnixNano = (if StartTimeUnixNano incoming < StartTimeUnixNano existing
           \<or> StartTimeUnixNano existing = 0
         then StartTimeUnixNano incoming else StartTimeUnixNano existing),
       DurationMs = (if DurationMs existing < DurationMs incoming \<or> DurationMs existing = 0
         then DurationMs incoming else DurationMs existing),
       SpanSet = (if sets \<noteq> [] then Some (hd sets) else SpanSet existing),
       SpanSets = sets,
       ServiceStats = (\<lambda>service. case ServiceStats incoming service of
           None \<Rightarrow> ServiceStats existing service
         | Some st \<Rightarrow> Some (combine_stats (ServiceStats existing service) st))\<rparr>)"

subsection \<open>anyCombiner\<close>

record any_combiner =
  anyObjs :: "trace_meta list"
  anyTrs :: "(string \<times> nat) list"
  limit :: int

definition newAnyCombiner :: "int \<Rightarrow> any_combiner" where
  "newAnyCombiner lim = \<lparr>anyObjs = [], anyTrs = [], limit = lim\<rparr>"

definition any_Count :: "any_combiner \<Rightarrow> int" where
  "any_Count c = int (length (anyTrs c))"

definition any_IsCompleteFor :: "any_combiner \<Rightarrow> u32 \<Rightarrow> bool" where
  "any_IsCompleteFor c ts \<longleftrightarrow> limit c \<le> any_Count c \<and> 0 < limit c"

definition any_AddMetadata :: "any_combiner \<Rightarrow> trace_meta \<Rightarrow> any_combiner \<times> bool" where
  "any_AddMetadata c meta =
     (case map_of (anyTrs c) (TraceID meta) of
        Some p \<Rightarrow> (c\<lparr>anyObjs := (anyObjs c)[p := combineSearchResults (anyObjs c ! p) meta]\<rparr>, True)
      | None \<Rightarrow>
          if any_IsCompleteFor c 0 then (c, False)
          else (c\<lparr>anyObjs := anyObjs c @ [meta],
                  anyTrs := AList.update (TraceID meta) (length (anyObjs c)) (anyTrs c)\<rparr>, True))"

text \<open>\<open>addSpanset\<close>: the conversion of a span set (\<open>asTraceSearchMetadata\<close>) is only made when the
  result is going to be used. \<open>traceID\<close> is the hexadecimal trace id.\<close>

definition any_addSpanset ::
  "('s \<Rightarrow> trace_meta) \<Rightarrow> ('s \<Rightarrow> bytes) \<Rightarrow> any_combiner \<Rightarrow> 's \<Rightarrow> any_combiner" where
  "any_addSpanset asTraceSearchMetadata traceID c ss =
     (if map_of (anyTrs c) (TraceIDToHexString (traceID ss)) \<noteq> None
      then fst (any_AddMetadata c (asTraceSearchMetadata ss))
      else if any_IsCompleteFor c 0 then c
      else fst (any_AddMetadata c (asTraceSearchMetadata ss)))"

text \<open>\<open>Metadata\<close>: the pointers, in the order \<open>ks\<close> in which the map is visited, sorted by start.\<close>

definition any_Metadata :: "string list \<Rightarrow> any_combiner \<Rightarrow> nat list" where
  "any_Metadata ks c = sort_key (\<lambda>p. - uint (StartTimeUnixNano (anyObjs c ! p)))
     (map (\<lambda>k. the (map_of (anyTrs c) k)) ks)"

subsection \<open>mostRecentCombiner\<close>

record most_recent =
  objs :: "trace_meta list"
  trs :: "(string \<times> nat) list"
  trsSorted :: "nat list"
  keepMostRecent :: int

definition newMostRecentCombiner :: "int \<Rightarrow> most_recent" where
  "newMostRecentCombiner lim = \<lparr>objs = [], trs = [], trsSorted = [], keepMostRecent = lim\<rparr>"

definition recent_Count :: "most_recent \<Rightarrow> int" where
  "recent_Count c = int (length (trs c))"

definition OldestTimestampNanos :: "most_recent \<Rightarrow> u64" where
  "OldestTimestampNanos c =
     (if trsSorted c = [] then 0 else StartTimeUnixNano (objs c ! last (trsSorted c)))"

definition evict_oldest :: "most_recent \<Rightarrow> most_recent" where
  "evict_oldest c =
     (let oldest = trsSorted c ! (length (trs c) - 1)
      in c\<lparr>trs := AList.delete (TraceID (objs c ! oldest)) (trs c),
           trsSorted := butlast (trsSorted c)\<rparr>)"

text \<open>\<open>slices.Insert\<close>.\<close>

definition insert_at :: "nat \<Rightarrow> 'a \<Rightarrow> 'a list \<Rightarrow> 'a list" where
  "insert_at i x xs = take i xs @ x # drop i xs"

definition insert_new :: "trace_meta \<Rightarrow> most_recent \<Rightarrow> most_recent" where
  "insert_new meta c =
     (let p = length (objs c);
          idx = search (length (trsSorted c)) (\<lambda>i. \<not> StartTimeUnixNano meta
            < StartTimeUnixNano (objs c ! (trsSorted c ! i)))
      in c\<lparr>objs := objs c @ [meta], trs := AList.update (TraceID meta) p (trs c),
           trsSorted := insert_at idx p (trsSorted c)\<rparr>)"

definition recent_AddMetadata :: "most_recent \<Rightarrow> trace_meta \<Rightarrow> most_recent \<times> bool" where
  "recent_AddMetadata c meta =
     (case map_of (trs c) (TraceID meta) of
        Some p \<Rightarrow> (c\<lparr>objs := (objs c)[p := combineSearchResults (objs c ! p) meta]\<rparr>, True)
      | None \<Rightarrow>
          if recent_Count c = keepMostRecent c \<and> 0 < keepMostRecent c then
            if StartTimeUnixNano meta < OldestTimestampNanos c then (c, False)
            else (insert_new meta (evict_oldest c), True)
          else (insert_new meta c, True))"

definition recent_addSpanset ::
  "('s \<Rightarrow> trace_meta) \<Rightarrow> ('s \<Rightarrow> bytes) \<Rightarrow> ('s \<Rightarrow> u64) \<Rightarrow> most_recent \<Rightarrow> 's \<Rightarrow> most_recent" where
  "recent_addSpanset asTraceSearchMetadata traceID startNanos c ss =
     (if keepMostRecent c = 0 \<or> recent_Count c < keepMostRecent c
      then fst (recent_AddMetadata c (asTraceSearchMetadata ss))
      else if map_of (trs c) (TraceIDToHexString (traceID ss)) \<noteq> None
      then fst (recent_AddMetadata c (asTraceSearchMetadata ss))
      else if OldestTimestampNanos c \<le> startNanos ss
      then fst (recent_AddMetadata c (asTraceSearchMetadata ss))
      else c)"

definition recent_IsCompleteFor :: "most_recent \<Rightarrow> u32 \<Rightarrow> bool" where
  "recent_IsCompleteFor c ts \<longleftrightarrow> ts \<noteq> TimestampNever \<and> \<not> recent_Count c < keepMostRecent c
     \<and> ucast ts * 1000000000 < OldestTimestampNanos c"

definition recent_MetadataAfter :: "most_recent \<Rightarrow> u32 \<Rightarrow> nat list" where
  "recent_MetadataAfter c afterSeconds =
     filter (\<lambda>p. ucast afterSeconds * 1000000000 < StartTimeUnixNano (objs c ! p)) (trsSorted c)"

text \<open>The results a combiner holds, newest first.\<close>

definition recent_results :: "most_recent \<Rightarrow> trace_meta list" where
  "recent_results c = map ((!) (objs c)) (trsSorted c)"

datatype metadata_combiner = AnyOf any_combiner | MostRecent most_recent

definition NewMetadataCombiner :: "int \<Rightarrow> bool \<Rightarrow> metadata_combiner" where
  "NewMetadataCombiner lim keepRecent =
     (if keepRecent then MostRecent (newMostRecentCombiner lim) else AnyOf (newAnyCombiner lim))"

fun AddMetadata :: "metadata_combiner \<Rightarrow> trace_meta \<Rightarrow> metadata_combiner \<times> bool" where
  "AddMetadata (AnyOf c) m = map_prod AnyOf id (any_AddMetadata c m)"
| "AddMetadata (MostRecent c) m = map_prod MostRecent id (recent_AddMetadata c m)"

fun IsCompleteFor :: "metadata_combiner \<Rightarrow> u32 \<Rightarrow> bool" where
  "IsCompleteFor (AnyOf c) ts = any_IsCompleteFor c ts"
| "IsCompleteFor (MostRecent c) ts = recent_IsCompleteFor c ts"

fun Metadata_of :: "string list \<Rightarrow> metadata_combiner \<Rightarrow> nat list" where
  "Metadata_of ks (AnyOf c) = any_Metadata ks c"
| "Metadata_of ks (MostRecent c) = trsSorted c"

fun MetadataAfter :: "string list \<Rightarrow> metadata_combiner \<Rightarrow> u32 \<Rightarrow> nat list" where
  "MetadataAfter ks (AnyOf c) ts = any_Metadata ks c"
| "MetadataAfter ks (MostRecent c) ts = recent_MetadataAfter c ts"

fun store_of :: "metadata_combiner \<Rightarrow> trace_meta list" where
  "store_of (AnyOf c) = anyObjs c"
| "store_of (MostRecent c) = objs c"

fun set_store :: "trace_meta list \<Rightarrow> metadata_combiner \<Rightarrow> metadata_combiner" where
  "set_store os (AnyOf c) = AnyOf (c\<lparr>anyObjs := os\<rparr>)"
| "set_store os (MostRecent c) = MostRecent (c\<lparr>objs := os\<rparr>)"

subsection \<open>CompletionTracker (modules/frontend/shardtracker/tracker.go)\<close>

record tracker =
  shards :: "shard_info list"
  foundResponses :: "int list"
  completedThroughSeconds :: u32
  curShard :: nat

definition new_tracker :: tracker where
  "new_tracker = \<lparr>shards = [], foundResponses = [], completedThroughSeconds = 0, curShard = 0\<rparr>"

definition grow :: "nat \<Rightarrow> int list \<Rightarrow> int list" where
  "grow n found = (if length found < n then found @ replicate (n - length found) 0 else found)"

function incrementCurShardIfComplete :: "tracker \<Rightarrow> tracker" where
  "incrementCurShardIfComplete t =
     (if length (shards t) \<le> curShard t then t\<lparr>completedThroughSeconds := 1\<rparr>
      else if foundResponses t ! curShard t = uint (ShardTotalJobs (shards t ! curShard t))
      then incrementCurShardIfComplete
        (t\<lparr>completedThroughSeconds := CompletedThroughSeconds (shards t ! curShard t),
           curShard := curShard t + 1\<rparr>)
      else t)"
  by pat_completeness auto
termination by (relation "measure (\<lambda>t. length (shards t) - curShard t)") auto

declare incrementCurShardIfComplete.simps [simp del]

definition AddShards :: "shard_info list \<Rightarrow> tracker \<Rightarrow> tracker" where
  "AddShards ss t =
     (if ss = [] then t
      else incrementCurShardIfComplete
        (t\<lparr>shards := ss, foundResponses := grow (length ss) (foundResponses t)\<rparr>))"

definition AddShardIdx :: "nat \<Rightarrow> tracker \<Rightarrow> tracker" where
  "AddShardIdx i t =
     (if shards t = [] then
        let found = grow (i + 1) (foundResponses t)
        in t\<lparr>foundResponses := found[i := found ! i + 1]\<rparr>
      else if length (foundResponses t) \<le> i then t
      else incrementCurShardIfComplete
        (t\<lparr>foundResponses := (foundResponses t)[i := foundResponses t ! i + 1]\<rparr>))"

subsection \<open>The combiner of a search (combiner/search.go, combiner/common.go)\<close>

record search_metrics =
  InspectedTraces :: u32
  InspectedBytes :: u64
  TotalBlocks :: u32
  CompletedJobs :: u32
  TotalJobs :: u32
  TotalBlockBytes :: u64
  BackendReads :: u64
  BackendBytes :: u64
  AdditionalMetrics :: "string \<rightharpoonup> u64"

definition no_metrics :: search_metrics where
  "no_metrics = \<lparr>InspectedTraces = 0, InspectedBytes = 0, TotalBlocks = 0, CompletedJobs = 0,
     TotalJobs = 0, TotalBlockBytes = 0, BackendReads = 0, BackendBytes = 0,
     AdditionalMetrics = Map.empty\<rparr>"

text \<open>The counters kept across cache hits.\<close>

definition IsCacheableAdditionalMetric :: "string \<Rightarrow> bool" where
  "IsCacheableAdditionalMetric key \<longleftrightarrow> key = ''engineBytes''"

definition mergeAdditionalMetrics ::
  "(string \<rightharpoonup> u64) \<Rightarrow> (string \<rightharpoonup> u64) \<Rightarrow> bool \<Rightarrow> (string \<rightharpoonup> u64)" where
  "mergeAdditionalMetrics dst src cacheableOnly =
     (\<lambda>k. case src k of
        None \<Rightarrow> dst k
      | Some v \<Rightarrow> if cacheableOnly \<and> \<not> IsCacheableAdditionalMetric k then dst k
          else Some ((case dst k of None \<Rightarrow> 0 | Some d \<Rightarrow> d) + v))"

definition metrics_Combine ::
  "search_metrics \<Rightarrow> search_metrics option \<Rightarrow> bool \<Rightarrow> search_metrics" where
  "metrics_Combine mc newMetrics cacheHit =
     (case newMetrics of None \<Rightarrow> mc
      | Some n \<Rightarrow>
        let m1 = mc\<lparr>CompletedJobs := CompletedJobs mc + 1\<rparr>;
            m2 = (if cacheHit then m1
              else m1\<lparr>InspectedTraces := InspectedTraces m1 + InspectedTraces n,
                      InspectedBytes := InspectedBytes m1 + InspectedBytes n,
                      BackendReads := BackendReads m1 + BackendReads n,
                      BackendBytes := BackendBytes m1 + BackendBytes n\<rparr>)
        in m2\<lparr>AdditionalMetrics := mergeAdditionalMetrics (AdditionalMetrics m2)
             (AdditionalMetrics n) cacheHit\<rparr>)"

definition metrics_CombineMetadata :: "search_metrics \<Rightarrow> search_metrics \<Rightarrow> search_metrics" where
  "metrics_CombineMetadata mc n =
     mc\<lparr>TotalBlocks := TotalBlocks mc + TotalBlocks n, TotalJobs := TotalJobs mc + TotalJobs n,
        TotalBlockBytes := TotalBlockBytes mc + TotalBlockBytes n\<rparr>"

text \<open>
  A response of the pipeline: the sharder's announcement, an HTTP response, or none. \<open>RespDecoded\<close>
  is the decoded body, \<open>None\<close> when it cannot be decoded.
\<close>

record search_response =
  Traces :: "trace_meta list"
  Metrics :: "search_metrics option"

record http_response =
  RespStatus :: int
  RespBody :: string
  RespDecoded :: "search_response option"
  RespCacheHit :: bool
  RespRequestData :: "nat option"

datatype pipeline_response = Announcement search_plan | HTTPResponse http_response | NoHTTPResponse

record search_combiner =
  metadataCombiner :: metadata_combiner
  diffTraces :: "string list"
  completedThroughTracker :: tracker
  metricsCombiner :: search_metrics
  mostRecentFlag :: bool
  padTraceIDs :: bool
  httpStatusCode :: int
  httpRespBody :: string

definition NewSearch :: "int \<Rightarrow> bool \<Rightarrow> bool \<Rightarrow> search_combiner" where
  "NewSearch lim keepRecent pad =
     \<lparr>metadataCombiner = NewMetadataCombiner lim keepRecent, diffTraces = [],
      completedThroughTracker = new_tracker, metricsCombiner = no_metrics,
      mostRecentFlag = keepRecent, padTraceIDs = pad, httpStatusCode = 200, httpRespBody = ''''\<rparr>"

definition add_trace :: "trace_meta \<Rightarrow> search_combiner \<Rightarrow> search_combiner" where
  "add_trace t c =
     (let (mc, added) = AddMetadata (metadataCombiner c) t
      in c\<lparr>metadataCombiner := mc,
           diffTraces := (if added then List.insert (TraceID t) (diffTraces c) else diffTraces c)\<rparr>)"

definition search_combine ::
  "search_response \<Rightarrow> nat option \<Rightarrow> bool \<Rightarrow> search_combiner \<Rightarrow> search_combiner" where
  "search_combine partial requestData cacheHit c =
     (let c1 = (case requestData of
            Some i \<Rightarrow> if mostRecentFlag c
              then c\<lparr>completedThroughTracker := AddShardIdx i (completedThroughTracker c)\<rparr> else c
          | None \<Rightarrow> c);
          c2 = fold add_trace (Traces partial) c1
      in c2\<lparr>metricsCombiner := metrics_Combine (metricsCombiner c2) (Metrics partial) cacheHit\<rparr>)"

definition search_metadata :: "search_plan \<Rightarrow> search_combiner \<Rightarrow> search_combiner" where
  "search_metadata sj c =
     (let c1 = c\<lparr>metricsCombiner := metrics_CombineMetadata (metricsCombiner c)
            (no_metrics\<lparr>TotalBlocks := word_of_int (planBlocks sj),
              TotalJobs := word_of_int (planJobs sj), TotalBlockBytes := planBytes sj\<rparr>)\<rparr>
      in if mostRecentFlag c
         then c1\<lparr>completedThroughTracker := AddShards (planShards sj) (completedThroughTracker c1)\<rparr>
         else c1)"

definition search_quit :: "search_combiner \<Rightarrow> bool" where
  "search_quit c =
     (let completed = completedThroughSeconds (completedThroughTracker c)
      in IsCompleteFor (metadataCombiner c) (if completed = 0 then TimestampNever else completed))"

definition shouldQuit :: "search_combiner \<Rightarrow> bool" where
  "shouldQuit c \<longleftrightarrow> httpStatusCode c sdiv 100 = 5 \<or> httpStatusCode c sdiv 100 = 4 \<or> search_quit c"

text \<open>
  \<open>AddResponse\<close> holds the lock twice: to decide whether the response matters, and, once its body
  has been decoded, to combine it. In between other responses may be added. The result of the
  first part says whether to go on.
\<close>

definition check_response :: "http_response \<Rightarrow> search_combiner \<Rightarrow> search_combiner \<times> bool" where
  "check_response r c =
     (if shouldQuit c then (c, False)
      else if RespStatus r \<noteq> 200
      then (c\<lparr>httpRespBody := RespBody r, httpStatusCode := RespStatus r\<rparr>, False)
      else (c, True))"

definition combine_response ::
  "http_response \<Rightarrow> search_response \<Rightarrow> search_combiner \<Rightarrow> search_combiner" where
  "combine_response r partial c =
     (if shouldQuit c then c
      else search_combine partial (RespRequestData r) (RespCacheHit r)
        (c\<lparr>httpStatusCode := RespStatus r\<rparr>))"

datatype combiner_error = UnmarshalFailed

fun AddResponse ::
  "pipeline_response \<Rightarrow> search_combiner \<Rightarrow> search_combiner \<times> combiner_error option" where
  "AddResponse (Announcement sj) c = (search_metadata sj c, None)"
| "AddResponse NoHTTPResponse c = (c, None)"
| "AddResponse (HTTPResponse r) c =
     (let (c1, go) = check_response r c in
      if \<not> go then (c1, None)
      else case RespDecoded r of
          None \<Rightarrow> (c1, Some UnmarshalFailed)
        | Some partial \<Rightarrow> (combine_response r partial c1, None))"

text \<open>Results are prepared for the client in place.\<close>

definition RootSpanNotYetReceivedText :: string where
  "RootSpanNotYetReceivedText = ''<root span not yet received>''"

definition addRootSpanNotReceivedText :: "nat list \<Rightarrow> trace_meta list \<Rightarrow> trace_meta list" where
  "addRootSpanNotReceivedText results os =
     foldl (\<lambda>os p. os[p := (if RootServiceName (os ! p) = ''''
       then (os ! p)\<lparr>RootServiceName := RootSpanNotYetReceivedText\<rparr> else os ! p)]) os results"

definition padTraceIDsInResponse :: "nat list \<Rightarrow> trace_meta list \<Rightarrow> trace_meta list" where
  "padTraceIDsInResponse results os =
     foldl (\<lambda>os p. os[p := (os ! p)\<lparr>TraceID := PadTraceIDString (TraceID (os ! p))\<rparr>]) os results"

definition prepare_results :: "nat list \<Rightarrow> search_combiner \<Rightarrow> search_combiner" where
  "prepare_results ps c =
     (let os = addRootSpanNotReceivedText ps (store_of (metadataCombiner c));
          os' = (if padTraceIDs c then padTraceIDsInResponse ps os else os)
      in c\<lparr>metadataCombiner := set_store os' (metadataCombiner c)\<rparr>)"

fun pick_changed :: "trace_meta list \<Rightarrow> string list \<Rightarrow> nat list \<Rightarrow> nat list \<times> string list" where
  "pick_changed os changed [] = ([], changed)"
| "pick_changed os changed (p # ps) =
     (if TraceID (os ! p) \<notin> set changed then pick_changed os changed ps
      else map_prod ((#) p) id (pick_changed os (removeAll (TraceID (os ! p)) changed) ps))"

definition search_diff :: "string list \<Rightarrow> search_combiner \<Rightarrow> search_combiner \<times> search_response" where
  "search_diff ks c =
     (let mc = metadataCombiner c;
          completed = completedThroughSeconds (completedThroughTracker c);
          ps = (if mostRecentFlag c
            then if completed = 0 then [] else MetadataAfter ks mc completed
            else Metadata_of ks mc);
          (picked, rest) = pick_changed (store_of mc) (diffTraces c) ps;
          c1 = prepare_results picked (c\<lparr>diffTraces := rest\<rparr>)
      in (c1, \<lparr>Traces = map ((!) (store_of (metadataCombiner c1))) picked,
               Metrics = Some (metricsCombiner c)\<rparr>))"

definition search_finalize :: "string list \<Rightarrow> search_combiner \<Rightarrow> search_combiner \<times> search_response" where
  "search_finalize ks c =
     (let ps = Metadata_of ks (metadataCombiner c); c1 = prepare_results ps c
      in (c1, \<lparr>Traces = map ((!) (store_of (metadataCombiner c1))) ps,
               Metrics = Some (metricsCombiner c)\<rparr>))"

text \<open>Splitting a streamed response. \<open>baseSize\<close> is the size of a packet with the metrics only,
  \<open>traceSize\<close> the size a trace adds; the packet being filled comes last.\<close>

definition segment_step ::
  "int \<Rightarrow> (trace_meta \<Rightarrow> int) \<Rightarrow> int \<Rightarrow> trace_meta \<Rightarrow> trace_meta list list \<times> trace_meta list \<times> int
   \<Rightarrow> trace_meta list list \<times> trace_meta list \<times> int" where
  "segment_step baseSize traceSize maxSize t = (\<lambda>(out, current, currentSz).
     (let sz = traceSize t in
      if current \<noteq> [] \<and> maxSize < currentSz + sz
      then (out @ [current], [t], baseSize + sz)
      else (out, current @ [t], currentSz + sz)))"

definition segmentSearchResponse ::
  "int \<Rightarrow> (trace_meta \<Rightarrow> int) \<Rightarrow> search_response \<Rightarrow> int \<Rightarrow> search_response list" where
  "segmentSearchResponse baseSize traceSize response maxSize =
     (if maxSize \<le> 0 then [response]
      else let (out, current, _) = fold (segment_step baseSize traceSize maxSize)
          (Traces response) ([], [], baseSize)
        in map (\<lambda>ts. \<lparr>Traces = ts, Metrics = Metrics response\<rparr>) (out @ [current]))"

subsection \<open>Samples\<close>

definition sample_trace :: "string \<Rightarrow> u64 \<Rightarrow> string \<Rightarrow> trace_meta" where
  "sample_trace i start root = \<lparr>TraceID = i, RootServiceName = root, RootTraceName = '''',
     StartTimeUnixNano = start, DurationMs = 1, SpanSet = None, SpanSets = [],
     ServiceStats = Map.empty\<rparr>"

definition sample_response :: "trace_meta list \<Rightarrow> nat \<Rightarrow> pipeline_response" where
  "sample_response ts i = HTTPResponse \<lparr>RespStatus = 200, RespBody = '''',
     RespDecoded = Some \<lparr>Traces = ts, Metrics = None\<rparr>, RespCacheHit = False, RespRequestData = Some i\<rparr>"

definition respond :: "pipeline_response \<Rightarrow> search_combiner \<Rightarrow> search_combiner" where
  "respond r c = fst (AddResponse r c)"

end
