(* ===== verification/SearchResults.thy ===== *)
theory SearchResults
  imports SearchCombine
begin

section \<open>What the metadata combiners guarantee\<close>

text \<open>
  The contract of \<open>MetadataCombiner\<close> that the search relies on, as a locale: once a combiner is
  complete for a time, a result of a new trace that started at or before it changes nothing. Both
  combiners of \<open>pkg/traceql/combine.go\<close> provide it. Then the results of \<open>mostRecentCombiner\<close>:
  of distinct traces it keeps exactly the newest ones, in order; and what goes wrong when a result
  is merged, or prepared for the client, in place.
\<close>

subsection \<open>The contract\<close>

locale combiner_contract =
  fixes invar :: "'c \<Rightarrow> bool"
    and add :: "'c \<Rightarrow> trace_meta \<Rightarrow> 'c \<times> bool"
    and complete :: "'c \<Rightarrow> u32 \<Rightarrow> bool"
    and known :: "'c \<Rightarrow> string set"
  assumes invar_add: "invar c \<Longrightarrow> invar (fst (add c m))"
    and known_add: "invar c \<Longrightarrow> known (fst (add c m)) \<subseteq> insert (TraceID m) (known c)"
    and late_rejected: "invar c \<Longrightarrow> complete c ts \<Longrightarrow> TraceID m \<notin> known c
      \<Longrightarrow> uint (StartTimeUnixNano m) \<le> uint ts * 1000000000 \<Longrightarrow> add c m = (c, False)"
begin

definition add_all :: "trace_meta list \<Rightarrow> 'c \<Rightarrow> 'c" where
  "add_all ms c = fold (\<lambda>m c. fst (add c m)) ms c"

lemma invar_add_all: "invar c \<Longrightarrow> invar (add_all ms c)"
  unfolding add_all_def by (induction ms arbitrary: c) (auto intro: invar_add)

lemma known_add_all: "invar c \<Longrightarrow> known (add_all ms c) \<subseteq> TraceID ` set ms \<union> known c"
proof (induction ms arbitrary: c)
  case (Cons m ms)
  show ?case
    using Cons.IH [OF invar_add [OF Cons.prems, of m]] known_add [OF Cons.prems, of m]
    by (auto simp: add_all_def)
qed (simp add: add_all_def)

lemma late_results_change_nothing:
  assumes "invar c" and "complete c ts"
    and "\<forall>m\<in>set ms. TraceID m \<notin> known c \<and> uint (StartTimeUnixNano m) \<le> uint ts * 1000000000"
  shows "add_all ms c = c"
  using assms(3) by (induction ms) (auto simp: add_all_def late_rejected [OF assms(1,2)])

end

subsection \<open>anyCombiner\<close>

lemma map_of_update: "map_of (AList.update k v al) = (map_of al)(k \<mapsto> v)"
  by (rule update_conv')

lemma set_keys: "fst ` set al = dom (map_of al)"
  by (rule dom_map_of_conv_image_fst [symmetric])

interpretation any: combiner_contract "\<lambda>_. True" any_AddMetadata any_IsCompleteFor
  "\<lambda>c. dom (map_of (anyTrs c))"
  by unfold_locales
    (auto simp: any_AddMetadata_def any_IsCompleteFor_def any_Count_def map_of_update dom_def
       split: option.splits if_splits)

subsection \<open>mostRecentCombiner\<close>

text \<open>The map and the sorted list hold the same objects.\<close>

definition recent_ok :: "most_recent \<Rightarrow> bool" where
  "recent_ok c \<longleftrightarrow> distinct (map fst (trs c)) \<and> distinct (trsSorted c)
     \<and> length (trs c) = length (trsSorted c)
     \<and> (\<forall>p\<in>set (trsSorted c). p < length (objs c) \<and> map_of (trs c) (TraceID (objs c ! p)) = Some p)
     \<and> (\<forall>k p. map_of (trs c) k = Some p \<longrightarrow> p \<in> set (trsSorted c) \<and> TraceID (objs c ! p) = k)
     \<and> 0 < keepMostRecent c \<and> recent_Count c \<le> keepMostRecent c"

lemma TraceID_combine [simp]:
  "TraceID incoming = TraceID existing \<Longrightarrow> TraceID (combineSearchResults existing incoming) = TraceID existing"
  by (simp add: combineSearchResults_def Let_def)

lemma recent_ok_merge:
  assumes "recent_ok c" and "map_of (trs c) (TraceID m) = Some p"
  shows "recent_ok (c\<lparr>objs := (objs c)[p := combineSearchResults (objs c ! p) m]\<rparr>)"
proof -
  have p: "p < length (objs c)" "TraceID (objs c ! p) = TraceID m"
    using assms by (auto simp: recent_ok_def)
  then have "TraceID ((objs c)[p := combineSearchResults (objs c ! p) m] ! q) = TraceID (objs c ! q)" for q
    by (cases "q = p") simp_all
  then show ?thesis using assms(1) by (simp add: recent_ok_def recent_Count_def)
qed

lemma set_butlast_distinct: "distinct xs \<Longrightarrow> xs \<noteq> [] \<Longrightarrow> set (butlast xs) = set xs - {last xs}"
  by (cases xs rule: rev_cases) auto

lemma mset_insert_at [simp]: "mset (insert_at i x xs) = add_mset x (mset xs)"
proof -
  have "mset (take i xs) + mset (drop i xs) = mset xs" by (metis append_take_drop_id mset_append)
  then show ?thesis by (simp add: insert_at_def)
qed

lemma set_insert_at [simp]: "set (insert_at i x xs) = insert x (set xs)"
  by (metis mset_insert_at set_mset_add_mset_insert set_mset_mset)

lemma distinct_insert_at [simp]: "distinct (insert_at i x xs) \<longleftrightarrow> x \<notin> set xs \<and> distinct xs"
  using mset_eq_imp_distinct_iff [of "insert_at i x xs" "x # xs"] by simp

lemma length_insert_at [simp]: "length (insert_at i x xs) = Suc (length xs)"
  by (metis mset_insert_at size_add_mset size_mset)

lemma length_update: "length (AList.update k v al) = (if k \<in> fst ` set al then length al else Suc (length al))"
  by (induction al) auto

lemma length_delete:
  "distinct (map fst al) \<Longrightarrow> k \<in> fst ` set al \<Longrightarrow> Suc (length (AList.delete k al)) = length al"
proof (induction al)
  case (Cons x al)
  then show ?case by (cases "k = fst x") (force simp: AList.delete_eq intro!: arg_cong [of _ _ length] filter_all_True)+
qed simp

lemma evict_oldest_alt:
  assumes "recent_ok c" and "trsSorted c \<noteq> []"
  shows "evict_oldest c = c\<lparr>trs := AList.delete (TraceID (objs c ! last (trsSorted c))) (trs c),
    trsSorted := butlast (trsSorted c)\<rparr>"
  using assms by (simp add: evict_oldest_def recent_ok_def last_conv_nth Let_def)

lemma recent_ok_evict:
  assumes "recent_ok c" and "trsSorted c \<noteq> []"
  shows "recent_ok (evict_oldest c)" and "Suc (length (trs (evict_oldest c))) = length (trs c)"
proof -
  let ?o = "last (trsSorted c)"
  let ?k = "TraceID (objs c ! ?o)"
  have o: "?o \<in> set (trsSorted c)" "map_of (trs c) ?k = Some ?o"
    using assms by (auto simp: recent_ok_def)
  then have k: "?k \<in> fst ` set (trs c)" unfolding set_keys by blast
  have d: "distinct (map fst (trs c))" "distinct (trsSorted c)" using assms(1) by (simp_all add: recent_ok_def)
  show l: "Suc (length (trs (evict_oldest c))) = length (trs c)"
    using length_delete [OF d(1) k] by (simp add: evict_oldest_alt [OF assms])
  have b: "set (butlast (trsSorted c)) = set (trsSorted c) - {?o}"
    by (rule set_butlast_distinct [OF d(2) assms(2)])
  have at: "map_of (trs c) (TraceID (objs c ! p)) = Some p" if "p \<in> set (trsSorted c)" for p
    using assms(1) that by (simp add: recent_ok_def)
  have same: "p = ?o" if "p \<in> set (trsSorted c)" "TraceID (objs c ! p) = ?k" for p
    using at [OF that(1)] o(2) unfolding that(2) by simp
  have kept: "p < length (objs c) \<and> map_of (AList.delete ?k (trs c)) (TraceID (objs c ! p)) = Some p"
    if "p \<in> set (butlast (trsSorted c))" for p
  proof -
    have "p \<in> set (trsSorted c)" "TraceID (objs c ! p) \<noteq> ?k" using that same b by auto
    then show ?thesis using assms(1) by (simp add: recent_ok_def AList.delete_conv')
  qed
  have held: "p \<in> set (butlast (trsSorted c)) \<and> TraceID (objs c ! p) = k"
    if "map_of (AList.delete ?k (trs c)) k = Some p" for k p
  proof -
    have "k \<noteq> ?k" "map_of (trs c) k = Some p" using that by (auto simp: AList.delete_conv' split: if_splits)
    then show ?thesis using assms(1) b by (auto simp: recent_ok_def)
  qed
  define e where "e = evict_oldest c"
  have e: "trs e = AList.delete ?k (trs c)" "trsSorted e = butlast (trsSorted c)" "objs e = objs c"
    "keepMostRecent e = keepMostRecent c"
    by (simp_all add: e_def evict_oldest_alt [OF assms])
  have "distinct (map fst (trs e))" "distinct (trsSorted e)" "length (trs e) = length (trsSorted e)"
    "recent_Count e \<le> keepMostRecent e" "0 < keepMostRecent e"
    using d l assms(1) AList.distinct_delete [OF d(1)]
    by (simp_all add: e distinct_butlast recent_ok_def recent_Count_def e_def [symmetric])
  then show "recent_ok (evict_oldest c)"
    using kept held unfolding recent_ok_def e_def [symmetric] by (auto simp only: e)
qed

lemma recent_ok_insert:
  assumes "recent_ok c" and "map_of (trs c) (TraceID m) = None" and "recent_Count c < keepMostRecent c"
  shows "recent_ok (insert_new m c)"
proof -
  have new: "TraceID m \<notin> fst ` set (trs c)" using assms(2) by (simp add: map_of_eq_None_iff)
  have p: "length (objs c) \<notin> set (trsSorted c)" "\<forall>p\<in>set (trsSorted c). p < length (objs c)"
    using assms(1) by (auto simp: recent_ok_def)
  define i where "i = search (length (trsSorted c)) (\<lambda>i. \<not> StartTimeUnixNano m
    < StartTimeUnixNano (objs c ! (trsSorted c ! i)))"
  have c': "insert_new m c = c\<lparr>objs := objs c @ [m], trs := AList.update (TraceID m) (length (objs c)) (trs c),
      trsSorted := insert_at i (length (objs c)) (trsSorted c)\<rparr>"
    by (simp add: insert_new_def Let_def i_def)
  have o: "TraceID ((objs c @ [m]) ! q) = (if q = length (objs c) then TraceID m else TraceID (objs c ! q))"
    if "q \<in> insert (length (objs c)) (set (trsSorted c))" for q
    using that p(2) by (auto simp: nth_append)
  have "q \<in> set (trsSorted c) \<Longrightarrow> TraceID (objs c ! q) \<noteq> TraceID m" for q
    using assms(1,2) by (auto simp: recent_ok_def)
  then show ?thesis
    using assms new p o unfolding c' recent_ok_def recent_Count_def
    by (auto simp: map_of_update length_update distinct_update less_Suc_eq)
qed

lemma recent_ok_new: "0 < n \<Longrightarrow> recent_ok (newMostRecentCombiner n)"
  by (simp add: recent_ok_def newMostRecentCombiner_def recent_Count_def)

text \<open>The cases of \<open>AddMetadata\<close>.\<close>

lemma recent_full:
  assumes "recent_ok c" and "recent_Count c = keepMostRecent c"
  shows "trsSorted c \<noteq> []" and "recent_ok (evict_oldest c)"
    and "recent_Count (evict_oldest c) < keepMostRecent (evict_oldest c)"
    and "map_of (trs c) k = None \<Longrightarrow> map_of (trs (evict_oldest c)) k = None"
proof -
  show ne: "trsSorted c \<noteq> []" using assms by (auto simp: recent_ok_def recent_Count_def)
  show "recent_ok (evict_oldest c)" by (rule recent_ok_evict [OF assms(1) ne])
  show "recent_Count (evict_oldest c) < keepMostRecent (evict_oldest c)"
    using recent_ok_evict(2) [OF assms(1) ne] assms(2)
    by (simp add: recent_Count_def evict_oldest_alt [OF assms(1) ne])
  show "map_of (trs (evict_oldest c)) k = None" if "map_of (trs c) k = None"
    using that by (simp add: evict_oldest_alt [OF assms(1) ne] AList.delete_conv')
qed

lemma recent_add_cases:
  assumes "recent_ok c"
  obtains (merge) p where "map_of (trs c) (TraceID m) = Some p" and "recent_AddMetadata c m
      = (c\<lparr>objs := (objs c)[p := combineSearchResults (objs c ! p) m]\<rparr>, True)"
  | (reject) "map_of (trs c) (TraceID m) = None" and "recent_Count c = keepMostRecent c"
      and "StartTimeUnixNano m < OldestTimestampNanos c" and "recent_AddMetadata c m = (c, False)"
  | (replace) "map_of (trs c) (TraceID m) = None" and "recent_Count c = keepMostRecent c"
      and "\<not> StartTimeUnixNano m < OldestTimestampNanos c"
      and "recent_AddMetadata c m = (insert_new m (evict_oldest c), True)"
  | (insert) "map_of (trs c) (TraceID m) = None" and "recent_Count c < keepMostRecent c"
      and "recent_AddMetadata c m = (insert_new m c, True)"
proof (cases "map_of (trs c) (TraceID m)")
  case None
  have "0 < keepMostRecent c" "recent_Count c \<le> keepMostRecent c" using assms by (auto simp: recent_ok_def)
  with None show thesis
    using reject replace insert
    by (cases "recent_Count c = keepMostRecent c"; cases "StartTimeUnixNano m < OldestTimestampNanos c")
      (auto simp: recent_AddMetadata_def)
next
  case (Some p)
  then show thesis using merge by (simp add: recent_AddMetadata_def)
qed

lemma recent_ok_add:
  assumes "recent_ok c"
  shows "recent_ok (fst (recent_AddMetadata c m))"
  by (rule recent_add_cases [OF assms, of m])
    (use assms recent_ok_merge recent_ok_insert recent_full in auto)

lemma known_insert_new: "dom (map_of (trs (insert_new m c))) = insert (TraceID m) (dom (map_of (trs c)))"
  by (simp add: insert_new_def Let_def map_of_update)

lemma known_evict: "dom (map_of (trs (evict_oldest c))) \<subseteq> dom (map_of (trs c))"
  by (auto simp: evict_oldest_def Let_def AList.delete_conv' split: if_splits)

lemma nanos_of_seconds: "uint (ucast ts * 1000000000 :: u64) = uint (ts :: u32) * 1000000000"
proof -
  have "uint ts * 1000000000 < 2 ^ 64" using uint_lt2p [of ts] by simp
  then show ?thesis
    by (simp add: uint_word_ariths unsigned_ucast_eq take_bit_int_eq_self mod_pos_pos_trivial
        order_less_trans [OF uint_lt2p])
qed

interpretation recent: combiner_contract recent_ok recent_AddMetadata recent_IsCompleteFor
  "\<lambda>c. dom (map_of (trs c))"
proof
  fix c m ts
  assume ok: "recent_ok c"
  show "recent_ok (fst (recent_AddMetadata c m))" using ok by (rule recent_ok_add)
  show "dom (map_of (trs (fst (recent_AddMetadata c m)))) \<subseteq> insert (TraceID m) (dom (map_of (trs c)))"
    using known_evict [of c]
    by (rule_tac recent_add_cases [OF ok, of m]) (auto simp: known_insert_new simp del: dom_map_of_conv_image_fst)
  assume "recent_IsCompleteFor c ts" and new: "TraceID m \<notin> dom (map_of (trs c))"
    and late: "uint (StartTimeUnixNano m) \<le> uint ts * 1000000000"
  then have "\<not> recent_Count c < keepMostRecent c" "StartTimeUnixNano m < OldestTimestampNanos c"
    by (auto simp: recent_IsCompleteFor_def word_less_def nanos_of_seconds)
  then show "recent_AddMetadata c m = (c, False)"
    using new by (rule_tac recent_add_cases [OF ok, of m]) auto
qed

subsection \<open>The newest results\<close>

abbreviation age :: "trace_meta \<Rightarrow> int" where
  "age m \<equiv> - uint (StartTimeUnixNano m)"

lemma insort_key_at:
  assumes "\<forall>y\<in>set (take i xs). f y < f x" and "i < length xs \<Longrightarrow> f x \<le> f (xs ! i)"
  shows "insert_at i x xs = insort_key f x xs"
  using assms
proof (induction xs arbitrary: i)
  case Nil
  then show ?case by (simp add: insert_at_def)
next
  case (Cons y xs)
  show ?case
  proof (cases i)
    case 0
    then show ?thesis using Cons.prems by (simp add: insert_at_def)
  next
    case (Suc j)
    then show ?thesis using Cons.IH [of j] Cons.prems by (auto simp: insert_at_def)
  qed
qed

lemma map_insert_at: "map f (insert_at i x xs) = insert_at i (f x) (map f xs)"
  by (simp add: insert_at_def take_map drop_map)

lemma take_insort_key: "take n (insort_key f x (take n xs)) = take n (insort_key f x xs)"
proof (induction xs arbitrary: n)
  case (Cons y xs)
  show ?case
  proof (cases n)
    case (Suc k)
    have "take k (y # take k xs) = take k (y # xs)" by (cases k) (simp_all add: take_Cons')
    then show ?thesis using Suc Cons [of k] by simp
  qed simp
qed simp

lemma results_insert_new:
  assumes "recent_ok c" and "sorted (map age (recent_results c))"
  shows "recent_results (insert_new m c) = insort_key age m (recent_results c)"
proof -
  let ?xs = "trsSorted c" and ?f = "\<lambda>p. age (objs c ! p)"
  define i where "i = search (length ?xs) (\<lambda>j. age m \<le> ?f (?xs ! j))"
  have s: "sorted (map ?f ?xs)" using assms(2) by (simp add: recent_results_def comp_def)
  have i: "age m \<le> ?f (?xs ! k) \<longleftrightarrow> i \<le> k" if "k < length ?xs" for k
    using search_sorted(2) [OF s that, of "age m"] by (simp add: i_def)
  have p: "p < length (objs c)" if "p \<in> set ?xs" for p using assms(1) that by (simp add: recent_ok_def)
  have "trsSorted (insert_new m c) = insert_at i (length (objs c)) ?xs" "objs (insert_new m c) = objs c @ [m]"
    by (simp_all add: insert_new_def Let_def i_def word_less_def not_less)
  then have "recent_results (insert_new m c) = insert_at i m (map (\<lambda>p. (objs c @ [m]) ! p) ?xs)"
    by (simp add: recent_results_def map_insert_at)
  also have "map (\<lambda>p. (objs c @ [m]) ! p) ?xs = recent_results c"
    using p by (simp add: recent_results_def nth_append)
  also have "insert_at i m (recent_results c) = insort_key age m (recent_results c)"
  proof (rule insort_key_at)
    show "\<forall>y\<in>set (take i (recent_results c)). age y < age m"
      using i by (fastforce simp: recent_results_def in_set_conv_nth not_le)
    show "i < length (recent_results c) \<Longrightarrow> age m \<le> age (recent_results c ! i)"
      using i by (simp add: recent_results_def)
  qed
  finally show ?thesis .
qed

lemma oldest_result:
  assumes "trsSorted c \<noteq> []"
  shows "OldestTimestampNanos c = StartTimeUnixNano (last (recent_results c))"
  using assms by (simp add: OldestTimestampNanos_def recent_results_def last_map)

lemma length_results [simp]: "recent_ok c \<Longrightarrow> length (recent_results c) = nat (recent_Count c)"
  by (simp add: recent_results_def recent_ok_def recent_Count_def)

lemma insort_key_last: "xs \<noteq> [] \<Longrightarrow> sorted (map f xs) \<Longrightarrow> f (last xs) < f x \<Longrightarrow> insort_key f x xs = xs @ [x]"
proof (induction xs)
  case (Cons a xs)
  then have "f a < f x" using last_in_set [of xs]
    by (cases "xs = []") (auto intro: order_le_less_trans)
  with Cons show ?case by (cases "xs = []") auto
qed simp

lemma insort_key_snoc: "f x \<le> f y \<Longrightarrow> insort_key f x (xs @ [y]) = insort_key f x xs @ [y]"
  by (induction xs) auto

lemma results_add:
  assumes "recent_ok c" and "sorted (map age (recent_results c))"
    and "TraceID m \<notin> dom (map_of (trs c))"
  shows "recent_results (fst (recent_AddMetadata c m))
    = take (nat (keepMostRecent c)) (insort_key age m (recent_results c))"
proof (rule recent_add_cases [OF assms(1), of m])
  assume full: "recent_Count c = keepMostRecent c"
    and old: "StartTimeUnixNano m < OldestTimestampNanos c" and e: "recent_AddMetadata c m = (c, False)"
  have ne: "trsSorted c \<noteq> []" by (rule recent_full(1) [OF assms(1) full])
  then have "insort_key age m (recent_results c) = recent_results c @ [m]"
    using old by (intro insort_key_last assms(2)) (auto simp: oldest_result word_less_def recent_results_def)
  then show ?thesis using e full assms(1) by simp
next
  assume full: "recent_Count c = keepMostRecent c" and young: "\<not> StartTimeUnixNano m < OldestTimestampNanos c"
    and e: "recent_AddMetadata c m = (insert_new m (evict_oldest c), True)"
  have ne: "trsSorted c \<noteq> []" by (rule recent_full(1) [OF assms(1) full])
  have b: "recent_results (evict_oldest c) = butlast (recent_results c)"
    by (simp add: evict_oldest_alt [OF assms(1) ne] recent_results_def map_butlast)
  have l: "Suc (length (butlast (recent_results c))) = nat (keepMostRecent c)"
    using ne full assms(1) length_results [OF assms(1)] by (auto simp: recent_results_def recent_ok_def)
  have "sorted (map age (butlast (recent_results c)))"
    using assms(2) by (simp add: map_butlast sorted_butlast)
  then have "recent_results (insert_new m (evict_oldest c)) = insort_key age m (butlast (recent_results c))"
    using results_insert_new [of "evict_oldest c" m] recent_full(2) [OF assms(1) full] by (simp add: b)
  also have "\<dots> = take (nat (keepMostRecent c)) (insort_key age m (butlast (recent_results c)))"
    using l by simp
  also have "\<dots> = take (nat (keepMostRecent c)) (insort_key age m (recent_results c))"
  proof -
    have r: "recent_results c = butlast (recent_results c) @ [last (recent_results c)]"
      using ne by (simp add: recent_results_def)
    have "age m \<le> age (last (recent_results c))"
      using young ne by (simp add: oldest_result word_less_def)
    then have "insort_key age m (recent_results c)
        = insort_key age m (butlast (recent_results c)) @ [last (recent_results c)]"
      using insort_key_snoc r by metis
    then show ?thesis using l by simp
  qed
  finally show ?thesis using e by simp
next
  assume "recent_Count c < keepMostRecent c" and e: "recent_AddMetadata c m = (insert_new m c, True)"
  moreover have "length (insort_key age m (recent_results c)) = Suc (nat (recent_Count c))"
    using assms(1) by simp
  ultimately show ?thesis
    using results_insert_new [OF assms(1,2), of m] by (simp add: recent_Count_def)
qed (use assms(3) in auto)
text \<open>Newest first; of traces that started at the same time, the last one added comes first.\<close>

definition newest :: "trace_meta list \<Rightarrow> trace_meta list" where
  "newest ms = sort_key age (rev ms)"

lemma sorted_newest: "sorted (map age (newest ms))"
  by (simp add: newest_def)

lemma newest_snoc: "newest (ms @ [m]) = insort_key age m (newest ms)"
  by (simp add: newest_def)

lemma sorted_take_map: "sorted (map f xs) \<Longrightarrow> sorted (map f (take n xs))"
  using sorted_wrt_take [of "(\<le>)" "map f xs" n] by (simp add: take_map)

lemma keepMostRecent_add: "keepMostRecent (fst (recent_AddMetadata c m)) = keepMostRecent c"
  by (auto simp: recent_AddMetadata_def insert_new_def evict_oldest_def Let_def split: option.splits)

lemma keepMostRecent_add_all: "keepMostRecent (recent.add_all ms c) = keepMostRecent c"
  unfolding recent.add_all_def by (induction ms arbitrary: c) (simp_all add: keepMostRecent_add)

lemma recent_add_all_snoc: "recent.add_all (ms @ [m]) c = fst (recent_AddMetadata (recent.add_all ms c) m)"
  by (simp add: recent.add_all_def)

lemma recent_keeps_newest:
  assumes "0 < n" and "distinct (map TraceID ms)"
  shows "recent_results (recent.add_all ms (newMostRecentCombiner n)) = take (nat n) (newest ms)"
  using assms(2)
proof (induction ms rule: rev_induct)
  case Nil
  then show ?case by (simp add: recent.add_all_def recent_results_def newMostRecentCombiner_def newest_def)
next
  case (snoc m ms)
  let ?c = "recent.add_all ms (newMostRecentCombiner n)"
  have ok: "recent_ok ?c" by (rule recent.invar_add_all [OF recent_ok_new [OF assms(1)]])
  have ih: "recent_results ?c = take (nat n) (newest ms)" using snoc by simp
  have "TraceID m \<notin> dom (map_of (trs ?c))"
    using recent.known_add_all [OF recent_ok_new [OF assms(1)], of ms] snoc.prems
    by (auto simp: newMostRecentCombiner_def)
  moreover have "sorted (map age (recent_results ?c))"
    unfolding ih by (rule sorted_take_map [OF sorted_newest])
  moreover have "keepMostRecent ?c = n" by (simp add: keepMostRecent_add_all) (simp add: newMostRecentCombiner_def)
  ultimately have "recent_results (fst (recent_AddMetadata ?c m))
      = take (nat n) (insort_key age m (take (nat n) (newest ms)))"
    using results_add [OF ok, of m] unfolding ih by simp
  then show ?case by (simp add: recent_add_all_snoc take_insort_key newest_snoc)
qed

text \<open>C26. The most-recent combiner is an exact top-\<open>n\<close>: of distinct traces it holds the newest \<open>n\<close>, newest
  first, whatever the order in which they arrive.\<close>

theorem most_recent_keeps_newest:
  assumes "0 < n" and "distinct (map TraceID ms)"
  shows "recent_results (fold (\<lambda>m c. fst (recent_AddMetadata c m)) ms (newMostRecentCombiner n))
    = take (nat n) (sort_key (\<lambda>m. - uint (StartTimeUnixNano m)) (rev ms))"
  using recent_keeps_newest [OF assms] by (simp add: recent.add_all_def newest_def)

theorem most_recent_keeps_newest_witness:
  "map StartTimeUnixNano (recent_results (fold (\<lambda>m c. fst (recent_AddMetadata c m))
     [sample_trace ''a'' 5 '''', sample_trace ''b'' 9 '''', sample_trace ''c'' 7 '''']
     (newMostRecentCombiner 2))) = [9, 7]"
  by (subst most_recent_keeps_newest) (simp_all add: sample_trace_def)

text \<open>\<open>addSpanset\<close> saves the conversion of a span set, and nothing else: it has the effect of
  adding the converted result.\<close>

theorem addSpanset_is_AddMetadata:
  assumes "recent_ok c" and "\<forall>s. TraceID (conv s) = TraceIDToHexString (tid s)
    \<and> StartTimeUnixNano (conv s) = startNanos s"
  shows "recent_addSpanset conv tid startNanos c ss = fst (recent_AddMetadata c (conv ss))"
proof (rule recent_add_cases [OF assms(1), of "conv ss"])
  assume "StartTimeUnixNano (conv ss) < OldestTimestampNanos c" "map_of (trs c) (TraceID (conv ss)) = None"
    "recent_AddMetadata c (conv ss) = (c, False)"
  then show ?thesis using assms(2) by (auto simp: recent_addSpanset_def)
next
  assume "\<not> StartTimeUnixNano (conv ss) < OldestTimestampNanos c"
  then show ?thesis using assms(2) by (auto simp: recent_addSpanset_def)
qed (use assms(2) in \<open>auto simp: recent_addSpanset_def\<close>)

theorem addSpanset_is_AddMetadata_witness:
  "let conv = (\<lambda>s :: bytes \<times> u64. sample_trace (TraceIDToHexString (fst s)) (snd s) '''');
       c = fst (recent_AddMetadata (newMostRecentCombiner 1) (sample_trace ''a'' 5 ''''))
   in recent_addSpanset conv fst snd c ([1], 7) = fst (recent_AddMetadata c (conv ([1], 7)))"
  unfolding Let_def
  by (rule addSpanset_is_AddMetadata)
    (auto simp: sample_trace_def intro!: recent_ok_add recent_ok_new)

subsection \<open>Results that are changed in place\<close>

text \<open>Merging lowers the start of a result that is already in the list, and the list is not sorted
  again. With a limit of two, \<open>a\<close> moves from 20 to 5 and stays first; then \<open>c\<close> at 7 is refused
  because it is older than \<open>b\<close> at 10, although it is newer than \<open>a\<close>.\<close>

theorem merged_result_keeps_its_rank:
  "map (\<lambda>m. (TraceID m, StartTimeUnixNano m)) (recent_results
     (fold (\<lambda>m c. fst (recent_AddMetadata c m))
       [sample_trace ''a'' 20 '''', sample_trace ''b'' 10 '''', sample_trace ''a'' 5 '''',
        sample_trace ''c'' 7 ''''] (newMostRecentCombiner 2))) = [(''a'', 5), (''b'', 10)]"
  by code_simp

text \<open>An update sent to a streaming client writes the text for a missing root span into the shared
  result. The root service that a later response brings is then no longer taken over; without
  the update in between it is.\<close>

theorem streaming_hides_root_service:
  "let c = respond (sample_response [sample_trace ''a'' 5 ''''] 0) (NewSearch 10 False False);
       late = sample_response [sample_trace ''a'' 5 ''shop''] 1;
       result = (\<lambda>c. map RootServiceName (Traces (snd (search_finalize [''a''] c))))
   in result (respond late c) = [''shop'']
      \<and> result (respond late (fst (search_diff [''a''] c))) = [RootSpanNotYetReceivedText]"
  by code_simp

text \<open>With \<open>left_pad_trace_ids\<close> an update also writes the padded trace id into the shared result. The
  set of changed traces has the id as it came, so no further update of that trace is sent.\<close>

theorem padding_stops_updates:
  "let c = fst (search_diff [''a''] (respond (sample_response [sample_trace ''a'' 5 ''x''] 0) (NewSearch 10 False True)));
       c' = respond (sample_response [sample_trace ''a'' 3 ''x''] 1) c
   in diffTraces c' = [''a''] \<and> Traces (snd (search_diff [''a''] c')) = []"
  by code_simp

text \<open>A limit of zero means no limit when results are added. But the search counts as complete as
  soon as one result is newer than the time the shards have covered.\<close>

theorem no_limit_is_complete_at_once:
  "let c = fst (recent_AddMetadata (newMostRecentCombiner 0) (sample_trace ''a'' 5000000000 ''''))
   in recent_IsCompleteFor c 4 \<and> snd (recent_AddMetadata c (sample_trace ''b'' 1 ''''))"
  by code_simp

subsection \<open>Segments of a streamed response\<close>

definition segments_ok ::
  "int \<Rightarrow> (trace_meta \<Rightarrow> int) \<Rightarrow> int \<Rightarrow> trace_meta list \<Rightarrow> trace_meta list list \<times> trace_meta list \<times> int \<Rightarrow> bool" where
  "segments_ok base sz mx ts = (\<lambda>(out, current, n). concat out @ current = ts
     \<and> n = base + sum_list (map sz current)
     \<and> (\<forall>s\<in>set (out @ [current]). length s \<le> 1 \<or> base + sum_list (map sz s) \<le> mx))"

lemma segments_ok_step:
  assumes "segments_ok base sz mx ts st"
  shows "segments_ok base sz mx (ts @ [t]) (segment_step base sz mx t st)"
proof -
  obtain out current n where st: "st = (out, current, n)" by (cases st) auto
  show ?thesis
  proof (cases "current \<noteq> [] \<and> mx < n + sz t")
    case True
    then show ?thesis using assms by (auto simp: st segment_step_def segments_ok_def Let_def)
  next
    case False
    then have "length (current @ [t]) \<le> 1 \<or> base + sum_list (map sz (current @ [t])) \<le> mx"
      using assms by (auto simp: st segments_ok_def)
    with False show ?thesis
      using assms by (simp add: st segment_step_def segments_ok_def Let_def)
  qed
qed

lemma segments_ok_fold:
  "segments_ok base sz mx ts st \<Longrightarrow> segments_ok base sz mx (ts @ us) (fold (segment_step base sz mx) us st)"
proof (induction us arbitrary: ts st)
  case (Cons u us)
  show ?case using Cons.IH [OF segments_ok_step [OF Cons.prems, of u]] by simp
qed simp

text \<open>Splitting a response loses, repeats and reorders no trace; only the last packet can be empty,
  and a packet of more than one trace fits the limit.\<close>

theorem segments_are_the_response:
  assumes "0 < maxSize"
  shows "concat (map Traces (segmentSearchResponse base traceSize r maxSize)) = Traces r
    \<and> (\<forall>s\<in>set (segmentSearchResponse base traceSize r maxSize). Metrics s = Metrics r
        \<and> (length (Traces s) \<le> 1 \<or> base + sum_list (map traceSize (Traces s)) \<le> maxSize))"
proof -
  obtain out current sz where f: "fold (segment_step base traceSize maxSize) (Traces r) ([], [], base)
      = (out, current, sz)"
    by (metis prod_cases3)
  have "segments_ok base traceSize maxSize [] ([], [], base)" by (simp add: segments_ok_def)
  from segments_ok_fold [OF this, of "Traces r"]
  have inv: "concat out @ current = Traces r"
    "\<forall>s\<in>set (out @ [current]). length s \<le> 1 \<or> base + sum_list (map traceSize s) \<le> maxSize"
    unfolding f by (simp_all add: segments_ok_def)
  have "segmentSearchResponse base traceSize r maxSize
      = map (\<lambda>ts. \<lparr>Traces = ts, Metrics = Metrics r\<rparr>) (out @ [current])"
    using assms by (simp add: segmentSearchResponse_def f)
  then show ?thesis using inv by (auto simp: comp_def)
qed

theorem segments_are_the_response_witness:
  "concat (map Traces (segmentSearchResponse 10 (\<lambda>t. 30) \<lparr>Traces = [sample_trace ''a'' 1 '''',
     sample_trace ''b'' 2 '''', sample_trace ''c'' 3 ''''], Metrics = None\<rparr> 75))
   = [sample_trace ''a'' 1 '''', sample_trace ''b'' 2 '''', sample_trace ''c'' 3 '''']"
  using segments_are_the_response [of 75 10 "\<lambda>t. 30" "\<lparr>Traces = [sample_trace ''a'' 1 '''',
     sample_trace ''b'' 2 '''', sample_trace ''c'' 3 ''''], Metrics = None\<rparr>"] by simp

end
