(* ===== verification/SearchStop.thy ===== *)
theory SearchStop
  imports SearchResults
begin

section \<open>Stopping a search early\<close>

text \<open>
  The sharder, the tracker and the combiner together. The tracker refines a count: its time is that
  of the longest prefix of shards whose jobs have all answered (\<open>tracker_at\<close>). When the combiner is
  complete for that time it ignores what is still to come; because later shards hold older blocks
  (\<open>later_shards_hold_older_blocks\<close>) nothing is lost by it. The composition is
  \<open>search_returns_newest\<close>, and \<open>same_second_trace_is_lost\<close> shows what it rests on: that a block's
  end time, which is kept in whole seconds, bounds the start of its traces.
\<close>

subsection \<open>The tracker counts\<close>

text \<open>\<open>ks\<close> are the shards of the responses so far. Before the shards are known the tracker counts
  only.\<close>

definition shard_done :: "shard_info list \<Rightarrow> nat list \<Rightarrow> nat \<Rightarrow> bool" where
  "shard_done S ks i \<longleftrightarrow> int (count_list ks i) = uint (ShardTotalJobs (S ! i))"

definition counts_only :: "nat list \<Rightarrow> tracker \<Rightarrow> bool" where
  "counts_only ks t \<longleftrightarrow> shards t = [] \<and> curShard t = 0 \<and> completedThroughSeconds t = 0
     \<and> (\<forall>i. int (count_list ks i) = (if i < length (foundResponses t) then foundResponses t ! i else 0))"

definition time_of_prefix :: "shard_info list \<Rightarrow> nat \<Rightarrow> u32" where
  "time_of_prefix S n = (if n = length S then 1 else if n = 0 then 0
     else CompletedThroughSeconds (S ! (n - 1)))"

definition found_counts :: "shard_info list \<Rightarrow> nat list \<Rightarrow> tracker \<Rightarrow> bool" where
  "found_counts S ks t \<longleftrightarrow> shards t = S \<and> length S \<le> length (foundResponses t)
     \<and> (\<forall>i<length (foundResponses t). foundResponses t ! i = int (count_list ks i))"

definition tracker_at :: "shard_info list \<Rightarrow> nat list \<Rightarrow> tracker \<Rightarrow> bool" where
  "tracker_at S ks t \<longleftrightarrow> found_counts S ks t \<and> curShard t \<le> length S
     \<and> (\<forall>i<curShard t. shard_done S ks i)
     \<and> (curShard t < length S \<longrightarrow> \<not> shard_done S ks (curShard t))
     \<and> completedThroughSeconds t = time_of_prefix S (curShard t)"

lemma increment_exact:
  assumes "found_counts S ks t" and "curShard t \<le> length S"
    and "\<forall>i<curShard t. shard_done S ks i"
    and "curShard t < length S \<longrightarrow> completedThroughSeconds t = time_of_prefix S (curShard t)"
  shows "tracker_at S ks (incrementCurShardIfComplete t)"
  using assms
proof (induction t rule: incrementCurShardIfComplete.induct)
  case (1 t)
  have S: "shards t = S" using "1.prems"(1) by (simp add: found_counts_def)
  consider "curShard t = length S"
    | "curShard t < length S" "foundResponses t ! curShard t = uint (ShardTotalJobs (S ! curShard t))"
    | "curShard t < length S" "foundResponses t ! curShard t \<noteq> uint (ShardTotalJobs (S ! curShard t))"
    using "1.prems"(2) by fastforce
  then show ?case
  proof cases
    case 1
    then show ?thesis using "1.prems"
      by (simp add: incrementCurShardIfComplete.simps [of t] S tracker_at_def found_counts_def
          time_of_prefix_def)
  next
    case 2
    then have "shard_done S ks (curShard t)" using "1.prems"(1) by (simp add: found_counts_def shard_done_def)
    then have "tracker_at S ks (incrementCurShardIfComplete (t\<lparr>completedThroughSeconds :=
        CompletedThroughSeconds (shards t ! curShard t), curShard := curShard t + 1\<rparr>))"
      using 2 "1.prems" S by (intro "1.IH") (auto simp: found_counts_def time_of_prefix_def less_Suc_eq)
    then show ?thesis using 2 by (simp add: incrementCurShardIfComplete.simps [of t] S)
  next
    case 3
    then show ?thesis using "1.prems"
      by (simp add: incrementCurShardIfComplete.simps [of t] S tracker_at_def found_counts_def
          shard_done_def)
  qed
qed

lemma counts_only_new: "counts_only [] new_tracker"
  by (simp add: counts_only_def new_tracker_def)

lemma length_grow: "length (grow n xs) = max n (length xs)"
  by (simp add: grow_def)

lemma nth_grow: "i < length (grow n xs) \<Longrightarrow> grow n xs ! i = (if i < length xs then xs ! i else 0)"
  by (auto simp: grow_def nth_append split: if_splits)

lemma counts_only_add:
  assumes "counts_only ks t"
  shows "counts_only (ks @ [k]) (AddShardIdx k t)"
proof -
  let ?f = "grow (k + 1) (foundResponses t)"
  have "int (count_list (ks @ [k]) i) = (if i < length (?f[k := ?f ! k + 1]) then (?f[k := ?f ! k + 1]) ! i else 0)" for i
    using assms by (auto simp: counts_only_def length_grow nth_grow nth_list_update)
  then show ?thesis using assms by (simp add: counts_only_def AddShardIdx_def Let_def)
qed

lemma tracker_at_shards:
  assumes "counts_only ks t" and "S \<noteq> []"
  shows "tracker_at S ks (AddShards S t)"
proof -
  have "found_counts S ks (t\<lparr>shards := S, foundResponses := grow (length S) (foundResponses t)\<rparr>)"
    using assms(1) by (simp add: counts_only_def found_counts_def nth_grow length_grow)
  then show ?thesis
    using assms by (simp add: AddShards_def) (rule increment_exact,
      auto simp: counts_only_def time_of_prefix_def)
qed

lemma tracker_at_add:
  assumes "tracker_at S ks t" and "k < length S"
    and "int (count_list (ks @ [k]) k) \<le> uint (ShardTotalJobs (S ! k))"
  shows "tracker_at S (ks @ [k]) (AddShardIdx k t)"
proof -
  let ?t = "t\<lparr>foundResponses := (foundResponses t)[k := foundResponses t ! k + 1]\<rparr>"
  have k: "curShard t \<le> k"
  proof (rule ccontr)
    assume "\<not> curShard t \<le> k"
    then have "shard_done S ks k" using assms(1) by (simp add: tracker_at_def)
    then show False using assms(3) by (simp add: shard_done_def)
  qed
  have "found_counts S (ks @ [k]) ?t"
    using assms(1,2) by (auto simp: tracker_at_def found_counts_def nth_list_update)
  moreover have "shard_done S (ks @ [k]) i" if "i < curShard t" for i
    using assms(1) that k by (auto simp: tracker_at_def shard_done_def)
  ultimately have "tracker_at S (ks @ [k]) (incrementCurShardIfComplete ?t)"
    using assms(1) by (intro increment_exact) (auto simp: tracker_at_def)
  moreover have "shards t \<noteq> []" "\<not> length (foundResponses t) \<le> k"
    using assms(1,2) by (auto simp: tracker_at_def found_counts_def)
  ultimately show ?thesis by (simp add: AddShardIdx_def)
qed

lemma counts_only_fold: "counts_only ks t \<Longrightarrow> counts_only (ks @ ks') (fold AddShardIdx ks' t)"
proof (induction ks' arbitrary: ks t)
  case (Cons k ks')
  show ?case using Cons.IH [OF counts_only_add [OF Cons.prems, of k]] by simp
qed simp

lemma tracker_at_fold:
  assumes "tracker_at S ks t" and "\<forall>k\<in>set ks'. k < length S"
    and "\<forall>i<length S. int (count_list (ks @ ks') i) \<le> uint (ShardTotalJobs (S ! i))"
  shows "tracker_at S (ks @ ks') (fold AddShardIdx ks' t)"
  using assms
proof (induction ks' arbitrary: ks t)
  case (Cons k ks')
  have "int (count_list (ks @ [k]) k) \<le> int (count_list (ks @ k # ks') k)" by simp
  also have "\<dots> \<le> uint (ShardTotalJobs (S ! k))"
    using Cons.prems(2,3) by (meson list.set_intros(1))
  finally have "tracker_at S (ks @ [k]) (AddShardIdx k t)"
    using Cons.prems by (intro tracker_at_add) auto
  then show ?case using Cons.IH [of "ks @ [k]" "AddShardIdx k t"] Cons.prems(2,3) by simp
qed simp

text \<open>C27. The tracker computes, one response at a time and whenever the shards become known, the time of the
  longest prefix of shards whose jobs have all answered.\<close>

theorem tracker_reports_complete_prefix:
  assumes "S \<noteq> []" and "\<forall>k\<in>set (ks @ ks'). k < length S"
    and "\<forall>i<length S. int (count_list (ks @ ks') i) \<le> uint (ShardTotalJobs (S ! i))"
  shows "completedThroughSeconds (fold AddShardIdx ks' (AddShards S (fold AddShardIdx ks new_tracker)))
    = time_of_prefix S (length (takeWhile (shard_done S (ks @ ks')) [0..<length S]))"
proof -
  have "counts_only ks (fold AddShardIdx ks new_tracker)"
    using counts_only_fold [OF counts_only_new, of ks] by simp
  then have "tracker_at S (ks @ ks') (fold AddShardIdx ks' (AddShards S (fold AddShardIdx ks new_tracker)))"
    using assms by (intro tracker_at_fold tracker_at_shards) auto
  then obtain n where n: "n \<le> length S" "\<forall>i<n. shard_done S (ks @ ks') i"
    "n < length S \<longrightarrow> \<not> shard_done S (ks @ ks') n"
    "completedThroughSeconds (fold AddShardIdx ks' (AddShards S (fold AddShardIdx ks new_tracker)))
      = time_of_prefix S n"
    unfolding tracker_at_def by blast
  then have "takeWhile (shard_done S (ks @ ks')) [0..<length S] = take n [0..<length S]"
    by (intro takeWhile_eq_take_P_nth) auto
  then show ?thesis using n by simp
qed

lemma all_less_two: "(\<forall>i<Suc (Suc 0). P i) \<longleftrightarrow> P 0 \<and> P (Suc 0)"
  by (simp add: less_Suc_eq all_conj_distrib)

theorem tracker_reports_complete_prefix_witness:
  "let S = [\<lparr>ShardTotalJobs = 1, CompletedThroughSeconds = 90\<rparr>, \<lparr>ShardTotalJobs = 2, CompletedThroughSeconds = 1\<rparr>]
   in completedThroughSeconds (fold AddShardIdx [0] (AddShards S (fold AddShardIdx [1] new_tracker))) = 90"
proof -
  let ?S = "[\<lparr>ShardTotalJobs = 1, CompletedThroughSeconds = 90\<rparr>,
    \<lparr>ShardTotalJobs = 2, CompletedThroughSeconds = 1\<rparr>] :: shard_info list"
  have "\<forall>i<length ?S. int (count_list ([1] @ [0]) i) \<le> uint (ShardTotalJobs (?S ! i))"
    by (simp add: all_less_two)
  then have "completedThroughSeconds (fold AddShardIdx [0] (AddShards ?S (fold AddShardIdx [1] new_tracker)))
    = time_of_prefix ?S (length (takeWhile (shard_done ?S ([1] @ [0])) [0..<length ?S]))"
    by (intro tracker_reports_complete_prefix) auto
  also have "\<dots> = 90" by code_simp
  finally show ?thesis by (simp only: Let_def)
qed

subsection \<open>A search run to its end\<close>

text \<open>
  \<open>n\<close> requests; request \<open>q\<close> belongs to shard \<open>sh q\<close> and finds the traces \<open>found q\<close>. \<open>sound_run\<close> is what
  the plan and the blocks guarantee.
\<close>

definition sound_run :: "shard_info list \<Rightarrow> (nat \<Rightarrow> nat) \<Rightarrow> nat \<Rightarrow> (nat \<Rightarrow> trace_meta list) \<Rightarrow> bool" where
  "sound_run S sh n found \<longleftrightarrow> (\<forall>q<n. sh q < length S)
     \<and> (\<forall>i<length S. uint (ShardTotalJobs (S ! i)) = int (count_list (map sh [0..<n]) i))
     \<and> (\<forall>q<n. \<forall>i. i < sh q \<longrightarrow> CompletedThroughSeconds (S ! i) \<noteq> TimestampNever \<longrightarrow> (\<forall>t\<in>set (found q).
          uint (StartTimeUnixNano t) \<le> uint (CompletedThroughSeconds (S ! i)) * 1000000000))
     \<and> distinct (map TraceID (concat (map found [0..<n])))"

definition found_response :: "(nat \<Rightarrow> nat) \<Rightarrow> (nat \<Rightarrow> trace_meta list) \<Rightarrow> nat \<Rightarrow> pipeline_response" where
  "found_response sh found q = HTTPResponse \<lparr>RespStatus = 200, RespBody = '''',
     RespDecoded = Some \<lparr>Traces = found q, Metrics = None\<rparr>, RespCacheHit = False,
     RespRequestData = Some (sh q)\<rparr>"

text \<open>The state after the requests \<open>ds\<close> have been combined.\<close>

definition run_at :: "int \<Rightarrow> (nat \<Rightarrow> nat) \<Rightarrow> (nat \<Rightarrow> trace_meta list) \<Rightarrow> nat list \<Rightarrow> search_combiner \<Rightarrow> bool" where
  "run_at lim sh found ds c \<longleftrightarrow> mostRecentFlag c \<and> httpStatusCode c = 200
     \<and> metadataCombiner c = MostRecent (recent.add_all (concat (map found ds)) (newMostRecentCombiner lim))"

lemma add_trace_recent:
  "metadataCombiner c = MostRecent m \<Longrightarrow> metadataCombiner (fold add_trace ts c) = MostRecent (recent.add_all ts m)
    \<and> mostRecentFlag (fold add_trace ts c) = mostRecentFlag c
    \<and> httpStatusCode (fold add_trace ts c) = httpStatusCode c
    \<and> completedThroughTracker (fold add_trace ts c) = completedThroughTracker c"
proof (induction ts arbitrary: c m)
  case (Cons t ts)
  have "metadataCombiner (add_trace t c) = MostRecent (fst (recent_AddMetadata m t))"
    "mostRecentFlag (add_trace t c) = mostRecentFlag c" "httpStatusCode (add_trace t c) = httpStatusCode c"
    "completedThroughTracker (add_trace t c) = completedThroughTracker c"
    using Cons.prems by (simp_all add: add_trace_def case_prod_unfold)
  then show ?case using Cons.IH [of "add_trace t c" "fst (recent_AddMetadata m t)"]
    by (simp add: recent.add_all_def)
qed (simp add: recent.add_all_def)

lemma run_at_respond:
  assumes "run_at lim sh found ds c" and "\<not> shouldQuit c"
  shows "run_at lim sh found (ds @ [q]) (respond (found_response sh found q) c)"
    and "completedThroughTracker (respond (found_response sh found q) c)
      = AddShardIdx (sh q) (completedThroughTracker c)"
proof -
  let ?c = "c\<lparr>httpStatusCode := 200, completedThroughTracker := AddShardIdx (sh q) (completedThroughTracker c)\<rparr>"
  let ?m = "recent.add_all (concat (map found ds)) (newMostRecentCombiner lim)"
  have c: "c\<lparr>httpStatusCode := 200\<rparr> = c" using assms(1) by (simp add: run_at_def)
  have r: "respond (found_response sh found q) c
      = (fold add_trace (found q) ?c)\<lparr>metricsCombiner := metricsCombiner (fold add_trace (found q) ?c)\<rparr>"
    using assms by (simp add: respond_def found_response_def check_response_def combine_response_def c
        search_combine_def metrics_Combine_def run_at_def)
  have "metadataCombiner ?c = MostRecent ?m" using assms(1) by (simp add: run_at_def)
  note f = add_trace_recent [OF this, of "found q"]
  show "run_at lim sh found (ds @ [q]) (respond (found_response sh found q) c)"
    unfolding r run_at_def using f assms(1) by (simp add: recent.add_all_def run_at_def)
  show "completedThroughTracker (respond (found_response sh found q) c)
      = AddShardIdx (sh q) (completedThroughTracker c)"
    unfolding r using f by simp
qed

lemma respond_quit: "shouldQuit c \<Longrightarrow> respond (found_response sh found q) c = c"
  by (simp add: respond_def found_response_def check_response_def)

lemma fold_respond_quit: "shouldQuit c \<Longrightarrow> fold respond (map (found_response sh found) qs) c = c"
  by (induction qs) (simp_all add: respond_quit)

lemma no_quit_before_shards:
  "run_at lim sh found ds c \<Longrightarrow> completedThroughSeconds (completedThroughTracker c) = 0 \<Longrightarrow> \<not> shouldQuit c"
  by (simp add: shouldQuit_def search_quit_def run_at_def recent_IsCompleteFor_def)

lemma count_list_mset: "mset xs = mset ys \<Longrightarrow> count_list xs i = count_list ys i"
  by (metis count_mset count_list_eq_length_filter)

text \<open>The counts of the requests done never exceed the announced ones.\<close>

lemma run_counts:
  assumes "sound_run S sh n found" and "mset (ds @ rest) = mset [0..<n]" and "i < length S"
  shows "int (count_list (map sh ds) i) + int (count_list (map sh rest) i) = uint (ShardTotalJobs (S ! i))"
proof -
  have "mset (map sh (ds @ rest)) = mset (map sh [0..<n])" unfolding mset_map assms(2) ..
  then have "count_list (map sh (ds @ rest)) i = count_list (map sh [0..<n]) i" by (rule count_list_mset)
  then show ?thesis using assms(1,3) by (simp add: sound_run_def)
qed

lemma late_traces_change_nothing:
  assumes "sound_run S sh n found" and "0 < lim" and "run_at lim sh found ds c"
    and "tracker_at S (map sh ds) (completedThroughTracker c)" and "shouldQuit c"
    and "mset (ds @ rest) = mset [0..<n]"
  shows "recent.add_all (concat (map found (ds @ rest))) (newMostRecentCombiner lim)
    = recent.add_all (concat (map found ds)) (newMostRecentCombiner lim)"
proof -
  let ?t = "completedThroughTracker c"
  let ?m = "recent.add_all (concat (map found ds)) (newMostRecentCombiner lim)"
  let ?ts = "completedThroughSeconds ?t"
  have ok: "recent_ok ?m" by (rule recent.invar_add_all [OF recent_ok_new [OF assms(2)]])
  have complete: "recent_IsCompleteFor ?m ?ts" "?ts \<noteq> 0" "?ts \<noteq> TimestampNever"
    using assms(3,5) by (auto simp: run_at_def shouldQuit_def search_quit_def recent_IsCompleteFor_def Let_def
        split: if_splits)
  have q: "q < n" if "q \<in> set rest" for q
    using mset_eq_setD [OF assms(6)] that by auto
  have later: "curShard ?t \<le> sh q" if "q \<in> set rest" for q
  proof (rule ccontr)
    assume "\<not> curShard ?t \<le> sh q"
    then have "shard_done S (map sh ds) (sh q)" using assms(4) by (simp add: tracker_at_def)
    moreover have "sh q < length S" using assms(1) q [OF that] by (simp add: sound_run_def)
    ultimately have "count_list (map sh rest) (sh q) = 0"
      using run_counts [OF assms(1,6), of "sh q"] by (simp add: shard_done_def)
    then show False using that by (simp add: count_list_0_iff)
  qed
  have old: "uint (StartTimeUnixNano m) \<le> uint ?ts * 1000000000"
    if "q \<in> set rest" "m \<in> set (found q)" for q m
  proof -
    have sh: "sh q < length S" using assms(1) q [OF that(1)] by (simp add: sound_run_def)
    have cur: "curShard ?t \<noteq> length S" using later [OF that(1)] sh by simp
    have ts: "?ts = time_of_prefix S (curShard ?t)" using assms(4) by (simp add: tracker_at_def)
    then have "0 < curShard ?t" using complete(2) cur by (metis gr0I time_of_prefix_def)
    moreover from this have "?ts = CompletedThroughSeconds (S ! (curShard ?t - 1))"
      using ts cur by (simp add: time_of_prefix_def)
    moreover have "curShard ?t - 1 < sh q" using later [OF that(1)] \<open>0 < curShard ?t\<close> by simp
    ultimately show ?thesis
      using assms(1) q [OF that(1)] that(2) complete(3) unfolding sound_run_def by metis
  qed
  have "distinct (map TraceID (concat (map found [0..<n])))" using assms(1) by (simp add: sound_run_def)
  moreover have "mset (map TraceID (concat (map found (ds @ rest)))) = mset (map TraceID (concat (map found [0..<n])))"
    unfolding mset_map mset_concat_map [OF assms(6), of found] ..
  ultimately have "distinct (map TraceID (concat (map found (ds @ rest))))"
    using mset_eq_imp_distinct_iff by blast
  then have "distinct (map TraceID (concat (map found ds)) @ map TraceID (concat (map found rest)))" by simp
  then have apart: "set (map TraceID (concat (map found ds))) \<inter> set (map TraceID (concat (map found rest))) = {}"
    unfolding distinct_append by blast
  have "dom (map_of (trs ?m)) \<subseteq> set (map TraceID (concat (map found ds)))"
    using recent.known_add_all [OF recent_ok_new [OF assms(2)], of "concat (map found ds)"]
    by (simp add: newMostRecentCombiner_def)
  then have new: "TraceID m \<notin> dom (map_of (trs ?m))" if "m \<in> set (concat (map found rest))" for m
    using apart that by (metis (no_types, lifting) disjoint_iff image_eqI list.set_map subsetD)
  have "\<forall>m\<in>set (concat (map found rest)). TraceID m \<notin> dom (map_of (trs ?m))
      \<and> uint (StartTimeUnixNano m) \<le> uint ?ts * 1000000000"
  proof
    fix m assume m: "m \<in> set (concat (map found rest))"
    then obtain q where "q \<in> set rest" "m \<in> set (found q)" by auto
    then show "TraceID m \<notin> dom (map_of (trs ?m)) \<and> uint (StartTimeUnixNano m) \<le> uint ?ts * 1000000000"
      using new [OF m] old by blast
  qed
  then have "recent.add_all (concat (map found rest)) ?m = ?m"
    by (rule recent.late_results_change_nothing [OF ok complete(1)])
  then show ?thesis by (simp add: recent.add_all_def)
qed

lemma run_before_shards:
  assumes "run_at lim sh found ds c" and "counts_only (map sh ds) (completedThroughTracker c)"
  shows "run_at lim sh found (ds @ qs) (fold respond (map (found_response sh found) qs) c)
    \<and> counts_only (map sh (ds @ qs))
        (completedThroughTracker (fold respond (map (found_response sh found) qs) c))"
  using assms
proof (induction qs arbitrary: ds c)
  case (Cons q qs)
  have quit: "\<not> shouldQuit c"
    using Cons.prems by (intro no_quit_before_shards) (auto simp: counts_only_def)
  let ?c = "respond (found_response sh found q) c"
  have "run_at lim sh found (ds @ [q]) ?c" by (rule run_at_respond(1) [OF Cons.prems(1) quit])
  moreover have "counts_only (map sh (ds @ [q])) (completedThroughTracker ?c)"
    using counts_only_add [OF Cons.prems(2), of "sh q"] run_at_respond(2) [OF Cons.prems(1) quit, of q] by simp
  ultimately show ?case using Cons.IH [of "ds @ [q]" ?c] by simp
qed simp

lemma run_after_shards:
  assumes "sound_run S sh n found" and "run_at lim sh found ds c"
    and "tracker_at S (map sh ds) (completedThroughTracker c)" and "mset (ds @ qs) = mset [0..<n]"
  shows "\<exists>ds' rest c'. ds @ qs = ds' @ rest \<and> c' = fold respond (map (found_response sh found) qs) c
    \<and> run_at lim sh found ds' c' \<and> (rest = [] \<or> shouldQuit c'
        \<and> tracker_at S (map sh ds') (completedThroughTracker c'))"
  using assms(2-4)
proof (induction qs arbitrary: ds c)
  case Nil
  then show ?case by (intro exI [of _ ds] exI [of _ "[]"] exI [of _ c]) simp
next
  case (Cons q qs)
  show ?case
  proof (cases "shouldQuit c")
    case True
    then show ?thesis
      using fold_respond_quit [OF True, of sh found "q # qs"] Cons.prems
      by (intro exI [of _ ds] exI [of _ "q # qs"] exI [of _ c]) simp
  next
    case False
    let ?c = "respond (found_response sh found q) c"
    have q: "q < n" using mset_eq_setD [OF Cons.prems(3)] by auto
    then have k: "sh q < length S" using assms(1) by (simp add: sound_run_def)
    have "int (count_list (map sh ds @ [sh q]) (sh q)) \<le> uint (ShardTotalJobs (S ! sh q))"
      using run_counts [OF assms(1) Cons.prems(3) k] by simp
    then have "tracker_at S (map sh (ds @ [q])) (completedThroughTracker ?c)"
      using tracker_at_add [OF Cons.prems(2) k] run_at_respond(2) [OF Cons.prems(1) False, of q] by simp
    then obtain ds' rest where "(ds @ [q]) @ qs = ds' @ rest"
      "run_at lim sh found ds' (fold respond (map (found_response sh found) qs) ?c)"
      "rest = [] \<or> shouldQuit (fold respond (map (found_response sh found) qs) ?c)
        \<and> tracker_at S (map sh ds') (completedThroughTracker (fold respond (map (found_response sh found) qs) ?c))"
      using Cons.IH [of "ds @ [q]" ?c] run_at_respond(1) [OF Cons.prems(1) False, of q] Cons.prems(3) by auto
    then show ?thesis by (intro exI [of _ ds'] exI [of _ rest] exI) simp
  qed
qed

text \<open>Preparing results for the client does not touch their start.\<close>

lemma start_after_texts: "StartTimeUnixNano (addRootSpanNotReceivedText ps os ! p) = StartTimeUnixNano (os ! p)"
  unfolding addRootSpanNotReceivedText_def
proof (induction ps arbitrary: os)
  case (Cons q ps)
  have "StartTimeUnixNano (os[q := (if RootServiceName (os ! q) = ''''
      then (os ! q)\<lparr>RootServiceName := RootSpanNotYetReceivedText\<rparr> else os ! q)] ! p) = StartTimeUnixNano (os ! p)"
    by (cases "q < length os") (auto simp: nth_list_update list_update_beyond)
  with Cons show ?case by simp
qed simp

lemma start_after_padding: "StartTimeUnixNano (padTraceIDsInResponse ps os ! p) = StartTimeUnixNano (os ! p)"
  unfolding padTraceIDsInResponse_def
proof (induction ps arbitrary: os)
  case (Cons q ps)
  have "StartTimeUnixNano (os[q := (os ! q)\<lparr>TraceID := PadTraceIDString (TraceID (os ! q))\<rparr>] ! p)
      = StartTimeUnixNano (os ! p)"
    by (cases "q < length os") (auto simp: nth_list_update list_update_beyond)
  with Cons show ?case by simp
qed simp

lemma starts_of_final:
  assumes "metadataCombiner c = MostRecent m"
  shows "map StartTimeUnixNano (Traces (snd (search_finalize ks c))) = map StartTimeUnixNano (recent_results m)"
  using assms by (simp add: search_finalize_def Let_def prepare_results_def recent_results_def
      start_after_texts start_after_padding)

lemma starts_of_newest: "map StartTimeUnixNano (newest ms) = rev (sort (map StartTimeUnixNano ms))"
proof -
  have "sorted_wrt (\<lambda>a b. StartTimeUnixNano b \<le> StartTimeUnixNano a) (newest ms)"
    using sorted_newest [of ms] unfolding sorted_map
    by (rule sorted_wrt_mono_rel [rotated]) (simp add: word_le_def)
  then have "sorted (rev (map StartTimeUnixNano (newest ms)))"
    by (simp add: sorted_wrt_rev sorted_wrt_map)
  moreover have "mset (rev (map StartTimeUnixNano (newest ms))) = mset (map StartTimeUnixNano ms)"
    by (simp add: newest_def)
  ultimately have "sort (map StartTimeUnixNano ms) = rev (map StartTimeUnixNano (newest ms))"
    by (intro properties_for_sort) simp_all
  then show ?thesis by simp
qed

lemma search_metadata_fields:
  "mostRecentFlag c \<Longrightarrow> metadataCombiner (search_metadata p c) = metadataCombiner c
    \<and> mostRecentFlag (search_metadata p c) \<and> httpStatusCode (search_metadata p c) = httpStatusCode c
    \<and> completedThroughTracker (search_metadata p c) = AddShards (planShards p) (completedThroughTracker c)"
  by (simp add: search_metadata_def Let_def)

lemma run_exact:
  assumes "sound_run (planShards plan) sh n found" and "0 < lim" and "mset (qs @ qs') = mset [0..<n]"
    and "c = fold respond (map (found_response sh found) qs @ Announcement plan
      # map (found_response sh found) qs') (NewSearch lim True pad)"
  shows "map StartTimeUnixNano (Traces (snd (search_finalize ks c)))
    = take (nat lim) (rev (sort (map StartTimeUnixNano (concat (map found [0..<n])))))"
proof -
  let ?S = "planShards plan"
  define c1 where "c1 = fold respond (map (found_response sh found) qs) (NewSearch lim True pad)"
  define c2 where "c2 = respond (Announcement plan) c1"
  have "run_at lim sh found [] (NewSearch lim True pad)"
    "counts_only (map sh []) (completedThroughTracker (NewSearch lim True pad))"
    using counts_only_new by (simp_all add: run_at_def NewSearch_def NewMetadataCombiner_def recent.add_all_def)
  from run_before_shards [OF this, of qs]
  have r1: "run_at lim sh found qs c1" "counts_only (map sh qs) (completedThroughTracker c1)"
    by (simp_all add: c1_def)
  have "c2 = search_metadata plan c1" by (simp add: c2_def respond_def)
  then have r2: "run_at lim sh found qs c2"
    "completedThroughTracker c2 = AddShards ?S (completedThroughTracker c1)"
    using r1(1) search_metadata_fields [of c1 plan] by (simp_all add: run_at_def)
  have c: "c = fold respond (map (found_response sh found) qs') c2"
    by (simp add: assms(4) c1_def c2_def)
  have "\<exists>ds rest. qs @ qs' = ds @ rest \<and> run_at lim sh found ds c \<and> (rest = [] \<or> shouldQuit c
        \<and> tracker_at ?S (map sh ds) (completedThroughTracker c))"
  proof (cases "?S = []")
    case True
    then have "n = 0" using assms(1) by (auto simp: sound_run_def)
    then have "qs = []" "qs' = []" using assms(3) by simp_all
    then show ?thesis using r2(1) c by simp
  next
    case False
    then have "tracker_at ?S (map sh qs) (completedThroughTracker c2)"
      using tracker_at_shards [OF r1(2)] r2(2) by simp
    then show ?thesis using run_after_shards [OF assms(1) r2(1) _ assms(3)] c by blast
  qed
  then obtain ds rest where d: "qs @ qs' = ds @ rest" "run_at lim sh found ds c"
    "rest = [] \<or> shouldQuit c \<and> tracker_at ?S (map sh ds) (completedThroughTracker c)" by blast
  let ?all = "concat (map found (ds @ rest))"
  have m: "mset (ds @ rest) = mset [0..<n]" using assms(3) d(1) by simp
  have "recent.add_all ?all (newMostRecentCombiner lim)
      = recent.add_all (concat (map found ds)) (newMostRecentCombiner lim)"
    using d(3) late_traces_change_nothing [OF assms(1,2) d(2) _ _ m] by auto
  then have "metadataCombiner c = MostRecent (recent.add_all ?all (newMostRecentCombiner lim))"
    using d(2) by (simp add: run_at_def)
  moreover have ms: "mset ?all = mset (concat (map found [0..<n]))" by (rule mset_concat_map [OF m])
  have "mset (map TraceID ?all) = mset (map TraceID (concat (map found [0..<n])))"
    unfolding mset_map ms ..
  then have "distinct (map TraceID ?all)"
    using assms(1) mset_eq_imp_distinct_iff unfolding sound_run_def by blast
  then have "recent_results (recent.add_all ?all (newMostRecentCombiner lim)) = take (nat lim) (newest ?all)"
    by (rule recent_keeps_newest [OF assms(2)])
  moreover have "mset (map StartTimeUnixNano ?all) = mset (map StartTimeUnixNano (concat (map found [0..<n])))"
    unfolding mset_map ms ..
  then have "sort (map StartTimeUnixNano ?all) = sort (map StartTimeUnixNano (concat (map found [0..<n])))"
    by (metis mset_sort properties_for_sort sorted_sort)
  ultimately show ?thesis
    by (simp only: starts_of_final take_map [symmetric] starts_of_newest)
qed

lemma count_list_nat: "\<forall>k\<in>set ks. 0 \<le> k \<Longrightarrow> count_list (map nat ks) i = count_list ks (int i)"
  by (induction ks) (auto simp: nat_eq_iff)

lemma count_list_bound: "count_list xs i \<le> length xs"
  by (induction xs) auto

lemma map_upt_nth: "map (\<lambda>q. f (xs ! q)) [0..<length xs] = map f xs"
  by (metis map_map map_nth comp_def map_cong)

lemma plan_gives_sound_run:
  assumes "search_RoundTrip cfg skip maxD canonical blocks now now' parsed (Some tn) = Some (Inr plan)"
    and "checked_config cfg" and "good_blocks (blocks tn)"
    and "n = length (response_shards plan)" and "n < 2 ^ 32"
    and "distinct (map TraceID (concat (map found [0..<n])))"
    and "\<forall>q<length (backendReqs plan). \<forall>b\<in>set (blocks tn).
      ReqBlockID (backendReqs plan ! q) = uuid_string (BlockID b) \<longrightarrow>
      (\<forall>t\<in>set (found (length (ingesterReqs plan) + q)).
        uint (StartTimeUnixNano t) \<le> unix (EndTime b) * 1000000000)"
  shows "sound_run (planShards plan) (\<lambda>q. nat (response_shards plan ! q)) n found"
proof -
  let ?S = "planShards plan" and ?rs = "response_shards plan" and ?k = "length (ingesterReqs plan)"
  have l: "length ?rs = ?k + length (backendReqs plan)" by (simp add: response_shards_def)
  have announced: "\<forall>k\<in>set ?rs. 0 \<le> k \<and> k < int (length ?S)"
    "\<forall>i<length ?S. ShardTotalJobs (?S ! i) = of_nat (count_list ?rs (int i))"
    using plan_announced [OF assms(1-3)] assms(4,5) l by simp_all
  have m: "map (\<lambda>q. nat (?rs ! q)) [0..<n] = map nat ?rs"
    unfolding assms(4) by (rule map_upt_nth)
  have "uint (ShardTotalJobs (?S ! i)) = int (count_list (map (\<lambda>q. nat (?rs ! q)) [0..<n]) i)"
    if "i < length ?S" for i
  proof -
    have "int (count_list ?rs (int i)) < 2 ^ 32"
      using count_list_bound [of ?rs "int i"] assms(4,5) by simp
    then have "uint (of_nat (count_list ?rs (int i)) :: u32) = int (count_list ?rs (int i))"
      by (simp add: uint_nat unat_of_nat take_bit_nat_eq_self)
    then show ?thesis using announced that unfolding m by (simp add: count_list_nat)
  qed
  moreover have "nat (?rs ! q) < length ?S" if "q < n" for q
    using announced(1) nth_mem [of q ?rs] that assms(4) by fastforce
  moreover have "uint (StartTimeUnixNano t) \<le> uint (CompletedThroughSeconds (?S ! i)) * 1000000000"
    if q: "q < n" and i: "i < nat (?rs ! q)" and c: "CompletedThroughSeconds (?S ! i) \<noteq> TimestampNever"
      and t: "t \<in> set (found q)" for q i t
  proof -
    have ge: "?k \<le> q" using i q assms(4) by (auto simp: response_shards_def nth_append split: if_splits)
    define j where "j = q - ?k"
    have j: "j < length (backendReqs plan)" "q = ?k + j" using ge q l assms(4) by (auto simp: j_def)
    have r: "?rs ! q = ResponseData (backendReqs plan ! j)" using j by (simp add: response_shards_def nth_append)
    have "i < length ?S" using i announced(1) nth_mem [of q ?rs] q assms(4) by fastforce
    moreover have "int i < ResponseData (backendReqs plan ! j)" using i r by simp
    ultimately obtain b where b: "b \<in> set (blocks tn)" "ReqBlockID (backendReqs plan ! j) = uuid_string (BlockID b)"
      "unix (EndTime b) \<le> uint (CompletedThroughSeconds (?S ! i))"
      using plan_older [OF assms(1-3), of i "backendReqs plan ! j"] j(1) c by auto
    have "uint (StartTimeUnixNano t) \<le> unix (EndTime b) * 1000000000"
      using assms(7) j b t by simp
    also have "\<dots> \<le> uint (CompletedThroughSeconds (?S ! i)) * 1000000000" using b(3) by simp
    finally show ?thesis .
  qed
  ultimately show ?thesis using assms(6) by (simp add: sound_run_def)
qed


definition sample_found :: "nat \<Rightarrow> trace_meta list" where
  "sample_found q = (if q = 0 then [sample_trace ''a'' 1200000000000 '''']
     else if q = 4 then [sample_trace ''b'' 400000000000 '''', sample_trace ''c'' 450000000000 ''''] else [])"


text \<open>Block ends are kept in whole seconds. Here a block that ends in second 700 has been searched and
  gave a trace at 700.1 seconds; the combiner stops, although an unsearched block that also ends in
  second 700 holds a trace at 700.8 seconds, which is newer.\<close>

theorem same_second_trace_is_lost:
  "let S = [\<lparr>ShardTotalJobs = 1, CompletedThroughSeconds = 700\<rparr>, \<lparr>ShardTotalJobs = 1, CompletedThroughSeconds = 1\<rparr>];
       plan = \<lparr>ingesterReqs = [], backendReqs = [], planShards = S, planBlocks = 2, planJobs = 2, planBytes = 0\<rparr>;
       c = respond (sample_response [sample_trace ''a'' 700100000000 ''x''] 0)
             (respond (Announcement plan) (NewSearch 1 True False));
       late = sample_response [sample_trace ''b'' 700800000000 ''x''] 1
   in shouldQuit c \<and> map TraceID (Traces (snd (search_finalize [] (respond late c)))) = [''a'']"
  by code_simp

end
