(* ===== verification/GoSort.thy ===== *)
theory GoSort
  imports Prelude "HOL-Library.List_Lexorder" "HOL-Library.Product_Lexorder"
begin

section \<open>Sorting and comparing as the Go library does\<close>

text \<open>
  \<open>sort.Slice\<close> sees its slice through a function that compares two positions, and it is not
  stable: which of several sorted orders comes out is not specified. The model takes the sort as
  an argument that gets the comparison of positions and the length, and returns the positions
  in their new order. What the theorems use of it is the contract \<open>sort_contract\<close>: the result
  is a permutation, and it is sorted when the comparison is a strict weak order. The insertion
  sort that the library itself uses on short slices fulfils the contract.
\<close>

type_synonym index_sorter = "(nat \<Rightarrow> nat \<Rightarrow> bool) \<Rightarrow> nat \<Rightarrow> nat list"

definition sort_slice :: "index_sorter \<Rightarrow> ('a \<Rightarrow> 'a \<Rightarrow> bool) \<Rightarrow> 'a list \<Rightarrow> 'a list" where
  "sort_slice srt lt xs = map ((!) xs) (srt (\<lambda>i j. lt (xs ! i) (xs ! j)) (length xs))"

definition strict_weak :: "('a \<Rightarrow> 'a \<Rightarrow> bool) \<Rightarrow> 'a set \<Rightarrow> bool" where
  "strict_weak lt A \<longleftrightarrow> (\<forall>x\<in>A. \<forall>y\<in>A. lt x y \<longrightarrow> \<not> lt y x)
     \<and> (\<forall>x\<in>A. \<forall>y\<in>A. \<forall>z\<in>A. lt x z \<longrightarrow> lt x y \<or> lt y z)"

abbreviation in_order :: "('a \<Rightarrow> 'a \<Rightarrow> bool) \<Rightarrow> 'a list \<Rightarrow> bool" where
  "in_order lt \<equiv> sorted_wrt (\<lambda>x y. \<not> lt y x)"

lemma strict_weak_key: "strict_weak (\<lambda>x y. (f x :: 'k::linorder) < f y) A"
  by (auto simp: strict_weak_def)

lemma strict_weak_cong:
  "strict_weak lt A \<Longrightarrow> (\<And>x y. x \<in> A \<Longrightarrow> y \<in> A \<Longrightarrow> lt x y = lt' x y) \<Longrightarrow> strict_weak lt' A"
  unfolding strict_weak_def by blast

lemma strict_weak_subset: "strict_weak lt B \<Longrightarrow> A \<subseteq> B \<Longrightarrow> strict_weak lt A"
  unfolding strict_weak_def by blast

locale sort_contract =
  fixes srt :: index_sorter
  assumes srt_perm: "mset (srt lt n) = mset [0..<n]"
    and srt_sorted: "strict_weak lt {..<n} \<Longrightarrow> in_order lt (srt lt n)"
begin

lemma sort_slice_mset [simp]: "mset (sort_slice srt lt xs) = mset xs"
proof -
  have "mset (sort_slice srt lt xs) = image_mset ((!) xs) (mset [0..<length xs])"
    by (simp add: sort_slice_def srt_perm)
  also have "\<dots> = mset (map ((!) xs) [0..<length xs])" by (simp only: mset_map)
  finally show ?thesis by (simp add: map_nth)
qed

lemma sort_slice_set [simp]: "set (sort_slice srt lt xs) = set xs"
  by (rule mset_eq_setD) simp

lemma sort_slice_length [simp]: "length (sort_slice srt lt xs) = length xs"
  by (rule mset_eq_length) simp

lemma sort_slice_sorted: "strict_weak lt (set xs) \<Longrightarrow> in_order lt (sort_slice srt lt xs)"
proof -
  assume "strict_weak lt (set xs)"
  then have "strict_weak (\<lambda>i j. lt (xs ! i) (xs ! j)) {..<length xs}"
    unfolding strict_weak_def by simp
  from srt_sorted [OF this] show ?thesis by (simp add: sort_slice_def sorted_wrt_map)
qed

end

subsection \<open>Insertion sort\<close>

fun insert_by :: "('a \<Rightarrow> 'a \<Rightarrow> bool) \<Rightarrow> 'a \<Rightarrow> 'a list \<Rightarrow> 'a list" where
  "insert_by lt x [] = [x]"
| "insert_by lt x (y # ys) = (if lt y x then y # insert_by lt x ys else x # y # ys)"

definition insertion_sort :: index_sorter where
  "insertion_sort lt n = foldr (insert_by lt) [0..<n] []"

lemma mset_insert_by [simp]: "mset (insert_by lt x ys) = add_mset x (mset ys)"
  by (induction ys) auto

lemma set_insert_by [simp]: "set (insert_by lt x ys) = insert x (set ys)"
  by (induction ys) auto

lemma insert_by_sorted:
  "strict_weak lt (insert x (set ys)) \<Longrightarrow> in_order lt ys \<Longrightarrow> in_order lt (insert_by lt x ys)"
proof (induction ys)
  case (Cons y ys)
  have "strict_weak lt (insert x (set ys))" using Cons.prems(1) by (rule strict_weak_subset) auto
  then show ?case using Cons unfolding strict_weak_def by (auto 0 4)
qed simp

lemma set_insertion: "set (foldr (insert_by lt) xs []) = set xs"
  by (induction xs) auto

interpretation insertion_sort: sort_contract insertion_sort
proof
  fix lt :: "nat \<Rightarrow> nat \<Rightarrow> bool" and n :: nat
  have "mset (foldr (insert_by lt) xs []) = mset xs" for xs by (induction xs) auto
  then show "mset (insertion_sort lt n) = mset [0..<n]" by (simp only: insertion_sort_def)
  have "in_order lt (foldr (insert_by lt) xs [])" if "strict_weak lt (set xs)" for xs
    using that
  proof (induction xs)
    case (Cons x xs)
    have "strict_weak lt (set xs)" using Cons.prems by (rule strict_weak_subset) auto
    then show ?case using Cons insert_by_sorted [of lt x "foldr (insert_by lt) xs []"]
      by (simp add: set_insertion)
  qed simp
  then show "strict_weak lt {..<n} \<Longrightarrow> in_order lt (insertion_sort lt n)"
    by (simp add: insertion_sort_def lessThan_atLeast0)
qed

subsection \<open>\<open>bytes.Compare\<close>\<close>

definition Compare :: "bytes \<Rightarrow> bytes \<Rightarrow> int" where
  "Compare a b = (if a < b then -1 else if a = b then 0 else 1)"

lemma Compare_less [simp]: "Compare a b = -1 \<longleftrightarrow> a < b"
  by (simp add: Compare_def)

lemma Compare_greater [simp]: "Compare a b = 1 \<longleftrightarrow> b < a"
  by (auto simp: Compare_def)

end
