(* ===== verification/SpanDedupe.thy ===== *)
theory SpanDedupe
  imports Prelude
begin

section \<open>Keeping what was not seen before\<close>

text \<open>
  The combiners of partial traces, of the messages (\<open>pkg/model/trace/combine.go\<close>) and of the rows of
  a block (\<open>tempodb/encoding/vparquet5/combiner.go\<close>), have the same nested loops: over the batches,
  their scopes and their spans, keeping the spans whose token is new and dropping the scopes and
  batches that keep nothing. \<open>keep_new\<close> is the inner loop, \<open>keep_groups\<close> one of the outer ones; the
  tokens seen so far are passed along.
\<close>

fun keep_new :: "('a \<Rightarrow> 'k) \<Rightarrow> bool \<Rightarrow> 'k set \<Rightarrow> 'a list \<Rightarrow> 'a list \<times> 'k set" where
  "keep_new tok final seen [] = ([], seen)"
| "keep_new tok final seen (s # ss) =
     (if tok s \<in> seen then keep_new tok final seen ss
      else let (notFound, seen') = keep_new tok final (if final then seen else insert (tok s) seen) ss
        in (s # notFound, seen'))"

fun keep_groups ::
  "('g \<Rightarrow> 'x list) \<Rightarrow> ('x list \<Rightarrow> 'g \<Rightarrow> 'g) \<Rightarrow> ('k set \<Rightarrow> 'x list \<Rightarrow> 'x list \<times> 'k set)
   \<Rightarrow> 'k set \<Rightarrow> 'g list \<Rightarrow> 'g list \<times> 'k set" where
  "keep_groups get put keep seen [] = ([], seen)"
| "keep_groups get put keep seen (g # gs) =
     (let (notFound, seen1) = keep seen (get g);
          (rest, seen2) = keep_groups get put keep seen1 gs
      in (if notFound \<noteq> [] then put notFound g # rest else rest, seen2))"

subsection \<open>The inner loop\<close>

lemma keep_new_Cons:
  "keep_new tok final seen (s # ss) =
     (if tok s \<in> seen then keep_new tok final seen ss
      else map_prod ((#) s) id (keep_new tok final (if final then seen else insert (tok s) seen) ss))"
  by (simp add: map_prod_def id_def)

lemmas keep_new_rec = keep_new.simps(1) keep_new_Cons

declare keep_new.simps(2) [simp del]

lemma keep_new_append:
  "keep_new tok final seen (xs @ ys) =
     map_prod ((@) (fst (keep_new tok final seen xs))) id (keep_new tok final (snd (keep_new tok final seen xs)) ys)"
proof (induction xs arbitrary: seen)
  case Nil
  then show ?case by (simp add: map_prod_def prod.case_eq_if)
next
  case (Cons s ss)
  then show ?case by (simp add: keep_new_Cons map_prod.compositionality o_def)
qed

lemma keep_new_subset: "set (fst (keep_new tok final seen xs)) \<subseteq> set xs"
proof (induction xs arbitrary: seen)
  case (Cons s ss)
  show ?case using Cons [of seen] Cons [of "if final then seen else insert (tok s) seen"]
    by (auto simp: keep_new_Cons split: if_splits)
qed simp

lemma keep_new_final: "keep_new tok True seen xs = (filter (\<lambda>s. tok s \<notin> seen) xs, seen)"
  by (induction xs) (simp_all add: keep_new_Cons)

lemma keep_new_seen: "snd (keep_new tok False seen xs) = seen \<union> tok ` set xs"
  by (induction xs arbitrary: seen) (auto simp: keep_new_Cons)

lemma keep_new_tokens: "tok ` set (fst (keep_new tok final seen xs)) = tok ` set xs - seen"
proof (induction xs arbitrary: seen)
  case (Cons s ss)
  show ?case using Cons [of seen] Cons [of "insert (tok s) seen"]
    by (cases final) (auto simp: keep_new_Cons)
qed simp

lemma keep_new_distinct: "distinct (map tok (fst (keep_new tok False seen xs)))"
proof (induction xs arbitrary: seen)
  case (Cons s ss)
  have "tok s \<notin> tok ` set (fst (keep_new tok False (insert (tok s) seen) ss))"
    by (simp add: keep_new_tokens)
  then show ?case using Cons by (simp add: keep_new_Cons)
qed simp

subsection \<open>The outer loops\<close>

text \<open>A loop over groups keeps of all the members what the inner loop keeps.\<close>

definition keeps_new ::
  "('x list \<Rightarrow> 'a list) \<Rightarrow> ('a \<Rightarrow> 'k) \<Rightarrow> bool \<Rightarrow> ('k set \<Rightarrow> 'x list \<Rightarrow> 'x list \<times> 'k set) \<Rightarrow> bool" where
  "keeps_new members tok final keep \<longleftrightarrow>
     (\<forall>seen xs. map_prod members id (keep seen xs) = keep_new tok final seen (members xs))"

lemma keeps_new_self: "keeps_new id tok final (keep_new tok final)"
  by (simp add: keeps_new_def map_prod.id)

lemma keeps_new_groups:
  assumes "keeps_new members tok final keep" and "\<And>xs g. get (put xs g) = xs" and "members [] = []"
  shows "keeps_new (\<lambda>gs. concat (map (\<lambda>g. members (get g)) gs)) tok final (keep_groups get put keep)"
  unfolding keeps_new_def
proof (intro allI)
  fix seen gs
  show "map_prod (\<lambda>gs. concat (map (\<lambda>g. members (get g)) gs)) id (keep_groups get put keep seen gs) =
    keep_new tok final seen (concat (map (\<lambda>g. members (get g)) gs))"
  proof (induction gs arbitrary: seen)
    case (Cons g gs)
    obtain xs seen1 where k: "keep seen (get g) = (xs, seen1)" by (cases "keep seen (get g)")
    have inner: "keep_new tok final seen (members (get g)) = (members xs, seen1)"
      using assms(1) k unfolding keeps_new_def by (metis id_apply map_prod_simp)
    obtain rest seen2 where r: "keep_groups get put keep seen1 gs = (rest, seen2)"
      by (cases "keep_groups get put keep seen1 gs")
    have "keep_new tok final seen1 (concat (map (\<lambda>g. members (get g)) gs)) =
        (concat (map (\<lambda>g. members (get g)) rest), seen2)" using Cons [of seen1] r by simp
    then show ?case
      using assms(2,3) by (simp add: k r inner keep_new_append map_prod_def prod.case_eq_if)
  qed simp
qed

lemma keeps_newD:
  assumes "keeps_new members tok final keep"
  shows "members (fst (keep seen xs)) = fst (keep_new tok final seen (members xs))"
    and "snd (keep seen xs) = snd (keep_new tok final seen (members xs))"
  using assms unfolding keeps_new_def by (metis fst_map_prod, metis id_apply snd_map_prod)

end
