(* ===== verification/TraceCombine.thy ===== *)
theory TraceCombine
  imports GoSort SpanDedupe TraceId
begin

section \<open>Combining partial traces (pkg/model/trace)\<close>

text \<open>
  Models \<open>pkg/model/trace/combine.go\<close> and \<open>sort.go\<close>: the parts of a trace that live stores and
  blocks return are merged into one, a span that was seen before is dropped, and the result is
  sorted. Spans are told apart by the token of their kind and id (\<open>util.TokenForID\<close>).

  The messages keep the fields that the code under verification reads or writes. \<open>Combiner\<close> is
  destructive: it takes over the messages it is given, and nothing else refers to them. The
  protobuf size of a trace (generated code) is an argument, \<open>sz\<close>; \<open>sort.Slice\<close> is \<open>srt\<close>.
\<close>

subsection \<open>Messages\<close>

datatype any_value = StringValue string | BoolValue bool | IntValue u64 | DoubleValue u64
  | ArrayValue "any_value list" | KvlistValue "(string \<times> any_value) list" | BytesValue bytes

type_synonym key_value = "string \<times> any_value"

record span_event =
  TimeUnixNano :: u64
  EventName :: string
  EventAttributes :: "key_value list"

record span_link =
  LinkTraceId :: bytes
  LinkSpanId :: bytes
  LinkAttributes :: "key_value list"

record proto_span =
  SpanId :: bytes
  ParentSpanId :: bytes
  SpanName :: string
  Kind :: int
  StartNano :: u64
  EndNano :: u64
  Attributes :: "key_value list"
  Events :: "span_event list"
  Links :: "span_link list"

record scope_spans =
  ScopeAttributes :: "key_value list option"
  Spans :: "proto_span list"

record proto_batch =
  ResourceAttributes :: "key_value list option"
  ScopeSpans :: "scope_spans list"

type_synonym trace = "proto_batch list"

definition span_list :: "trace \<Rightarrow> proto_span list" where
  "span_list t = concat (map (\<lambda>b. concat (map Spans (ScopeSpans b))) t)"

definition span_token :: "proto_span \<Rightarrow> u64" where
  "span_token s = TokenForID (Kind s) (SpanId s)"

abbreviation tokens :: "proto_span list \<Rightarrow> u64 set" where
  "tokens ss \<equiv> span_token ` set ss"

subsection \<open>SortTrace\<close>

definition compareEvents :: "span_event \<Rightarrow> span_event \<Rightarrow> bool" where
  "compareEvents a b =
     (if TimeUnixNano a = TimeUnixNano b then EventName a < EventName b
      else TimeUnixNano a < TimeUnixNano b)"

definition compareLinks :: "span_link \<Rightarrow> span_link \<Rightarrow> bool" where
  "compareLinks a b =
     (if LinkTraceId a = LinkTraceId b then Compare (LinkSpanId a) (LinkSpanId b) = -1
      else Compare (LinkTraceId a) (LinkTraceId b) = -1)"

definition compareSpans :: "proto_span \<Rightarrow> proto_span \<Rightarrow> bool" where
  "compareSpans a b =
     (if StartNano a = StartNano b then Compare (SpanId a) (SpanId b) = -1
      else StartNano a < StartNano b)"

definition compareScopeSpans :: "scope_spans \<Rightarrow> scope_spans \<Rightarrow> bool" where
  "compareScopeSpans a b =
     (if Spans a \<noteq> [] \<and> Spans b \<noteq> [] then compareSpans (hd (Spans a)) (hd (Spans b)) else False)"

definition compareBatches :: "proto_batch \<Rightarrow> proto_batch \<Rightarrow> bool" where
  "compareBatches a b =
     (if ScopeSpans a \<noteq> [] \<and> ScopeSpans b \<noteq> []
      then compareScopeSpans (hd (ScopeSpans a)) (hd (ScopeSpans b)) else False)"

definition sort_span :: "index_sorter \<Rightarrow> proto_span \<Rightarrow> proto_span" where
  "sort_span srt s = s\<lparr>Events := sort_slice srt compareEvents (Events s),
     Links := sort_slice srt compareLinks (Links s)\<rparr>"

definition sort_scope :: "index_sorter \<Rightarrow> scope_spans \<Rightarrow> scope_spans" where
  "sort_scope srt ss = ss\<lparr>Spans := sort_slice srt compareSpans (map (sort_span srt) (Spans ss))\<rparr>"

definition sort_batch :: "index_sorter \<Rightarrow> proto_batch \<Rightarrow> proto_batch" where
  "sort_batch srt b =
     b\<lparr>ScopeSpans := sort_slice srt compareScopeSpans (map (sort_scope srt) (ScopeSpans b))\<rparr>"

definition SortTrace :: "index_sorter \<Rightarrow> trace \<Rightarrow> trace" where
  "SortTrace srt t = sort_slice srt compareBatches (map (sort_batch srt) t)"

subsection \<open>SortTraceAndAttributes\<close>

definition sort_attributes :: "index_sorter \<Rightarrow> key_value list \<Rightarrow> key_value list" where
  "sort_attributes srt as = sort_slice srt (\<lambda>a b. fst a < fst b) as"

definition sort_span_attributes :: "index_sorter \<Rightarrow> proto_span \<Rightarrow> proto_span" where
  "sort_span_attributes srt s =
     s\<lparr>Attributes := sort_attributes srt (Attributes s),
       Events := map (\<lambda>e. e\<lparr>EventAttributes := sort_attributes srt (EventAttributes e)\<rparr>) (Events s),
       Links := map (\<lambda>l. l\<lparr>LinkAttributes := sort_attributes srt (LinkAttributes l)\<rparr>) (Links s)\<rparr>"

definition sort_scope_attributes :: "index_sorter \<Rightarrow> scope_spans \<Rightarrow> scope_spans" where
  "sort_scope_attributes srt ss =
     ss\<lparr>ScopeAttributes := map_option (sort_attributes srt) (ScopeAttributes ss),
        Spans := map (sort_span_attributes srt) (Spans ss)\<rparr>"

definition SortTraceAndAttributes :: "index_sorter \<Rightarrow> trace \<Rightarrow> trace" where
  "SortTraceAndAttributes srt t =
     map (\<lambda>b. b\<lparr>ResourceAttributes := map_option (sort_attributes srt) (ResourceAttributes b),
                ScopeSpans := map (sort_scope_attributes srt) (ScopeSpans b)\<rparr>) (SortTrace srt t)"

subsection \<open>Combiner\<close>

record combiner =
  combinerResult :: "trace option"
  combinerSpans :: "u64 set"
  combined :: bool
  maxSizeBytes :: int
  allowPartialTrace :: bool
  maxTraceSizeReached :: bool

datatype combine_error = ErrTraceTooLarge int

definition NewCombiner :: "int \<Rightarrow> bool \<Rightarrow> combiner" where
  "NewCombiner maxSize allow =
     \<lparr>combinerResult = None, combinerSpans = {}, combined = False, maxSizeBytes = maxSize,
      allowPartialTrace = allow, maxTraceSizeReached = False\<rparr>"

definition IsPartialTrace :: "combiner \<Rightarrow> bool" where
  "IsPartialTrace c \<longleftrightarrow> maxTraceSizeReached c \<and> allowPartialTrace c"

definition sizeError :: "(trace \<Rightarrow> int) \<Rightarrow> combiner \<Rightarrow> combine_error option \<times> combiner" where
  "sizeError sz c =
     (case combinerResult c of
        None \<Rightarrow> (None, c)
      | Some t \<Rightarrow>
          if maxSizeBytes c \<le> 0 then (None, c)
          else if sz t > maxSizeBytes c
          then (Some (ErrTraceTooLarge (maxSizeBytes c)), c\<lparr>maxTraceSizeReached := True\<rparr>)
          else (None, c))"

text \<open>The loops over the spans, scopes and batches of a later trace: what is kept of them, and
  the tokens seen so far.\<close>

definition new_spans :: "bool \<Rightarrow> u64 set \<Rightarrow> proto_span list \<Rightarrow> proto_span list \<times> u64 set" where
  "new_spans final = keep_new span_token final"

definition new_scopes :: "bool \<Rightarrow> u64 set \<Rightarrow> scope_spans list \<Rightarrow> scope_spans list \<times> u64 set" where
  "new_scopes final =
     keep_groups Spans (\<lambda>notFound ils. ils\<lparr>Spans := notFound\<rparr>) (new_spans final)"

definition new_batches :: "bool \<Rightarrow> u64 set \<Rightarrow> trace \<Rightarrow> trace \<times> u64 set" where
  "new_batches final =
     keep_groups ScopeSpans (\<lambda>notFound b. b\<lparr>ScopeSpans := notFound\<rparr>) (new_scopes final)"

definition ConsumeWithFinal ::
  "(trace \<Rightarrow> int) \<Rightarrow> trace option \<Rightarrow> bool \<Rightarrow> combiner \<Rightarrow> (nat \<times> combine_error option) \<times> combiner" where
  "ConsumeWithFinal sz tr final c =
     (case tr of
        None \<Rightarrow> ((0, None), c)
      | Some t \<Rightarrow>
          if IsPartialTrace c then ((0, None), c)
          else case combinerResult c of
              None \<Rightarrow>
                (let (maxSizeErr, c') = sizeError sz (c\<lparr>combinerResult := Some t,
                       combinerSpans := tokens (span_list t)\<rparr>)
                 in ((0, if IsPartialTrace c' then None else maxSizeErr), c'))
            | Some r \<Rightarrow>
                (let (bs, seen) = new_batches final (combinerSpans c) t;
                     (maxSizeErr, c') = sizeError sz (c\<lparr>combinerResult := Some (r @ bs),
                       combinerSpans := seen, combined := True\<rparr>)
                 in ((length (span_list bs), if IsPartialTrace c' then None else maxSizeErr), c')))"

definition Consume ::
  "(trace \<Rightarrow> int) \<Rightarrow> trace option \<Rightarrow> combiner \<Rightarrow> (nat \<times> combine_error option) \<times> combiner" where
  "Consume sz tr c = ConsumeWithFinal sz tr False c"

definition Result :: "index_sorter \<Rightarrow> combiner \<Rightarrow> (trace option \<times> int) \<times> combiner" where
  "Result srt c =
     (case combinerResult c of
        None \<Rightarrow> ((None, -1), c)
      | Some t \<Rightarrow>
          if combined c
          then ((Some (SortTrace srt t), int (card (combinerSpans c))),
                c\<lparr>combinerResult := Some (SortTrace srt t)\<rparr>)
          else ((Some t, -1), c))"

subsection \<open>What is kept\<close>

lemma span_list_append [simp]: "span_list (a @ b) = span_list a @ span_list b"
  by (simp add: span_list_def)

lemma span_list_Nil [simp]: "span_list [] = []"
  by (simp add: span_list_def)

lemma keeps_new_batches: "keeps_new span_list span_token final (new_batches final)"
proof -
  have "keeps_new (\<lambda>gs. concat (map Spans gs)) span_token final (new_scopes final)"
    using keeps_new_groups [OF keeps_new_self, of Spans "\<lambda>xs ils. ils\<lparr>Spans := xs\<rparr>" span_token final]
    by (simp add: new_scopes_def new_spans_def)
  then show ?thesis
    using keeps_new_groups [of "\<lambda>gs. concat (map Spans gs)" span_token final "new_scopes final"
        ScopeSpans "\<lambda>xs b. b\<lparr>ScopeSpans := xs\<rparr>"]
    by (simp add: new_batches_def span_list_def [abs_def])
qed

lemmas span_list_new_batches [simp] = keeps_newD(1) [OF keeps_new_batches]
lemmas seen_new_batches [simp] = keeps_newD(2) [OF keeps_new_batches]

lemma sizeError_snd: "snd (sizeError sz c) = c\<lparr>maxTraceSizeReached := maxTraceSizeReached c
    \<or> (\<exists>t. combinerResult c = Some t \<and> 0 < maxSizeBytes c \<and> maxSizeBytes c < sz t)\<rparr>"
  by (auto simp: sizeError_def split: option.splits)

lemma Consume_snd:
  "snd (Consume sz tr c) =
     (case tr of None \<Rightarrow> c
      | Some t \<Rightarrow> if IsPartialTrace c then c
        else case combinerResult c of
            None \<Rightarrow> snd (sizeError sz (c\<lparr>combinerResult := Some t, combinerSpans := tokens (span_list t)\<rparr>))
          | Some r \<Rightarrow> snd (sizeError sz (c\<lparr>combinerResult := Some (r @ fst (new_batches False (combinerSpans c) t)),
              combinerSpans := snd (new_batches False (combinerSpans c) t), combined := True\<rparr>)))"
  by (simp add: Consume_def ConsumeWithFinal_def Let_def case_prod_unfold split: option.split)

definition consume_all :: "(trace \<Rightarrow> int) \<Rightarrow> trace option list \<Rightarrow> combiner \<Rightarrow> combiner" where
  "consume_all sz trs c = fold (\<lambda>tr c. snd (Consume sz tr c)) trs c"

lemma consume_all_simps [simp]:
  "consume_all sz [] c = c"
  "consume_all sz (trs @ [tr]) c = snd (Consume sz tr (consume_all sz trs c))"
  by (simp_all add: consume_all_def)

text \<open>The spans of the inputs and of the result.\<close>

definition spans_of :: "trace option list \<Rightarrow> proto_span list" where
  "spans_of trs = concat (map (case_option [] span_list) trs)"

abbreviation result_spans :: "combiner \<Rightarrow> proto_span list" where
  "result_spans c \<equiv> case_option [] span_list (combinerResult c)"

lemma spans_of_simps [simp]:
  "spans_of [] = []" "spans_of (trs @ [tr]) = spans_of trs @ case_option [] span_list tr"
  by (simp_all add: spans_of_def)

text \<open>What a combiner holds after the traces \<open>trs\<close>.\<close>

definition holds_traces :: "trace option list \<Rightarrow> combiner \<Rightarrow> bool" where
  "holds_traces trs c \<longleftrightarrow>
     combinerSpans c = tokens (spans_of trs) \<and> tokens (result_spans c) = tokens (spans_of trs)
     \<and> set (result_spans c) \<subseteq> set (spans_of trs)
     \<and> (combinerResult c = None \<longleftrightarrow> set trs \<subseteq> {None})
     \<and> ((\<forall>t. Some t \<in> set trs \<longrightarrow> distinct (map span_token (span_list t)))
         \<longrightarrow> distinct (map span_token (result_spans c)))"

lemma holds_new: "holds_traces [] (NewCombiner maxSize allow)"
  by (simp add: holds_traces_def NewCombiner_def)

lemma holds_sizeError [simp]: "holds_traces trs (snd (sizeError sz c)) = holds_traces trs c"
  by (simp add: holds_traces_def sizeError_snd)

lemma holds_Consume:
  assumes "holds_traces trs c" and "\<not> IsPartialTrace c"
  shows "holds_traces (trs @ [tr]) (snd (Consume sz tr c))"
proof (cases tr)
  case None
  then show ?thesis using assms(1) by (auto simp: Consume_snd sizeError_snd holds_traces_def)
next
  case tr: (Some t)
  show ?thesis
  proof (cases "combinerResult c")
    case None
    then have "spans_of trs = []" using assms(1)
      by (auto simp: holds_traces_def spans_of_def)
    then show ?thesis using assms None tr by (auto simp: Consume_snd sizeError_snd holds_traces_def)
  next
    case (Some r)
    let ?kept = "fst (keep_new span_token False (combinerSpans c) (span_list t))"
    have seen: "combinerSpans c = tokens (span_list r)" using assms(1) Some by (simp add: holds_traces_def)
    have "tokens ?kept = tokens (span_list t) - tokens (span_list r)"
      and "set ?kept \<subseteq> set (span_list t)" and "distinct (map span_token ?kept)"
      using seen by (simp_all add: keep_new_tokens keep_new_subset keep_new_distinct)
    then show ?thesis
      using assms Some tr seen
      by (auto simp: Consume_snd sizeError_snd holds_traces_def keep_new_seen image_Un)
  qed
qed

lemma take_append_le: "k \<le> length xs \<Longrightarrow> take k (xs @ ys) = take k xs"
  by simp

lemma Consume_frame [frame_simps]:
  "allowPartialTrace (snd (Consume sz tr c)) = allowPartialTrace c"
  "maxSizeBytes (snd (Consume sz tr c)) = maxSizeBytes c"
  by (auto simp: Consume_snd sizeError_snd split: option.splits)

lemma consume_all_frame [frame_simps]:
  "allowPartialTrace (consume_all sz trs c) = allowPartialTrace c"
  "maxSizeBytes (consume_all sz trs c) = maxSizeBytes c"
  by (induction trs rule: rev_induct) (simp_all add: frame_simps)

lemma Consume_partial: "IsPartialTrace c \<Longrightarrow> snd (Consume sz tr c) = c"
  by (simp add: Consume_snd split: option.split)

definition within_limit :: "(trace \<Rightarrow> int) \<Rightarrow> combiner \<Rightarrow> bool" where
  "within_limit sz c \<longleftrightarrow> (\<forall>t. combinerResult c = Some t \<longrightarrow> 0 < maxSizeBytes c \<longrightarrow> sz t \<le> maxSizeBytes c)"

lemma limit_Consume:
  "maxTraceSizeReached c \<or> within_limit sz c \<Longrightarrow>
   maxTraceSizeReached (snd (Consume sz tr c)) \<or> within_limit sz (snd (Consume sz tr c))"
  by (auto simp: Consume_snd sizeError_snd within_limit_def split: option.splits)

lemma limit_consume_all:
  "maxTraceSizeReached (consume_all sz trs (NewCombiner maxSize allow))
   \<or> within_limit sz (consume_all sz trs (NewCombiner maxSize allow))"
proof (induction trs rule: rev_induct)
  case Nil
  then show ?case by (simp add: NewCombiner_def within_limit_def)
next
  case (snoc tr trs)
  then show ?case using limit_Consume by simp
qed

lemma consume_all_holds:
  "\<exists>k\<le>length trs. holds_traces (take k trs) (consume_all sz trs (NewCombiner maxSize allow))
     \<and> (k < length trs \<longrightarrow> IsPartialTrace (consume_all sz trs (NewCombiner maxSize allow)))"
proof (induction trs rule: rev_induct)
  case Nil
  then show ?case by (simp add: holds_new)
next
  case (snoc tr trs)
  let ?c = "consume_all sz trs (NewCombiner maxSize allow)"
  from snoc obtain k where k: "k \<le> length trs" "holds_traces (take k trs) ?c"
    "k < length trs \<longrightarrow> IsPartialTrace ?c" by blast
  show ?case
  proof (cases "IsPartialTrace ?c")
    case True
    then show ?thesis using k by (intro exI [of _ k]) (simp add: Consume_partial)
  next
    case False
    then have "holds_traces (trs @ [tr]) (snd (Consume sz tr ?c))"
      using holds_Consume [OF _ False] k by (metis le_neq_implies_less order_refl take_all)
    then show ?thesis by (intro exI [of _ "length trs + 1"]) simp
  qed
qed

lemma Consume_error:
  "snd (fst (Consume sz tr c)) = None \<longleftrightarrow>
     IsPartialTrace (snd (Consume sz tr c)) \<or> tr = None \<or> within_limit sz (snd (Consume sz tr c))"
  by (cases "combinerResult c"; cases tr)
    (simp_all add: Consume_def ConsumeWithFinal_def sizeError_def within_limit_def IsPartialTrace_def Let_def
      case_prod_unfold)


subsection \<open>SortTrace sorts\<close>

lemma compareEvents_key: "compareEvents = (\<lambda>a b. (TimeUnixNano a, EventName a) < (TimeUnixNano b, EventName b))"
  by (auto simp: compareEvents_def fun_eq_iff)

lemma compareLinks_key: "compareLinks = (\<lambda>a b. (LinkTraceId a, LinkSpanId a) < (LinkTraceId b, LinkSpanId b))"
  by (auto simp: compareLinks_def fun_eq_iff)

lemma compareSpans_key: "compareSpans = (\<lambda>a b. (StartNano a, SpanId a) < (StartNano b, SpanId b))"
  by (auto simp: compareSpans_def fun_eq_iff)

definition span_key :: "proto_span \<Rightarrow> u64 \<times> bytes" where
  "span_key s = (StartNano s, SpanId s)"

lemma strict_weak_spans: "strict_weak compareSpans A"
  unfolding compareSpans_key by (rule strict_weak_key)

lemma strict_weak_scopes: "\<forall>ils\<in>A. Spans ils \<noteq> [] \<Longrightarrow> strict_weak compareScopeSpans A"
  by (rule strict_weak_cong [OF strict_weak_key [of "\<lambda>ils. span_key (hd (Spans ils))"]])
    (simp add: compareScopeSpans_def compareSpans_key span_key_def)

lemma strict_weak_batches:
  "\<forall>b\<in>A. ScopeSpans b \<noteq> [] \<and> (\<forall>ils\<in>set (ScopeSpans b). Spans ils \<noteq> []) \<Longrightarrow> strict_weak compareBatches A"
  by (rule strict_weak_cong [OF strict_weak_key [of "\<lambda>b. span_key (hd (Spans (hd (ScopeSpans b))))"]])
    (simp add: compareBatches_def compareScopeSpans_def compareSpans_key span_key_def)

context sort_contract
begin

lemma sort_scope_simps [simp]:
  "Spans (sort_scope srt ils) = sort_slice srt compareSpans (map (sort_span srt) (Spans ils))"
  by (simp add: sort_scope_def)

lemma sort_batch_simps [simp]:
  "ScopeSpans (sort_batch srt b) = sort_slice srt compareScopeSpans (map (sort_scope srt) (ScopeSpans b))"
  by (simp add: sort_batch_def)

lemma mset_span_list_batch:
  "mset (concat (map Spans (ScopeSpans (sort_batch srt b)))) =
   image_mset (sort_span srt) (mset (concat (map Spans (ScopeSpans b))))"
proof -
  have "mset (concat (map Spans (ScopeSpans (sort_batch srt b)))) =
      mset (concat (map Spans (map (sort_scope srt) (ScopeSpans b))))"
    by (rule mset_concat_map) simp
  also have "\<dots> = image_mset (sort_span srt) (mset (concat (map Spans ilss)))"
    if "ilss = ScopeSpans b" for ilss unfolding that [symmetric] by (induction ilss) simp_all
  finally show ?thesis by simp
qed

lemma mset_SortTrace: "mset (span_list (SortTrace srt t)) = image_mset (sort_span srt) (mset (span_list t))"
proof -
  have "mset (span_list (SortTrace srt t)) = mset (span_list (map (sort_batch srt) t))"
    unfolding span_list_def SortTrace_def by (rule mset_concat_map) simp
  also have "\<dots> = image_mset (sort_span srt) (mset (span_list t))"
    by (induction t) (simp_all add: span_list_def mset_span_list_batch del: sort_batch_simps)
  finally show ?thesis .
qed

lemma nonempty_sort_slice [simp]: "sort_slice srt lt xs = [] \<longleftrightarrow> xs = []"
  by (metis sort_slice_length length_0_conv)

lemma SortTrace_levels:
  assumes "\<forall>b\<in>set t. ScopeSpans b \<noteq> [] \<and> (\<forall>ils\<in>set (ScopeSpans b). Spans ils \<noteq> [])"
  shows "in_order compareBatches (SortTrace srt t)"
    and "b \<in> set (SortTrace srt t) \<Longrightarrow> in_order compareScopeSpans (ScopeSpans b)"
    and "b \<in> set (SortTrace srt t) \<Longrightarrow> ils \<in> set (ScopeSpans b) \<Longrightarrow> in_order compareSpans (Spans ils)"
proof -
  have "strict_weak compareBatches (set (map (sort_batch srt) t))"
    using assms by (intro strict_weak_batches) simp
  then show "in_order compareBatches (SortTrace srt t)" unfolding SortTrace_def by (rule sort_slice_sorted)
next
  assume "b \<in> set (SortTrace srt t)"
  then obtain b0 where b: "b0 \<in> set t" "b = sort_batch srt b0" by (auto simp: SortTrace_def)
  have "strict_weak compareScopeSpans (set (map (sort_scope srt) (ScopeSpans b0)))"
    using assms b(1) by (intro strict_weak_scopes) simp
  then show "in_order compareScopeSpans (ScopeSpans b)" using b(2) by (simp add: sort_slice_sorted)
next
  assume "b \<in> set (SortTrace srt t)" and "ils \<in> set (ScopeSpans b)"
  then show "in_order compareSpans (Spans ils)"
    by (auto simp: SortTrace_def intro!: sort_slice_sorted strict_weak_spans)
qed

lemma SortTrace_span:
  assumes "b \<in> set (SortTrace srt t)" and "ils \<in> set (ScopeSpans b)" and "s \<in> set (Spans ils)"
  shows "in_order compareEvents (Events s) \<and> in_order compareLinks (Links s)"
proof -
  obtain s0 where "s = sort_span srt s0" using assms by (auto simp: SortTrace_def)
  then show ?thesis
    by (simp add: sort_span_def sort_slice_sorted compareEvents_key compareLinks_key strict_weak_key
        del: less_prod_simp)
qed

end

text \<open>C40. \<open>SortTrace\<close> keeps the spans, and sorts the batches, their scopes, the spans and their
  events and links. It sorts the scopes only when none is without spans, and the batches only
  when none is without scopes.
\<close>

theorem sort_trace_sorts:
  assumes "sort_contract srt"
    and "\<forall>b\<in>set t. ScopeSpans b \<noteq> [] \<and> (\<forall>ils\<in>set (ScopeSpans b). Spans ils \<noteq> [])"
  shows "mset (span_list (SortTrace srt t)) = image_mset (sort_span srt) (mset (span_list t))
    \<and> in_order compareBatches (SortTrace srt t)
    \<and> (\<forall>b\<in>set (SortTrace srt t). in_order compareScopeSpans (ScopeSpans b)
      \<and> (\<forall>ils\<in>set (ScopeSpans b). in_order compareSpans (Spans ils)
        \<and> (\<forall>s\<in>set (Spans ils). in_order compareEvents (Events s) \<and> in_order compareLinks (Links s))))"
  using assms sort_contract.mset_SortTrace sort_contract.SortTrace_levels sort_contract.SortTrace_span by blast

subsection \<open>Samples\<close>

definition sample_span :: "byte \<Rightarrow> u64 \<Rightarrow> int \<Rightarrow> proto_span" where
  "sample_span i start kind = \<lparr>SpanId = [0, 0, 0, 0, 0, 0, 0, i], ParentSpanId = [], SpanName = '''',
     Kind = kind, StartNano = start, EndNano = start + 1, Attributes = [], Events = [], Links = []\<rparr>"

definition sample_batch :: "proto_span list \<Rightarrow> proto_batch" where
  "sample_batch ss = \<lparr>ResourceAttributes = None, ScopeSpans = [\<lparr>ScopeAttributes = None, Spans = ss\<rparr>]\<rparr>"

definition span_count_size :: "trace \<Rightarrow> int" where
  "span_count_size t = int (length (span_list t))"

definition sample_parts :: "trace option list" where
  "sample_parts = [Some [sample_batch [sample_span 1 5 1, sample_span 2 4 1]], None,
     Some [sample_batch [sample_span 2 4 1, sample_span 3 3 1]]]"


lemma sort_trace_sorts_witness:
  "in_order compareBatches (SortTrace insertion_sort
     [sample_batch [sample_span 1 5 1, sample_span 2 4 1], sample_batch [sample_span 3 3 1]])"
  using sort_trace_sorts [OF insertion_sort.sort_contract_axioms,
      of "[sample_batch [sample_span 1 5 1, sample_span 2 4 1], sample_batch [sample_span 3 3 1]]"]
  by (simp add: sample_batch_def)

text \<open>A batch without scopes compares with nothing, so it hides from the sort that the batches
  around it are in the wrong order. The first trace that a combiner gets is taken over with its
  empty batches.\<close>

lemma empty_batch_blocks_sorting:
  "SortTrace insertion_sort [sample_batch [sample_span 1 2 1], \<lparr>ResourceAttributes = None, ScopeSpans = []\<rparr>,
     sample_batch [sample_span 2 1 1]]
   = [sample_batch [sample_span 1 2 1], \<lparr>ResourceAttributes = None, ScopeSpans = []\<rparr>,
     sample_batch [sample_span 2 1 1]]"
  by code_simp

text \<open>With \<open>final\<close> the tokens of the last trace are not recorded: its repeated spans stay, and the
  count of \<open>Result\<close> leaves its spans out.\<close>

lemma final_trace_is_not_counted:
  "fst (Result insertion_sort (snd (ConsumeWithFinal span_count_size
      (Some [sample_batch [sample_span 2 4 1, sample_span 2 4 1]]) True
      (snd (Consume span_count_size (Some [sample_batch [sample_span 1 5 1]]) (NewCombiner 0 False))))))
   = (Some [sample_batch [sample_span 2 4 1, sample_span 2 4 1], sample_batch [sample_span 1 5 1]], 1)"
  by code_simp

end
