(* ===== verification/Rebatch.thy ===== *)
theory Rebatch
  imports GoSort NestedSet
begin

section \<open>Rebatching the rows of a trace (tempodb/encoding/vparquet5/rebatch\_trace.go)\<close>

text \<open>
  Models the row form of a trace (\<open>schema.go\<close>) as far as it is combined and rebatched, and
  \<open>rebatchTrace\<close>: batches with the same resource are merged, and within a batch scopes that are the
  same. Sameness is decided by a 64-bit FNV-1a hash of the contents.

  The 25 dedicated columns of a resource are two lists, of the columns \<open>String01\<close> to \<open>String20\<close> and
  \<open>Int01\<close> to \<open>Int05\<close>. A \<open>float64\<close> is its bit pattern. \<open>slices.SortFunc\<close> is \<open>srt\<close>. Slices of
  different batches do not share memory, which is what \<open>clearScopeSpans\<close> and \<open>clearSpans\<close> are for.
\<close>

unbundle bit_operations_syntax

subsection \<open>Rows\<close>

record pq_attribute =
  AttrKey :: string
  IsArray :: bool
  Value :: "string list"
  ValueInt :: "u64 list"
  ValueDouble :: "u64 list"
  ValueBool :: "bool list"
  ValueUnsupported :: "string option"

record resource =
  ServiceName :: string
  ResourceAttrs :: "pq_attribute list"
  DedicatedStrings :: "string list list"
  DedicatedInts :: "u64 list list"

record scope =
  ScopeName :: string
  ScopeVersion :: string
  ScopeAttrs :: "pq_attribute list"

record row_span = pq_span +
  SpanStart :: u64

record row_scope =
  Scope :: scope
  RowSpans :: "row_span list"
  RowSpanCount :: int

record row_batch =
  Resource :: resource
  RowScopes :: "row_scope list"

subsection \<open>Hashes\<close>

definition AddString64 :: "u64 \<Rightarrow> string \<Rightarrow> u64" where
  "AddString64 h s = foldl (\<lambda>h c. (h XOR of_char c) * 1099511628211) h s"

definition HashString64 :: "string \<Rightarrow> u64" where
  "HashString64 s = AddString64 14695981039346656037 s"

definition AddUint64 :: "u64 \<Rightarrow> u64 \<Rightarrow> u64" where
  "AddUint64 h u =
     foldl (\<lambda>h i. (h XOR (drop_bit i u AND 255)) * 1099511628211) h [56, 48, 40, 32, 24, 16, 8, 0]"

definition addHashSeparator :: "u64 \<Rightarrow> u64" where
  "addHashSeparator h = AddUint64 (AddUint64 h 9952039) 10188397"

definition addHashStr :: "u64 \<Rightarrow> string list \<Rightarrow> u64" where
  "addHashStr h strs =
     (if strs = [] then addHashSeparator h
      else foldl (\<lambda>h s. AddString64 (addHashSeparator h) s) h strs)"

definition addHashInt :: "u64 \<Rightarrow> u64 list \<Rightarrow> u64" where
  "addHashInt h ints = (if ints = [] then addHashSeparator h else foldl AddUint64 h ints)"

definition addHashDouble :: "u64 \<Rightarrow> u64 list \<Rightarrow> u64" where
  "addHashDouble h ints = (if ints = [] then addHashSeparator h else foldl AddUint64 h ints)"

definition addHashBool :: "u64 \<Rightarrow> bool list \<Rightarrow> u64" where
  "addHashBool h bools =
     (if bools = [] then addHashSeparator h
      else foldl (\<lambda>h b. AddUint64 h (if b then 1 else 0)) h bools)"

definition attributeHash :: "pq_attribute \<Rightarrow> u64 \<Rightarrow> u64" where
  "attributeHash attr h =
     (let h1 = AddString64 h (AttrKey attr);
          h2 = (if IsArray attr then addHashSeparator h1 else h1);
          h3 = addHashBool (addHashDouble (addHashInt (addHashStr h2 (Value attr)) (ValueInt attr))
                 (ValueDouble attr)) (ValueBool attr)
      in case ValueUnsupported attr of
           Some u \<Rightarrow> addHashStr h3 [u]
         | None \<Rightarrow> addHashSeparator h3)"

definition sort_keys :: "index_sorter \<Rightarrow> pq_attribute list \<Rightarrow> pq_attribute list" where
  "sort_keys srt = sort_slice srt (\<lambda>a b. AttrKey a < AttrKey b)"

text \<open>The hashes sort the attributes of their argument in place and hash them in the new order:
  first the sorting, then the hash of what is sorted.\<close>

definition sort_scope_attrs :: "index_sorter \<Rightarrow> row_scope \<Rightarrow> row_scope" where
  "sort_scope_attrs srt ss = ss\<lparr>Scope := (Scope ss)\<lparr>ScopeAttrs := sort_keys srt (ScopeAttrs (Scope ss))\<rparr>\<rparr>"

definition scopeSpanHash :: "row_scope \<Rightarrow> u64" where
  "scopeSpanHash ss =
     fold attributeHash (ScopeAttrs (Scope ss))
       (addHashSeparator (AddString64 (addHashSeparator (HashString64 (ScopeName (Scope ss))))
         (ScopeVersion (Scope ss))))"

definition sort_resource_attrs :: "index_sorter \<Rightarrow> row_batch \<Rightarrow> row_batch" where
  "sort_resource_attrs srt rs =
     rs\<lparr>Resource := (Resource rs)\<lparr>ResourceAttrs := sort_keys srt (ResourceAttrs (Resource rs))\<rparr>\<rparr>"

definition resourceSpanHash :: "row_batch \<Rightarrow> u64" where
  "resourceSpanHash rs =
     (let r = Resource rs;
          h1 = addHashSeparator (HashString64 (ServiceName r));
          h2 = foldl addHashStr h1 (take 10 (DedicatedStrings r));
          h3 = foldl addHashInt h2 (DedicatedInts r)
      in fold attributeHash (ResourceAttrs r) h3)"

subsection \<open>rebatchTrace\<close>

text \<open>
  The loop over the batches, and the one over the scopes of a batch, differ only in the hash and in
  what merging means. \<open>prep\<close> sorts the attributes, \<open>merge\<close> appends the members of the second
  argument to the first, \<open>clear\<close> empties what was merged. The state is the slice, the positions of
  the unique elements, and the map from hashes to positions.
\<close>

definition rebatch_step ::
  "('a \<Rightarrow> 'a) \<Rightarrow> ('a \<Rightarrow> u64) \<Rightarrow> ('a \<Rightarrow> 'a \<Rightarrow> 'a) \<Rightarrow> ('a \<Rightarrow> 'a) \<Rightarrow> nat
   \<Rightarrow> 'a list \<times> nat list \<times> (u64 \<rightharpoonup> nat) \<Rightarrow> 'a list \<times> nat list \<times> (u64 \<rightharpoonup> nat)" where
  "rebatch_step prep hash merge clear i = (\<lambda>(xs, uniqueIndexes, hashToIndex).
     (let x = prep (xs ! i) in
      case hashToIndex (hash x) of
        None \<Rightarrow> (xs[i := x], uniqueIndexes @ [i], hashToIndex(hash x \<mapsto> i))
      | Some idx \<Rightarrow> (xs[i := clear x, idx := merge (xs ! idx) x], uniqueIndexes, hashToIndex)))"

definition swap :: "nat \<Rightarrow> nat \<Rightarrow> 'a list \<Rightarrow> 'a list" where
  "swap i j xs = xs[i := xs ! j, j := xs ! i]"

text \<open>Moving the unique elements to the front.\<close>

definition move_front :: "nat list \<Rightarrow> 'a list \<Rightarrow> 'a list" where
  "move_front uniqueIndexes xs =
     fold (\<lambda>(i, idx) xs. if i \<noteq> idx then swap i idx xs else xs) (enumerate 0 uniqueIndexes) xs"

definition rebatch_list ::
  "('a \<Rightarrow> 'a) \<Rightarrow> ('a \<Rightarrow> u64) \<Rightarrow> ('a \<Rightarrow> 'a \<Rightarrow> 'a) \<Rightarrow> ('a \<Rightarrow> 'a) \<Rightarrow> 'a list \<Rightarrow> 'a list" where
  "rebatch_list prep hash merge clear xs =
     (let (ys, uniqueIndexes, _) =
        fold (rebatch_step prep hash merge clear) [0..<length xs] (xs, [], Map.empty)
      in if length uniqueIndexes < length ys
         then take (length uniqueIndexes) (move_front uniqueIndexes ys) else ys)"

definition merge_scopes :: "row_scope \<Rightarrow> row_scope \<Rightarrow> row_scope" where
  "merge_scopes a b = (let spans = RowSpans a @ RowSpans b
     in a\<lparr>RowSpans := spans, RowSpanCount := int (length spans)\<rparr>)"

definition clear_spans :: "row_scope \<Rightarrow> row_scope" where
  "clear_spans ss = ss\<lparr>RowSpans := []\<rparr>"

definition merge_batches :: "row_batch \<Rightarrow> row_batch \<Rightarrow> row_batch" where
  "merge_batches a b = a\<lparr>RowScopes := RowScopes a @ RowScopes b\<rparr>"

definition clear_scopes :: "row_batch \<Rightarrow> row_batch" where
  "clear_scopes rs = rs\<lparr>RowScopes := []\<rparr>"

definition rebatch_scopes :: "index_sorter \<Rightarrow> row_batch \<Rightarrow> row_batch" where
  "rebatch_scopes srt rs =
     (if length (RowScopes rs) < 2 then rs
      else rs\<lparr>RowScopes := rebatch_list (sort_scope_attrs srt) scopeSpanHash merge_scopes clear_spans
             (RowScopes rs)\<rparr>)"

definition rebatchTrace :: "index_sorter \<Rightarrow> row_batch list \<Rightarrow> row_batch list" where
  "rebatchTrace srt t =
     (if t = [] then []
      else map (rebatch_scopes srt)
        (rebatch_list (sort_resource_attrs srt) resourceSpanHash merge_batches clear_scopes t))"

subsection \<open>The loop groups by hash\<close>

fun add_same :: "('a \<Rightarrow> u64) \<Rightarrow> ('a \<Rightarrow> 'a \<Rightarrow> 'a) \<Rightarrow> 'a \<Rightarrow> 'a list \<Rightarrow> 'a list" where
  "add_same hash merge x [] = [x]"
| "add_same hash merge x (y # ys) =
     (if hash y = hash x then merge y x # ys else y # add_same hash merge x ys)"

lemma length_swap [simp]: "length (swap i j xs) = length xs"
  by (simp add: swap_def)

lemma move_front_snoc:
  "move_front (u @ [a]) xs =
     (if length u \<noteq> a then swap (length u) a (move_front u xs) else move_front u xs)"
  by (simp add: move_front_def enumerate_append_eq)

lemma sorted_bounds: "sorted_wrt (<) (u @ [a :: nat]) \<Longrightarrow> length u \<le> a"
proof (induction u arbitrary: a rule: rev_induct)
  case (snoc b u)
  then have "sorted_wrt (<) (u @ [b])" "b < a" by (simp_all add: sorted_wrt_append)
  then show ?case using snoc.IH [of b] by simp
qed simp

lemma move_front_exact:
  assumes "sorted_wrt (<) u" and "\<forall>i\<in>set u. i < length xs"
  shows "length (move_front u xs) = length xs \<and> take (length u) (move_front u xs) = map ((!) xs) u
    \<and> (\<forall>p<length xs. (\<forall>i\<in>set u. i < p) \<longrightarrow> move_front u xs ! p = xs ! p)"
  using assms
proof (induction u rule: rev_induct)
  case Nil
  then show ?case by (simp add: move_front_def)
next
  case (snoc a u)
  have s: "sorted_wrt (<) u" "\<forall>i\<in>set u. i < a" and a: "a < length xs"
    using snoc.prems by (auto simp: sorted_wrt_append)
  have le: "length u \<le> a" by (rule sorted_bounds [OF snoc.prems(1)])
  let ?ys = "move_front u xs"
  have len: "length ?ys = length xs" and pre: "take (length u) ?ys = map ((!) xs) u"
    and rest: "\<forall>p<length xs. (\<forall>i\<in>set u. i < p) \<longrightarrow> ?ys ! p = xs ! p"
    using snoc.IH snoc.prems s(1) by simp_all
  have at_a: "?ys ! a = xs ! a" using rest a s(2) by blast
  have new: "move_front (u @ [a]) xs = ?ys[length u := ?ys ! a, a := ?ys ! length u]"
    using le a len by (simp add: move_front_snoc swap_def)
  have "take (Suc (length u)) (move_front (u @ [a]) xs) = take (length u) ?ys @ [?ys ! a]"
    using le a len by (cases "length u = a") (simp_all add: new take_Suc_conv_app_nth)
  then have "take (length (u @ [a])) (move_front (u @ [a]) xs) = map ((!) xs) (u @ [a])"
    using pre at_a by simp
  moreover have "move_front (u @ [a]) xs ! p = xs ! p" if "p < length xs" "\<forall>i\<in>set (u @ [a]). i < p" for p
    using that rest le by (simp add: new)
  ultimately show ?case using len by (simp add: new)
qed

lemma sorted_full:
  assumes "sorted_wrt (<) u" and "\<forall>i\<in>set u. i < length u"
  shows "u = [0..<length u]"
proof -
  have "distinct u" using assms(1) by (metis strict_sorted_iff)
  moreover have "set u \<subseteq> {0..<length u}" using assms(2) by auto
  ultimately have "set u = {0..<length u}"
    by (intro card_subset_eq) (simp_all add: distinct_card)
  then show ?thesis using assms(1) by (metis set_upt sorted_wrt_upt strict_sorted_equal)
qed

locale rebatch_ops =
  fixes prep :: "'a \<Rightarrow> 'a" and hash :: "'a \<Rightarrow> u64" and merge :: "'a \<Rightarrow> 'a \<Rightarrow> 'a" and clear :: "'a \<Rightarrow> 'a"
  assumes hash_merge [simp]: "hash (merge a b) = hash a"
begin

definition group_same :: "'a list \<Rightarrow> 'a list" where
  "group_same xs = fold (add_same hash merge) (map prep xs) []"

lemma group_same_snoc: "group_same (xs @ [x]) = add_same hash merge (prep x) (group_same xs)"
  by (simp add: group_same_def)

lemma hashes_add_same:
  "map hash (add_same hash merge x ys) = (if hash x \<in> hash ` set ys then map hash ys else map hash ys @ [hash x])"
  by (induction ys) auto

lemma distinct_group_same: "distinct (map hash (group_same xs))"
proof (induction xs rule: rev_induct)
  case (snoc x xs)
  then show ?case by (auto simp: group_same_snoc hashes_add_same)
qed (simp add: group_same_def)

lemma add_same_new: "hash x \<notin> hash ` set ys \<Longrightarrow> add_same hash merge x ys = ys @ [x]"
  by (induction ys) auto

lemma add_same_at:
  "distinct (map hash ys) \<Longrightarrow> k < length ys \<Longrightarrow> hash (ys ! k) = hash x \<Longrightarrow>
   add_same hash merge x ys = ys[k := merge (ys ! k) x]"
proof (induction ys arbitrary: k)
  case (Cons y ys)
  show ?case
  proof (cases k)
    case (Suc n)
    then have "hash x \<in> hash ` set ys" using Cons.prems by (metis nth_Cons_Suc Suc_less_eq length_Cons imageI nth_mem)
    then show ?thesis using Cons Suc by auto
  qed (use Cons.prems in simp)
qed simp

text \<open>The state of the loop after the first \<open>i\<close> elements of \<open>xs\<close>.\<close>

definition rebatched :: "'a list \<Rightarrow> nat \<Rightarrow> 'a list \<times> nat list \<times> (u64 \<rightharpoonup> nat) \<Rightarrow> bool" where
  "rebatched xs i st \<longleftrightarrow> (case st of (ys, u, m) \<Rightarrow>
     length ys = length xs \<and> sorted_wrt (<) u \<and> (\<forall>j\<in>set u. j < i)
     \<and> (\<forall>j. i \<le> j \<longrightarrow> j < length xs \<longrightarrow> ys ! j = xs ! j)
     \<and> map ((!) ys) u = group_same (take i xs)
     \<and> (\<forall>h j. m h = Some j \<longleftrightarrow> j \<in> set u \<and> hash (ys ! j) = h))"

lemma rebatchedI:
  assumes "length ys = length xs" and "sorted_wrt (<) u" and "\<And>j. j \<in> set u \<Longrightarrow> j < i"
    and "\<And>j. i \<le> j \<Longrightarrow> j < length xs \<Longrightarrow> ys ! j = xs ! j"
    and "map ((!) ys) u = group_same (take i xs)"
    and "\<And>h j. m h = Some j \<longleftrightarrow> j \<in> set u \<and> hash (ys ! j) = h"
  shows "rebatched xs i (ys, u, m)"
  unfolding rebatched_def prod.case by (intro conjI allI impI ballI assms)

lemma rebatched_step:
  assumes "rebatched xs i st" and i: "i < length xs"
  shows "rebatched xs (i + 1) (rebatch_step prep hash merge clear i st)"
proof -
  obtain ys u m where st: "st = (ys, u, m)" by (cases st)
  have len: "length ys = length xs" and sorted: "sorted_wrt (<) u" and below: "\<And>j. j \<in> set u \<Longrightarrow> j < i"
    and same: "\<And>j. i \<le> j \<Longrightarrow> j < length xs \<Longrightarrow> ys ! j = xs ! j"
    and group: "map ((!) ys) u = group_same (take i xs)"
    and m: "\<And>h j. m h = Some j \<longleftrightarrow> j \<in> set u \<and> hash (ys ! j) = h"
    using assms(1) unfolding rebatched_def st prod.case by blast+
  define x where "x = prep (xs ! i)"
  have at_i: "prep (ys ! i) = x" using same [of i] i by (simp add: x_def)
  have group': "group_same (take (i + 1) xs) = add_same hash merge x (map ((!) ys) u)"
    using i by (simp add: take_Suc_conv_app_nth group_same_snoc group x_def)
  have dist: "distinct (map hash (map ((!) ys) u))" using group distinct_group_same by simp
  show ?thesis
  proof (cases "m (hash x)")
    case None
    have new: "hash x \<notin> hash ` set (map ((!) ys) u)"
    proof
      assume "hash x \<in> hash ` set (map ((!) ys) u)"
      then obtain j where "j \<in> set u" "hash (ys ! j) = hash x" by auto
      then show False using m [of "hash x" j] None by simp
    qed
    have "rebatch_step prep hash merge clear i st = (ys[i := x], u @ [i], m(hash x \<mapsto> i))"
      using None at_i by (simp add: st rebatch_step_def Let_def)
    moreover have "rebatched xs (i + 1) (ys[i := x], u @ [i], m(hash x \<mapsto> i))"
    proof (rule rebatchedI)
      have "map ((!) (ys[i := x])) u = map ((!) ys) u" by (auto dest: below)
      then show "map ((!) (ys[i := x])) (u @ [i]) = group_same (take (i + 1) xs)"
        using group' add_same_new [OF new] i len by simp
      show "(m(hash x \<mapsto> i)) h = Some j \<longleftrightarrow> j \<in> set (u @ [i]) \<and> hash (ys[i := x] ! j) = h" for h j
      proof (cases "j = i")
        case True
        then have "m h \<noteq> Some j" using m [of h j] below [of i] by blast
        then show ?thesis using True i len by auto
      next
        case False
        then show ?thesis using m [of h j] None by auto
      qed
      show "sorted_wrt (<) (u @ [i])" using sorted below by (simp add: sorted_wrt_append)
      show "j < i + 1" if "j \<in> set (u @ [i])" for j using that below [of j] by auto
      show "ys[i := x] ! j = xs ! j" if "i + 1 \<le> j" "j < length xs" for j using that same [of j] by simp
    qed (use len in simp)
    ultimately show ?thesis by simp
  next
    case (Some idx)
    have idx: "idx \<in> set u" "hash (ys ! idx) = hash x" using Some m by auto
    then obtain k where k: "k < length u" "u ! k = idx" by (metis in_set_conv_nth)
    have ne: "idx < i" using below idx by blast
    define zs where "zs = ys[i := clear x, idx := merge (ys ! idx) x]"
    have "distinct u" using sorted by (simp add: strict_sorted_iff)
    then have inj: "u ! j = idx \<longleftrightarrow> j = k" if "j < length u" for j
      using that k nth_eq_iff_index_eq [of u j k] by simp
    have zs: "zs ! j = (if j = idx then merge (ys ! idx) x else ys ! j)" if "j < i" for j
      using that i len ne by (simp add: zs_def)
    have "rebatch_step prep hash merge clear i st = (zs, u, m)"
      using Some at_i by (simp add: st rebatch_step_def Let_def zs_def)
    moreover have "rebatched xs (i + 1) (zs, u, m)"
    proof (rule rebatchedI)
      have "map ((!) zs) u = (map ((!) ys) u)[k := merge (ys ! idx) x]"
      proof (rule nth_equalityI)
        fix j assume "j < length (map ((!) zs) u)"
        then have j: "j < length u" and "u ! j \<in> set u" by simp_all
        then show "map ((!) zs) u ! j = (map ((!) ys) u)[k := merge (ys ! idx) x] ! j"
          using zs [OF below, of "u ! j"] inj [OF j] k by (simp add: nth_list_update)
      qed simp
      then show "map ((!) zs) u = group_same (take (i + 1) xs)"
        using group' add_same_at [OF dist, of k x] k idx by simp
      show "m h = Some j \<longleftrightarrow> j \<in> set u \<and> hash (zs ! j) = h" for h j
        using m [of h j] zs [of j] below [of j] by (cases "j = idx") auto
      show "zs ! j = xs ! j" if "i + 1 \<le> j" "j < length xs" for j
        using that same [of j] ne by (simp add: zs_def)
      show "j < i + 1" if "j \<in> set u" for j using that below [of j] by simp
    qed (use len sorted in \<open>simp_all add: zs_def\<close>)
    ultimately show ?thesis by simp
  qed
qed

lemma rebatched_loop:
  "i \<le> length xs \<Longrightarrow> rebatched xs i (fold (rebatch_step prep hash merge clear) [0..<i] (xs, [], Map.empty))"
proof (induction i)
  case 0
  then show ?case by (simp add: rebatched_def group_same_def)
next
  case (Suc i)
  then show ?case using rebatched_step [of xs i] by simp
qed

lemma rebatch_list_groups: "rebatch_list prep hash merge clear xs = group_same xs"
proof -
  obtain ys u m where st: "fold (rebatch_step prep hash merge clear) [0..<length xs] (xs, [], Map.empty) = (ys, u, m)"
    by (metis prod_cases3)
  have r: "length ys = length xs" "sorted_wrt (<) u" "\<forall>j\<in>set u. j < length ys" "map ((!) ys) u = group_same xs"
    using rebatched_loop [of "length xs" xs] by (auto simp: st rebatched_def)
  have "length u \<le> length ys"
    using r(2,3) by (metis card_mono card_atLeastLessThan diff_zero distinct_card finite_atLeastLessThan
        atLeastLessThan_iff le0 strict_sorted_iff subsetI)
  then consider "length u < length ys" | "length u = length ys" by linarith
  then show ?thesis
  proof cases
    case 1
    then show ?thesis using r(4) move_front_exact [OF r(2,3)] by (simp add: rebatch_list_def st)
  next
    case 2
    then have "u = [0..<length ys]" using sorted_full [OF r(2)] r(3) by simp
    then have "map ((!) ys) u = ys" by (simp add: map_nth)
    then show ?thesis using 2 r(4) by (simp add: rebatch_list_def st)
  qed
qed

lemma key_add_same:
  assumes "\<And>a b. key (merge a b) = key a" and "key x = K (hash x)" and "\<forall>y\<in>set ys. key y = K (hash y)"
  shows "\<forall>y\<in>set (add_same hash merge x ys). key y = K (hash y)"
  using assms(3) by (induction ys) (auto simp: assms(1,2))

lemma mset_add_same:
  assumes "\<And>a b. key a = key b \<Longrightarrow> mset (mem (merge a b)) = mset (mem a) + mset (mem b)"
    and "key x = K (hash x)" and "\<forall>y\<in>set ys. key y = K (hash y)"
  shows "mset (concat (map mem (add_same hash merge x ys))) = mset (mem x) + mset (concat (map mem ys))"
  using assms(3)
proof (induction ys)
  case (Cons y ys)
  then have "hash y = hash x \<Longrightarrow> mset (mem (merge y x)) = mset (mem y) + mset (mem x)"
    using assms(1) [of y x] assms(2) by simp
  then show ?case using Cons by auto
qed simp

text \<open>Grouping keeps the members when equal hashes mean equal keys.\<close>

lemma mset_group_same:
  assumes "\<And>a b. key (merge a b) = key a"
    and "\<And>a b. key a = key b \<Longrightarrow> mset (mem (merge a b)) = mset (mem a) + mset (mem b)"
    and "\<forall>x\<in>set xs. \<forall>y\<in>set xs. hash (prep x) = hash (prep y) \<longrightarrow> key (prep x) = key (prep y)"
  shows "mset (concat (map mem (group_same xs))) = mset (concat (map (\<lambda>x. mem (prep x)) xs))"
proof -
  define K where "K h = key (prep (SOME x. x \<in> set xs \<and> hash (prep x) = h))" for h
  have K: "key (prep x) = K (hash (prep x))" if "x \<in> set xs" for x
    using someI [of "\<lambda>y. y \<in> set xs \<and> hash (prep y) = hash (prep x)" x] that assms(3) unfolding K_def by metis
  have "(\<forall>y\<in>set (group_same zs). key y = K (hash y))
      \<and> mset (concat (map mem (group_same zs))) = mset (concat (map (\<lambda>x. mem (prep x)) zs))"
    if "set zs \<subseteq> set xs" for zs
    using that
  proof (induction zs rule: rev_induct)
    case (snoc z zs)
    then have IH: "\<forall>y\<in>set (group_same zs). key y = K (hash y)"
      "mset (concat (map mem (group_same zs))) = mset (concat (map (\<lambda>x. mem (prep x)) zs))" by simp_all
    have z: "key (prep z) = K (hash (prep z))" using K snoc.prems by simp
    show ?case
      using key_add_same [of key, OF assms(1) z IH(1)] mset_add_same [of key mem, OF assms(2) z IH(1)] IH(2)
      by (simp add: group_same_snoc)
  qed (simp add: group_same_def)
  then show ?thesis by simp
qed

end

interpretation batches: rebatch_ops "sort_resource_attrs srt" resourceSpanHash merge_batches clear_scopes for srt
  by unfold_locales (simp add: resourceSpanHash_def merge_batches_def)

interpretation scopes: rebatch_ops "sort_scope_attrs srt" scopeSpanHash merge_scopes clear_spans for srt
  by unfold_locales (simp add: scopeSpanHash_def merge_scopes_def Let_def)

subsection \<open>Where the spans are\<close>

text \<open>The identity of a resource and of a scope, and every span with the resource and the scope it
  belongs to.\<close>

definition resource_key ::
  "resource \<Rightarrow> string \<times> pq_attribute multiset \<times> string list list \<times> u64 list list" where
  "resource_key r = (ServiceName r, mset (ResourceAttrs r), DedicatedStrings r, DedicatedInts r)"

definition scope_key :: "scope \<Rightarrow> string \<times> string \<times> pq_attribute multiset" where
  "scope_key s = (ScopeName s, ScopeVersion s, mset (ScopeAttrs s))"

definition placed_scope :: "'r \<Rightarrow> row_scope \<Rightarrow> ('r \<times> (string \<times> string \<times> pq_attribute multiset) \<times> row_span) list" where
  "placed_scope r ss = map (\<lambda>s. (r, scope_key (Scope ss), s)) (RowSpans ss)"

definition placed_batch where
  "placed_batch b = concat (map (placed_scope (resource_key (Resource b))) (RowScopes b))"

definition placed where
  "placed t = concat (map placed_batch t)"

definition row_spans :: "row_batch list \<Rightarrow> row_span list" where
  "row_spans t = concat (map (\<lambda>b. concat (map RowSpans (RowScopes b))) t)"

context sort_contract
begin

lemma resource_key_sort [simp]: "resource_key (Resource (sort_resource_attrs srt b)) = resource_key (Resource b)"
  by (simp add: resource_key_def sort_resource_attrs_def sort_keys_def)

lemma scope_key_sort [simp]: "scope_key (Scope (sort_scope_attrs srt ss)) = scope_key (Scope ss)"
  by (simp add: scope_key_def sort_scope_attrs_def sort_keys_def)

end

lemma sort_attrs_simps [simp]:
  "RowScopes (sort_resource_attrs srt b) = RowScopes b"
  "RowSpans (sort_scope_attrs srt ss) = RowSpans ss"
  "RowScopes (merge_batches a b) = RowScopes a @ RowScopes b"
  "Resource (merge_batches a b) = Resource a"
  "RowSpans (merge_scopes s s') = RowSpans s @ RowSpans s'"
  "Scope (merge_scopes s s') = Scope s"
  by (simp_all add: sort_resource_attrs_def sort_scope_attrs_def merge_batches_def merge_scopes_def Let_def)

lemma rebatch_scopes_of_trace:
  "mset (concat (map RowScopes (batches.group_same srt t))) = mset (concat (map RowScopes t))"
  using batches.mset_group_same [of "\<lambda>_. ()" RowScopes t srt] by simp

lemma mset_row_spans_scopes:
  "mset (concat (map RowSpans (RowScopes (rebatch_scopes srt b)))) = mset (concat (map RowSpans (RowScopes b)))"
  using scopes.mset_group_same [of "\<lambda>_. ()" RowSpans "RowScopes b" srt]
  by (simp add: rebatch_scopes_def scopes.rebatch_list_groups)

lemma rebatch_trace_alt:
  "rebatchTrace srt t = map (rebatch_scopes srt) (batches.group_same srt t)"
  by (simp add: rebatchTrace_def batches.rebatch_list_groups batches.group_same_def)

lemma mset_concat_cong: "(\<And>x. x \<in> set xs \<Longrightarrow> mset (f x) = mset (g x)) \<Longrightarrow>
    mset (concat (map f xs)) = mset (concat (map g xs))"
  by (induction xs) auto

lemma concat_map_concat: "concat (map (\<lambda>b. concat (map f (g b))) xs) = concat (map f (concat (map g xs)))"
  by (induction xs) auto

text \<open>Rebatching never loses a span, whatever the hashes are.\<close>

lemma mset_rebatchTrace: "mset (row_spans (rebatchTrace srt t)) = mset (row_spans t)"
proof -
  have "mset (row_spans (rebatchTrace srt t)) =
      mset (concat (map (\<lambda>b. concat (map RowSpans (RowScopes b))) (batches.group_same srt t)))"
    unfolding row_spans_def rebatch_trace_alt map_map
    by (rule mset_concat_cong) (simp add: mset_row_spans_scopes)
  also have "\<dots> = mset (concat (map RowSpans (concat (map RowScopes (batches.group_same srt t)))))"
    by (simp only: concat_map_concat)
  also have "\<dots> = mset (concat (map RowSpans (concat (map RowScopes t))))"
    by (rule mset_concat_map [OF rebatch_scopes_of_trace])
  finally show ?thesis by (simp only: row_spans_def concat_map_concat)
qed


text \<open>
  C0. Rebatching moves no span to another resource or scope and leaves nothing to merge: when
  the hashes tell the resources and the scopes of the trace apart, every span is afterwards below
  a resource and a scope with the contents it had before, the batches of the result have
  different hashes, and so have the scopes of a batch.
\<close>

definition no_collisions :: "('a \<Rightarrow> u64) \<Rightarrow> ('a \<Rightarrow> 'k) \<Rightarrow> 'a list \<Rightarrow> bool" where
  "no_collisions hash key xs \<longleftrightarrow> (\<forall>x\<in>set xs. \<forall>y\<in>set xs. hash x = hash y \<longrightarrow> key x = key y)"

lemma no_collisions_subset: "no_collisions hash key ys \<Longrightarrow> set xs \<subseteq> set ys \<Longrightarrow> no_collisions hash key xs"
  unfolding no_collisions_def by blast

context sort_contract
begin

lemma placed_sort [simp]:
  "placed_scope r (sort_scope_attrs srt ss) = placed_scope r ss"
  "placed_batch (sort_resource_attrs srt b) = placed_batch b"
  by (simp_all add: placed_scope_def placed_batch_def)

lemma placed_rebatch_scopes:
  assumes "no_collisions (\<lambda>ss. scopeSpanHash (sort_scope_attrs srt ss)) (\<lambda>ss. scope_key (Scope ss)) (RowScopes b)"
  shows "mset (placed_batch (rebatch_scopes srt b)) = mset (placed_batch b)"
proof -
  have r: "Resource (rebatch_scopes srt b) = Resource b" by (simp add: rebatch_scopes_def)
  let ?place = "placed_scope (resource_key (Resource b))"
  have "mset (concat (map ?place (scopes.group_same srt (RowScopes b)))) =
      mset (concat (map (\<lambda>ss. ?place (sort_scope_attrs srt ss)) (RowScopes b)))"
  proof (rule scopes.mset_group_same [of "\<lambda>ss. scope_key (Scope ss)"])
    show "\<forall>x\<in>set (RowScopes b). \<forall>y\<in>set (RowScopes b).
        scopeSpanHash (sort_scope_attrs srt x) = scopeSpanHash (sort_scope_attrs srt y) \<longrightarrow>
        scope_key (Scope (sort_scope_attrs srt x)) = scope_key (Scope (sort_scope_attrs srt y))"
      using assms unfolding no_collisions_def scope_key_sort .
  qed (simp_all add: placed_scope_def)
  then have "mset (concat (map ?place (scopes.group_same srt (RowScopes b)))) = mset (placed_batch b)"
    by (simp add: placed_batch_def)
  moreover have "RowScopes (rebatch_scopes srt b) =
      (if length (RowScopes b) < 2 then RowScopes b else scopes.group_same srt (RowScopes b))"
    by (simp add: rebatch_scopes_def scopes.rebatch_list_groups)
  ultimately show ?thesis by (simp add: placed_batch_def [of "rebatch_scopes srt b"] r) (simp add: placed_batch_def)
qed

lemma placed_batches:
  assumes "no_collisions (\<lambda>b. resourceSpanHash (sort_resource_attrs srt b)) (\<lambda>b. resource_key (Resource b)) t"
  shows "mset (placed (batches.group_same srt t)) = mset (placed t)"
proof -
  have "mset (concat (map placed_batch (batches.group_same srt t))) =
      mset (concat (map (\<lambda>b. placed_batch (sort_resource_attrs srt b)) t))"
  proof (rule batches.mset_group_same [of "\<lambda>b. resource_key (Resource b)"])
    show "\<forall>x\<in>set t. \<forall>y\<in>set t.
        resourceSpanHash (sort_resource_attrs srt x) = resourceSpanHash (sort_resource_attrs srt y) \<longrightarrow>
        resource_key (Resource (sort_resource_attrs srt x)) = resource_key (Resource (sort_resource_attrs srt y))"
      using assms unfolding no_collisions_def resource_key_sort .
  qed (simp_all add: placed_batch_def)
  then show ?thesis by (simp add: placed_def)
qed

lemma rebatch_moves:
  assumes "no_collisions (\<lambda>b. resourceSpanHash (sort_resource_attrs srt b)) (\<lambda>b. resource_key (Resource b)) t"
    and "no_collisions (\<lambda>ss. scopeSpanHash (sort_scope_attrs srt ss)) (\<lambda>ss. scope_key (Scope ss))
      (concat (map RowScopes t))"
  shows "mset (placed (rebatchTrace srt t)) = mset (placed t)"
proof -
  have sub: "set (RowScopes b) \<subseteq> set (concat (map RowScopes t))" if "b \<in> set (batches.group_same srt t)" for b
    using that mset_eq_setD [OF rebatch_scopes_of_trace [of srt t]] by auto
  have "mset (placed (rebatchTrace srt t)) = mset (placed (batches.group_same srt t))"
    unfolding placed_def rebatch_trace_alt map_map o_def
    by (rule mset_concat_cong, rule placed_rebatch_scopes, rule no_collisions_subset [OF assms(2) sub])
  then show ?thesis using placed_batches [OF assms(1)] by simp
qed

end

lemma hash_rebatch_scopes [simp]: "resourceSpanHash (rebatch_scopes srt b) = resourceSpanHash b"
  by (simp add: rebatch_scopes_def resourceSpanHash_def)


subsection \<open>Samples\<close>

definition sample_row_span :: "byte \<Rightarrow> row_span" where
  "sample_row_span i = pq_span.extend (new_span [i] [] 1) \<lparr>SpanStart = 1\<rparr>"

definition sample_row_batch :: "string \<Rightarrow> (nat \<times> string) list \<Rightarrow> byte list \<Rightarrow> row_batch" where
  "sample_row_batch name cols ids =
     \<lparr>Resource = \<lparr>ServiceName = name, ResourceAttrs = [],
        DedicatedStrings = fold (\<lambda>(c, v) ds. ds[c - 1 := [v]]) cols (replicate 20 []),
        DedicatedInts = replicate 5 []\<rparr>,
      RowScopes = [\<lparr>Scope = \<lparr>ScopeName = ''lib'', ScopeVersion = ''1'', ScopeAttrs = []\<rparr>,
        RowSpans = map sample_row_span ids, RowSpanCount = int (length ids)\<rparr>]\<rparr>"

definition sample_rows :: "row_batch list" where
  "sample_rows = [sample_row_batch ''a'' [(1, ''x'')] [1], sample_row_batch ''b'' [] [2],
     sample_row_batch ''a'' [(1, ''x'')] [3]]"

lemma sample_hashes:
  "resourceSpanHash (sort_resource_attrs insertion_sort (sample_row_batch ''a'' [(1, ''x'')] [1]))
     \<noteq> resourceSpanHash (sort_resource_attrs insertion_sort (sample_row_batch ''b'' [] [2]))"
  by code_simp


text \<open>The hash of a resource covers ten of its twenty dedicated string columns. Two resources that
  differ in another column only are merged: the span of the second is stored below the first.\<close>

definition eleventh_column :: "row_batch list" where
  "eleventh_column = [sample_row_batch ''a'' [(11, ''x'')] [1], sample_row_batch ''a'' [(11, ''y'')] [2]]"

theorem dedicated_columns_merged:
  "Resource (eleventh_column ! 0) \<noteq> Resource (eleventh_column ! 1)
   \<and> map (\<lambda>b. (Resource b = Resource (eleventh_column ! 0), map SpanID (concat (map RowSpans (RowScopes b)))))
       (rebatchTrace insertion_sort eleventh_column)
     = [(True, [[1], [2]])]"
  by code_simp

end
