(* ===== verification/PqCombine.thy ===== *)
theory PqCombine
  imports Rebatch SpanDedupe
begin

section \<open>Combining the rows of a trace (tempodb/encoding/vparquet5/combiner.go)\<close>

text \<open>
  Models the combiner of the block encoding: compaction and the completion of a write-ahead-log
  block merge the rows of one trace with it. Spans are told apart by \<open>SpanIDAndKindToToken\<close>; the
  result is sorted, rebatched (\<open>Rebatch\<close>) and numbered (\<open>NestedSet\<close>).
\<close>

record row_trace =
  RowTraceID :: bytes
  TraceStart :: u64
  TraceEnd :: u64
  TraceDuration :: u64
  RowRootService :: string
  RowRootSpan :: string
  RowServiceStats :: "service_stats list"
  RowBatches :: "row_batch list"

definition row_token :: "row_span \<Rightarrow> u64" where
  "row_token s = SpanIDAndKindToToken (SpanID s) (SpanKind s)"

abbreviation row_tokens :: "row_span list \<Rightarrow> u64 set" where
  "row_tokens ss \<equiv> row_token ` set ss"

abbreviation trace_spans :: "row_trace \<Rightarrow> row_span list" where
  "trace_spans t \<equiv> row_spans (RowBatches t)"

subsection \<open>SortTrace\<close>

definition row_compareSpans :: "row_span \<Rightarrow> row_span \<Rightarrow> bool" where
  "row_compareSpans a b =
     (if SpanStart a = SpanStart b then Compare (SpanID a) (SpanID b) = -1
      else SpanStart a < SpanStart b)"

definition row_compareScopeSpans :: "row_scope \<Rightarrow> row_scope \<Rightarrow> bool" where
  "row_compareScopeSpans a b =
     (if RowSpans a \<noteq> [] \<and> RowSpans b \<noteq> [] then row_compareSpans (hd (RowSpans a)) (hd (RowSpans b))
      else False)"

definition row_compareBatches :: "row_batch \<Rightarrow> row_batch \<Rightarrow> bool" where
  "row_compareBatches a b =
     (if RowScopes a \<noteq> [] \<and> RowScopes b \<noteq> []
      then row_compareScopeSpans (hd (RowScopes a)) (hd (RowScopes b)) else False)"

definition row_sort_scope :: "index_sorter \<Rightarrow> row_scope \<Rightarrow> row_scope" where
  "row_sort_scope srt ils = ils\<lparr>RowSpans := sort_slice srt row_compareSpans (RowSpans ils)\<rparr>"

definition row_sort_batch :: "index_sorter \<Rightarrow> row_batch \<Rightarrow> row_batch" where
  "row_sort_batch srt b =
     b\<lparr>RowScopes := sort_slice srt row_compareScopeSpans (map (row_sort_scope srt) (RowScopes b))\<rparr>"

definition row_SortTrace :: "index_sorter \<Rightarrow> row_trace \<Rightarrow> row_trace" where
  "row_SortTrace srt t =
     t\<lparr>RowBatches := sort_slice srt row_compareBatches (map (row_sort_batch srt) (RowBatches t))\<rparr>"

subsection \<open>finalizeTrace\<close>

definition numbered_view :: "row_batch list \<Rightarrow> resource_spans list" where
  "numbered_view bs = map (\<lambda>b. \<lparr>ResourceServiceName = ServiceName (Resource b),
     ScopeSpans = map (\<lambda>ils. map pq_span.truncate (RowSpans ils)) (RowScopes b)\<rparr>) bs"

text \<open>The numbers are stored in the spans in place: the \<open>k\<close>-th span gets the \<open>k\<close>-th numbers.\<close>

definition set_numbers :: "pq_span \<Rightarrow> row_span \<Rightarrow> row_span" where
  "set_numbers n s = s\<lparr>NestedSetLeft := NestedSetLeft n, NestedSetRight := NestedSetRight n,
     ParentID := ParentID n, ChildCount := ChildCount n\<rparr>"

fun fill_scopes :: "pq_span list \<Rightarrow> row_scope list \<Rightarrow> row_scope list \<times> pq_span list" where
  "fill_scopes ns [] = ([], ns)"
| "fill_scopes ns (ils # rest) =
     (let k = length (RowSpans ils); (rest', ns') = fill_scopes (drop k ns) rest
      in (ils\<lparr>RowSpans := map2 set_numbers (take k ns) (RowSpans ils)\<rparr> # rest', ns'))"

fun fill_batches :: "pq_span list \<Rightarrow> row_batch list \<Rightarrow> row_batch list" where
  "fill_batches ns [] = []"
| "fill_batches ns (b # bs) =
     (let (sss, ns') = fill_scopes ns (RowScopes b) in b\<lparr>RowScopes := sss\<rparr> # fill_batches ns' bs)"

definition finalizeTrace :: "index_sorter \<Rightarrow> row_trace \<Rightarrow> (row_trace \<times> bool) option" where
  "finalizeTrace srt t =
     (let bs = rebatchTrace srt (RowBatches t) in
      case assignNestedSetModelBoundsAndServiceStats (numbered_view bs) of
        None \<Rightarrow> None
      | Some (ns, stats, isConnected) \<Rightarrow>
          Some (t\<lparr>RowBatches := fill_batches ns bs, RowServiceStats := stats\<rparr>, isConnected))"

subsection \<open>Combiner\<close>

record row_combiner =
  rowResult :: "row_trace option"
  rowSpanTokens :: "u64 set"
  rowCombined :: bool

definition row_NewCombiner :: row_combiner where
  "row_NewCombiner = \<lparr>rowResult = None, rowSpanTokens = {}, rowCombined = False\<rparr>"

definition coalesce_root :: "row_trace \<Rightarrow> row_trace \<Rightarrow> row_trace" where
  "coalesce_root tr r =
     (let r1 = (if TraceEnd tr > TraceEnd r then r\<lparr>TraceEnd := TraceEnd tr\<rparr> else r);
          r2 = (if TraceStart tr < TraceStart r1 \<or> TraceStart r1 = 0
                then r1\<lparr>TraceStart := TraceStart tr\<rparr> else r1);
          r3 = (if RowRootService r2 = '''' then r2\<lparr>RowRootService := RowRootService tr\<rparr> else r2);
          r4 = (if RowRootSpan r3 = '''' then r3\<lparr>RowRootSpan := RowRootSpan tr\<rparr> else r3)
      in r4\<lparr>TraceDuration := TraceEnd r4 - TraceStart r4\<rparr>)"

definition row_new_scopes :: "bool \<Rightarrow> u64 set \<Rightarrow> row_scope list \<Rightarrow> row_scope list \<times> u64 set" where
  "row_new_scopes final =
     keep_groups RowSpans
       (\<lambda>notFound ils. ils\<lparr>RowSpans := notFound, RowSpanCount := int (length notFound)\<rparr>)
       (keep_new row_token final)"

definition row_new_batches :: "bool \<Rightarrow> u64 set \<Rightarrow> row_batch list \<Rightarrow> row_batch list \<times> u64 set" where
  "row_new_batches final =
     keep_groups RowScopes (\<lambda>notFound b. b\<lparr>RowScopes := notFound\<rparr>) (row_new_scopes final)"

text \<open>The count that the same loops return. It is taken after \<open>ils.Spans\<close> has been assigned.\<close>

fun duplicates_in_scopes :: "bool \<Rightarrow> u64 set \<Rightarrow> row_scope list \<Rightarrow> nat" where
  "duplicates_in_scopes final seen [] = 0"
| "duplicates_in_scopes final seen (ils # rest) =
     (let (notFound, seen1) = keep_new row_token final seen (RowSpans ils);
          ilsSpans = (if notFound \<noteq> [] then notFound else RowSpans ils)
      in length ilsSpans - length notFound + duplicates_in_scopes final seen1 rest)"

fun duplicates_in_batches :: "bool \<Rightarrow> u64 set \<Rightarrow> row_batch list \<Rightarrow> nat" where
  "duplicates_in_batches final seen [] = 0"
| "duplicates_in_batches final seen (b # rest) =
     duplicates_in_scopes final seen (RowScopes b)
     + duplicates_in_batches final (snd (row_new_scopes final seen (RowScopes b))) rest"

definition row_ConsumeWithFinal ::
  "row_trace option \<Rightarrow> bool \<Rightarrow> row_combiner \<Rightarrow> nat \<times> row_combiner" where
  "row_ConsumeWithFinal tr final c =
     (case tr of
        None \<Rightarrow> (0, c)
      | Some t \<Rightarrow>
          (case rowResult c of
             None \<Rightarrow> (0, c\<lparr>rowResult := Some t, rowSpanTokens := row_tokens (trace_spans t)\<rparr>)
           | Some r \<Rightarrow>
               (let r' = coalesce_root t r;
                    (bs, seen) = row_new_batches final (rowSpanTokens c) (RowBatches t)
                in (duplicates_in_batches final (rowSpanTokens c) (RowBatches t),
                    c\<lparr>rowResult := Some (r'\<lparr>RowBatches := RowBatches r' @ bs\<rparr>),
                      rowSpanTokens := seen, rowCombined := True\<rparr>))))"

definition row_Result :: "index_sorter \<Rightarrow> row_combiner \<Rightarrow> ((row_trace option \<times> int \<times> bool) \<times> row_combiner) option" where
  "row_Result srt c =
     (case rowResult c of
        None \<Rightarrow> Some ((None, -1, True), c)
      | Some t \<Rightarrow>
          if rowCombined c
          then (case finalizeTrace srt (row_SortTrace srt t) of
              None \<Rightarrow> None
            | Some (t', isConnected) \<Rightarrow>
                Some ((Some t', int (card (rowSpanTokens c)), isConnected), c\<lparr>rowResult := Some t'\<rparr>))
          else Some ((Some t, -1, True), c))"

text \<open>\<open>combineTraces\<close>: the last of several traces is consumed with \<open>final\<close>.\<close>

fun consume_rows :: "row_trace list \<Rightarrow> row_combiner \<Rightarrow> nat \<times> row_combiner" where
  "consume_rows [] c = (0, c)"
| "consume_rows (t # ts) c =
     (let (n, c1) = row_ConsumeWithFinal (Some t) (ts = []) c; (m, c2) = consume_rows ts c1
      in (n + m, c2))"

definition combineTraces :: "index_sorter \<Rightarrow> row_trace list \<Rightarrow> row_trace option option" where
  "combineTraces srt ts =
     (case ts of
        [t] \<Rightarrow> Some (Some t)
      | _ \<Rightarrow> map_option (\<lambda>((t, _, _), _). t) (row_Result srt (snd (consume_rows ts row_NewCombiner))))"

subsection \<open>Numbering keeps the spans\<close>

text \<open>Whatever numbers the spans have before, the walk ends.\<close>

lemma assign_total:
  "\<exists>spans stats conn. assignNestedSetModelBoundsAndServiceStats rss = Some (spans, stats, conn)
     \<and> length spans = length (all_nodes rss)"
proof -
  define nodes where "nodes = all_nodes rss"
  obtain ts where ts: "map node_of ts = rootNodes (index_nodes nodes)"
    "\<And>t. t \<in> set ts \<Longrightarrow> follows (children (links_of nodes)) t \<and> trace_parent nodes (node_of t) = None"
    "distinct (forest_nodes ts)" "set (forest_nodes ts) = {i. below_root nodes i}"
    using trees_of_trace [of nodes] by blast
  have ls: "linked_spans (parent (links_of nodes)) (children (links_of nodes))"
    unfolding links_exact(1) by (rule trace_links.linked_spans_axioms)
  have "\<exists>w'. walk_roots (links_of nodes) (map node_of ts) (start_walk nodes) = Some w'
      \<and> stored (forest_numbers nestedSetRootParent (nestedSetBound (start_walk nodes)) ts) (start_walk nodes) w'"
    by (rule walk_all_roots [OF ls _ ts(3)]) (simp_all add: ts(2) links_exact(1) start_walk_def)
  then obtain w' where "walk_roots (links_of nodes) (rootNodes (index_nodes nodes)) (start_walk nodes) = Some w'"
    by (auto simp: ts(1))
  then show ?thesis
    by (auto simp: assignNestedSetModelBoundsAndServiceStats_def Let_def links_of_def nodes_def store_bounds_def)
qed

lemma row_token_set_numbers [simp]: "row_token (set_numbers n s) = row_token s"
  by (simp add: row_token_def set_numbers_def)

lemma fill_scopes_tokens:
  "length (concat (map RowSpans sss)) \<le> length ns \<Longrightarrow>
   map row_token (concat (map RowSpans (fst (fill_scopes ns sss)))) = map row_token (concat (map RowSpans sss))
   \<and> snd (fill_scopes ns sss) = drop (length (concat (map RowSpans sss))) ns"
proof (induction sss arbitrary: ns)
  case (Cons ils rest)
  let ?k = "length (RowSpans ils)"
  have len: "?k \<le> length ns" "length (concat (map RowSpans rest)) \<le> length (drop ?k ns)" using Cons.prems by auto
  have "map row_token (map2 set_numbers ms ss) = map row_token ss" if "length ss \<le> length ms" for ms ss
    using that by (induction ss arbitrary: ms) (auto simp: Suc_le_length_iff)
  from this [of "RowSpans ils" "take ?k ns"] show ?case
    using Cons.IH [OF len(2)] len(1) by (simp add: Let_def case_prod_unfold add.commute)
qed simp

lemma fill_batches_tokens:
  "length (row_spans bs) \<le> length ns \<Longrightarrow>
   map row_token (row_spans (fill_batches ns bs)) = map row_token (row_spans bs)"
proof (induction bs arbitrary: ns)
  case (Cons b bs)
  let ?l = "concat (map RowSpans (RowScopes b))"
  have "length ?l \<le> length ns" and "length (row_spans bs) \<le> length (drop (length ?l) ns)"
    using Cons.prems by (auto simp: row_spans_def)
  then show ?case
    using Cons.IH fill_scopes_tokens [of "RowScopes b" ns] by (simp add: row_spans_def case_prod_unfold)
qed (simp add: row_spans_def)

lemma length_numbered_view: "length (all_nodes (numbered_view bs)) = length (row_spans bs)"
  by (induction bs) (auto simp: all_nodes_def numbered_view_def row_spans_def length_concat o_def)

lemma finalizeTrace_keeps:
  "\<exists>t' conn. finalizeTrace srt t = Some (t', conn) \<and> RowTraceID t' = RowTraceID t
     \<and> mset (map row_token (trace_spans t')) = mset (map row_token (trace_spans t))"
proof -
  let ?bs = "rebatchTrace srt (RowBatches t)"
  obtain ns stats conn where a: "assignNestedSetModelBoundsAndServiceStats (numbered_view ?bs) = Some (ns, stats, conn)"
    "length ns = length (row_spans ?bs)"
    using assign_total [of "numbered_view ?bs"] by (auto simp: length_numbered_view)
  have "mset (map row_token (row_spans (fill_batches ns ?bs))) = mset (map row_token (row_spans (RowBatches t)))"
    using a(2) by (simp add: fill_batches_tokens) (simp add: mset_rebatchTrace)
  then show ?thesis using a(1) by (simp add: finalizeTrace_def Let_def)
qed

subsection \<open>Sorting and combining keep the spans\<close>

context sort_contract
begin

lemma mset_row_SortTrace: "mset (trace_spans (row_SortTrace srt t)) = mset (trace_spans t)"
proof -
  have scopes: "mset (concat (map RowSpans (RowScopes (row_sort_batch srt b)))) =
      mset (concat (map RowSpans (RowScopes b)))" for b
  proof -
    have "mset (concat (map RowSpans (RowScopes (row_sort_batch srt b)))) =
        mset (concat (map RowSpans (map (row_sort_scope srt) (RowScopes b))))"
      unfolding row_sort_batch_def by (rule mset_concat_map) simp
    also have "\<dots> = mset (concat (map RowSpans (RowScopes b)))"
      unfolding map_map by (rule mset_concat_cong) (simp add: row_sort_scope_def)
    finally show ?thesis .
  qed
  have "mset (trace_spans (row_SortTrace srt t)) = mset (row_spans (map (row_sort_batch srt) (RowBatches t)))"
    unfolding row_spans_def row_SortTrace_def row_trace.simps by (rule mset_concat_map) simp
  also have "\<dots> = mset (trace_spans t)"
    unfolding row_spans_def map_map by (rule mset_concat_cong) (simp add: scopes)
  finally show ?thesis .
qed

lemma row_Result_keeps:
  assumes "rowResult c = Some r"
  shows "\<exists>t n conn c'. row_Result srt c = Some ((Some t, n, conn), c') \<and> RowTraceID t = RowTraceID r
    \<and> mset (map row_token (trace_spans t)) = mset (map row_token (trace_spans r))"
proof (cases "rowCombined c")
  case True
  obtain t conn where "finalizeTrace srt (row_SortTrace srt r) = Some (t, conn)" "RowTraceID t = RowTraceID r"
    "mset (map row_token (trace_spans t)) = mset (map row_token (trace_spans (row_SortTrace srt r)))"
    using finalizeTrace_keeps [of srt "row_SortTrace srt r"] by (auto simp: row_SortTrace_def)
  then show ?thesis using assms True mset_row_SortTrace [of r] by (simp add: row_Result_def)
qed (use assms in \<open>auto simp: row_Result_def\<close>)

end

lemma keeps_new_row_batches: "keeps_new row_spans row_token final (row_new_batches final)"
proof -
  have "keeps_new (\<lambda>gs. concat (map RowSpans gs)) row_token final (row_new_scopes final)"
    using keeps_new_groups [OF keeps_new_self, of RowSpans
        "\<lambda>xs ils. ils\<lparr>RowSpans := xs, RowSpanCount := int (length xs)\<rparr>" row_token final]
    by (simp add: row_new_scopes_def)
  then show ?thesis
    using keeps_new_groups [of "\<lambda>gs. concat (map RowSpans gs)" row_token final "row_new_scopes final"
        RowScopes "\<lambda>xs b. b\<lparr>RowScopes := xs\<rparr>"]
    by (simp add: row_new_batches_def row_spans_def [abs_def])
qed

lemmas row_spans_new [simp] = keeps_newD(1) [OF keeps_new_row_batches]
lemmas row_seen_new [simp] = keeps_newD(2) [OF keeps_new_row_batches]

lemma row_spans_append [simp]: "row_spans (a @ b) = row_spans a @ row_spans b"
  by (simp add: row_spans_def)

lemma coalesce_root_frame [simp]:
  "RowBatches (coalesce_root t r) = RowBatches r" "RowTraceID (coalesce_root t r) = RowTraceID r"
  by (simp_all add: coalesce_root_def Let_def)

text \<open>What a combiner holds after the rows \<open>ts\<close>.\<close>

definition holds_rows :: "row_trace list \<Rightarrow> row_combiner \<Rightarrow> bool" where
  "holds_rows ts c \<longleftrightarrow> (\<exists>r. rowResult c = Some r \<and> RowTraceID r = RowTraceID (hd ts)
     \<and> row_tokens (trace_spans r) = (\<Union>t\<in>set ts. row_tokens (trace_spans t))
     \<and> ((\<forall>t\<in>set ts. distinct (map row_token (trace_spans t))) \<longrightarrow> distinct (map row_token (trace_spans r))))"

lemma row_Consume_holds:
  assumes "holds_rows ts c" and "ts \<noteq> []"
    and "rowSpanTokens c = (\<Union>t\<in>set ts. row_tokens (trace_spans t))"
  shows "holds_rows (ts @ [t]) (snd (row_ConsumeWithFinal (Some t) final c))"
    and "\<not> final \<Longrightarrow> rowSpanTokens (snd (row_ConsumeWithFinal (Some t) final c)) =
      (\<Union>t\<in>set (ts @ [t]). row_tokens (trace_spans t))"
proof -
  obtain r where r: "rowResult c = Some r" "RowTraceID r = RowTraceID (hd ts)"
    "row_tokens (trace_spans r) = rowSpanTokens c"
    "(\<forall>t\<in>set ts. distinct (map row_token (trace_spans t))) \<longrightarrow> distinct (map row_token (trace_spans r))"
    using assms(1,3) by (auto simp: holds_rows_def)
  let ?kept = "fst (keep_new row_token final (rowSpanTokens c) (trace_spans t))"
  let ?c' = "snd (row_ConsumeWithFinal (Some t) final c)"
  have c': "rowResult ?c' = Some ((coalesce_root t r)\<lparr>RowBatches :=
      RowBatches r @ fst (row_new_batches final (rowSpanTokens c) (RowBatches t))\<rparr>)"
    "rowSpanTokens ?c' = snd (keep_new row_token final (rowSpanTokens c) (trace_spans t))"
    using r(1) by (simp_all add: row_ConsumeWithFinal_def Let_def case_prod_unfold)
  have kept: "row_tokens ?kept = row_tokens (trace_spans t) - rowSpanTokens c" by (rule keep_new_tokens)
  have dist: "distinct (map row_token ?kept)" if "distinct (map row_token (trace_spans t))"
    using that keep_new_distinct [of row_token "rowSpanTokens c" "trace_spans t"]
    by (cases final) (simp_all add: keep_new_final distinct_map_filter)
  have "row_tokens (trace_spans r) \<inter> row_tokens ?kept = {}" using kept r(3) by auto
  then show "holds_rows (ts @ [t]) ?c'"
    using r c'(1) kept dist assms(2,3) by (auto simp: holds_rows_def image_Un)
  show "\<not> final \<Longrightarrow> rowSpanTokens ?c' = (\<Union>t\<in>set (ts @ [t]). row_tokens (trace_spans t))"
    using c'(2) assms(3) by (simp add: keep_new_seen Un_commute)
qed

lemma consume_rows_holds:
  "holds_rows ts c \<Longrightarrow> ts \<noteq> [] \<Longrightarrow> rowSpanTokens c = (\<Union>t\<in>set ts. row_tokens (trace_spans t)) \<Longrightarrow>
   holds_rows (ts @ us) (snd (consume_rows us c))"
proof (induction us arbitrary: ts c)
  case (Cons u us)
  let ?c' = "snd (row_ConsumeWithFinal (Some u) (us = []) c)"
  have h: "holds_rows (ts @ [u]) ?c'" by (rule row_Consume_holds(1) [OF Cons.prems])
  show ?case
  proof (cases "us = []")
    case True
    then show ?thesis using h by (simp add: case_prod_unfold Let_def)
  next
    case False
    then have "rowSpanTokens ?c' = (\<Union>t\<in>set (ts @ [u]). row_tokens (trace_spans t))"
      using row_Consume_holds(2) [OF Cons.prems] by simp
    then show ?thesis using Cons.IH [OF h] by (simp add: case_prod_unfold Let_def)
  qed
qed simp

lemma consume_all_rows_holds: "ts \<noteq> [] \<Longrightarrow> holds_rows ts (snd (consume_rows ts row_NewCombiner))"
proof -
  assume "ts \<noteq> []"
  then obtain t us where ts: "ts = t # us" by (cases ts) auto
  let ?c = "snd (row_ConsumeWithFinal (Some t) (us = []) row_NewCombiner)"
  have "holds_rows [t] ?c" and "rowSpanTokens ?c = (\<Union>t\<in>set [t]. row_tokens (trace_spans t))"
    by (simp_all add: holds_rows_def row_ConsumeWithFinal_def row_NewCombiner_def)
  from consume_rows_holds [OF this(1) _ this(2), of us] show ?thesis
    by (simp add: ts case_prod_unfold Let_def)
qed

lemma row_Result_of_rows:
  assumes "sort_contract srt" and "ts \<noteq> []"
  shows "\<exists>t n conn c'. row_Result srt (snd (consume_rows ts row_NewCombiner)) = Some ((Some t, n, conn), c')
    \<and> RowTraceID t = RowTraceID (hd ts) \<and> row_tokens (trace_spans t) = (\<Union>t\<in>set ts. row_tokens (trace_spans t))
    \<and> ((\<forall>t\<in>set ts. distinct (map row_token (trace_spans t))) \<longrightarrow> distinct (map row_token (trace_spans t)))"
proof -
  obtain r where r: "rowResult (snd (consume_rows ts row_NewCombiner)) = Some r" "RowTraceID r = RowTraceID (hd ts)"
    "row_tokens (trace_spans r) = (\<Union>t\<in>set ts. row_tokens (trace_spans t))"
    "(\<forall>t\<in>set ts. distinct (map row_token (trace_spans t))) \<longrightarrow> distinct (map row_token (trace_spans r))"
    using consume_all_rows_holds [OF assms(2)] by (auto simp: holds_rows_def)
  obtain t n conn c' where t: "row_Result srt (snd (consume_rows ts row_NewCombiner)) = Some ((Some t, n, conn), c')"
    "RowTraceID t = RowTraceID r" "mset (map row_token (trace_spans t)) = mset (map row_token (trace_spans r))"
    using sort_contract.row_Result_keeps [OF assms(1) r(1)] by blast
  have "row_tokens (trace_spans t) = row_tokens (trace_spans r)" using mset_eq_setD [OF t(3)] by simp
  moreover have "distinct (map row_token (trace_spans t)) = distinct (map row_token (trace_spans r))"
    using mset_eq_imp_distinct_iff [OF t(3)] .
  ultimately show ?thesis using t(1,2) r by auto
qed


definition sample_row :: "bytes \<Rightarrow> row_batch list \<Rightarrow> row_trace" where
  "sample_row i bs = \<lparr>RowTraceID = i, TraceStart = 1, TraceEnd = 2, TraceDuration = 1, RowRootService = '''',
     RowRootSpan = '''', RowServiceStats = [], RowBatches = bs\<rparr>"


text \<open>One of the spans of the second row was known and is dropped, but the count, which is taken
  after the spans of the scope have been replaced, misses it: only scopes that lose all their
  spans are counted.\<close>

theorem dropped_duplicates_uncounted:
  "fst (consume_rows [sample_row [1] [sample_row_batch ''a'' [] [1, 2]],
      sample_row [1] [sample_row_batch ''a'' [] [2, 3]]] row_NewCombiner) = 0
   \<and> fst (consume_rows [sample_row [1] [sample_row_batch ''a'' [] [1, 2]],
      sample_row [1] [sample_row_batch ''a'' [] [2]]] row_NewCombiner) = 1"
  by code_simp

text \<open>Rows that are combined have been numbered before, and the numbers are not reset. A span that
  the walk does not reach any more keeps the numbers of its old tree: here the child of span 1,
  which has no unique parent once another span with id 1 has been added. It is then stored as a
  child of whichever span has the old number of its parent, the second root.\<close>

definition numbered_span :: "byte \<Rightarrow> bytes \<Rightarrow> int \<Rightarrow> u64 \<Rightarrow> int \<times> int \<times> int \<Rightarrow> row_span" where
  "numbered_span i par kind start = (\<lambda>(l, r, p). pq_span.extend
     ((new_span [i] par kind)\<lparr>NestedSetLeft := l, NestedSetRight := r, ParentID := p\<rparr>) \<lparr>SpanStart = start\<rparr>)"

definition rows_with_numbers :: "row_trace list" where
  "rows_with_numbers =
     [sample_row [1] [(sample_row_batch ''a'' [] [])\<lparr>RowScopes := [\<lparr>Scope = \<lparr>ScopeName = ''lib'',
        ScopeVersion = ''1'', ScopeAttrs = []\<rparr>, RowSpans = [numbered_span 1 [] 1 2 (1, 4, -1),
          numbered_span 2 [1] 1 3 (2, 3, 1)], RowSpanCount = 2\<rparr>]\<rparr>],
      sample_row [1] [(sample_row_batch ''a'' [] [])\<lparr>RowScopes := [\<lparr>Scope = \<lparr>ScopeName = ''lib'',
        ScopeVersion = ''1'', ScopeAttrs = []\<rparr>, RowSpans = [numbered_span 7 [] 1 1 (1, 4, -1),
          numbered_span 1 [7] 3 1 (2, 3, 1)], RowSpanCount = 2\<rparr>]\<rparr>]]"

theorem stale_numbers_kept:
  "map_option (map_option (\<lambda>t. map (\<lambda>s. (SpanID s, ParentSpanID s, NestedSetLeft s, NestedSetRight s, ParentID s))
       (trace_spans t))) (combineTraces insertion_sort rows_with_numbers)
   = Some (Some [([1], [7], 2, 3, 1), ([7], [], 1, 4, -1), ([1], [], 5, 6, -1), ([2], [1], 2, 3, 1)])"
  by code_simp

end
