(* ===== verification/BlockMerge.thy ===== *)
theory BlockMerge
  imports PqCombine
begin

section \<open>Merging blocks by trace id (tempodb/encoding/vparquet5/multiblock\_iterator.go)\<close>

text \<open>
  The multi-block iterator walks through several blocks, each sorted by trace id, and yields one
  row per id: of the rows that the blocks have for the lowest id, what \<open>combine\<close> makes of them.

  A bookmark holds the rows of its block that were not read yet, and whether reading past them
  fails or finds the end of the block. \<open>rawIterator\<close> does not support peeking, so a bookmark reads
  a row and keeps it in \<open>currentRow\<close> until it is cleared. The id of a row is its \<open>TraceID\<close> column,
  which is never empty.
\<close>

record bookmark =
  unread :: "row_trace list"
  readFails :: bool
  currentRow :: "row_trace option"
  currentErr :: bool

datatype compact_error = ErrIterate | ErrNilObject | ErrCombine | ErrOpen | ErrWrite | ErrNilRow

definition newBookmark :: "row_trace list \<Rightarrow> bool \<Rightarrow> bookmark" where
  "newBookmark rows fails =
     \<lparr>unread = rows, readFails = fails, currentRow = None, currentErr = False\<rparr>"

definition bookmark_current :: "bookmark \<Rightarrow> (compact_error + row_trace option) \<times> bookmark" where
  "bookmark_current b =
     (if currentErr b then (Inl ErrIterate, b)
      else case currentRow b of
          Some r \<Rightarrow> (Inr (Some r), b)
        | None \<Rightarrow>
            (case unread b of
               r # rs \<Rightarrow> (Inr (Some r), b\<lparr>unread := rs, currentRow := Some r\<rparr>)
             | [] \<Rightarrow> if readFails b then (Inl ErrIterate, b\<lparr>currentErr := True\<rparr>) else (Inr None, b)))"

definition bookmark_done :: "bookmark \<Rightarrow> bool \<times> bookmark" where
  "bookmark_done b =
     (case bookmark_current b of
        (Inr (Some r), b') \<Rightarrow> (False, b')
      | (_, b') \<Rightarrow> (True, b'))"

definition bookmark_clear :: "bookmark \<Rightarrow> bookmark" where
  "bookmark_clear b = b\<lparr>currentRow := None\<rparr>"

fun iterator_done :: "bookmark list \<Rightarrow> bool \<times> bookmark list" where
  "iterator_done [] = (True, [])"
| "iterator_done (b # bs) =
     (let (d, b') = bookmark_done b in
      if d then map_prod id ((#) b') (iterator_done bs) else (False, b' # bs))"

text \<open>The search for the lowest id: \<open>i\<close> is the position of the next bookmark, \<open>lowest\<close> the positions
  of those with the lowest id so far.\<close>

fun find_lowest ::
  "nat \<Rightarrow> bytes \<Rightarrow> nat list \<Rightarrow> bookmark list \<Rightarrow> (compact_error + bytes \<times> nat list) \<times> bookmark list" where
  "find_lowest i lowestID lowest [] = (Inr (lowestID, lowest), [])"
| "find_lowest i lowestID lowest (b # bs) =
     (case bookmark_current b of
        (Inl e, b') \<Rightarrow> (Inl e, b' # bs)
      | (Inr None, b') \<Rightarrow> map_prod id ((#) b') (find_lowest (i + 1) lowestID lowest bs)
      | (Inr (Some r), b') \<Rightarrow>
          (let comparison = Compare (RowTraceID r) lowestID in
           map_prod id ((#) b')
             (if comparison = 0 then find_lowest (i + 1) lowestID (lowest @ [i]) bs
              else if lowestID = [] \<or> comparison = -1 then find_lowest (i + 1) (RowTraceID r) [i] bs
              else find_lowest (i + 1) lowestID lowest bs)))"

fun lowest_objects :: "bookmark list \<Rightarrow> nat list \<Rightarrow> compact_error + row_trace list" where
  "lowest_objects bs [] = Inr []"
| "lowest_objects bs (i # ps) =
     (case fst (bookmark_current (bs ! i)) of
        Inl e \<Rightarrow> Inl e
      | Inr None \<Rightarrow> Inl ErrNilObject
      | Inr (Some r) \<Rightarrow>
          (case lowest_objects bs ps of Inl e \<Rightarrow> Inl e | Inr rs \<Rightarrow> Inr (r # rs)))"

datatype 'a next_row = EndOfInput | Failed compact_error | NextRow bytes 'a

definition iterator_Next ::
  "(row_trace list \<Rightarrow> compact_error + 'a) \<Rightarrow> bookmark list \<Rightarrow> 'a next_row \<times> bookmark list" where
  "iterator_Next combine bs =
     (let (d, bs1) = iterator_done bs in
      if d then (EndOfInput, bs1)
      else case find_lowest 0 [] [] bs1 of
          (Inl e, bs2) \<Rightarrow> (Failed e, bs2)
        | (Inr (lowestID, lowest), bs2) \<Rightarrow>
            (case lowest_objects bs2 lowest of
               Inl e \<Rightarrow> (Failed e, bs2)
             | Inr rows \<Rightarrow>
                 (case combine rows of
                    Inl e \<Rightarrow> (Failed e, bs2)
                  | Inr x \<Rightarrow>
                      (NextRow lowestID x, fold (\<lambda>i bs. bs[i := bookmark_clear (bs ! i)]) lowest bs2))))"

subsection \<open>The rows still to come\<close>

definition remaining :: "bookmark \<Rightarrow> row_trace list" where
  "remaining b = (case currentRow b of None \<Rightarrow> unread b | Some r \<Rightarrow> r # unread b)"

text \<open>A bookmark whose block can be read to its end.\<close>

definition readable :: "bookmark \<Rightarrow> bool" where
  "readable b \<longleftrightarrow> \<not> readFails b \<and> \<not> currentErr b"

abbreviation first_id :: "bookmark \<Rightarrow> bytes" where
  "first_id b \<equiv> RowTraceID (hd (remaining b))"

definition has_id :: "bytes \<Rightarrow> bookmark \<Rightarrow> bool" where
  "has_id i b \<longleftrightarrow> remaining b \<noteq> [] \<and> first_id b = i"

lemma bookmark_current_readable:
  assumes "readable b"
  shows "\<exists>b'. bookmark_current b = (Inr (if remaining b = [] then None else Some (hd (remaining b))), b')
    \<and> remaining b' = remaining b \<and> readable b'
    \<and> currentRow b' = (if remaining b = [] then None else Some (hd (remaining b)))"
proof (cases "currentRow b")
  case None
  then show ?thesis using assms
    by (cases "unread b") (simp_all add: bookmark_current_def remaining_def readable_def)
qed (use assms in \<open>simp add: bookmark_current_def remaining_def readable_def\<close>)

definition loaded :: "bookmark \<Rightarrow> bool" where
  "loaded b \<longleftrightarrow> readable b \<and> currentRow b = (if remaining b = [] then None else Some (hd (remaining b)))"

lemma iterator_done_readable:
  "list_all readable bs \<Longrightarrow> \<exists>bs'. iterator_done bs = (list_all (\<lambda>b. remaining b = []) bs, bs')
     \<and> map remaining bs' = map remaining bs \<and> list_all readable bs'"
proof (induction bs)
  case (Cons b bs)
  obtain b' where b': "bookmark_current b = (Inr (if remaining b = [] then None else Some (hd (remaining b))), b')"
    "remaining b' = remaining b" "readable b'" using bookmark_current_readable [of b] Cons.prems by auto
  obtain bs' where bs': "iterator_done bs = (list_all (\<lambda>b. remaining b = []) bs, bs')"
    "map remaining bs' = map remaining bs" "list_all readable bs'" using Cons by auto
  show ?case using b' bs' Cons.prems by (cases "remaining b = []") (simp_all add: bookmark_done_def)
qed simp

text \<open>What the search adds to the state \<open>(lowestID, lowest)\<close>.\<close>

fun lowest_of :: "nat \<Rightarrow> bytes \<Rightarrow> nat list \<Rightarrow> bookmark list \<Rightarrow> bytes \<times> nat list" where
  "lowest_of i l ps [] = (l, ps)"
| "lowest_of i l ps (b # bs) =
     (if remaining b = [] then lowest_of (i + 1) l ps bs
      else if first_id b = l then lowest_of (i + 1) l (ps @ [i]) bs
      else if l = [] \<or> first_id b < l then lowest_of (i + 1) (first_id b) [i] bs
      else lowest_of (i + 1) l ps bs)"

lemma find_lowest_readable:
  "list_all readable bs \<Longrightarrow> \<exists>bs'. find_lowest i l ps bs = (Inr (lowest_of i l ps bs), bs')
     \<and> map remaining bs' = map remaining bs \<and> list_all loaded bs'"
proof (induction bs arbitrary: i l ps)
  case (Cons b bs)
  obtain b' where b': "bookmark_current b = (Inr (if remaining b = [] then None else Some (hd (remaining b))), b')"
    "remaining b' = remaining b" "loaded b'"
    using bookmark_current_readable [of b] Cons.prems by (auto simp: loaded_def)
  have rest: "\<exists>bs'. find_lowest (i + 1) l' ps' bs = (Inr (lowest_of (i + 1) l' ps' bs), bs')
      \<and> map remaining bs' = map remaining bs \<and> list_all loaded bs'" for l' ps'
    using Cons by simp
  show ?case
  proof (cases "remaining b = []")
    case True
    then show ?thesis using b' rest [of l ps] by auto
  next
    case False
    have "Compare (first_id b) l = 0 \<longleftrightarrow> first_id b = l" by (simp add: Compare_def)
    then show ?thesis
      using False b' rest [of l ps] rest [of l "ps @ [i]"] rest [of "first_id b" "[i]"] by auto
  qed
qed simp

text \<open>The search finds the least first id and the positions that have it.\<close>

lemma lowest_of_append:
  "lowest_of i l ps (xs @ ys) =
     (let (l', ps') = lowest_of i l ps xs in lowest_of (i + length xs) l' ps' ys)"
  by (induction xs arbitrary: i l ps) auto

lemma lowest_of_exact:
  assumes "\<forall>b\<in>set bs. remaining b \<noteq> [] \<longrightarrow> first_id b \<noteq> []"
  shows "\<exists>m. lowest_of 0 [] [] bs = (m, filter (\<lambda>j. has_id m (bs ! j)) [0..<length bs])
    \<and> (m = [] \<longleftrightarrow> (\<forall>b\<in>set bs. remaining b = []))
    \<and> (\<forall>b\<in>set bs. remaining b \<noteq> [] \<longrightarrow> m \<le> first_id b)
    \<and> (m \<noteq> [] \<longrightarrow> (\<exists>b\<in>set bs. has_id m b))"
  using assms
proof (induction bs rule: rev_induct)
  case (snoc b bs)
  then obtain m where m: "lowest_of 0 [] [] bs = (m, filter (\<lambda>j. has_id m (bs ! j)) [0..<length bs])"
    "m = [] \<longleftrightarrow> (\<forall>b\<in>set bs. remaining b = [])" "\<forall>b\<in>set bs. remaining b \<noteq> [] \<longrightarrow> m \<le> first_id b"
    "m \<noteq> [] \<longrightarrow> (\<exists>b\<in>set bs. has_id m b)"
    by auto
  have nth: "filter (\<lambda>j. has_id k ((bs @ [b]) ! j)) [0..<length (bs @ [b])] =
      filter (\<lambda>j. has_id k (bs ! j)) [0..<length bs] @ (if has_id k b then [length bs] else [])" for k
  proof -
    have "filter (\<lambda>j. has_id k ((bs @ [b]) ! j)) [0..<length bs] = filter (\<lambda>j. has_id k (bs ! j)) [0..<length bs]"
      by (rule filter_cong) (auto simp: nth_append)
    then show ?thesis by simp
  qed
  have id: "remaining b \<noteq> [] \<Longrightarrow> first_id b \<noteq> []" using snoc.prems by simp
  consider "remaining b = []" | "remaining b \<noteq> []" "first_id b = m"
    | "remaining b \<noteq> []" "first_id b \<noteq> m" "m = [] \<or> first_id b < m"
    | "remaining b \<noteq> []" "m \<noteq> []" "m < first_id b"
    by force
  then show ?case
  proof cases
    case 1
    then have "lowest_of 0 [] [] (bs @ [b]) = (m, filter (\<lambda>j. has_id m ((bs @ [b]) ! j)) [0..<length (bs @ [b])])"
      using m(1) unfolding nth by (simp add: lowest_of_append has_id_def)
    then show ?thesis using 1 m(2-4) by auto
  next
    case 2
    then have "lowest_of 0 [] [] (bs @ [b]) = (m, filter (\<lambda>j. has_id m ((bs @ [b]) ! j)) [0..<length (bs @ [b])])"
      using m(1) unfolding nth by (simp add: lowest_of_append has_id_def)
    then show ?thesis using 2 m(2-4) id by (auto simp: has_id_def)
  next
    case 3
    have below: "first_id b < first_id x" if "x \<in> set bs" "remaining x \<noteq> []" for x
      using 3 m(2,3) that by (metis order_less_le_trans)
    have "filter (\<lambda>j. has_id (first_id b) (bs ! j)) [0..<length bs] = []"
      using below by (auto simp: filter_empty_conv has_id_def) (metis less_irrefl nth_mem)
    then have "lowest_of 0 [] [] (bs @ [b]) =
        (first_id b, filter (\<lambda>j. has_id (first_id b) ((bs @ [b]) ! j)) [0..<length (bs @ [b])])"
      using 3 m(1) unfolding nth by (simp add: lowest_of_append has_id_def)
    then show ?thesis using 3 below [THEN less_imp_le] id by (intro exI [of _ "first_id b"]) (auto simp: has_id_def)
  next
    case 4
    then have "lowest_of 0 [] [] (bs @ [b]) = (m, filter (\<lambda>j. has_id m ((bs @ [b]) ! j)) [0..<length (bs @ [b])])"
      using m(1) unfolding nth by (auto simp: lowest_of_append has_id_def)
    then show ?thesis using 4 m(2-4) by auto
  qed
qed simp

lemma map_filter_nth:
  "map (\<lambda>j. f (xs ! j)) (filter (\<lambda>j. P (xs ! j)) [0..<length xs]) = map f (filter P xs)"
proof (induction xs rule: rev_induct)
  case (snoc x xs)
  have "filter (\<lambda>j. P ((xs @ [x]) ! j)) [0..<length xs] = filter (\<lambda>j. P (xs ! j)) [0..<length xs]"
    by (rule filter_cong) (auto simp: nth_append)
  moreover have "map (\<lambda>j. f ((xs @ [x]) ! j)) (filter (\<lambda>j. P (xs ! j)) [0..<length xs]) =
      map (\<lambda>j. f (xs ! j)) (filter (\<lambda>j. P (xs ! j)) [0..<length xs])"
    by (rule map_cong) (auto simp: nth_append)
  ultimately show ?case using snoc by (simp add: nth_append)
qed simp

lemma fold_update_nth:
  "distinct ps \<Longrightarrow> length (fold (\<lambda>i xs. xs[i := f (xs ! i)]) ps xs) = length xs
   \<and> (\<forall>j<length xs. fold (\<lambda>i xs. xs[i := f (xs ! i)]) ps xs ! j = (if j \<in> set ps then f (xs ! j) else xs ! j))"
proof (induction ps arbitrary: xs)
  case (Cons p ps)
  have "xs[p := f (xs ! p)] ! j = xs ! j" if "j \<in> set ps" for j
    using that Cons.prems by (metis distinct.simps(2) nth_list_update_neq)
  then show ?case using Cons by (auto simp: nth_list_update)
qed simp

lemma lowest_objects_loaded:
  "\<forall>i\<in>set ps. loaded (bs ! i) \<and> remaining (bs ! i) \<noteq> [] \<Longrightarrow>
   lowest_objects bs ps = Inr (map (\<lambda>i. hd (remaining (bs ! i))) ps)"
  by (induction ps) (auto simp: loaded_def bookmark_current_def readable_def)

lemma has_id_remaining: "map remaining bs = map remaining bs' \<Longrightarrow> j < length bs \<Longrightarrow> has_id m (bs ! j) = has_id m (bs' ! j)"
  unfolding has_id_def by (metis length_map nth_map)

lemma loaded_clear: "loaded b \<Longrightarrow> remaining b \<noteq> [] \<Longrightarrow> remaining (bookmark_clear b) = tl (remaining b) \<and> readable (bookmark_clear b)"
  by (cases "currentRow b") (auto simp: loaded_def bookmark_clear_def remaining_def readable_def)

text \<open>One call of \<open>Next\<close> on readable blocks: the end, or the rows of the least id.\<close>

lemma iterator_Next_end:
  assumes "list_all readable bs" and "\<forall>b\<in>set bs. remaining b = []"
  shows "fst (iterator_Next combine bs) = EndOfInput"
proof -
  have "list_all (\<lambda>b. remaining b = []) bs" using assms(2) by (simp add: list_all_iff)
  then show ?thesis using iterator_done_readable [OF assms(1)] by (auto simp: iterator_Next_def)
qed

lemma iterator_Next_row:
  assumes "list_all readable bs" and "\<exists>b\<in>set bs. remaining b \<noteq> []"
    and "\<forall>b\<in>set bs. remaining b \<noteq> [] \<longrightarrow> first_id b \<noteq> []"
  shows "\<exists>m. (\<exists>b\<in>set bs. has_id m b) \<and> (\<forall>b\<in>set bs. remaining b \<noteq> [] \<longrightarrow> m \<le> first_id b)
    \<and> (case combine (map (\<lambda>b. hd (remaining b)) (filter (has_id m) bs)) of
         Inl e \<Rightarrow> fst (iterator_Next combine bs) = Failed e
       | Inr x \<Rightarrow> (\<exists>bs'. iterator_Next combine bs = (NextRow m x, bs') \<and> list_all readable bs'
           \<and> map remaining bs' = map (\<lambda>b. if has_id m b then tl (remaining b) else remaining b) bs))"
proof -
  obtain bs1 where bs1: "iterator_done bs = (False, bs1)" "map remaining bs1 = map remaining bs" "list_all readable bs1"
  proof -
    have "\<not> list_all (\<lambda>b. remaining b = []) bs" using assms(2) by (auto simp: list_all_iff)
    then show ?thesis using iterator_done_readable [OF assms(1)] that by auto
  qed
  obtain bs2 where bs2: "find_lowest 0 [] [] bs1 = (Inr (lowest_of 0 [] [] bs1), bs2)"
    "map remaining bs2 = map remaining bs" "list_all loaded bs2"
    using find_lowest_readable [OF bs1(3)] bs1(2) by metis
  have len: "length bs1 = length bs" "length bs2 = length bs"
    using bs1(2) bs2(2) map_eq_imp_length_eq by blast+
  have img: "remaining ` set bs1 = remaining ` set bs" using bs1(2) by (metis set_map)
  have ex: "(\<exists>b\<in>set bs1. P (remaining b)) \<longleftrightarrow> (\<exists>b\<in>set bs. P (remaining b))" for P
  proof -
    have "(\<exists>b\<in>set bs1. P (remaining b)) \<longleftrightarrow> (\<exists>rs\<in>remaining ` set bs1. P rs)" by blast
    also have "\<dots> \<longleftrightarrow> (\<exists>rs\<in>remaining ` set bs. P rs)" unfolding img ..
    also have "\<dots> \<longleftrightarrow> (\<exists>b\<in>set bs. P (remaining b))" by blast
    finally show ?thesis .
  qed
  have ids1: "\<forall>b\<in>set bs1. remaining b \<noteq> [] \<longrightarrow> first_id b \<noteq> []"
    using assms(3) ex [of "\<lambda>rs. rs \<noteq> [] \<and> RowTraceID (hd rs) = []"] by auto
  obtain m where m: "lowest_of 0 [] [] bs1 = (m, filter (\<lambda>j. has_id m (bs1 ! j)) [0..<length bs1])"
    "m = [] \<longleftrightarrow> (\<forall>b\<in>set bs1. remaining b = [])" "\<forall>b\<in>set bs1. remaining b \<noteq> [] \<longrightarrow> m \<le> first_id b"
    "m \<noteq> [] \<longrightarrow> (\<exists>b\<in>set bs1. has_id m b)"
    using lowest_of_exact [OF ids1] by blast
  define ps where "ps = filter (\<lambda>j. has_id m (bs2 ! j)) [0..<length bs2]"
  have "filter (\<lambda>j. has_id m (bs1 ! j)) [0..<length bs1] = ps"
    unfolding ps_def len by (rule filter_cong) (use has_id_remaining [of bs1 bs2] bs1(2) bs2(2) len in auto)
  then have found: "find_lowest 0 [] [] bs1 = (Inr (m, ps), bs2)" using bs2(1) m(1) by simp
  have loaded: "loaded (bs2 ! i)" if "i < length bs2" for i using bs2(3) that by (simp add: list_all_length)
  have rows: "lowest_objects bs2 ps = Inr (map (\<lambda>i. hd (remaining (bs2 ! i))) ps)"
    by (rule lowest_objects_loaded) (use loaded in \<open>auto simp: ps_def has_id_def\<close>)
  have same: "remaining (bs2 ! i) = remaining (bs ! i)" if "i < length bs" for i
    using bs2(2) that len by (metis nth_map)
  have "map (\<lambda>i. hd (remaining (bs2 ! i))) ps = map (\<lambda>b. hd (remaining b)) (filter (has_id m) bs2)"
    unfolding ps_def by (rule map_filter_nth)
  also have "\<dots> = map (\<lambda>b. hd (remaining b)) (filter (has_id m) bs)"
  proof -
    have "map hd (filter (\<lambda>rs. rs \<noteq> [] \<and> RowTraceID (hd rs) = m) (map remaining xs)) =
        map (\<lambda>b. hd (remaining b)) (filter (has_id m) xs)" for xs
      by (induction xs) (auto simp: has_id_def)
    from this [of bs2] this [of bs] show ?thesis unfolding bs2(2) by simp
  qed
  finally have objs: "lowest_objects bs2 ps = Inr (map (\<lambda>b. hd (remaining b)) (filter (has_id m) bs))"
    using rows by simp
  let ?bs3 = "fold (\<lambda>i bs. bs[i := bookmark_clear (bs ! i)]) ps bs2"
  have upd: "length ?bs3 = length bs2"
    "\<And>j. j < length bs2 \<Longrightarrow> ?bs3 ! j = (if j \<in> set ps then bookmark_clear (bs2 ! j) else bs2 ! j)"
    using fold_update_nth [of ps bookmark_clear bs2] by (simp_all add: ps_def)
  have at: "remaining (?bs3 ! j) = (if has_id m (bs ! j) then tl (remaining (bs ! j)) else remaining (bs ! j))
      \<and> readable (?bs3 ! j)" if "j < length bs" for j
  proof (cases "has_id m (bs2 ! j)")
    case True
    then show ?thesis
      using that len loaded [of j] loaded_clear [of "bs2 ! j"] same [OF that] upd(2) [of j]
      by (auto simp: ps_def has_id_def)
  next
    case False
    then show ?thesis
      using that len loaded [of j] same [OF that] upd(2) [of j] by (auto simp: ps_def has_id_def loaded_def)
  qed
  have after: "list_all readable ?bs3" "map remaining ?bs3 = map (\<lambda>b. if has_id m b then tl (remaining b) else remaining b) bs"
    using at upd(1) len by (auto simp: list_all_length intro!: nth_equalityI)
  have "m \<noteq> []" using m(2) assms(2) ex [of "\<lambda>rs. rs \<noteq> []"] by auto
  then have "\<exists>b\<in>set bs. has_id m b"
    using m(4) ex [of "\<lambda>rs. rs \<noteq> [] \<and> RowTraceID (hd rs) = m"] by (simp add: has_id_def)
  moreover have "\<forall>b\<in>set bs. remaining b \<noteq> [] \<longrightarrow> m \<le> first_id b"
    using m(3) ex [of "\<lambda>rs. rs \<noteq> [] \<and> \<not> m \<le> RowTraceID (hd rs)"] by blast
  moreover have "case combine (map (\<lambda>b. hd (remaining b)) (filter (has_id m) bs)) of
      Inl e \<Rightarrow> fst (iterator_Next combine bs) = Failed e
    | Inr x \<Rightarrow> (\<exists>bs'. iterator_Next combine bs = (NextRow m x, bs') \<and> list_all readable bs'
        \<and> map remaining bs' = map (\<lambda>b. if has_id m b then tl (remaining b) else remaining b) bs)"
    using bs1(1) found objs after by (simp add: iterator_Next_def split: sum.splits)
  ultimately show ?thesis by blast
qed

end
