(* ===== verification/Compaction.thy ===== *)
theory Compaction
  imports BlockMerge Blocklist "HOL-Library.Signed_Division"
begin

section \<open>Compacting blocks (tempodb/encoding/vparquet5/compactor.go)\<close>

text \<open>
  Models \<open>Compactor.Compact\<close>: several blocks, each sorted by trace id, are merged row by row into new ones.
  Redaction runs the same compactor on one block.

  A block is the list of its rows. What reading and writing do is an argument: \<open>openBlock\<close> gives the
  rows of an input and whether reading past them fails, \<open>addOK\<close>, \<open>flushOK\<close> and \<open>completeOK\<close> say whether
  a write succeeds, \<open>protoSize\<close>, \<open>rowSize\<close> and \<open>writtenSize\<close> are the estimated and written sizes of
  rows, and \<open>filteredHash\<close> is what filtering the dedicated columns makes of their hash. The conversions
  between a parquet row and a trace are inverse to each other; reading a row can fail
  (\<open>reconstructOK\<close>). The callbacks that only count are left out, except \<open>SpansDiscarded\<close>: its
  rows are collected. \<open>None\<close> is a panic.
\<close>

record compact_env =
  OutputBlocks :: int
  MaxBytesPerTrace :: int
  DropObject :: "(bytes \<Rightarrow> bool) option"
  RowGroupSizeBytes :: int
  protoSize :: "row_trace \<Rightarrow> int"
  rowSize :: "row_trace \<Rightarrow> int"
  reconstructOK :: "row_trace \<Rightarrow> bool"
  openBlock :: "block_meta \<Rightarrow> (row_trace list \<times> bool) option"
  addOK :: "row_trace \<Rightarrow> bool"
  flushOK :: "row_trace list \<Rightarrow> bool"
  completeOK :: "row_trace list \<Rightarrow> bool"
  writtenSize :: "row_trace list \<Rightarrow> u64"
  filteredHash :: "u64 \<Rightarrow> u64"
  newUUID :: "nat \<Rightarrow> uuid"
  compactSort :: index_sorter

subsection \<open>Combining rows\<close>

text \<open>The row, \<open>None\<close> for no rows, and the rows that are given up because the trace is too large.\<close>

definition combine_rows ::
  "compact_env \<Rightarrow> row_trace list \<Rightarrow> compact_error + row_trace option \<times> row_trace list" where
  "combine_rows env rows =
     (case rows of
        [] \<Rightarrow> Inr (None, [])
      | [r] \<Rightarrow> Inr (Some r, [])
      | r # rest \<Rightarrow>
          if list_all (\<lambda>x. r = x) rest then Inr (Some r, [])
          else if MaxBytesPerTrace env > 0 \<and> sum_list (map (protoSize env) rows) > MaxBytesPerTrace env
          then Inr (Some r, rest)
          else if \<not> list_all (reconstructOK env) rows then Inl ErrCombine
          else case row_Result (compactSort env) (snd (consume_rows rows row_NewCombiner)) of
              Some ((t, _, _), _) \<Rightarrow> Inr (t, [])
            | None \<Rightarrow> Inl ErrCombine)"

subsection \<open>Writing blocks\<close>

text \<open>The zero \<open>time.Time\<close>.\<close>

definition zeroTime :: time where
  "zeroTime = -62135596800000000000"

record out_block =
  outMeta :: block_meta
  outRows :: "row_trace list"
  outBuffered :: int
  outGroups :: nat

definition new_block :: "compact_env \<Rightarrow> block_meta \<Rightarrow> u32 \<Rightarrow> nat \<Rightarrow> out_block" where
  "new_block env first nextLevel n =
     \<lparr>outMeta = \<lparr>Version = ''vParquet5'', BlockID = newUUID env n, TenantID = TenantID first, StartTime = zeroTime,
        EndTime = zeroTime, TotalObjects = 0, SizeBytes = 0, CompactionLevel = nextLevel,
        DedicatedColumnsHash = filteredHash env (DedicatedColumnsHash first), ReplicationFactor = ReplicationFactor first\<rparr>,
      outRows = [], outBuffered = 0, outGroups = 0\<rparr>"

definition AddRaw :: "compact_env \<Rightarrow> row_trace \<Rightarrow> out_block \<Rightarrow> compact_error + out_block" where
  "AddRaw env r b =
     (if \<not> addOK env r then Inl ErrWrite
      else Inr (b\<lparr>outRows := outRows b @ [r], outBuffered := outBuffered b + rowSize env r,
             outMeta := (outMeta b)\<lparr>TotalObjects := TotalObjects (outMeta b) + 1\<rparr>\<rparr>))"

definition appendBlock :: "compact_env \<Rightarrow> out_block \<Rightarrow> compact_error + out_block" where
  "appendBlock env b =
     (if \<not> flushOK env (outRows b) then Inl ErrWrite
      else Inr (b\<lparr>outBuffered := 0, outGroups := outGroups b + 1\<rparr>))"

definition finishBlock :: "compact_env \<Rightarrow> time \<Rightarrow> time \<Rightarrow> out_block \<Rightarrow> compact_error + out_block" where
  "finishBlock env minBlockStart maxBlockEnd b =
     (if \<not> completeOK env (outRows b) then Inl ErrWrite
      else Inr (b\<lparr>outGroups := outGroups b + 1,
             outMeta := (outMeta b)\<lparr>StartTime := minBlockStart, EndTime := maxBlockEnd,
               SizeBytes := writtenSize env (outRows b)\<rparr>\<rparr>))"

subsection \<open>Compact\<close>

record compact_state =
  marks :: "bookmark list"
  currentBlock :: "out_block option"
  finishedBlocks :: "out_block list"
  discardedRows :: "row_trace list"

record compact_plan =
  firstInput :: block_meta
  nextLevel :: u32
  recordsPerBlock :: int
  minBlockStart :: time
  maxBlockEnd :: time

datatype step = Continue compact_state | Finished compact_state | Abort compact_error

text \<open>Writing one trace: a new block if there is none, a flush if the trace does not fit, the trace,
  a flush if the block is full, and the end of the block when it has its share.\<close>

definition flush_if :: "bool \<Rightarrow> compact_env \<Rightarrow> out_block \<Rightarrow> compact_error + out_block" where
  "flush_if c env b = (if c then appendBlock env b else Inr b)"

definition write_trace :: "compact_env \<Rightarrow> compact_plan \<Rightarrow> row_trace \<Rightarrow> compact_state \<Rightarrow> step" where
  "write_trace env p r st =
     (let b0 = (case currentBlock st of
            Some b \<Rightarrow> b
          | None \<Rightarrow> new_block env (firstInput p) (nextLevel p) (length (finishedBlocks st)))
      in case flush_if (outBuffered b0 > 0 \<and> outBuffered b0 + rowSize env r > RowGroupSizeBytes env) env b0 of
           Inl e \<Rightarrow> Abort e
         | Inr b1 \<Rightarrow>
             (case AddRaw env r b1 of
                Inl e \<Rightarrow> Abort e
              | Inr b2 \<Rightarrow>
                  (case flush_if (outBuffered b2 > RowGroupSizeBytes env) env b2 of
                     Inl e \<Rightarrow> Abort e
                   | Inr b3 \<Rightarrow>
                       if uint (TotalObjects (outMeta b3)) \<ge> recordsPerBlock p
                       then (case finishBlock env (minBlockStart p) (maxBlockEnd p) b3 of
                           Inl e \<Rightarrow> Abort e
                         | Inr b4 \<Rightarrow> Continue (st\<lparr>currentBlock := None,
                             finishedBlocks := finishedBlocks st @ [b4]\<rparr>))
                       else Continue (st\<lparr>currentBlock := Some b3\<rparr>))))"

definition compact_step :: "compact_env \<Rightarrow> compact_plan \<Rightarrow> compact_state \<Rightarrow> step" where
  "compact_step env p st =
     (let (r, ms) = iterator_Next (combine_rows env) (marks st); st1 = st\<lparr>marks := ms\<rparr> in
      case r of
        EndOfInput \<Rightarrow> Finished st1
      | Failed e \<Rightarrow> Abort e
      | NextRow lowestID (lowestObject, gone) \<Rightarrow>
          (let st2 = st1\<lparr>discardedRows := discardedRows st1 @ gone\<rparr> in
           if (case DropObject env of Some dropped \<Rightarrow> dropped lowestID | None \<Rightarrow> False) then Continue st2
           else case lowestObject of
               None \<Rightarrow> Abort ErrNilRow
             | Some row \<Rightarrow> write_trace env p row st2))"

partial_function (option) compact_loop ::
  "compact_env \<Rightarrow> compact_plan \<Rightarrow> compact_state \<Rightarrow> (compact_error + compact_state) option" where
  "compact_loop env p st =
     (case compact_step env p st of
        Finished st' \<Rightarrow> Some (Inr st')
      | Abort e \<Rightarrow> Some (Inl e)
      | Continue st' \<Rightarrow> compact_loop env p st')"

declare compact_loop.simps [code]

fun open_blocks :: "compact_env \<Rightarrow> block_meta list \<Rightarrow> compact_error + bookmark list" where
  "open_blocks env [] = Inr []"
| "open_blocks env (m # ms) =
     (case openBlock env m of
        None \<Rightarrow> Inl ErrOpen
      | Some (rows, fails) \<Rightarrow>
          (case open_blocks env ms of Inl e \<Rightarrow> Inl e | Inr bs \<Rightarrow> Inr (newBookmark rows fails # bs)))"

definition earliest :: "block_meta list \<Rightarrow> time" where
  "earliest inputs =
     fold (\<lambda>m t. if StartTime m < t \<or> t = zeroTime then StartTime m else t) inputs zeroTime"

definition latest :: "block_meta list \<Rightarrow> time" where
  "latest inputs = fold (\<lambda>m t. if t < EndTime m then EndTime m else t) inputs zeroTime"

definition total_objects :: "block_meta list \<Rightarrow> int" where
  "total_objects inputs = sum_list (map (\<lambda>m. uint (TotalObjects m)) inputs)"

definition highest_level :: "block_meta list \<Rightarrow> u32" where
  "highest_level inputs =
     fold (\<lambda>m l. if CompactionLevel m > l then CompactionLevel m else l) inputs 0"

definition plan_of :: "compact_env \<Rightarrow> block_meta list \<Rightarrow> compact_plan" where
  "plan_of env inputs =
     \<lparr>firstInput = hd inputs, nextLevel = highest_level inputs + 1,
      recordsPerBlock = total_objects inputs sdiv OutputBlocks env,
      minBlockStart = earliest inputs, maxBlockEnd = latest inputs\<rparr>"

definition Compact ::
  "compact_env \<Rightarrow> block_meta list \<Rightarrow> (compact_error + out_block list \<times> row_trace list) option" where
  "Compact env inputs =
     (case open_blocks env inputs of
        Inl e \<Rightarrow> Some (Inl e)
      | Inr bs \<Rightarrow>
          if inputs = [] \<or> OutputBlocks env = 0 then None
          else let p = plan_of env inputs in
            (case compact_loop env p
                \<lparr>marks = bs, currentBlock = None, finishedBlocks = [], discardedRows = []\<rparr> of
               None \<Rightarrow> None
             | Some (Inl e) \<Rightarrow> Some (Inl e)
             | Some (Inr st) \<Rightarrow>
                 (case currentBlock st of
                    None \<Rightarrow> Some (Inr (finishedBlocks st, discardedRows st))
                  | Some b \<Rightarrow>
                      (case finishBlock env (minBlockStart p) (maxBlockEnd p) b of
                         Inl e \<Rightarrow> Some (Inl e)
                       | Inr b' \<Rightarrow> Some (Inr (finishedBlocks st @ [b'], discardedRows st))))))"

subsection \<open>What a step writes\<close>

definition compact_ok :: "compact_env \<Rightarrow> bool" where
  "compact_ok env \<longleftrightarrow> sort_contract (compactSort env) \<and> (\<forall>r. reconstructOK env r) \<and> (\<forall>r. addOK env r)
     \<and> (\<forall>rs. flushOK env rs) \<and> (\<forall>rs. completeOK env rs)"

definition written :: "compact_state \<Rightarrow> row_trace list" where
  "written st = concat (map outRows (finishedBlocks st)) @ case_option [] outRows (currentBlock st)"

text \<open>The meta of a block that is being written, and of a finished one.\<close>

definition open_block :: "compact_plan \<Rightarrow> out_block \<Rightarrow> bool" where
  "open_block p b \<longleftrightarrow> TotalObjects (outMeta b) = of_nat (length (outRows b)) \<and> outRows b \<noteq> []
     \<and> CompactionLevel (outMeta b) = nextLevel p \<and> TenantID (outMeta b) = TenantID (firstInput p)
     \<and> ReplicationFactor (outMeta b) = ReplicationFactor (firstInput p)"

definition finished_block :: "compact_plan \<Rightarrow> out_block \<Rightarrow> bool" where
  "finished_block p b \<longleftrightarrow> open_block p b
     \<and> StartTime (outMeta b) = minBlockStart p \<and> EndTime (outMeta b) = maxBlockEnd p"

definition blocks_ok :: "compact_plan \<Rightarrow> compact_state \<Rightarrow> bool" where
  "blocks_ok p st \<longleftrightarrow>
     (\<forall>b\<in>set (finishedBlocks st). finished_block p b \<and> recordsPerBlock p \<le> int (length (outRows b)))
     \<and> (\<forall>b. currentBlock st = Some b \<longrightarrow> open_block p b)"

lemma flush_if_ok:
  "compact_ok env \<Longrightarrow> \<exists>b'. flush_if c env b = Inr b' \<and> outRows b' = outRows b \<and> outMeta b' = outMeta b"
  by (simp add: flush_if_def appendBlock_def compact_ok_def)

lemma finishBlock_ok:
  assumes "compact_ok env" and "open_block p b"
  shows "\<exists>b'. finishBlock env (minBlockStart p) (maxBlockEnd p) b = Inr b' \<and> outRows b' = outRows b \<and> finished_block p b'"
  using assms by (simp add: finishBlock_def compact_ok_def finished_block_def open_block_def)

lemma uint_of_nat_le: "uint (of_nat n :: u64) \<le> int n"
proof -
  have "unat (of_nat n :: u64) \<le> n" by (simp add: unat_of_nat)
  then show ?thesis by (metis of_nat_le_iff uint_nat)
qed

lemma write_trace_ok:
  assumes "compact_ok env" and "blocks_ok p st"
  shows "\<exists>st'. write_trace env p r st = Continue st' \<and> marks st' = marks st \<and> discardedRows st' = discardedRows st
    \<and> written st' = written st @ [r] \<and> blocks_ok p st'"
proof -
  define b0 where "b0 = (case currentBlock st of Some b \<Rightarrow> b
    | None \<Rightarrow> new_block env (firstInput p) (nextLevel p) (length (finishedBlocks st)))"
  obtain b1 where b1: "flush_if (outBuffered b0 > 0 \<and> outBuffered b0 + rowSize env r > RowGroupSizeBytes env) env b0 = Inr b1"
    "outRows b1 = outRows b0" "outMeta b1 = outMeta b0"
    using flush_if_ok [OF assms(1)] by blast
  obtain b2 where b2: "AddRaw env r b1 = Inr b2" "outRows b2 = outRows b1 @ [r]"
    "outMeta b2 = (outMeta b1)\<lparr>TotalObjects := TotalObjects (outMeta b1) + 1\<rparr>"
    using assms(1) by (simp add: AddRaw_def compact_ok_def)
  obtain b3 where b3: "flush_if (outBuffered b2 > RowGroupSizeBytes env) env b2 = Inr b3"
    "outRows b3 = outRows b2" "outMeta b3 = outMeta b2"
    using flush_if_ok [OF assms(1)] by blast
  have rows: "outRows b0 = case_option [] outRows (currentBlock st)"
    by (simp add: b0_def new_block_def split: option.split)
  have "open_block p b3"
    using assms(2) b1 b2 b3
    by (cases "currentBlock st") (auto simp: b0_def new_block_def open_block_def blocks_ok_def add.commute)
  moreover obtain b4 where "finishBlock env (minBlockStart p) (maxBlockEnd p) b3 = Inr b4" "outRows b4 = outRows b3"
    "finished_block p b4"
    using finishBlock_ok [OF assms(1) \<open>open_block p b3\<close>] by blast
  moreover have "uint (TotalObjects (outMeta b3)) \<le> int (length (outRows b3))"
    using \<open>open_block p b3\<close> uint_of_nat_le by (simp add: open_block_def)
  ultimately show ?thesis
    using b1 b2 b3 rows assms(2)
    by (auto simp: write_trace_def Let_def b0_def [symmetric] written_def blocks_ok_def)
qed

subsection \<open>What a compaction writes\<close>

definition sorted_block :: "row_trace list \<Rightarrow> bool" where
  "sorted_block rows \<longleftrightarrow>
     sorted_wrt (\<lambda>a b. RowTraceID a < RowTraceID b) rows \<and> (\<forall>r\<in>set rows. RowTraceID r \<noteq> [])"

text \<open>The rows \<open>out\<close> are a merge of the rows \<open>ins\<close>, up to the rows \<open>gone\<close>.\<close>

definition merged ::
  "(bytes \<Rightarrow> bool) \<Rightarrow> row_trace set \<Rightarrow> row_trace list \<Rightarrow> row_trace list \<Rightarrow> bool" where
  "merged dropped ins out gone \<longleftrightarrow>
     sorted_wrt (\<lambda>a b. RowTraceID a < RowTraceID b) out
     \<and> RowTraceID ` set out = {i \<in> RowTraceID ` ins. \<not> dropped i}
     \<and> (\<forall>t\<in>set out. row_tokens (trace_spans t) \<subseteq>
          (\<Union>r\<in>{r \<in> ins. RowTraceID r = RowTraceID t}. row_tokens (trace_spans r)))
     \<and> (\<forall>r\<in>ins. \<not> dropped (RowTraceID r) \<longrightarrow> r \<in> set gone
          \<or> (\<exists>t\<in>set out. RowTraceID t = RowTraceID r \<and> row_tokens (trace_spans r) \<subseteq> row_tokens (trace_spans t)))"

lemma combine_rows_many:
  "rest \<noteq> [] \<Longrightarrow> combine_rows env (r # rest) =
     (if list_all (\<lambda>x. r = x) rest then Inr (Some r, [])
      else if MaxBytesPerTrace env > 0 \<and> sum_list (map (protoSize env) (r # rest)) > MaxBytesPerTrace env
      then Inr (Some r, rest)
      else if \<not> list_all (reconstructOK env) (r # rest) then Inl ErrCombine
      else case row_Result (compactSort env) (snd (consume_rows (r # rest) row_NewCombiner)) of
          Some ((t, _, _), _) \<Rightarrow> Inr (t, [])
        | None \<Rightarrow> Inl ErrCombine)"
  by (cases rest) (simp_all only: combine_rows_def list.case simp_thms)

lemma combine_rows_ok:
  assumes "compact_ok env" and "rows \<noteq> []" and "\<forall>r\<in>set rows. RowTraceID r = m"
  shows "\<exists>t gone. combine_rows env rows = Inr (Some t, gone) \<and> RowTraceID t = m
    \<and> row_tokens (trace_spans t) \<subseteq> (\<Union>r\<in>set rows. row_tokens (trace_spans r))
    \<and> (\<forall>r\<in>set rows. r \<in> set gone \<or> row_tokens (trace_spans r) \<subseteq> row_tokens (trace_spans t))
    \<and> (MaxBytesPerTrace env \<le> 0 \<longrightarrow> gone = [])"
proof -
  obtain r rest where rows: "rows = r # rest" using assms(2) by (cases rows) auto
  show ?thesis
  proof (cases rest)
    case Nil
    then show ?thesis using assms(3) by (simp add: rows combine_rows_def)
  next
    case (Cons x xs)
    consider "list_all (\<lambda>x. r = x) rest"
      | "\<not> list_all (\<lambda>x. r = x) rest" "MaxBytesPerTrace env > 0 \<and> sum_list (map (protoSize env) rows) > MaxBytesPerTrace env"
      | "\<not> list_all (\<lambda>x. r = x) rest" "\<not> (MaxBytesPerTrace env > 0 \<and> sum_list (map (protoSize env) rows) > MaxBytesPerTrace env)"
      by blast
    then show ?thesis
    proof cases
      case 1
      then have "\<forall>y\<in>set rows. y = r" by (auto simp: rows list_all_iff)
      moreover have "combine_rows env rows = Inr (Some r, [])" using 1 combine_rows_many [of rest] Cons by (simp only: rows if_True list.distinct simp_thms)
      ultimately show ?thesis using assms(3) by (auto simp: rows)
    next
      case 2
      then have "combine_rows env rows = Inr (Some r, rest)" using combine_rows_many [of rest env r] Cons unfolding rows by (simp only: if_True if_False list.distinct simp_thms)
      moreover have "0 < MaxBytesPerTrace env" using 2(2) by blast
      moreover have "set rows = insert r (set rest)" by (simp add: rows)
      ultimately show ?thesis using assms(3) by (intro exI [of _ r] exI [of _ rest]) auto
    next
      case 3
      obtain t n conn c' where t: "row_Result (compactSort env) (snd (consume_rows rows row_NewCombiner)) = Some ((Some t, n, conn), c')"
        "RowTraceID t = RowTraceID (hd rows)" "row_tokens (trace_spans t) = (\<Union>t\<in>set rows. row_tokens (trace_spans t))"
      proof -
        have "sort_contract (compactSort env)" using assms(1) by (simp add: compact_ok_def)
        from row_Result_of_rows [OF this assms(2)] show ?thesis by (elim exE conjE) (rule that)
      qed
      have "list_all (reconstructOK env) rows" using assms(1) by (simp add: compact_ok_def list_all_iff)
      then have "combine_rows env rows = Inr (Some t, [])"
        using 3 t(1) combine_rows_many [of rest env r] Cons unfolding rows
        by (simp only: if_True if_False list.distinct simp_thms option.case prod.case)
      then show ?thesis using t(2,3) assms(3) by (auto simp: rows)
    qed
  qed
qed

definition rows_left :: "bookmark list \<Rightarrow> row_trace set" where
  "rows_left bs = (\<Union>b\<in>set bs. set (remaining b))"

lemma rows_left_remaining: "rows_left bs = \<Union> (set ` set (map remaining bs))"
  by (auto simp: rows_left_def)

text \<open>Taking the rows of the least id away.\<close>

lemma rows_left_split:
  assumes sorted: "\<forall>b\<in>set bs. sorted_block (remaining b)"
    and least: "\<forall>b\<in>set bs. remaining b \<noteq> [] \<longrightarrow> m \<le> first_id b"
    and tails: "map remaining bs' = map (\<lambda>b. if has_id m b then tl (remaining b) else remaining b) bs"
  shows "rows_left bs = set (map (\<lambda>b. hd (remaining b)) (filter (has_id m) bs)) \<union> rows_left bs'"
    and "\<forall>r\<in>set (map (\<lambda>b. hd (remaining b)) (filter (has_id m) bs)). RowTraceID r = m"
    and "\<forall>r\<in>rows_left bs'. m < RowTraceID r"
    and "\<forall>b\<in>set bs'. sorted_block (remaining b)"
proof -
  have left': "rows_left bs' = (\<Union>b\<in>set bs. set (if has_id m b then tl (remaining b) else remaining b))"
    unfolding rows_left_remaining [of bs'] tails set_map image_image by (rule refl)
  have "set (remaining b) = (if has_id m b then {hd (remaining b)} else {}) \<union>
      set (if has_id m b then tl (remaining b) else remaining b)" for b
    by (cases "remaining b") (auto simp: has_id_def)
  then have "rows_left bs = (\<Union>b\<in>set bs. if has_id m b then {hd (remaining b)} else {}) \<union>
      (\<Union>b\<in>set bs. set (if has_id m b then tl (remaining b) else remaining b))"
    unfolding rows_left_def UN_Un_distrib [symmetric] by (rule SUP_cong [OF refl])
  moreover have "(\<Union>b\<in>set bs. if has_id m b then {hd (remaining b)} else {}) =
      set (map (\<lambda>b. hd (remaining b)) (filter (has_id m) bs))"
    by (auto split: if_splits)
  ultimately show "rows_left bs = set (map (\<lambda>b. hd (remaining b)) (filter (has_id m) bs)) \<union> rows_left bs'"
    unfolding left' by (simp only:)
  show "\<forall>r\<in>set (map (\<lambda>b. hd (remaining b)) (filter (has_id m) bs)). RowTraceID r = m"
    by (auto simp: has_id_def)
  show "\<forall>r\<in>rows_left bs'. m < RowTraceID r"
  proof
    fix r assume "r \<in> rows_left bs'"
    then obtain b where b: "b \<in> set bs" "r \<in> set (if has_id m b then tl (remaining b) else remaining b)"
      unfolding left' by blast
    show "m < RowTraceID r"
    proof (cases "remaining b")
      case (Cons x xs)
      have s: "\<forall>y\<in>set xs. RowTraceID x < RowTraceID y" using sorted b(1) Cons by (auto simp: sorted_block_def)
      have "m \<le> RowTraceID x" using least b(1) Cons by force
      then show ?thesis using b(2) s Cons by (auto simp: has_id_def split: if_splits)
    qed (use b in \<open>simp split: if_splits\<close>)
  qed
  have "sorted_block (tl rows)" if "sorted_block rows" for rows
    using that by (cases rows) (auto simp: sorted_block_def)
  then have "\<forall>rs\<in>set (map remaining bs'). sorted_block rs" unfolding tails using sorted by auto
  then show "\<forall>b\<in>set bs'. sorted_block (remaining b)" by simp
qed

lemma merged_step:
  assumes ins: "ins = set rows \<union> rest" and rows: "rows \<noteq> []" "\<forall>r\<in>set rows. RowTraceID r = m"
    and above: "\<forall>r\<in>rest. m < RowTraceID r"
    and t: "RowTraceID t = m" "row_tokens (trace_spans t) \<subseteq> (\<Union>r\<in>set rows. row_tokens (trace_spans r))"
      "\<forall>r\<in>set rows. r \<in> set gone \<or> row_tokens (trace_spans r) \<subseteq> row_tokens (trace_spans t)"
    and rest: "merged dropped rest out gone'"
  shows "merged dropped ins (if dropped m then out else t # out) (gone @ gone')"
proof -
  have s: "sorted_wrt (\<lambda>a b. RowTraceID a < RowTraceID b) out"
    and ids: "RowTraceID ` set out = {i \<in> RowTraceID ` rest. \<not> dropped i}"
    and sub: "\<And>x. x \<in> set out \<Longrightarrow> row_tokens (trace_spans x) \<subseteq>
      (\<Union>r\<in>{r \<in> rest. RowTraceID r = RowTraceID x}. row_tokens (trace_spans r))"
    and all: "\<And>r. r \<in> rest \<Longrightarrow> \<not> dropped (RowTraceID r) \<Longrightarrow> r \<in> set gone' \<or>
      (\<exists>x\<in>set out. RowTraceID x = RowTraceID r \<and> row_tokens (trace_spans r) \<subseteq> row_tokens (trace_spans x))"
    using rest unfolding merged_def by blast+
  have out_above: "m < RowTraceID x" if "x \<in> set out" for x
  proof -
    have "RowTraceID x \<in> RowTraceID ` rest" using ids that by blast
    then show ?thesis using above by auto
  qed
  let ?out = "if dropped m then out else t # out"
  have "sorted_wrt (\<lambda>a b. RowTraceID a < RowTraceID b) ?out" using s out_above t(1) by simp
  moreover have "RowTraceID ` ins = insert m (RowTraceID ` rest)"
    using rows unfolding ins by (cases rows) (auto simp: image_Un)
  then have "RowTraceID ` set ?out = {i \<in> RowTraceID ` ins. \<not> dropped i}" using ids t(1) by auto
  moreover have "row_tokens (trace_spans x) \<subseteq> (\<Union>r\<in>{r \<in> ins. RowTraceID r = RowTraceID x}. row_tokens (trace_spans r))"
    if "x \<in> set ?out" for x
  proof (cases "x \<in> set out")
    case True
    then show ?thesis using sub [OF True] unfolding ins by blast
  next
    case False
    then have "x = t" using that by (simp split: if_splits)
    then show ?thesis using t(1,2) rows(2) unfolding ins by blast
  qed
  moreover have "r \<in> set (gone @ gone') \<or> (\<exists>x\<in>set ?out. RowTraceID x = RowTraceID r \<and> row_tokens (trace_spans r) \<subseteq> row_tokens (trace_spans x))"
    if "r \<in> ins" "\<not> dropped (RowTraceID r)" for r
  proof (cases "r \<in> set rows")
    case True
    then show ?thesis using t(1,3) rows(2) that(2) by auto
  next
    case False
    then show ?thesis using all [of r] that unfolding ins by auto
  qed
  ultimately show ?thesis unfolding merged_def by blast
qed

definition dropped_by :: "compact_env \<Rightarrow> bytes \<Rightarrow> bool" where
  "dropped_by env = (case DropObject env of Some f \<Rightarrow> f | None \<Rightarrow> \<lambda>_. False)"

lemma sum_length_tails:
  assumes "\<exists>b\<in>set bs. has_id m b"
    and "map remaining bs' = map (\<lambda>b. if has_id m b then tl (remaining b) else remaining b) bs"
  shows "sum_list (map (\<lambda>b. length (remaining b)) bs') < sum_list (map (\<lambda>b. length (remaining b)) bs)"
proof -
  have "sum_list (map (\<lambda>b. length (if has_id m b then tl (remaining b) else remaining b)) xs)
      \<le> sum_list (map (\<lambda>b. length (remaining b)) xs)" for xs
    by (rule sum_list_mono) simp
  then have "sum_list (map (\<lambda>b. length (if has_id m b then tl (remaining b) else remaining b)) bs)
      < sum_list (map (\<lambda>b. length (remaining b)) bs)"
    using assms(1)
  proof (induction bs)
    case (Cons b bs)
    then show ?case by (cases "has_id m b") (auto simp: has_id_def add_less_le_mono neq_Nil_conv le_imp_less_Suc)
  qed simp
  moreover have "map (\<lambda>b. length (remaining b)) bs' = map length (map remaining bs')" by simp
  ultimately show ?thesis unfolding assms(2) by (simp add: o_def)
qed


text \<open>The state of a merge that can go on: the blocks can be read to their end and are sorted.\<close>

definition good_marks :: "bookmark list \<Rightarrow> bool" where
  "good_marks bs \<longleftrightarrow> list_all readable bs \<and> (\<forall>b\<in>set bs. sorted_block (remaining b))"

lemma good_marks_ids: "good_marks bs \<Longrightarrow> \<forall>b\<in>set bs. remaining b \<noteq> [] \<longrightarrow> first_id b \<noteq> []"
  by (auto simp: good_marks_def sorted_block_def)

lemma compact_step_end:
  assumes "good_marks (marks st)" and "\<forall>b\<in>set (marks st). remaining b = []"
  shows "\<exists>ms. compact_step env p st = Finished (st\<lparr>marks := ms\<rparr>)"
proof -
  obtain ms where "iterator_Next (combine_rows env) (marks st) = (EndOfInput, ms)"
    using iterator_Next_end [of "marks st"] assms by (metis good_marks_def prod.collapse)
  then have "compact_step env p st = Finished (st\<lparr>marks := ms\<rparr>)" by (simp add: compact_step_def)
  then show ?thesis ..
qed

lemma compact_step_row:
  assumes ok: "compact_ok env" "blocks_ok p st" and good: "good_marks (marks st)"
    and more: "\<exists>b\<in>set (marks st). remaining b \<noteq> []"
  shows "\<exists>st' new gone. compact_step env p st = Continue st' \<and> blocks_ok p st' \<and> good_marks (marks st')
    \<and> sum_list (map (\<lambda>b. length (remaining b)) (marks st')) < sum_list (map (\<lambda>b. length (remaining b)) (marks st))
    \<and> written st' = written st @ new \<and> discardedRows st' = discardedRows st @ gone
    \<and> (MaxBytesPerTrace env \<le> 0 \<longrightarrow> gone = [])
    \<and> (\<forall>out gone'. merged (dropped_by env) (rows_left (marks st')) out gone' \<longrightarrow>
         merged (dropped_by env) (rows_left (marks st)) (new @ out) (gone @ gone'))"
proof -
  let ?bs = "marks st"
  have readable: "list_all readable ?bs" and sorted: "\<forall>b\<in>set ?bs. sorted_block (remaining b)"
    using good by (simp_all add: good_marks_def)
  obtain m where m: "\<exists>b\<in>set ?bs. has_id m b" "\<forall>b\<in>set ?bs. remaining b \<noteq> [] \<longrightarrow> m \<le> first_id b"
    "case combine_rows env (map (\<lambda>b. hd (remaining b)) (filter (has_id m) ?bs)) of
         Inl e \<Rightarrow> fst (iterator_Next (combine_rows env) ?bs) = Failed e
       | Inr x \<Rightarrow> (\<exists>bs'. iterator_Next (combine_rows env) ?bs = (NextRow m x, bs') \<and> list_all readable bs'
           \<and> map remaining bs' = map (\<lambda>b. if has_id m b then tl (remaining b) else remaining b) ?bs)"
    using iterator_Next_row [OF readable more good_marks_ids [OF good], where combine = "combine_rows env"] by blast
  let ?rows = "map (\<lambda>b. hd (remaining b)) (filter (has_id m) ?bs)"
  have "?rows \<noteq> []" using m(1) by (auto simp: filter_empty_conv)
  have id: "\<forall>r\<in>set ?rows. RowTraceID r = m" by (auto simp: has_id_def)
  from combine_rows_ok [OF ok(1) \<open>?rows \<noteq> []\<close> id] obtain t gone where
    t: "combine_rows env ?rows = Inr (Some t, gone)" "RowTraceID t = m"
      "row_tokens (trace_spans t) \<subseteq> (\<Union>r\<in>set ?rows. row_tokens (trace_spans r))"
      "\<forall>r\<in>set ?rows. r \<in> set gone \<or> row_tokens (trace_spans r) \<subseteq> row_tokens (trace_spans t)"
      "MaxBytesPerTrace env \<le> 0 \<longrightarrow> gone = []"
    by (elim exE conjE)
  obtain bs' where bs': "iterator_Next (combine_rows env) ?bs = (NextRow m (Some t, gone), bs')" "list_all readable bs'"
    "map remaining bs' = map (\<lambda>b. if has_id m b then tl (remaining b) else remaining b) ?bs"
    using m(3) unfolding t(1) by auto
  note split = rows_left_split [OF sorted m(2) bs'(3)]
  have good': "good_marks bs'" using bs'(2) split(4) by (simp add: good_marks_def)
  note shorter = sum_length_tails [OF m(1) bs'(3)]
  have merge: "merged (dropped_by env) (rows_left ?bs) (if dropped_by env m then out else t # out) (gone @ gone')"
    if "merged (dropped_by env) (rows_left bs') out gone'" for out gone'
    by (rule merged_step [OF split(1) \<open>?rows \<noteq> []\<close> id split(3) t(2-4) that])
  let ?st2 = "st\<lparr>marks := bs', discardedRows := discardedRows st @ gone\<rparr>"
  have ok2: "blocks_ok p ?st2" using ok(2) by (simp add: blocks_ok_def)
  have step: "compact_step env p st = (if dropped_by env m then Continue ?st2 else write_trace env p t ?st2)"
    unfolding compact_step_def bs'(1) by (simp add: dropped_by_def split: option.split)
  show ?thesis
  proof (cases "dropped_by env m")
    case True
    then show ?thesis using step ok2 good' shorter t(5) merge
      by (intro exI [of _ ?st2] exI [of _ "[]"] exI [of _ gone]) (simp add: written_def)
  next
    case False
    obtain st' where "write_trace env p t ?st2 = Continue st'" "marks st' = bs'"
      "discardedRows st' = discardedRows st @ gone" "written st' = written st @ [t]" "blocks_ok p st'"
      using write_trace_ok [OF ok(1) ok2, of t] by (auto simp: written_def)
    then show ?thesis using False step good' shorter t(5) merge
      by (intro exI [of _ st'] exI [of _ "[t]"] exI [of _ gone]) simp
  qed
qed

lemma merged_nothing: "rows_left bs = {} \<Longrightarrow> merged dropped (rows_left bs) [] []"
  by (simp add: merged_def)

text \<open>The loop ends, having merged all the rows that were left.\<close>

lemma compact_loop_ok:
  "compact_ok env \<Longrightarrow> blocks_ok p st \<Longrightarrow> good_marks (marks st) \<Longrightarrow>
   \<exists>st' new gone. compact_loop env p st = Some (Inr st') \<and> blocks_ok p st'
     \<and> written st' = written st @ new \<and> discardedRows st' = discardedRows st @ gone
     \<and> (MaxBytesPerTrace env \<le> 0 \<longrightarrow> gone = []) \<and> merged (dropped_by env) (rows_left (marks st)) new gone"
proof (induction "sum_list (map (\<lambda>b. length (remaining b)) (marks st))" arbitrary: st rule: less_induct)
  case less
  show ?case
  proof (cases "\<forall>b\<in>set (marks st). remaining b = []")
    case True
    obtain ms where ms: "compact_step env p st = Finished (st\<lparr>marks := ms\<rparr>)"
      using compact_step_end [OF less.prems(3) True] by blast
    have "rows_left (marks st) = {}" using True by (simp add: rows_left_def)
    then have "merged (dropped_by env) (rows_left (marks st)) [] []" by (rule merged_nothing)
    moreover have "compact_loop env p st = Some (Inr (st\<lparr>marks := ms\<rparr>))" by (simp add: compact_loop.simps [of env p st] ms)
    ultimately show ?thesis using less.prems(2)
      by (intro exI [of _ "st\<lparr>marks := ms\<rparr>"] exI [of _ "[]"]) (simp add: written_def blocks_ok_def)
  next
    case False
    then obtain st1 new gone where st1: "compact_step env p st = Continue st1" "blocks_ok p st1" "good_marks (marks st1)"
      "sum_list (map (\<lambda>b. length (remaining b)) (marks st1)) < sum_list (map (\<lambda>b. length (remaining b)) (marks st))"
      "written st1 = written st @ new" "discardedRows st1 = discardedRows st @ gone"
      "MaxBytesPerTrace env \<le> 0 \<longrightarrow> gone = []"
      "\<And>out gone'. merged (dropped_by env) (rows_left (marks st1)) out gone' \<Longrightarrow>
         merged (dropped_by env) (rows_left (marks st)) (new @ out) (gone @ gone')"
      using compact_step_row [OF less.prems] by blast
    obtain st' new' gone' where "compact_loop env p st1 = Some (Inr st')" "blocks_ok p st'"
      "written st' = written st1 @ new'" "discardedRows st' = discardedRows st1 @ gone'"
      "MaxBytesPerTrace env \<le> 0 \<longrightarrow> gone' = []" "merged (dropped_by env) (rows_left (marks st1)) new' gone'"
      using less.hyps [OF st1(4) less.prems(1) st1(2,3)] by blast
    moreover have "compact_loop env p st = compact_loop env p st1" by (simp add: compact_loop.simps [of env p st] st1(1))
    ultimately show ?thesis using st1(5-8)
      by (intro exI [of _ st'] exI [of _ "new @ new'"] exI [of _ "gone @ gone'"]) simp
  qed
qed


definition input_rows :: "compact_env \<Rightarrow> block_meta \<Rightarrow> row_trace list" where
  "input_rows env m = (case openBlock env m of Some (rows, _) \<Rightarrow> rows | None \<Rightarrow> [])"

text \<open>Every input can be opened, read to its end, and is sorted by trace id.\<close>

definition good_inputs :: "compact_env \<Rightarrow> block_meta list \<Rightarrow> bool" where
  "good_inputs env inputs \<longleftrightarrow> inputs \<noteq> [] \<and>
     (\<forall>m\<in>set inputs. openBlock env m = Some (input_rows env m, False) \<and> sorted_block (input_rows env m))"

lemma open_blocks_good:
  "\<forall>m\<in>set inputs. openBlock env m = Some (input_rows env m, False) \<Longrightarrow>
   open_blocks env inputs = Inr (map (\<lambda>m. newBookmark (input_rows env m) False) inputs)"
  by (induction inputs) auto

lemma remaining_new [simp]: "remaining (newBookmark rows fails) = rows"
  by (simp add: remaining_def newBookmark_def)

lemma readable_new [simp]: "readable (newBookmark rows fails) \<longleftrightarrow> \<not> fails"
  by (simp add: readable_def newBookmark_def)

text \<open>What \<open>Compact\<close> returns when its loop has ended.\<close>

lemma Compact_of_loop:
  assumes ok: "compact_ok env" and opened: "open_blocks env inputs = Inr bs"
    and inputs: "inputs \<noteq> []" "OutputBlocks env \<noteq> 0"
    and run: "compact_loop env (plan_of env inputs)
      \<lparr>marks = bs, currentBlock = None, finishedBlocks = [], discardedRows = []\<rparr> = Some (Inr st)"
    and blocks: "blocks_ok (plan_of env inputs) st"
  shows "\<exists>outs. Compact env inputs = Some (Inr (outs, discardedRows st)) \<and> concat (map outRows outs) = written st
    \<and> (\<forall>b\<in>set outs. finished_block (plan_of env inputs) b)
    \<and> (\<forall>b\<in>set (butlast outs). recordsPerBlock (plan_of env inputs) \<le> int (length (outRows b)))"
proof (cases "currentBlock st")
  case None
  then have "Compact env inputs = Some (Inr (finishedBlocks st, discardedRows st))"
    unfolding Compact_def opened using run inputs by (simp add: Let_def)
  moreover have "written st = concat (map outRows (finishedBlocks st))" using None by (simp add: written_def)
  ultimately show ?thesis using blocks
    by (intro exI [of _ "finishedBlocks st"]) (auto simp: blocks_ok_def dest: in_set_butlastD)
next
  case (Some b)
  let ?p = "plan_of env inputs"
  have "open_block ?p b" using Some blocks by (simp add: blocks_ok_def)
  from finishBlock_ok [OF ok this] obtain b' where
    b': "finishBlock env (minBlockStart ?p) (maxBlockEnd ?p) b = Inr b'" "outRows b' = outRows b" "finished_block ?p b'"
    by blast
  have "Compact env inputs = Some (Inr (finishedBlocks st @ [b'], discardedRows st))"
    unfolding Compact_def opened using Some b'(1) run inputs by (simp add: Let_def)
  moreover have "written st = concat (map outRows (finishedBlocks st @ [b']))" using Some b'(2) by (simp add: written_def)
  ultimately show ?thesis using b'(3) blocks
    by (intro exI [of _ "finishedBlocks st @ [b']"]) (auto simp: blocks_ok_def)
qed

lemma Compact_ok:
  assumes ok: "compact_ok env" and good: "good_inputs env inputs" and blocks: "OutputBlocks env \<noteq> 0"
  shows "\<exists>outs gone. Compact env inputs = Some (Inr (outs, gone))
    \<and> merged (dropped_by env) (\<Union>m\<in>set inputs. set (input_rows env m)) (concat (map outRows outs)) gone
    \<and> (MaxBytesPerTrace env \<le> 0 \<longrightarrow> gone = []) \<and> (\<forall>b\<in>set outs. finished_block (plan_of env inputs) b)
    \<and> (\<forall>b\<in>set (butlast outs). recordsPerBlock (plan_of env inputs) \<le> int (length (outRows b)))"
proof -
  let ?p = "plan_of env inputs" and ?bs = "map (\<lambda>m. newBookmark (input_rows env m) False) inputs"
  let ?st = "\<lparr>marks = ?bs, currentBlock = None, finishedBlocks = [], discardedRows = []\<rparr>"
  have opened: "open_blocks env inputs = Inr ?bs" using good by (intro open_blocks_good) (simp add: good_inputs_def)
  have marks: "good_marks (marks ?st)" using good by (auto simp: good_marks_def good_inputs_def list_all_iff)
  have left: "rows_left (marks ?st) = (\<Union>m\<in>set inputs. set (input_rows env m))" by (simp add: rows_left_def)
  have "blocks_ok ?p ?st" by (simp add: blocks_ok_def)
  from compact_loop_ok [OF ok this marks] obtain st' where
    st': "compact_loop env ?p ?st = Some (Inr st')" "blocks_ok ?p st'" "MaxBytesPerTrace env \<le> 0 \<longrightarrow> discardedRows st' = []"
      "merged (dropped_by env) (\<Union>m\<in>set inputs. set (input_rows env m)) (written st') (discardedRows st')"
    unfolding left by (auto simp: written_def)
  have "inputs \<noteq> []" using good by (simp add: good_inputs_def)
  from Compact_of_loop [OF ok opened this blocks st'(1,2)] show ?thesis using st'(3,4) by metis
qed

lemma earliest_least:
  assumes "\<forall>m\<in>set inputs. zeroTime < StartTime m"
  shows "\<forall>m\<in>set inputs. earliest inputs \<le> StartTime m"
proof -
  have "(fold (\<lambda>m t. if StartTime m < t \<or> t = zeroTime then StartTime m else t) inputs zeroTime = zeroTime \<longrightarrow> inputs = [])
      \<and> (\<forall>m\<in>set inputs. fold (\<lambda>m t. if StartTime m < t \<or> t = zeroTime then StartTime m else t) inputs zeroTime \<le> StartTime m)"
    using assms
    by (induction inputs rule: rev_induct) force+
  then show ?thesis by (simp add: earliest_def)
qed

lemma latest_greatest: "\<forall>m\<in>set inputs. EndTime m \<le> latest inputs"
  unfolding latest_def by (induction inputs rule: rev_induct) force+

lemma highest_level_greatest: "\<forall>m\<in>set inputs. CompactionLevel m \<le> highest_level inputs"
  unfolding highest_level_def by (induction inputs rule: rev_induct) force+

text \<open>Rows of distinct ids: there are at most as many as rows that were merged.\<close>

lemma merged_length:
  assumes "merged dropped (\<Union>m\<in>set inputs. set (f m)) out gone"
  shows "length out \<le> sum_list (map (\<lambda>m. length (f m)) inputs)"
proof -
  have "sorted_wrt (<) (map RowTraceID out)" using assms by (simp add: merged_def sorted_wrt_map)
  then have "length out = card (RowTraceID ` set out)"
    using distinct_card [of "map RowTraceID out"] by (simp add: strict_sorted_iff)
  also have "\<dots> \<le> card (RowTraceID ` set (concat (map f inputs)))"
    using assms by (intro card_mono) (auto simp: merged_def)
  also have "\<dots> \<le> length (concat (map f inputs))"
    using card_image_le [of "set (concat (map f inputs))" RowTraceID] card_length [of "concat (map f inputs)"] by simp
  finally show ?thesis by (simp add: length_concat o_def)
qed


text \<open>C5. A compaction keeps the spans. When the inputs can be read and are sorted by trace id, and no write
  fails, compaction ends with blocks whose rows, taken in order, have strictly ascending trace ids:
  exactly the ids of the inputs that are not dropped. A written trace has only spans of the input rows with its id, and every
  input row that is not dropped has all its spans in the written trace with its id, unless it is one
  of those given up because their trace is larger than the limit; without a limit none is. Every block
  counts its rows, is one level above the inputs, and has the time range of all inputs.\<close>

theorem compaction_keeps_the_spans:
  assumes "compact_ok env" and "good_inputs env inputs" and "OutputBlocks env \<noteq> 0"
  shows "\<exists>outs gone. Compact env inputs = Some (Inr (outs, gone))
    \<and> merged (dropped_by env) (\<Union>m\<in>set inputs. set (input_rows env m)) (concat (map outRows outs)) gone
    \<and> (MaxBytesPerTrace env \<le> 0 \<longrightarrow> gone = [])
    \<and> (\<forall>b\<in>set outs. outRows b \<noteq> [] \<and> TotalObjects (outMeta b) = of_nat (length (outRows b))
        \<and> CompactionLevel (outMeta b) = highest_level inputs + 1 \<and> TenantID (outMeta b) = TenantID (hd inputs)
        \<and> StartTime (outMeta b) = earliest inputs \<and> EndTime (outMeta b) = latest inputs)
    \<and> (\<forall>m\<in>set inputs. CompactionLevel m \<le> highest_level inputs \<and> EndTime m \<le> latest inputs)
    \<and> ((\<forall>m\<in>set inputs. zeroTime < StartTime m) \<longrightarrow> (\<forall>m\<in>set inputs. earliest inputs \<le> StartTime m))"
proof -
  from Compact_ok [OF assms] obtain outs gone where out: "Compact env inputs = Some (Inr (outs, gone))"
    "merged (dropped_by env) (\<Union>m\<in>set inputs. set (input_rows env m)) (concat (map outRows outs)) gone"
    "MaxBytesPerTrace env \<le> 0 \<longrightarrow> gone = []" "\<forall>b\<in>set outs. finished_block (plan_of env inputs) b"
    by blast
  from out(4) have "\<forall>b\<in>set outs. outRows b \<noteq> [] \<and> TotalObjects (outMeta b) = of_nat (length (outRows b))
        \<and> CompactionLevel (outMeta b) = highest_level inputs + 1 \<and> TenantID (outMeta b) = TenantID (hd inputs)
        \<and> StartTime (outMeta b) = earliest inputs \<and> EndTime (outMeta b) = latest inputs"
    by (simp add: finished_block_def open_block_def plan_of_def)
  then show ?thesis using out(1-3) latest_greatest highest_level_greatest earliest_least by blast
qed

lemma at_most_one_block:
  assumes fin: "\<forall>b\<in>set outs. finished_block p b"
    and full: "\<forall>b\<in>set (butlast outs). recordsPerBlock p \<le> int (length (outRows b))"
    and enough: "int (length (concat (map outRows outs))) \<le> recordsPerBlock p"
  shows "length outs \<le> 1"
proof (rule ccontr)
  assume "\<not> length outs \<le> 1"
  then obtain b c rest where outs: "outs = b # c # rest" by (cases outs rule: list.exhaust [case_product list.exhaust])
      (metis Suc_le_eq One_nat_def length_Cons list.exhaust list.size(3) not_less_eq_eq le0)+
  have "outRows c \<noteq> []" using fin by (simp add: outs finished_block_def open_block_def)
  then have "length (outRows b) < length (concat (map outRows outs))" by (simp add: outs)
  moreover have "recordsPerBlock p \<le> int (length (outRows b))" using full by (simp add: outs)
  ultimately show False using enough by linarith
qed

text \<open>C24. With one output block and metas that count at least the rows of their blocks, compaction writes
  at most one block, and writes none only if every trace was dropped.\<close>

theorem compaction_writes_one_block:
  assumes "compact_ok env" and "good_inputs env inputs" and "OutputBlocks env = 1"
    and "int (sum_list (map (\<lambda>m. length (input_rows env m)) inputs)) \<le> total_objects inputs"
    and "Compact env inputs = Some (Inr (outs, gone))"
  shows "length outs \<le> 1
    \<and> (outs = [] \<longleftrightarrow> (\<forall>m\<in>set inputs. \<forall>r\<in>set (input_rows env m). dropped_by env (RowTraceID r)))"
proof -
  have "OutputBlocks env \<noteq> 0" using assms(3) by simp
  from Compact_ok [OF assms(1,2) this] assms(5)
  have m: "merged (dropped_by env) (\<Union>m\<in>set inputs. set (input_rows env m)) (concat (map outRows outs)) gone"
    and fin: "\<forall>b\<in>set outs. finished_block (plan_of env inputs) b"
    and full: "\<forall>b\<in>set (butlast outs). recordsPerBlock (plan_of env inputs) \<le> int (length (outRows b))"
    by auto
  have "recordsPerBlock (plan_of env inputs) = total_objects inputs" using assms(3) by (simp add: plan_of_def)
  then have "length outs \<le> 1"
    using merged_length [OF m] assms(4) by (intro at_most_one_block [OF fin full]) linarith
  have "outs = [] \<longleftrightarrow> concat (map outRows outs) = []"
    using fin by (cases outs) (simp_all add: finished_block_def open_block_def)
  also have "\<dots> \<longleftrightarrow> RowTraceID ` set (concat (map outRows outs)) = {}" by (metis image_is_empty set_empty)
  also have "\<dots> \<longleftrightarrow> (\<forall>m\<in>set inputs. \<forall>r\<in>set (input_rows env m). dropped_by env (RowTraceID r))"
  proof -
    have "RowTraceID ` set (concat (map outRows outs)) =
        {i \<in> RowTraceID ` (\<Union>m\<in>set inputs. set (input_rows env m)). \<not> dropped_by env i}"
      using m by (simp only: merged_def)
    then show ?thesis by (simp only:) blast
  qed
  finally show ?thesis using \<open>length outs \<le> 1\<close> by blast
qed


subsection \<open>A read error\<close>

text \<open>Two bookmarks of the same block, of which one fails after the last row.\<close>

definition same_rows :: "bookmark \<Rightarrow> bookmark \<Rightarrow> bool" where
  "same_rows b c \<longleftrightarrow> unread b = unread c \<and> currentRow b = currentRow c \<and> \<not> currentErr b \<and> \<not> currentErr c"

lemma same_rows_current:
  assumes "same_rows b c" and "remaining b \<noteq> []"
  shows "\<exists>r b' c'. bookmark_current b = (Inr (Some r), b') \<and> bookmark_current c = (Inr (Some r), c')
    \<and> currentRow b' = Some r \<and> same_rows b' c' \<and> remaining b' = remaining b"
  using assms
  by (cases "currentRow c"; cases "unread c") (auto simp: same_rows_def bookmark_current_def remaining_def)

lemma same_rows_end:
  assumes "same_rows b c" and "remaining b = []"
  shows "fst (bookmark_done b) \<and> fst (bookmark_done c)"
  using assms
  by (cases "currentRow c"; cases "unread c") (auto simp: same_rows_def bookmark_done_def bookmark_current_def remaining_def)

lemma same_rows_Next:
  assumes "same_rows b c" and "remaining b \<noteq> []"
  shows "\<exists>res b' c'. iterator_Next f [b] = (res, [b']) \<and> iterator_Next f [c] = (res, [c'])
    \<and> res \<noteq> EndOfInput \<and> ((\<exists>i x. res = NextRow i x) \<longrightarrow> same_rows b' c' \<and> length (remaining b') < length (remaining b))"
proof -
  from same_rows_current [OF assms] obtain r b1 c1 where
    r: "bookmark_current b = (Inr (Some r), b1)" "bookmark_current c = (Inr (Some r), c1)"
      "currentRow b1 = Some r" "same_rows b1 c1" "remaining b1 = remaining b" by blast
  have again: "bookmark_current b1 = (Inr (Some r), b1)" "bookmark_current c1 = (Inr (Some r), c1)"
  proof -
    have "currentRow c1 = Some r" using r(3,4) by (simp add: same_rows_def)
    then show "bookmark_current b1 = (Inr (Some r), b1)" "bookmark_current c1 = (Inr (Some r), c1)"
      using r(3,4) by (simp_all add: bookmark_current_def same_rows_def)
  qed
  have ended: "iterator_done [b] = (False, [b1])" "iterator_done [c] = (False, [c1])"
    using r(1,2) by (simp_all add: bookmark_done_def)
  have found: "find_lowest 0 [] [] [b1] = (Inr (RowTraceID r, [0]), [b1])"
    "find_lowest 0 [] [] [c1] = (Inr (RowTraceID r, [0]), [c1])"
    using again by (auto simp: Compare_def Let_def)
  have rows: "iterator_Next f [b] = (case f [r] of Inl e \<Rightarrow> (Failed e, [b1])
      | Inr x \<Rightarrow> (NextRow (RowTraceID r) x, [bookmark_clear b1]))"
    "iterator_Next f [c] = (case f [r] of Inl e \<Rightarrow> (Failed e, [c1])
      | Inr x \<Rightarrow> (NextRow (RowTraceID r) x, [bookmark_clear c1]))"
    using again ended found by (simp_all add: iterator_Next_def del: iterator_done.simps find_lowest.simps split: sum.split)
  have same: "same_rows (bookmark_clear b1) (bookmark_clear c1)" using r(4) by (simp add: same_rows_def bookmark_clear_def)
  have less: "length (remaining (bookmark_clear b1)) < length (remaining b)"
    unfolding r(5) [symmetric] using r(3) by (simp add: remaining_def bookmark_clear_def)
  show ?thesis
  proof (cases "f [r]")
    case (Inl e)
    then show ?thesis unfolding rows by simp
  next
    case (Inr x)
    then show ?thesis unfolding rows using same less by auto
  qed
qed

text \<open>Writing does not look at the bookmarks.\<close>

lemma write_trace_marks:
  "write_trace env p r (s\<lparr>marks := ms\<rparr>) =
     (case write_trace env p r s of Continue st' \<Rightarrow> Continue (st'\<lparr>marks := ms\<rparr>)
      | Finished st' \<Rightarrow> Finished (st'\<lparr>marks := ms\<rparr>) | Abort e \<Rightarrow> Abort e)"
proof -
  define b0 where "b0 = (case currentBlock s of Some b \<Rightarrow> b
    | None \<Rightarrow> new_block env (firstInput p) (nextLevel p) (length (finishedBlocks s)))"
  have b0': "(case currentBlock s of Some b \<Rightarrow> b
      | None \<Rightarrow> new_block env (firstInput p) (nextLevel p) (length (finishedBlocks (s\<lparr>marks := ms\<rparr>)))) = b0"
    by (simp add: b0_def split: option.split)
  have order: "s\<lparr>marks := ms, currentBlock := c\<rparr> = s\<lparr>currentBlock := c, marks := ms\<rparr>"
    "s\<lparr>marks := ms, currentBlock := c, finishedBlocks := f\<rparr> = s\<lparr>currentBlock := c, finishedBlocks := f, marks := ms\<rparr>" for c f
    by (cases s, simp)+
  note defs = write_trace_def Let_def b0' b0_def [symmetric] order
  show ?thesis
  proof (cases "flush_if (outBuffered b0 > 0 \<and> outBuffered b0 + rowSize env r > RowGroupSizeBytes env) env b0")
    case (Inr b1)
    note b1 = this
    show ?thesis
    proof (cases "AddRaw env r b1")
      case (Inr b2)
      note b2 = this
      show ?thesis
      proof (cases "flush_if (outBuffered b2 > RowGroupSizeBytes env) env b2")
        case (Inr b3)
        then show ?thesis
          by (cases "finishBlock env (minBlockStart p) (maxBlockEnd p) b3") (simp_all add: defs b1 b2)
      qed (simp add: defs b1 b2)
    qed (simp add: defs b1)
  qed (simp add: defs)
qed

lemma write_trace_not_finished: "write_trace env p r s \<noteq> Finished st'"
  by (auto simp: write_trace_def Let_def split: sum.split)

lemma compact_loop_same_rows:
  "same_rows b c \<Longrightarrow>
   map_option (map_sum id (\<lambda>st. st\<lparr>marks := []\<rparr>)) (compact_loop env p (st\<lparr>marks := [b]\<rparr>)) =
   map_option (map_sum id (\<lambda>st. st\<lparr>marks := []\<rparr>)) (compact_loop env p (st\<lparr>marks := [c]\<rparr>))"
proof (induction "length (remaining b)" arbitrary: b c st rule: less_induct)
  case less
  show ?case
  proof (cases "remaining b = []")
    case True
    have "\<exists>ms. compact_step env p (st\<lparr>marks := [x]\<rparr>) = Finished (st\<lparr>marks := ms\<rparr>)"
      if "fst (bookmark_done x)" for x
    proof -
      have "iterator_Next (combine_rows env) [x] = (EndOfInput, snd (iterator_done [x]))"
        using that by (cases "bookmark_done x") (simp add: iterator_Next_def)
      then have "compact_step env p (st\<lparr>marks := [x]\<rparr>) = Finished (st\<lparr>marks := snd (iterator_done [x])\<rparr>)"
        by (simp add: compact_step_def del: iterator_done.simps)
      then show ?thesis ..
    qed
    note ends = this [of b] this [of c]
    obtain ms ns where "compact_step env p (st\<lparr>marks := [b]\<rparr>) = Finished (st\<lparr>marks := ms\<rparr>)"
      "compact_step env p (st\<lparr>marks := [c]\<rparr>) = Finished (st\<lparr>marks := ns\<rparr>)"
      using ends same_rows_end [OF less.prems True] by blast
    then show ?thesis by (simp add: compact_loop.simps [of env p])
  next
    case False
    from same_rows_Next [OF less.prems False, of "combine_rows env"] obtain res b' c' where
      next_row: "iterator_Next (combine_rows env) [b] = (res, [b'])" "iterator_Next (combine_rows env) [c] = (res, [c'])"
        "res \<noteq> EndOfInput"
      and smaller: "(\<exists>i x. res = NextRow i x) \<longrightarrow> same_rows b' c' \<and> length (remaining b') < length (remaining b)" by blast
    let ?step = "\<lambda>x. compact_step env p (st\<lparr>marks := [x]\<rparr>)"
    have "(\<exists>e. ?step b = Abort e \<and> ?step c = Abort e)
        \<or> (\<exists>st'. ?step b = Continue (st'\<lparr>marks := [b']\<rparr>) \<and> ?step c = Continue (st'\<lparr>marks := [c']\<rparr>) \<and> (\<exists>i x. res = NextRow i x))"
    proof (cases res)
      case (NextRow i x)
      obtain t gone where x: "x = (t, gone)" by (cases x)
      let ?s = "st\<lparr>discardedRows := discardedRows st @ gone\<rparr>"
      have marks: "st\<lparr>marks := ms, discardedRows := discardedRows st @ gone\<rparr> = ?s\<lparr>marks := ms\<rparr>" for ms
        by (cases st) simp
      have step: "compact_step env p (st\<lparr>marks := [y]\<rparr>) =
          (if dropped_by env i then Continue (?s\<lparr>marks := [y']\<rparr>)
           else case t of None \<Rightarrow> Abort ErrNilRow | Some row \<Rightarrow> write_trace env p row (?s\<lparr>marks := [y']\<rparr>))"
        if "iterator_Next (combine_rows env) [y] = (res, [y'])" for y y'
        using that by (simp add: compact_step_def NextRow x dropped_by_def marks split: option.split)
      show ?thesis
      proof (cases t)
        case (Some row)
        then show ?thesis unfolding step [OF next_row(1)] step [OF next_row(2)]
          by (cases "write_trace env p row ?s") (auto simp: NextRow write_trace_marks write_trace_not_finished)
      qed (auto simp: step [OF next_row(1)] step [OF next_row(2)] NextRow)
    qed (use next_row in \<open>simp_all add: compact_step_def\<close>)
    then show ?thesis
    proof (elim disjE exE conjE)
      fix st' i x
      assume "?step b = Continue (st'\<lparr>marks := [b']\<rparr>)" "?step c = Continue (st'\<lparr>marks := [c']\<rparr>)" "res = NextRow i x"
      then show ?thesis using less.hyps [of b' c' st'] smaller by (simp add: compact_loop.simps [of env p "st\<lparr>marks := _\<rparr>"])
    qed (simp add: compact_loop.simps [of env p])
  qed
qed


text \<open>The loop does not open blocks.\<close>

lemma combine_rows_open [simp]: "combine_rows (env\<lparr>openBlock := f\<rparr>) = combine_rows env"
  by (rule ext) (simp add: combine_rows_def cong: list.case_cong if_cong)

lemma write_trace_open [simp]: "write_trace (env\<lparr>openBlock := f\<rparr>) p r st = write_trace env p r st"
proof -
  have "new_block (env\<lparr>openBlock := f\<rparr>) = new_block env" by (intro ext) (simp add: new_block_def)
  moreover have "flush_if c (env\<lparr>openBlock := f\<rparr>) = flush_if c env" for c
    by (rule ext) (simp add: flush_if_def appendBlock_def)
  moreover have "AddRaw (env\<lparr>openBlock := f\<rparr>) = AddRaw env" by (intro ext) (simp add: AddRaw_def)
  moreover have "finishBlock (env\<lparr>openBlock := f\<rparr>) = finishBlock env" by (intro ext) (simp add: finishBlock_def)
  ultimately show ?thesis by (simp add: write_trace_def Let_def cong: sum.case_cong option.case_cong if_cong)
qed

lemma compact_step_open [simp]: "compact_step (env\<lparr>openBlock := f\<rparr>) p st = compact_step env p st"
  by (simp add: compact_step_def Let_def cong: prod.case_cong next_row.case_cong option.case_cong if_cong)

lemma compact_loop_open_Some:
  "compact_loop env p st = Some y \<Longrightarrow> compact_loop (env\<lparr>openBlock := f\<rparr>) p st = Some y"
proof (induction rule: compact_loop.raw_induct [rotated 1, consumes 1])
  case (1 loop env p st y)
  then show ?case
    by (cases "compact_step env p st") (simp_all add: compact_loop.simps [of "env\<lparr>openBlock := f\<rparr>" p st])
qed

lemma compact_loop_open [simp]: "compact_loop (env\<lparr>openBlock := f\<rparr>) p st = compact_loop env p st"
proof (cases "compact_loop env p st")
  case None
  have "(env\<lparr>openBlock := f\<rparr>)\<lparr>openBlock := openBlock env\<rparr> = env" by simp
  then show ?thesis using None compact_loop_open_Some [of "env\<lparr>openBlock := f\<rparr>" p st _ "openBlock env"]
    by (cases "compact_loop (env\<lparr>openBlock := f\<rparr>) p st") simp_all
qed (simp add: compact_loop_open_Some)

lemma finishBlock_open [simp]: "finishBlock (env\<lparr>openBlock := f\<rparr>) = finishBlock env"
  by (intro ext) (simp add: finishBlock_def)

text \<open>C22. A read error is taken for the end of the block: when the block that is rewritten alone, as in a
  redaction, cannot be read past some row, the compaction reports no error and gives the very result it
  gives for a block that ends there. \<open>bookmark.done\<close> asks whether there is another row and answers no when
  reading fails, and \<open>Next\<close> asks it first.\<close>

theorem read_error_is_taken_for_the_end:
  "Compact (env\<lparr>openBlock := (openBlock env)(m := Some (rows, True))\<rparr>) [m] =
   Compact (env\<lparr>openBlock := (openBlock env)(m := Some (rows, False))\<rparr>) [m]"
proof -
  have same: "same_rows (newBookmark rows True) (newBookmark rows False)"
    by (simp add: same_rows_def newBookmark_def)
  let ?p = "plan_of env [m]"
  let ?run = "\<lambda>fails. compact_loop env ?p
    \<lparr>marks = [newBookmark rows fails], currentBlock = None, finishedBlocks = [], discardedRows = []\<rparr>"
  have "map_option (map_sum id (\<lambda>st. st\<lparr>marks := []\<rparr>)) (?run True) = map_option (map_sum id (\<lambda>st. st\<lparr>marks := []\<rparr>)) (?run False)"
    using compact_loop_same_rows [OF same, of env ?p "\<lparr>marks = [], currentBlock = None, finishedBlocks = [], discardedRows = []\<rparr>"]
    by simp
  moreover have "Compact (env\<lparr>openBlock := (openBlock env)(m := Some (rows, fails))\<rparr>) [m] =
      (if OutputBlocks env = 0 then None
       else case map_option (map_sum id (\<lambda>st. st\<lparr>marks := []\<rparr>)) (?run fails) of
           None \<Rightarrow> None
         | Some (Inl e) \<Rightarrow> Some (Inl e)
         | Some (Inr st) \<Rightarrow>
             (case currentBlock st of
                None \<Rightarrow> Some (Inr (finishedBlocks st, discardedRows st))
              | Some b \<Rightarrow>
                  (case finishBlock env (minBlockStart ?p) (maxBlockEnd ?p) b of
                     Inl e \<Rightarrow> Some (Inl e)
                   | Inr b' \<Rightarrow> Some (Inr (finishedBlocks st @ [b'], discardedRows st)))))" for fails
  proof -
    have plan: "plan_of (env\<lparr>openBlock := g\<rparr>) [m] = ?p" for g by (simp add: plan_of_def)
    show ?thesis
    proof (cases "?run fails")
      case (Some r)
      then show ?thesis by (cases r) (simp_all add: Compact_def plan Let_def cong: option.case_cong sum.case_cong)
    qed (simp add: Compact_def plan Let_def)
  qed
  ultimately show ?thesis by simp
qed


subsection \<open>An example\<close>

definition sample_meta :: "uuid \<Rightarrow> time \<Rightarrow> time \<Rightarrow> u64 \<Rightarrow> u32 \<Rightarrow> block_meta" where
  "sample_meta i start stop n l = \<lparr>Version = ''vParquet5'', BlockID = i, TenantID = ''t'', StartTime = start,
     EndTime = stop, TotalObjects = n, SizeBytes = 100, CompactionLevel = l, DedicatedColumnsHash = 0,
     ReplicationFactor = 1\<rparr>"

text \<open>Block 1 holds the traces 1 and 2, block 2 the traces 2 and 3; reading block 2 may fail after
  its rows.\<close>

definition block_rows :: "uuid \<Rightarrow> row_trace list" where
  "block_rows i = (if i = 1 then [sample_row [1] [sample_row_batch ''a'' [] [1]], sample_row [2] [sample_row_batch ''a'' [] [2]]]
     else [sample_row [2] [sample_row_batch ''a'' [] [3]], sample_row [3] [sample_row_batch ''a'' [] [4]]])"

definition sample_env :: "bool \<Rightarrow> compact_env" where
  "sample_env fails = \<lparr>OutputBlocks = 1, MaxBytesPerTrace = 0, DropObject = Some (\<lambda>i. i = [1]), RowGroupSizeBytes = 15,
     protoSize = (\<lambda>_. 10), rowSize = (\<lambda>_. 10), reconstructOK = (\<lambda>_. True),
     openBlock = (\<lambda>m. Some (block_rows (BlockID m), fails \<and> BlockID m = 2)),
     addOK = (\<lambda>_. True), flushOK = (\<lambda>_. True), completeOK = (\<lambda>_. True), writtenSize = (\<lambda>_. 42), filteredHash = (\<lambda>h. h),
     newUUID = (\<lambda>n. 100 + of_nat n), compactSort = insertion_sort\<rparr>"

definition sample_inputs :: "block_meta list" where
  "sample_inputs = [sample_meta 1 10 20 2 0, sample_meta 2 5 15 2 3]"

lemma sample_ok: "compact_ok (sample_env fails)"
  using insertion_sort.sort_contract_axioms by (simp add: compact_ok_def sample_env_def)

lemma sample_good: "good_inputs (sample_env False) sample_inputs"
  by code_simp

lemma compaction_keeps_the_spans_witness:
  "\<exists>outs gone. Compact (sample_env False) sample_inputs = Some (Inr (outs, gone)) \<and> gone = []
     \<and> RowTraceID ` set (concat (map outRows outs)) = {[2], [3]}
     \<and> (\<forall>b\<in>set outs. StartTime (outMeta b) = 5 \<and> EndTime (outMeta b) = 20 \<and> CompactionLevel (outMeta b) = 4)"
proof -
  have "OutputBlocks (sample_env False) \<noteq> 0" by code_simp
  from compaction_keeps_the_spans [OF sample_ok sample_good this] obtain outs gone where
    out: "Compact (sample_env False) sample_inputs = Some (Inr (outs, gone))"
      "merged (dropped_by (sample_env False)) (\<Union>m\<in>set sample_inputs. set (input_rows (sample_env False) m))
         (concat (map outRows outs)) gone"
      "MaxBytesPerTrace (sample_env False) \<le> 0 \<longrightarrow> gone = []"
      "\<forall>b\<in>set outs. outRows b \<noteq> [] \<and> TotalObjects (outMeta b) = of_nat (length (outRows b))
        \<and> CompactionLevel (outMeta b) = highest_level sample_inputs + 1 \<and> TenantID (outMeta b) = TenantID (hd sample_inputs)
        \<and> StartTime (outMeta b) = earliest sample_inputs \<and> EndTime (outMeta b) = latest sample_inputs"
    by blast
  have times: "earliest sample_inputs = 5" "latest sample_inputs = 20" "highest_level sample_inputs + 1 = 4" by code_simp+
  have "MaxBytesPerTrace (sample_env False) \<le> 0" by code_simp
  then have "gone = []" using out(3) by blast
  moreover have "RowTraceID ` (\<Union>m\<in>set sample_inputs. set (input_rows (sample_env False) m)) = {[1], [2], [3]}"
    by (auto simp: sample_inputs_def sample_meta_def input_rows_def sample_env_def block_rows_def sample_row_def)
  moreover have "RowTraceID ` set (concat (map outRows outs)) = {i \<in> RowTraceID `
      (\<Union>m\<in>set sample_inputs. set (input_rows (sample_env False) m)). \<not> dropped_by (sample_env False) i}"
    using out(2) by (simp only: merged_def)
  moreover have "dropped_by (sample_env False) = (\<lambda>i. i = [1])" by (simp add: dropped_by_def sample_env_def)
  ultimately have "RowTraceID ` set (concat (map outRows outs)) = {i \<in> {[1], [2], [3]}. i \<noteq> [1]}" by (simp only:)
  also have "\<dots> = {[2], [3]}" by auto
  finally show ?thesis using out(1,4) \<open>gone = []\<close> unfolding times by blast
qed

text \<open>What a compaction wrote: per block the ids of its rows, and whether it counts them.\<close>

definition summary :: "(compact_error + out_block list \<times> row_trace list) option \<Rightarrow> (compact_error + (bytes list \<times> nat) list) option" where
  "summary r = map_option (map_sum id (\<lambda>(outs, _). map (\<lambda>b. (map RowTraceID (outRows b), outGroups b)) outs)) r"

lemma compaction_writes_one_block_witness:
  "\<exists>outs gone. Compact (sample_env False) sample_inputs = Some (Inr (outs, gone)) \<and> length outs \<le> 1 \<and> outs \<noteq> []"
proof -
  obtain outs gone where out: "Compact (sample_env False) sample_inputs = Some (Inr (outs, gone))"
    using Compact_ok [OF sample_ok sample_good] by (auto simp: sample_env_def)
  have "OutputBlocks (sample_env False) = 1" by code_simp
  moreover have "int (sum_list (map (\<lambda>m. length (input_rows (sample_env False) m)) sample_inputs)) \<le> total_objects sample_inputs"
    by code_simp
  ultimately have "length outs \<le> 1 \<and> (outs = [] \<longleftrightarrow> (\<forall>m\<in>set sample_inputs. \<forall>r\<in>set (input_rows (sample_env False) m).
      dropped_by (sample_env False) (RowTraceID r)))"
    by (rule compaction_writes_one_block [OF sample_ok sample_good _ _ out])
  moreover have "\<not> (\<forall>m\<in>set sample_inputs. \<forall>r\<in>set (input_rows (sample_env False) m).
      dropped_by (sample_env False) (RowTraceID r))"
    by (auto simp: sample_inputs_def sample_meta_def input_rows_def sample_env_def block_rows_def sample_row_def dropped_by_def)
  ultimately show ?thesis using out by blast
qed

text \<open>Two blocks without a common trace: block 1 holds the traces 1 and 3, block 2 the traces 2 and 4.
  Reading block \<open>bad\<close> fails after its rows.\<close>

definition separate_env :: "uuid \<Rightarrow> int \<Rightarrow> compact_env" where
  "separate_env bad n = (sample_env False)\<lparr>DropObject := None, OutputBlocks := n,
     openBlock := (\<lambda>m. Some (if BlockID m = 1 then [sample_row [1] [], sample_row [3] []]
       else [sample_row [2] [], sample_row [4] []], BlockID m = bad))\<rparr>"

text \<open>A read error is reported only while another input has rows left: it is found when reading
  block 1 fails, since block 2 is not finished, and missed when block 2, the last, fails.\<close>

theorem read_error_of_the_last_input_is_missed:
  "summary (Compact (separate_env 2 1) sample_inputs) = Some (Inr [([[1], [2], [3], [4]], 4)])
   \<and> summary (Compact (separate_env 1 1) sample_inputs) = Some (Inl ErrIterate)"
  by code_simp

text \<open>More output blocks than asked for: the share of a block is rounded down.\<close>

theorem more_blocks_than_asked:
  "summary (Compact (separate_env 0 3) sample_inputs)
   = Some (Inr [([[1]], 1), ([[2]], 1), ([[3]], 1), ([[4]], 1)])"
  by code_simp

end
