(* ===== verification/CompactJob.thy ===== *)
theory CompactJob
  imports Compaction BlockSelector
begin

section \<open>Compaction jobs (tempodb/compactor.go)\<close>

text \<open>
  Models \<open>CompactWithConfig\<close> and \<open>markCompacted\<close>: the compactor of the encoding
  of the first block merges the blocks, the old blocks are marked in the backend, and the new ones take their
  place in the blocklist (\<open>Blocklist.Update\<close>). The compactor of the current encoding is \<open>Compact\<close>; that
  of an older encoding is an argument, as are the answers of the backend and the clock. A job that fails
  after the blocks were merged has still changed the blocklist, so the blocklist is part of the result.
\<close>

record job_env =
  metaOK :: "uuid \<Rightarrow> bool"
  markOK :: "uuid \<Rightarrow> bool"
  clock :: time
  MaxBytesPerTraceForTenant :: "tenant \<Rightarrow> int"
  olderCompactor :: "versioned_encoding \<Rightarrow> compact_env \<Rightarrow> block_meta list \<Rightarrow> (compact_error + block_meta list) option"

datatype job_error = ErrNoMeta | ErrVersion | ErrVersionUnsupported | ErrCompacting compact_error | ErrMarked nat

definition NewCompactor ::
  "job_env \<Rightarrow> versioned_encoding \<Rightarrow> compact_env \<Rightarrow> block_meta list \<Rightarrow> (compact_error + block_meta list) option" where
  "NewCompactor j enc env inputs =
     (if enc = VParquet5 then map_option (map_sum id (\<lambda>(outs, _). map outMeta outs)) (Compact env inputs)
      else olderCompactor j enc env inputs)"

definition compacted_metas :: "time \<Rightarrow> block_meta list \<Rightarrow> compacted_block_meta list" where
  "compacted_metas now oldBlocks = map (\<lambda>b. block_meta.extend b \<lparr>CompactedTime = now\<rparr>) oldBlocks"

definition markCompacted ::
  "job_env \<Rightarrow> tenant \<Rightarrow> block_meta list \<Rightarrow> block_meta list \<Rightarrow> blocklist \<Rightarrow> job_error option \<times> blocklist" where
  "markCompacted j tenantID oldBlocks newBlocks l =
     (let errCount = length (filter (\<lambda>m. \<not> markOK j (BlockID m)) oldBlocks);
          l' = Update tenantID newBlocks oldBlocks (compacted_metas (clock j) oldBlocks) [] l
      in (if errCount > 0 then Some (ErrMarked errCount) else None, l'))"

definition job_options :: "job_env \<Rightarrow> tenant \<Rightarrow> compact_env \<Rightarrow> compact_env" where
  "job_options j tenantID env =
     env\<lparr>OutputBlocks := 1, MaxBytesPerTrace := MaxBytesPerTraceForTenant j tenantID, DropObject := None\<rparr>"

definition CompactWithConfig ::
  "job_env \<Rightarrow> compact_env \<Rightarrow> block_meta list \<Rightarrow> tenant \<Rightarrow> blocklist \<Rightarrow>
   ((job_error + block_meta list) \<times> blocklist) option" where
  "CompactWithConfig j env blockMetas tenantID l =
     (if blockMetas = [] then Some (Inr [], l)
      else if \<not> list_all (\<lambda>m. metaOK j (BlockID m)) blockMetas then Some (Inl ErrNoMeta, l)
      else case FromVersion (Version (hd blockMetas)) of
          None \<Rightarrow> Some (Inl ErrVersion, l)
        | Some enc \<Rightarrow>
            if \<not> CompactionSupported enc then Some (Inl ErrVersionUnsupported, l)
            else case NewCompactor j enc (job_options j tenantID env) blockMetas of
                None \<Rightarrow> None
              | Some (Inl e) \<Rightarrow> Some (Inl (ErrCompacting e), l)
              | Some (Inr newCompactedBlocks) \<Rightarrow>
                  (case markCompacted j tenantID blockMetas newCompactedBlocks l of
                     (Some e, l') \<Rightarrow> Some (Inl e, l')
                   | (None, l') \<Rightarrow> Some (Inr newCompactedBlocks, l')))"

subsection \<open>The ids of the new blocks\<close>

definition written_blocks :: "compact_state \<Rightarrow> out_block list" where
  "written_blocks st = finishedBlocks st @ case_option [] (\<lambda>b. [b]) (currentBlock st)"

definition numbered :: "compact_env \<Rightarrow> out_block list \<Rightarrow> bool" where
  "numbered env bs \<longleftrightarrow> map (\<lambda>b. BlockID (outMeta b)) bs = map (newUUID env) [0..<length bs]"

lemma numbered_snoc:
  "numbered env (bs @ [b]) \<longleftrightarrow> numbered env bs \<and> BlockID (outMeta b) = newUUID env (length bs)"
  by (auto simp: numbered_def)

lemma flush_if_meta: "flush_if c env b = Inr b' \<Longrightarrow> outMeta b' = outMeta b"
  by (auto simp: flush_if_def appendBlock_def split: if_splits)

lemma AddRaw_id: "AddRaw env r b = Inr b' \<Longrightarrow> BlockID (outMeta b') = BlockID (outMeta b)"
  by (auto simp: AddRaw_def split: if_splits)

lemma finishBlock_id: "finishBlock env t u b = Inr b' \<Longrightarrow> BlockID (outMeta b') = BlockID (outMeta b)"
  by (auto simp: finishBlock_def split: if_splits)

lemma write_trace_numbered:
  assumes "numbered env (written_blocks st)" and "write_trace env p r st = Continue st'"
  shows "numbered env (written_blocks st')"
proof -
  define b0 where "b0 = (case currentBlock st of Some b \<Rightarrow> b
    | None \<Rightarrow> new_block env (firstInput p) (nextLevel p) (length (finishedBlocks st)))"
  have b0: "numbered env (finishedBlocks st @ [b0])"
    using assms(1) by (cases "currentBlock st") (simp_all add: b0_def written_blocks_def numbered_snoc new_block_def)
  obtain b1 b2 b3 where
    b1: "flush_if (outBuffered b0 > 0 \<and> outBuffered b0 + rowSize env r > RowGroupSizeBytes env) env b0 = Inr b1"
    and b2: "AddRaw env r b1 = Inr b2" and b3: "flush_if (outBuffered b2 > RowGroupSizeBytes env) env b2 = Inr b3"
    and st': "(if uint (TotalObjects (outMeta b3)) \<ge> recordsPerBlock p
        then (case finishBlock env (minBlockStart p) (maxBlockEnd p) b3 of Inl e \<Rightarrow> Abort e
            | Inr b4 \<Rightarrow> Continue (st\<lparr>currentBlock := None, finishedBlocks := finishedBlocks st @ [b4]\<rparr>))
        else Continue (st\<lparr>currentBlock := Some b3\<rparr>)) = Continue st'"
    using assms(2) by (auto simp: write_trace_def Let_def b0_def [symmetric] split: sum.splits)
  have "BlockID (outMeta b3) = BlockID (outMeta b0)"
    using flush_if_meta [OF b1] AddRaw_id [OF b2] flush_if_meta [OF b3] by simp
  then have "numbered env (finishedBlocks st @ [b3])" using b0 by (simp add: numbered_snoc)
  then show ?thesis using st' finishBlock_id
    by (auto simp: written_blocks_def numbered_snoc split: if_splits sum.splits)
qed

lemma compact_loop_numbered:
  "compact_loop env p st = Some y \<Longrightarrow> numbered env (written_blocks st) \<Longrightarrow>
   case y of Inl _ \<Rightarrow> True | Inr st' \<Rightarrow> numbered env (written_blocks st')"
proof (induction rule: compact_loop.raw_induct [rotated 1, consumes 1])
  case (1 loop env p st y)
  have marks: "numbered env (written_blocks (st\<lparr>marks := ms\<rparr>))"
    "numbered env (written_blocks (st\<lparr>marks := ms, discardedRows := ds\<rparr>))" for ms ds
    using 1(3) by (simp_all add: written_blocks_def)
  have step: "numbered env (written_blocks st')"
    if "compact_step env p st = Continue st' \<or> compact_step env p st = Finished st'" for st'
    using that marks write_trace_not_finished
    by (auto simp: compact_step_def Let_def split: prod.splits next_row.splits if_splits option.splits
        dest: write_trace_numbered [OF marks(2)])
  show ?case using 1(2) step 1(1) by (auto split: step.splits)
qed

lemma Compact_numbered:
  assumes "Compact env inputs = Some (Inr (outs, gone))"
  shows "numbered env outs"
proof -
  obtain bs where bs: "open_blocks env inputs = Inr bs" using assms by (auto simp: Compact_def split: sum.splits)
  let ?st = "\<lparr>marks = bs, currentBlock = None, finishedBlocks = [], discardedRows = []\<rparr>"
  obtain st where st: "compact_loop env (plan_of env inputs) ?st = Some (Inr st)"
    using assms bs by (auto simp: Compact_def Let_def split: if_splits option.splits sum.splits)
  have "numbered env (written_blocks ?st)" by (simp add: written_blocks_def numbered_def)
  from compact_loop_numbered [OF st this] have n: "numbered env (written_blocks st)" by simp
  show ?thesis
  proof (cases "currentBlock st")
    case None
    then show ?thesis using assms bs st n
      by (auto simp: Compact_def Let_def written_blocks_def split: if_splits)
  next
    case (Some b)
    then obtain b' where "finishBlock env (minBlockStart (plan_of env inputs)) (maxBlockEnd (plan_of env inputs)) b = Inr b'"
      "outs = finishedBlocks st @ [b']"
      using assms bs st by (auto simp: Compact_def Let_def split: if_splits sum.splits)
    then show ?thesis using Some n finishBlock_id by (simp add: written_blocks_def numbered_snoc)
  qed
qed

subsection \<open>The blocklist after a compaction\<close>

lemma add_new_fresh:
  "distinct (map BlockID bs) \<Longrightarrow> ids bs \<inter> (skip \<union> final) = {} \<Longrightarrow> add_new skip final bs = bs"
proof (induction bs arbitrary: final)
  case (Cons b bs)
  then have "add_new skip (insert (BlockID b) final) bs = bs" by (intro Cons.IH) (auto simp: ids_def)
  then show ?case using Cons.prems by auto
qed simp

lemma ids_compacted_metas [simp]: "ids (compacted_metas now bs) = ids bs"
  by (auto simp: ids_def compacted_metas_def block_meta.defs image_image)

lemma update_metas_swap:
  assumes "distinct (map BlockID news)" and "ids news \<inter> (ids olds \<union> ids existing) = {}"
  shows "update_metas existing news olds (compacted_metas now olds) [] =
    filter (\<lambda>b. BlockID b \<notin> ids olds) existing @ news"
proof -
  have "ids news \<inter> ((ids olds \<union> ids (compacted_metas now olds) \<union> ids ([] :: compacted_block_meta list))
      \<union> ids (filter (\<lambda>b. BlockID b \<notin> ids olds) existing)) = {}"
    using assms(2) by auto
  from add_new_fresh [OF assms(1) this] show ?thesis by (simp add: update_metas_def Let_def)
qed

text \<open>What a reader of the blocks finds for a trace id: the tokens of its spans in all the blocks.\<close>

definition found_spans :: "(block_meta \<Rightarrow> row_trace list) \<Rightarrow> block_meta list \<Rightarrow> bytes \<Rightarrow> u64 set" where
  "found_spans rd bs i = (\<Union>m\<in>set bs. \<Union>r\<in>{r \<in> set (rd m). RowTraceID r = i}. row_tokens (trace_spans r))"

text \<open>Reading a block after new ones were written.\<close>

definition read_with :: "compact_env \<Rightarrow> out_block list \<Rightarrow> block_meta \<Rightarrow> row_trace list" where
  "read_with env outs m =
     (case find (\<lambda>b. BlockID (outMeta b) = BlockID m) outs of Some b \<Rightarrow> outRows b | None \<Rightarrow> input_rows env m)"

lemma merged_found:
  assumes "merged (\<lambda>_. False) ins out []"
  shows "(\<Union>t\<in>{t \<in> set out. RowTraceID t = i}. row_tokens (trace_spans t)) =
    (\<Union>r\<in>{r \<in> ins. RowTraceID r = i}. row_tokens (trace_spans r))"
proof
  have "row_tokens (trace_spans t) \<subseteq> (\<Union>r\<in>{r \<in> ins. RowTraceID r = RowTraceID t}. row_tokens (trace_spans r))"
    if "t \<in> set out" for t
    using assms that by (simp add: merged_def)
  then show "(\<Union>t\<in>{t \<in> set out. RowTraceID t = i}. row_tokens (trace_spans t)) \<subseteq>
      (\<Union>r\<in>{r \<in> ins. RowTraceID r = i}. row_tokens (trace_spans r))" by blast
  have "\<exists>t\<in>set out. RowTraceID t = RowTraceID r \<and> row_tokens (trace_spans r) \<subseteq> row_tokens (trace_spans t)"
    if "r \<in> ins" for r
    using assms that by (simp add: merged_def)
  then show "(\<Union>r\<in>{r \<in> ins. RowTraceID r = i}. row_tokens (trace_spans r)) \<subseteq>
      (\<Union>t\<in>{t \<in> set out. RowTraceID t = i}. row_tokens (trace_spans t))" by blast
qed

lemma find_distinct:
  "distinct (map f xs) \<Longrightarrow> x \<in> set xs \<Longrightarrow> find (\<lambda>y. f y = f x) xs = Some x"
  by (induction xs) (auto simp: image_iff)

lemma found_spans_append: "found_spans rd (xs @ ys) i = found_spans rd xs i \<union> found_spans rd ys i"
  by (simp add: found_spans_def)

lemma found_spans_cong: "(\<And>m. m \<in> set bs \<Longrightarrow> rd m = rd' m) \<Longrightarrow> found_spans rd bs i = found_spans rd' bs i"
  by (simp add: found_spans_def)

lemma found_after_swap:
  assumes merged: "merged (\<lambda>_. False) (\<Union>m\<in>set inputs. set (input_rows env m)) (concat (map outRows outs)) []"
    and outs: "distinct (map (\<lambda>b. BlockID (outMeta b)) outs)"
    and fresh: "(\<lambda>b. BlockID (outMeta b)) ` set outs \<inter> ids existing = {}"
    and inputs: "set inputs \<subseteq> set existing" "distinct (map BlockID existing)"
  shows "found_spans (read_with env outs) (filter (\<lambda>b. BlockID b \<notin> ids inputs) existing @ map outMeta outs) i =
    found_spans (input_rows env) existing i"
proof -
  let ?kept = "filter (\<lambda>b. BlockID b \<notin> ids inputs) existing"
  have "read_with env outs m = input_rows env m" if "m \<in> set ?kept" for m
  proof -
    have "find (\<lambda>b. BlockID (outMeta b) = BlockID m) outs = None" using that fresh by (auto simp: find_None_iff ids_def)
    then show ?thesis by (simp add: read_with_def)
  qed
  then have kept: "found_spans (read_with env outs) ?kept i = found_spans (input_rows env) ?kept i"
    by (rule found_spans_cong)
  have "read_with env outs (outMeta b) = outRows b" if "b \<in> set outs" for b
    using find_distinct [OF outs that] by (simp add: read_with_def)
  then have "found_spans (read_with env outs) (map outMeta outs) i =
      (\<Union>b\<in>set outs. \<Union>r\<in>{r \<in> set (outRows b). RowTraceID r = i}. row_tokens (trace_spans r))"
    by (simp add: found_spans_def)
  also have "\<dots> = (\<Union>t\<in>{t \<in> set (concat (map outRows outs)). RowTraceID t = i}. row_tokens (trace_spans t))" by auto
  also have "\<dots> = (\<Union>r\<in>{r \<in> (\<Union>m\<in>set inputs. set (input_rows env m)). RowTraceID r = i}. row_tokens (trace_spans r))"
    by (rule merged_found [OF merged])
  also have "\<dots> = found_spans (input_rows env) inputs i" by (auto simp: found_spans_def)
  finally have new: "found_spans (read_with env outs) (map outMeta outs) i = found_spans (input_rows env) inputs i" .
  have "b \<in> set inputs" if "b \<in> set existing" "BlockID b \<in> ids inputs" for b
    using that inputs by (auto simp: distinct_map ids_def dest: inj_onD)
  then have "set ?kept \<union> set inputs = set existing" using inputs(1) by auto
  then have "found_spans (input_rows env) ?kept i \<union> found_spans (input_rows env) inputs i =
      found_spans (input_rows env) existing i"
    unfolding found_spans_def UN_Un [symmetric] by simp
  then show ?thesis unfolding found_spans_append kept new .
qed


subsection \<open>A compaction job keeps the spans\<close>

lemma job_options_ok: "compact_ok env \<Longrightarrow> compact_ok (job_options j t env)"
  by (simp add: compact_ok_def job_options_def)

lemma job_options_rows [simp]: "input_rows (job_options j t env) = input_rows env"
  by (rule ext) (simp add: input_rows_def job_options_def)

lemma job_options_good: "good_inputs env inputs \<Longrightarrow> good_inputs (job_options j t env) inputs"
  unfolding good_inputs_def job_options_rows by (simp add: job_options_def)

definition total_rows :: "compact_env \<Rightarrow> block_meta list \<Rightarrow> nat" where
  "total_rows env inputs = sum_list (map (\<lambda>m. length (input_rows env m)) inputs)"

lemma length_blocks:
  assumes "\<forall>b\<in>set outs. outRows b \<noteq> []"
  shows "length outs \<le> length (concat (map outRows outs))"
  using assms
proof (induction outs)
  case (Cons b outs)
  then have "0 < length (outRows b)" by simp
  then show ?case using Cons by (simp del: length_greater_0_conv)
qed simp

text \<open>The blocks that the compactor writes for a job.\<close>

lemma job_blocks:
  assumes "compact_ok env" and "good_inputs env inputs" and "MaxBytesPerTraceForTenant j t \<le> 0"
    and "inj_on (newUUID env) {..<total_rows env inputs}"
  shows "\<exists>outs. Compact (job_options j t env) inputs = Some (Inr (outs, []))
    \<and> merged (\<lambda>_. False) (\<Union>m\<in>set inputs. set (input_rows env m)) (concat (map outRows outs)) []
    \<and> distinct (map (\<lambda>b. BlockID (outMeta b)) outs)
    \<and> (\<lambda>b. BlockID (outMeta b)) ` set outs \<subseteq> newUUID env ` {..<total_rows env inputs}"
proof -
  let ?env = "job_options j t env"
  have env: "newUUID ?env = newUUID env" "dropped_by ?env = (\<lambda>_. False)" "MaxBytesPerTrace ?env \<le> 0" "OutputBlocks ?env \<noteq> 0"
    using assms(3) by (simp_all add: job_options_def dropped_by_def)
  obtain outs gone where out: "Compact ?env inputs = Some (Inr (outs, gone))"
    "merged (\<lambda>_. False) (\<Union>m\<in>set inputs. set (input_rows env m)) (concat (map outRows outs)) gone" "gone = []"
    "\<forall>b\<in>set outs. finished_block (plan_of ?env inputs) b"
    using Compact_ok [OF job_options_ok [OF assms(1)] job_options_good [OF assms(2)] env(4)] env(2,3) by auto
  have "\<forall>b\<in>set outs. outRows b \<noteq> []" using out(4) by (simp add: finished_block_def open_block_def)
  from length_blocks [OF this] merged_length [OF out(2)]
  have few: "length outs \<le> total_rows env inputs" by (simp add: total_rows_def)
  have nums: "map (\<lambda>b. BlockID (outMeta b)) outs = map (newUUID env) [0..<length outs]"
    using Compact_numbered [OF out(1)] env(1) by (simp add: numbered_def)
  have "inj_on (newUUID env) {..<length outs}" using few by (intro inj_on_subset [OF assms(4)]) auto
  then have "distinct (map (\<lambda>b. BlockID (outMeta b)) outs)"
    unfolding nums by (simp add: distinct_map lessThan_atLeast0)
  moreover have "(\<lambda>b. BlockID (outMeta b)) ` set outs = newUUID env ` {..<length outs}"
    using nums by (metis atLeast_upt set_map)
  then have "(\<lambda>b. BlockID (outMeta b)) ` set outs \<subseteq> newUUID env ` {..<total_rows env inputs}"
    using image_mono [of "{..<length outs}" "{..<total_rows env inputs}" "newUUID env"] few unfolding lessThan_subset_iff by blast
  ultimately show ?thesis using out(1-3) by blast
qed

lemma CompactWithConfig_run:
  assumes "Compact (job_options j t env) inputs = Some (Inr (outs, gone))" and "inputs \<noteq> []"
    and "\<forall>m\<in>set inputs. metaOK j (BlockID m)" and "Version (hd inputs) = ''vParquet5''"
  shows "CompactWithConfig j env inputs t l =
    Some (if \<forall>m\<in>set inputs. markOK j (BlockID m) then Inr (map outMeta outs)
          else Inl (ErrMarked (length (filter (\<lambda>m. \<not> markOK j (BlockID m)) inputs))),
      Update t (map outMeta outs) inputs (compacted_metas (clock j) inputs) [] l)"
proof -
  have "FromVersion (Version (hd inputs)) = Some VParquet5" by (simp add: assms(4) FromVersion_def)
  moreover have "NewCompactor j VParquet5 (job_options j t env) inputs = Some (Inr (map outMeta outs))"
    by (simp add: NewCompactor_def assms(1))
  ultimately show ?thesis
    using assms(2,3) by (auto simp: CompactWithConfig_def markCompacted_def Let_def list_all_iff filter_empty_conv)
qed

lemma ids_update_compacted: "ids (update_compacted xs ys []) = ids xs \<union> ids ys"
  by (auto simp: update_compacted_def Let_def ids_def)


text \<open>The two sample blocks of the list are merged, block 9 is not touched. Marking block 2 fails.\<close>

definition sample_job :: job_env where
  "sample_job = \<lparr>metaOK = (\<lambda>_. True), markOK = (\<lambda>i. i = 1), clock = 1000, MaxBytesPerTraceForTenant = (\<lambda>_. 0),
     olderCompactor = (\<lambda>_ _ _. None)\<rparr>"

definition sample_list :: blocklist where
  "sample_list = \<lparr>metas = [''t'' \<mapsto> sample_inputs @ [sample_meta 9 0 1 1 0]], compactedMetas = Map.empty, added = Map.empty,
     removed = Map.empty, compactedAdded = Map.empty, compactedRemoved = Map.empty\<rparr>"

lemma sample_uuids:
  "inj_on (newUUID (sample_env False)) {..<total_rows (sample_env False) sample_inputs}"
  "newUUID (sample_env False) ` {..<total_rows (sample_env False) sample_inputs} \<inter> {1, 2, 9} = {}"
proof -
  have "total_rows (sample_env False) sample_inputs = 4" by code_simp
  then have rows: "{..<total_rows (sample_env False) sample_inputs} = set [0, 1, 2, 3]" by auto
  have "newUUID (sample_env False) = (\<lambda>n. 100 + of_nat n)" by (simp add: sample_env_def)
  then show "inj_on (newUUID (sample_env False)) {..<total_rows (sample_env False) sample_inputs}"
    "newUUID (sample_env False) ` {..<total_rows (sample_env False) sample_inputs} \<inter> {1, 2, 9} = {}"
    unfolding rows by simp_all
qed


end
