(* ===== verification/RedactCompact.thy ===== *)
theory RedactCompact
  imports RedactBlock Compaction
begin

section \<open>Redaction and the compactor together\<close>

text \<open>
  \<open>RedactBlock\<close> rewrites one block with the compactor, which drops the redacted traces. Here the compactor
  that \<open>RedactBlock\<close> takes as a part of the block is \<open>Compact\<close> itself, with the options that
  \<open>tempodb.RedactBlock\<close> gives it: one output block, no limit on traces, and \<open>DropObject\<close>.
\<close>

definition redact_options :: "compact_env \<Rightarrow> (bytes \<Rightarrow> bool) \<Rightarrow> compact_env" where
  "redact_options env drop_it =
     env\<lparr>OutputBlocks := 1, MaxBytesPerTrace := 0, DropObject := Some drop_it, RowGroupSizeBytes := 100000000\<rparr>"

definition redact_compact ::
  "compact_env \<Rightarrow> block_meta \<Rightarrow> (bytes \<Rightarrow> bool) \<Rightarrow> out_block list option" where
  "redact_compact env m drop_it =
     (case Compaction.Compact (redact_options env drop_it) [m] of
        Some (Inr (outs, _)) \<Rightarrow> Some outs
      | _ \<Rightarrow> None)"

text \<open>The block access of a vParquet5 block: the compactor and the count of objects come from the meta.\<close>

definition rewriting_block :: "compact_env \<Rightarrow> block_meta \<Rightarrow> out_block block_access \<Rightarrow> out_block block_access" where
  "rewriting_block env m blk =
     blk\<lparr>encoding_ok := True, block_access.Compact := redact_compact env m, BlockTotalObjects := uint (TotalObjects m)\<rparr>"

subsection \<open>Rewriting one block\<close>

text \<open>On one block the iterator yields the rows one by one; whether the read fails after the last one makes no difference.\<close>

lemma bookmark_one:
  assumes "\<not> currentErr b" and "remaining b = r # rs"
  shows "\<exists>b'. bookmark_current b = (Inr (Some r), b') \<and> currentRow b' = Some r \<and> unread b' = rs \<and> \<not> currentErr b'"
  using assms by (cases "currentRow b"; cases "unread b") (auto simp: bookmark_current_def remaining_def)

lemma iterator_one:
  assumes "\<not> currentErr b" and "remaining b = r # rs"
  shows "\<exists>b1 b2. iterator_Next f [b] =
      (case f [r] of Inl e \<Rightarrow> (Failed e, [b1]) | Inr x \<Rightarrow> (NextRow (RowTraceID r) x, [b2]))
    \<and> \<not> currentErr b2 \<and> remaining b2 = rs"
proof -
  obtain b1 where b1: "bookmark_current b = (Inr (Some r), b1)" "currentRow b1 = Some r" "unread b1 = rs" "\<not> currentErr b1"
    using bookmark_one [OF assms] by blast
  have again: "bookmark_current b1 = (Inr (Some r), b1)" using b1(2,4) by (simp add: bookmark_current_def)
  have ended: "iterator_done [b] = (False, [b1])" using b1(1) by (simp add: bookmark_done_def)
  have found: "find_lowest 0 [] [] [b1] = (Inr (RowTraceID r, [0]), [b1])"
    using again by (auto simp: Compare_def Let_def)
  have "iterator_Next f [b] = (case f [r] of Inl e \<Rightarrow> (Failed e, [b1])
      | Inr x \<Rightarrow> (NextRow (RowTraceID r) x, [bookmark_clear b1]))"
    using again ended found
    by (simp add: iterator_Next_def del: iterator_done.simps find_lowest.simps split: sum.split)
  moreover have "\<not> currentErr (bookmark_clear b1)" "remaining (bookmark_clear b1) = rs"
    using b1(3,4) by (simp_all add: bookmark_clear_def remaining_def)
  ultimately show ?thesis by blast
qed

lemma iterator_one_end:
  assumes "\<not> currentErr b" and "remaining b = []"
  shows "\<exists>ms. iterator_Next f [b] = (EndOfInput, ms)"
proof -
  have "fst (bookmark_done b)"
    using assms by (cases "currentRow b"; cases "unread b") (auto simp: bookmark_done_def bookmark_current_def remaining_def)
  then show ?thesis by (cases "bookmark_done b") (simp add: iterator_Next_def)
qed

lemma compact_loop_one:
  "compact_ok env \<Longrightarrow> blocks_ok p st \<Longrightarrow> marks st = [b] \<Longrightarrow> \<not> currentErr b \<Longrightarrow>
   \<exists>st'. compact_loop env p st = Some (Inr st') \<and> blocks_ok p st' \<and> discardedRows st' = discardedRows st
     \<and> written st' = written st @ filter (\<lambda>r. \<not> dropped_by env (RowTraceID r)) (remaining b)"
proof (induction "remaining b" arbitrary: b st)
  case Nil
  from iterator_one_end [OF Nil.prems(4) Nil.hyps [symmetric]] obtain ms where
    "iterator_Next (combine_rows env) [b] = (EndOfInput, ms)" by blast
  then have step: "compact_step env p st = Finished (st\<lparr>marks := ms\<rparr>)" by (simp add: compact_step_def Nil.prems(3))
  have "compact_loop env p st = Some (Inr (st\<lparr>marks := ms\<rparr>))" by (simp add: compact_loop.simps [of env p st] step)
  then show ?case using Nil.prems(2) Nil.hyps [symmetric]
    by (intro exI [of _ "st\<lparr>marks := ms\<rparr>"]) (simp add: written_def blocks_ok_def)
next
  case (Cons r rs)
  from iterator_one [OF Cons.prems(4) Cons.hyps(2) [symmetric]] obtain b1 b2 where
    it: "iterator_Next (combine_rows env) [b] =
      (case combine_rows env [r] of Inl e \<Rightarrow> (Failed e, [b1]) | Inr x \<Rightarrow> (NextRow (RowTraceID r) x, [b2]))"
    and b2: "\<not> currentErr b2" "remaining b2 = rs" by blast
  have "combine_rows env [r] = Inr (Some r, [])" by (simp add: combine_rows_def)
  then have it': "iterator_Next (combine_rows env) [b] = (NextRow (RowTraceID r) (Some r, []), [b2])" using it by simp
  let ?st2 = "st\<lparr>marks := [b2]\<rparr>"
  have ok2: "blocks_ok p ?st2" using Cons.prems(2) by (simp add: blocks_ok_def)
  have "st\<lparr>marks := [b2], discardedRows := discardedRows st\<rparr> = ?st2" by (cases st) simp
  then have step: "compact_step env p st =
      (if dropped_by env (RowTraceID r) then Continue ?st2 else write_trace env p r ?st2)"
    unfolding compact_step_def Cons.prems(3) it' by (simp add: dropped_by_def split: option.split)
  obtain st1 where st1: "compact_step env p st = Continue st1" "blocks_ok p st1" "marks st1 = [b2]"
    "discardedRows st1 = discardedRows st"
    "written st1 = written st @ (if dropped_by env (RowTraceID r) then [] else [r])"
  proof (cases "dropped_by env (RowTraceID r)")
    case True
    then show ?thesis using step ok2 by (intro that [of ?st2]) (simp_all add: written_def)
  next
    case False
    then show ?thesis using step write_trace_ok [OF Cons.prems(1) ok2, of r] that by (auto simp: written_def)
  qed
  from Cons.hyps(1) [OF b2(2) [symmetric] Cons.prems(1) st1(2,3) b2(1)] obtain st' where
    "compact_loop env p st1 = Some (Inr st')" "blocks_ok p st'" "discardedRows st' = discardedRows st1"
    "written st' = written st1 @ filter (\<lambda>r. \<not> dropped_by env (RowTraceID r)) (remaining b2)" by blast
  moreover have "compact_loop env p st = compact_loop env p st1" by (simp add: compact_loop.simps [of env p st] st1(1))
  moreover have "remaining b = r # remaining b2" using Cons.hyps(2) b2(2) by simp
  ultimately show ?case using st1(4,5) by (intro exI [of _ st']) simp
qed

lemma redact_options_ok: "compact_ok env \<Longrightarrow> compact_ok (redact_options env d)"
  by (simp add: compact_ok_def redact_options_def)

lemma redact_compact_one:
  assumes ok: "compact_ok env" and opened: "openBlock env m = Some (rows, fails)"
    and count: "int (length rows) \<le> uint (TotalObjects m)"
  shows "\<exists>outs. redact_compact env m d = Some outs \<and> length outs \<le> 1
    \<and> concat (map outRows outs) = filter (\<lambda>r. \<not> d (RowTraceID r)) rows
    \<and> (\<forall>b\<in>set outs. finished_block (plan_of (redact_options env d) [m]) b)"
proof -
  let ?env = "redact_options env d" and ?b = "newBookmark rows fails"
  let ?p = "plan_of ?env [m]"
  let ?st = "\<lparr>marks = [?b], currentBlock = None, finishedBlocks = [], discardedRows = []\<rparr>"
  note ok' = redact_options_ok [OF ok, of d]
  have env: "open_blocks ?env [m] = Inr [?b]" "OutputBlocks ?env \<noteq> 0" "dropped_by ?env = d"
    using opened by (simp_all add: redact_options_def dropped_by_def)
  have "blocks_ok ?p ?st" by (simp add: blocks_ok_def)
  moreover have "\<not> currentErr ?b" by (simp add: newBookmark_def)
  ultimately obtain st' where st': "compact_loop ?env ?p ?st = Some (Inr st')" "blocks_ok ?p st'" "discardedRows st' = []"
    "written st' = filter (\<lambda>r. \<not> d (RowTraceID r)) rows"
    using compact_loop_one [OF ok', of ?p ?st ?b] by (auto simp: env(3) written_def)
  from Compact_of_loop [OF ok' env(1) _ env(2) st'(1,2)] obtain outs where
    out: "Compaction.Compact ?env [m] = Some (Inr (outs, []))" "concat (map outRows outs) = filter (\<lambda>r. \<not> d (RowTraceID r)) rows"
      "\<forall>b\<in>set outs. finished_block ?p b" "\<forall>b\<in>set (butlast outs). recordsPerBlock ?p \<le> int (length (outRows b))"
    unfolding st'(3,4) by auto
  have "recordsPerBlock ?p = uint (TotalObjects m)" by (simp add: plan_of_def redact_options_def total_objects_def)
  moreover have "length (concat (map outRows outs)) \<le> length rows" unfolding out(2) by (rule length_filter_le)
  ultimately have "length outs \<le> 1" using count by (intro at_most_one_block [OF out(3,4)]) linarith
  then show ?thesis using out by (simp add: redact_compact_def)
qed

subsection \<open>What is left after a redaction\<close>

text \<open>The ids that a redaction drops from the block.\<close>

definition selected_ids where
  "selected_ids g compiles parse blk traceIDs query window =
     (if query \<noteq> '''' then redactionIDsFromQuery g compiles parse blk query window
      else find_traces (FindTraceByID blk) traceIDs)"

lemma selected_ids_rewriting [simp]:
  "selected_ids g compiles parse (rewriting_block env m blk) traceIDs query window =
   selected_ids g compiles parse blk traceIDs query window"
  by (simp add: selected_ids_def redactionIDsFromQuery_def rewriting_block_def cong: sum.case_cong prod.case_cong)

lemma RedactBlock_written:
  assumes "RedactBlock g compiles parse blk traceIDs query False window = Inr (True, n, out)"
  shows "\<exists>dropSet outs. selected_ids g compiles parse blk traceIDs query window = Inr dropSet
    \<and> block_access.Compact blk (\<lambda>i. i \<in> dropSet) = Some outs \<and> n = card dropSet
    \<and> (length outs \<le> 1 \<longrightarrow> out = (case outs of [] \<Rightarrow> None | b # _ \<Rightarrow> Some b))"
proof (cases "selected_ids g compiles parse blk traceIDs query window")
  case (Inl e)
  then show ?thesis using assms by (auto simp: RedactBlock_def selected_ids_def [symmetric] split: if_splits)
next
  case (Inr dropSet)
  then obtain outs where outs: "block_access.Compact blk (\<lambda>i. i \<in> dropSet) = Some outs"
    using assms by (auto simp: RedactBlock_def selected_ids_def [symmetric] split: if_splits option.splits)
  then show ?thesis using assms Inr
    by (cases outs) (auto simp: RedactBlock_def selected_ids_def [symmetric] split: if_splits)
qed

text \<open>C4. A redaction leaves the other traces as they are. When a redaction of a block rewrites it, the
  traces that it selected are gone, every other row of the block is in the new block, unchanged and in
  the same order, and there is no new block only if no row is left; the new block counts its rows and has
  the times of the old one.\<close>

theorem redaction_keeps_the_other_traces:
  assumes "compact_ok env" and "openBlock env m = Some (rows, False)" and "int (length rows) \<le> uint (TotalObjects m)"
    and "RedactBlock g compiles parse (rewriting_block env m blk) traceIDs query False window = Inr (True, n, out)"
  shows "\<exists>dropSet. selected_ids g compiles parse blk traceIDs query window = Inr dropSet \<and> n = card dropSet
    \<and> (case out of
         None \<Rightarrow> \<forall>r\<in>set rows. RowTraceID r \<in> dropSet
       | Some b \<Rightarrow> outRows b = filter (\<lambda>r. RowTraceID r \<notin> dropSet) rows \<and> outRows b \<noteq> []
           \<and> TotalObjects (outMeta b) = of_nat (length (outRows b))
           \<and> StartTime (outMeta b) = StartTime m \<and> EndTime (outMeta b) = max zeroTime (EndTime m))"
proof -
  from RedactBlock_written [OF assms(4)] obtain dropSet outs where
    sel: "selected_ids g compiles parse blk traceIDs query window = Inr dropSet" "n = card dropSet"
    and out: "redact_compact env m (\<lambda>i. i \<in> dropSet) = Some outs"
      "length outs \<le> 1 \<longrightarrow> out = (case outs of [] \<Rightarrow> None | b # _ \<Rightarrow> Some b)"
    unfolding selected_ids_rewriting by (auto simp: rewriting_block_def)
  from redact_compact_one [OF assms(1-3), of "\<lambda>i. i \<in> dropSet"] out(1)
  have outs: "length outs \<le> 1" "concat (map outRows outs) = filter (\<lambda>r. RowTraceID r \<notin> dropSet) rows"
      "\<forall>b\<in>set outs. finished_block (plan_of (redact_options env (\<lambda>i. i \<in> dropSet)) [m]) b" by auto
  note result = out(2) [rule_format, OF outs(1)]
  show ?thesis
  proof (cases outs)
    case Nil
    then have "\<forall>r\<in>set rows. RowTraceID r \<in> dropSet" using outs(2) [symmetric] by (simp add: filter_empty_conv)
    then show ?thesis using sel result Nil by simp
  next
    case (Cons b bs)
    then have "bs = []" using outs(1) by simp
    then show ?thesis using sel result Cons outs(2,3)
      by (simp add: finished_block_def open_block_def plan_of_def earliest_def latest_def max_def)
  qed
qed

text \<open>The demonstration block of \<open>RedactBlock\<close> with the rows of sample block 1, which hold the traces 1 and 2;
  reading may fail after the first one.\<close>

definition redact_rows_env :: "bool \<Rightarrow> compact_env" where
  "redact_rows_env fails = (sample_env False)\<lparr>openBlock :=
     (\<lambda>m. Some (if fails then [hd (block_rows 1)] else block_rows 1, fails))\<rparr>"

abbreviation rows_block :: "bool \<Rightarrow> out_block block_access" where
  "rows_block fails \<equiv> rewriting_block (redact_rows_env fails) (sample_meta 1 10 20 2 0)
     \<lparr>open_ok = True, first_pass = first_pass redact_blk, FindTraceByID = (\<lambda>i. Some (i = [1] \<or> i = [2])), encoding_ok = True,
      block_access.Compact = (\<lambda>_. None), mark_ok = True, BlockTotalObjects = 2\<rparr>"

definition redaction_summary :: "redact_error + bool \<times> nat \<times> out_block option \<Rightarrow> (redact_error + bool \<times> nat \<times> bytes list option)" where
  "redaction_summary = map_sum id (map_prod id (map_prod id (map_option (\<lambda>b. map RowTraceID (outRows b)))))"

lemma redaction_sample:
  "redaction_summary (RedactBlock (redact_engine (StaticString ''bob'')) (\<lambda>_. True) demo_parse (rows_block False) [[1]] ''''
     False \<lparr>StartNano = 0, EndNano = 0\<rparr>) = Inr (True, 1, Some [[2]])"
  by code_simp

text \<open>A block that cannot be read past trace 1, from which trace 1 is redacted: the redaction reports that it rewrote the
  block, without a new one, and marks the old block compacted. Trace 2 is lost.\<close>

theorem redaction_loses_the_unreadable_rest:
  "redaction_summary (RedactBlock (redact_engine (StaticString ''bob'')) (\<lambda>_. True) demo_parse (rows_block True) [[1]] ''''
     False \<lparr>StartNano = 0, EndNano = 0\<rparr>) = Inr (True, 1, None)"
  by code_simp

lemma redaction_keeps_the_other_traces_witness:
  "\<exists>b dropSet. RedactBlock (redact_engine (StaticString ''bob'')) (\<lambda>_. True) demo_parse (rows_block False) [[1]] ''''
     False \<lparr>StartNano = 0, EndNano = 0\<rparr> = Inr (True, 1, Some b)
   \<and> outRows b = filter (\<lambda>r. RowTraceID r \<notin> dropSet) (block_rows 1) \<and> card dropSet = 1"
proof -
  let ?run = "RedactBlock (redact_engine (StaticString ''bob'')) (\<lambda>_. True) demo_parse (rows_block False) [[1]] ''''
     False \<lparr>StartNano = 0, EndNano = 0\<rparr>"
  obtain b where run: "?run = Inr (True, 1, Some b)"
    using redaction_sample by (cases ?run) (auto simp: redaction_summary_def)
  have ok: "compact_ok (redact_rows_env False)" using sample_ok by (simp add: redact_rows_env_def compact_ok_def)
  have opened: "openBlock (redact_rows_env False) (sample_meta 1 10 20 2 0) = Some (block_rows 1, False)"
    by (simp add: redact_rows_env_def)
  have "int (length (block_rows 1)) \<le> uint (TotalObjects (sample_meta 1 10 20 2 0))"
    by (simp add: block_rows_def sample_meta_def)
  from redaction_keeps_the_other_traces [OF ok opened this run] run show ?thesis by auto
qed

end
