(* ===== verification/TqlTyping.thy ===== *)
theory TqlTyping
  imports TqlExpr
begin

section \<open>Types of field expressions at run time\<close>

text \<open>
  Validation (\<open>ast_validate.go\<close>) uses the type that an expression implies; evaluation looks at the types of the
  values. This theory relates the two for the expressions that validation accepts.
\<close>

text \<open>A span whose intrinsics have their types. Other attributes can hold anything.\<close>

definition well_typed_span :: "span_attributes \<Rightarrow> bool" where
  "well_typed_span span \<longleftrightarrow> (\<forall>a v. span a = Some v \<longrightarrow> attribute_type a \<noteq> TypeAttribute \<longrightarrow>
     static_Type v = attribute_type a \<or> v = StaticNil)"

text \<open>A value where a value of a type is expected. An attribute can be missing, an operator that meets
  values of the wrong types gives false, and arithmetic can change between the numeric types.\<close>

definition value_fits :: "static_type \<Rightarrow> static \<Rightarrow> bool" where
  "value_fits t v \<longleftrightarrow> t = TypeAttribute \<or> static_Type v = t \<or> v = StaticNil \<or> v = StaticBool False
     \<or> isNumeric t \<and> isNumeric (static_Type v)"

lemma arithmetic_value:
  assumes "\<not> isBoolean op" and "binary_op env op l r = Inr v" and "v \<noteq> StaticBool False"
  shows "isNumeric (static_Type l) \<and> isNumeric (static_Type r) \<and> isNumeric (static_Type v)"
proof -
  have valid: "isMatchingOperand (static_Type l) (static_Type r)" "binaryTypeValid op (static_Type l)"
      "binaryTypeValid op (static_Type r)" "\<not> isMatchingArrayElement (static_Type l) (static_Type r)"
    using assms by (auto simp: binary_op_def StaticFalse_def array_op_def binaryTypesValid_def split: if_splits)
  have op: "op \<in> {OpAdd, OpSub, OpMult, OpDiv, OpMod, OpPower}"
    using valid(2) assms(1) by (cases l) (auto simp: binaryTypeValid_def isBoolean_def split: if_splits)
  have "static_Type x \<in> {TypeInt, TypeFloat, TypeDuration, TypeIntArray, TypeFloatArray}" if "binaryTypeValid op (static_Type x)" for x
    using that op by (cases x) (auto simp: binaryTypeValid_def)
  then have types: "static_Type l \<in> {TypeInt, TypeFloat, TypeDuration, TypeIntArray, TypeFloatArray}"
    "static_Type r \<in> {TypeInt, TypeFloat, TypeDuration, TypeIntArray, TypeFloatArray}"
    using valid(2,3) by blast+
  then have num: "isNumeric (static_Type l)" "isNumeric (static_Type r)"
    using valid(4) by (auto simp: isNumeric_def isMatchingOperand.simps isMatchingArrayElement.simps element_type_def)
  have "(case typed_op env op l r of Some res \<Rightarrow> res | None \<Rightarrow> float_op env op l r) = Inr v"
    using assms(2,3) valid by (simp add: binary_op_def binaryTypesValid_def)
  then have "isNumeric (static_Type v)"
    using op num
    by (cases l; cases r) (auto simp: typed_op_def int_op_def float_op_def isNumeric_def Let_def split: if_splits)
  then show ?thesis using num by simp
qed

text \<open>What validation says of the operands of an operator that is not boolean: each is numeric, an array of numbers or unknown.\<close>

lemma validated_arithmetic:
  assumes "\<not> isBoolean op" and "binaryTypeValid op t"
  shows "t \<in> {TypeAttribute, TypeInt, TypeFloat, TypeDuration, TypeIntArray, TypeFloatArray}"
  using assms by (auto simp: binaryTypeValid_def isBoolean_def split: if_splits)

lemma arithmetic_operand:
  assumes "\<not> isBoolean op" and "binaryTypeValid op t" and "value_fits t z" and "isNumeric (static_Type z)"
  shows "t = TypeAttribute \<or> isNumeric t"
  using validated_arithmetic [OF assms(1,2)] assms(3,4) by (cases z) (auto simp: value_fits_def isNumeric_def)

text \<open>C23. The types of validation are sound: when an expression that validation accepts is evaluated on a span whose intrinsics
  have their types, and evaluation does not fail, the value has the type that validation computed, or, for a numeric type, is a number; only a
  missing attribute (nil) and an operand of the wrong type (false) show through.\<close>

theorem validated_types_are_sound:
  assumes "validate compiles e = None" and "well_typed_span span" and "eval env span e = Inr v"
  shows "value_fits (impliedType e) v"
  using assms
proof (induction e arbitrary: v)
  case (BinaryOperation op l r)
  obtain x y where x: "eval env span l = Inr x" and y: "eval env span r = Inr y" and v: "binary_op env op x y = Inr v"
    using BinaryOperation.prems(3) by (auto split: sum.splits)
  have valid: "validate compiles l = None" "validate compiles r = None" "validate_binary compiles op l r = None"
    using BinaryOperation.prems(1) by (auto split: option.splits)
  have fits: "value_fits (impliedType l) x" "value_fits (impliedType r) y"
    using BinaryOperation.IH(1) [OF valid(1) BinaryOperation.prems(2) x] BinaryOperation.IH(2) [OF valid(2) BinaryOperation.prems(2) y]
    by blast+
  show ?case
  proof (cases "isBoolean op \<or> v = StaticBool False")
    case True
    then show ?thesis using v binary_op_bool [of op env x y v] by (auto simp: value_fits_def)
  next
    case False
    then have num: "isNumeric (static_Type x)" "isNumeric (static_Type y)" "isNumeric (static_Type v)"
      using arithmetic_value v by blast+
    have types: "binaryTypeValid op (impliedType l)" "binaryTypeValid op (impliedType r)"
      using valid(3) by (auto simp: validate_binary_def binaryTypesValid_def Let_def split: if_splits)
    have "impliedType l = TypeAttribute \<or> isNumeric (impliedType l)" "impliedType r = TypeAttribute \<or> isNumeric (impliedType r)"
      using False arithmetic_operand types fits num by blast+
    then show ?thesis using False num(3) by (auto simp: value_fits_def)
  qed
next
  case (UnaryOperation op e)
  obtain x where x: "eval env span e = Inr x" and v: "unary_op env op x = Inr v"
    using UnaryOperation.prems(3) by (auto split: sum.splits)
  have valid: "validate compiles e = None" "validate_unary op e = None"
    using UnaryOperation.prems(1) by (auto split: option.splits)
  have fits: "value_fits (impliedType e) x" using UnaryOperation.IH [OF valid(1) UnaryOperation.prems(2) x] .
  have "impliedType e = TypeAttribute \<or> unaryTypesValid op (impliedType e)"
    using valid(2) by (auto simp: validate_unary_def Let_def split: if_splits)
  then show ?case using v fits
    by (cases x) (auto simp: unary_op_def value_fits_def unaryTypesValid_def isNumeric_def static_Bool_def split: if_splits)
next
  case (Attribute a)
  then show ?case
    by (auto simp: value_fits_def well_typed_span_def attribute_value_def split: option.splits)
qed (simp add: value_fits_def)


text \<open>\<open>childCount - 1\<close> on a span with three children.\<close>

definition child_expr :: field_expression where
  "child_expr = BinaryOperation OpSub (Attribute (NewIntrinsic IntrinsicChildCount)) (Static (StaticInt 1))"

definition child_span :: span_attributes where
  "child_span a = (if Intrinsic a = IntrinsicChildCount then Some (StaticInt 3) else None)"

theorem validated_types_are_sound_witness:
  "\<forall>env. eval env child_span child_expr = Inr (StaticInt 2) \<and> value_fits TypeInt (StaticInt 2)"
proof
  fix env
  have "validate (\<lambda>_. True) child_expr = None" by code_simp
  moreover have "well_typed_span child_span" by (simp add: well_typed_span_def child_span_def attribute_type_def)
  moreover have two: "eval env child_span child_expr = Inr (StaticInt 2)"
    by (simp add: child_expr_def child_span_def attribute_value_def NewIntrinsic_def binary_op_def typed_op_def int_op_def
        isMatchingOperand.simps isMatchingArrayElement.simps element_type_def binaryTypesValid_def binaryTypeValid_def)
  ultimately have "value_fits (impliedType child_expr) (StaticInt 2)" by (rule validated_types_are_sound)
  moreover have "impliedType child_expr = TypeInt" by code_simp
  ultimately show "eval env child_span child_expr = Inr (StaticInt 2) \<and> value_fits TypeInt (StaticInt 2)"
    using two by simp
qed

end
