(* ===== verification/Spec2Isabelle.thy ===== *)
theory Spec2Isabelle
  imports Prelude Blocklist TraceId GoFmt BlockSelector RequestQueue SchedWork TqlTypes TqlExpr TqlRewrite
    TqlAst TqlConditions Structural NestedSet TqlEngine TqlCompile TqlSampling RedactWindow RedactBlock Scheduler
    SearchPlan SearchCombine SearchResults SearchStop GoSort SpanDedupe TraceCombine Rebatch PqCombine BlockMerge
    Compaction CompactJob RedactCompact TqlTyping
begin

text \<open>
  A model of the core of Grafana Tempo (the Go sources under src/upstream) and the theorems that make it
  correct. Tempo stores traces in blocks in object storage; a query is written in TraceQL; a scheduler hands
  compaction, retention and redaction jobs for the blocks to workers.

  \<^bold>\<open>The parts and their theories\<close>

  \<^item> Storage bookkeeping. \<open>Blocklist\<close> (tempodb/blocklist/list.go): the blocks of each tenant that a process knows,
    and how a poll is merged with local changes. \<open>BlockSelector\<close> (tempodb/blockselector, tempodb/encoding/versioned.go,
    with the printing of numbers in \<open>GoFmt\<close>): which blocks are compacted together. \<open>TraceId\<close>
    (pkg/util/traceid.go): ids and their hex forms.
  \<^item> Combining traces. \<open>TraceCombine\<close> (pkg/model/trace): the parts of a trace that a query collects are merged and sorted.
    \<open>Rebatch\<close> and \<open>PqCombine\<close> (tempodb/encoding/vparquet5/rebatch_trace.go, combiner.go): the same for the rows of a block, with the
    merging of equal resources and scopes, and the numbering of \<open>NestedSet\<close>. \<open>SpanDedupe\<close> and \<open>GoSort\<close> hold what they share.
  \<^item> Compaction. \<open>BlockMerge\<close> (multiblock_iterator.go): the merge of sorted blocks by trace id. \<open>Compaction\<close>
    (compactor.go, create.go): the output blocks, over \<open>PqCombine\<close>. \<open>CompactJob\<close> (tempodb/compactor.go): a
    job, over \<open>Compaction\<close> and \<open>Blocklist\<close>. \<open>RedactCompact\<close>: the compactor inside a redaction, over \<open>RedactBlock\<close>.
  \<^item> Query frontend. \<open>RequestQueue\<close> (modules/frontend/queue): one queue per tenant, served round robin, with the
    service that cleans up and stops. \<open>SearchPlan\<close> (modules/frontend/search_sharder.go): the jobs and shards of a search.
    \<open>SearchCombine\<close> (pkg/traceql/combine.go, modules/frontend/combiner, modules/frontend/shardtracker): what is done
    with the responses. \<open>SearchResults\<close> and \<open>SearchStop\<close>: what the combiners and the tracker guarantee, alone and together.
  \<^item> Backend scheduler. \<open>SchedWork\<close> (modules/backendscheduler/work): jobs, batches and the indexes over them.
    \<open>Scheduler\<close> (backendscheduler.go and provider/): the RPC handlers, the providers and the life of a
    redaction batch as steps on one state, over \<open>SchedWork\<close> and \<open>Blocklist\<close>.
  \<^item> TraceQL (pkg/traceql). \<open>TqlTypes\<close>: enumerations, attributes and values. \<open>TqlExpr\<close>: field expressions, their
    types, validation and evaluation. \<open>TqlTyping\<close>: soundness of the types. \<open>TqlRewrite\<close>: the rewriting of comparisons to array operations.
    \<open>TqlAst\<close>: pipelines and their validation. \<open>TqlConditions\<close>: what a query asks of the storage. \<open>TqlEngine\<close>: the
    evaluation of pipelines. \<open>TqlCompile\<close>: rewriting of pipelines and \<open>Compile\<close>. \<open>TqlSampling\<close>: the mutable
    expression nodes with their sampling and caches, refined to \<open>eval\<close>.
  \<^item> Structural operators. \<open>Structural\<close> (tempodb/encoding/vparquet5/block_traceql.go): parents, descendants and
    siblings by nested set numbers. \<open>NestedSet\<close> (nested_set_model.go): the walk that assigns these numbers, and
    that the operators on them follow the tree of the trace.
  \<^item> Redaction. \<open>RedactWindow\<close> (tempodb/redaction.go, redaction_window.go and redaction_query.go of the scheduler):
    time windows and the accepted requests and queries. \<open>RedactBlock\<close> (tempodb/tempodb.go): a redaction of one
    block, over \<open>TqlCompile\<close>, \<open>TqlConditions\<close> and \<open>TqlEngine\<close>.

  \<^bold>\<open>How code is read\<close>

  A struct is a record, an enumeration a datatype, an operation a function on the record that returns the
  changed one; a lock makes an operation atomic, so a run is a sequence of operations. Errors are values of a sum
  type, a panic is \<open>None\<close>. Go maps are partial functions; where the code ranges over one, the order is an argument
  and the theorems hold for every order. Machine words are words where arithmetic can wrap, integers where the
  values are only compared. Code outside the repository is a parameter: the regular expression matcher, the
  clock, the hash of a value, floating point arithmetic beyond comparison, \<open>sort.Slice\<close> (locales \<open>slice_sort\<close> and \<open>sort_contract\<close>), the
  parser that goyacc generates, and the columns of a block.

  \<^bold>\<open>What the lemmas show\<close>

  Invariants of the reachable states (\<open>RequestQueue\<close>, \<open>Scheduler\<close>, by rule induction over the steps), what each
  operation of the bookkeeping leaves in place (the \<open>frame_simps\<close> of \<open>SchedWork\<close>), the exactness of the structural
  operators and of spanset filters against the relations they stand for, the agreement of rewritten and
  sampled evaluation with plain evaluation, that the plan of a search covers its range and that a search which
  stops early returns what a complete one does, the conditions under which the pushed-down conditions lose no
  span, and for redaction the composition of all of these: the dropped traces are those that match, and all others stay as they are. For the
  combiners and the compactor: that they keep the spans, each once, and for a compaction job that every trace id finds in the
  blocks of the tenant the spans that it found before. Where the code
  does not do what it means to, a theorem shows it on a concrete input.

  Loops that the code bounds only by a condition have a measure (\<open>bsearch\<close>, \<open>du_loop\<close>, \<open>scan_left\<close>, \<open>NextPendingJob\<close>);
  no definition uses fuel. The walk of \<open>NestedSet\<close>
  follows parent pointers without a bound (\<open>while_option\<close>), and \<open>page_loop\<close> of \<open>SearchPlan\<close> advances by a computed
  number (\<open>partial_function\<close>), as \<open>compact_loop\<close> of \<open>Compaction\<close> advances through its blocks; that they end is part of their theorems.

  \<^bold>\<open>Not modelled\<close>

  Network and file input and output, metrics, logging and configuration; the Kafka pipeline (distributor, live
  store, block builder, metrics generator); the HTTP side of the frontend with the sharders and
  combiners of trace, tag and metrics queries; TraceQL metrics queries; the reading of Parquet columns, whose contract \<open>TqlConditions\<close> states; the
  generated parser and protobuf code; the conversion between protobuf and rows, the earlier encodings, and the pooling of rows; and the object
  storage clients.
\<close>

end
